(* ===== verification/Prelude.thy ===== *)
theory Prelude
  imports Complex_Main "HOL-Library.Char_ord" "HOL-Library.List_Lexorder" "HOL-Library.AList"
begin

text \<open>
  Shared vocabulary of the development: times, the exception classes of the Python code with
  their inheritance, results as sums, the state-and-exception actions that the handlers of
  the services are written in, and generic lemmas (ordered dictionaries, bounded folds)
  that several components use.
\<close>

section \<open>Times\<close>

text \<open>
  Seconds and time stamps are rational numbers.  A call that reads a clock several times takes
  a \<open>clock\<close>: the sequence of the readings it makes, in order.
\<close>

type_synonym time = rat
type_synonym clock = "nat \<Rightarrow> time"

section \<open>Exceptions\<close>

text \<open>
  The classes of \<^verbatim>\<open>core/errors.py\<close>, the classes other modules declare, and the built-in
  classes the code raises or catches, those of the HTTP client included (\<^verbatim>\<open>httpx\<close>, whose
  time-outs and failed connections are request errors).  \<open>ExternalError n\<close> is a class named \<open>n\<close> of code
  outside the repository, derived directly from \<open>Exception\<close>.
\<close>

datatype exc_class =
    PyBaseException | PyException | CancelledError | ValueError | TypeError | KeyError
  | AttributeError | RuntimeError | TimeoutError | JSONDecodeError
  | AgenyxError | AgentError | InvalidStateTransition | PlanningError | DecisionError
  | AgentProtocolError | ToolNotFound | UnknownToolError | ToolValidationError
  | InvalidToolArgumentsError | ToolExecutionError | ExecutionLimitExceeded
  | AgentMaxStepsError | ExecutionCancelled | InferenceUnavailable | InferenceRequestFailed
  | ToolError | LLMError | LLMConnectionError | LLMTimeoutError | LLMResponseError
  | AuthenticationError | InvalidCredentialsError | UserAlreadyExistsError
  | ToolAuthorizationError | ApprovalRequiredError | ApprovalNotFoundError
  | ApprovalAlreadyResolvedError
  | SandboxError | SandboxUnavailableError | SandboxProtocolError | SandboxToolError
  | SemanticRouterError
  | HttpError | HttpRequestError | HttpConnectError | HttpTimeoutException | HttpStatusError
  | ExternalError string

text \<open>The bases each class statement lists.\<close>

fun exc_bases :: "exc_class \<Rightarrow> exc_class list" where
  "exc_bases PyBaseException = []"
| "exc_bases PyException = [PyBaseException]"
| "exc_bases CancelledError = [PyBaseException]"
| "exc_bases JSONDecodeError = [ValueError]"
| "exc_bases AgentError = [AgenyxError]"
| "exc_bases InvalidStateTransition = [AgentError]"
| "exc_bases PlanningError = [AgentError]"
| "exc_bases DecisionError = [AgentError]"
| "exc_bases AgentProtocolError = [DecisionError]"
| "exc_bases ToolNotFound = [AgentError]"
| "exc_bases UnknownToolError = [ToolNotFound]"
| "exc_bases ToolValidationError = [AgentError]"
| "exc_bases InvalidToolArgumentsError = [ToolValidationError]"
| "exc_bases ToolExecutionError = [AgentError, RuntimeError]"
| "exc_bases ExecutionLimitExceeded = [AgentError]"
| "exc_bases AgentMaxStepsError = [ExecutionLimitExceeded]"
| "exc_bases ExecutionCancelled = [AgentError]"
| "exc_bases InferenceUnavailable = [AgentError]"
| "exc_bases InferenceRequestFailed = [AgentError]"
| "exc_bases ToolError = [AgenyxError]"
| "exc_bases LLMError = [AgenyxError]"
| "exc_bases LLMConnectionError = [LLMError]"
| "exc_bases LLMTimeoutError = [LLMError]"
| "exc_bases LLMResponseError = [LLMError]"
| "exc_bases AuthenticationError = [AgenyxError]"
| "exc_bases InvalidCredentialsError = [AuthenticationError]"
| "exc_bases UserAlreadyExistsError = [AuthenticationError]"
| "exc_bases SandboxUnavailableError = [SandboxError]"
| "exc_bases SandboxProtocolError = [SandboxError]"
| "exc_bases SandboxToolError = [SandboxError]"
| "exc_bases HttpRequestError = [HttpError]"
| "exc_bases HttpConnectError = [HttpRequestError]"
| "exc_bases HttpTimeoutException = [HttpRequestError]"
| "exc_bases HttpStatusError = [HttpError]"
| "exc_bases _ = [PyException]"

text \<open>The classes reachable in at most \<open>n\<close> inheritance steps; six steps reach everything.\<close>

primrec exc_up :: "nat \<Rightarrow> exc_class \<Rightarrow> exc_class list" where
  "exc_up 0 c = [c]"
| "exc_up (Suc n) c = c # concat (map (exc_up n) (exc_bases c))"

definition exc_isa :: "exc_class \<Rightarrow> exc_class \<Rightarrow> bool" where
  "exc_isa c d \<longleftrightarrow> d \<in> set (exc_up 6 c)"

text \<open>An exception value: its class and the text \<open>str(exc)\<close> gives.\<close>

datatype exc = Exc (exc_class: exc_class) (exc_msg: string)

definition isinstance_exc :: "exc \<Rightarrow> exc_class \<Rightarrow> bool" where
  "isinstance_exc e d \<longleftrightarrow> exc_isa (exc_class e) d"

lemma exc_isa_refl [simp]: "exc_isa c c"
  by (simp add: exc_isa_def eval_nat_numeral)

lemma exc_isa_base: "exc_isa c PyBaseException"
  by (cases c) (simp_all add: exc_isa_def eval_nat_numeral)

lemma exc_up_six_closed:
  "c' \<in> set (exc_up 6 c) \<Longrightarrow> b \<in> set (exc_bases c') \<Longrightarrow> b \<in> set (exc_up 6 c)"
  by (cases c) (auto simp: eval_nat_numeral)

text \<open>\<open>except Exception\<close> catches everything but the bare base class and task cancellation.\<close>

lemma exc_isa_PyException:
  "exc_isa c PyException \<longleftrightarrow> c \<noteq> PyBaseException \<and> c \<noteq> CancelledError"
  by (cases c) (simp_all add: exc_isa_def eval_nat_numeral)

lemma exc_isa_CancelledError [simp]: "exc_isa c CancelledError \<longleftrightarrow> c = CancelledError"
  by (cases c) (simp_all add: exc_isa_def eval_nat_numeral)

lemma exc_isa_ExecutionCancelled [simp]:
  "exc_isa c ExecutionCancelled \<longleftrightarrow> c = ExecutionCancelled"
  by (cases c) (simp_all add: exc_isa_def eval_nat_numeral)

lemma exc_isa_TimeoutError [simp]: "exc_isa c TimeoutError \<longleftrightarrow> c = TimeoutError"
  by (cases c) (simp_all add: exc_isa_def eval_nat_numeral)

lemma exc_isa_AgentProtocolError [simp]:
  "exc_isa c AgentProtocolError \<longleftrightarrow> c = AgentProtocolError"
  by (cases c) (simp_all add: exc_isa_def eval_nat_numeral)

lemma exc_isa_ExecutionLimitExceeded [simp]:
  "exc_isa c ExecutionLimitExceeded \<longleftrightarrow> c = ExecutionLimitExceeded \<or> c = AgentMaxStepsError"
  by (cases c) (simp_all add: exc_isa_def eval_nat_numeral)

lemma exc_isa_RuntimeError [simp]:
  "exc_isa c RuntimeError \<longleftrightarrow> c = RuntimeError \<or> c = ToolExecutionError"
  by (cases c) (simp_all add: exc_isa_def eval_nat_numeral)

lemma exc_isa_HttpRequestError [simp]:
  "exc_isa c HttpRequestError \<longleftrightarrow> c = HttpRequestError \<or> c = HttpConnectError \<or> c = HttpTimeoutException"
  by (cases c) (simp_all add: exc_isa_def eval_nat_numeral)

lemma exc_isa_HttpError [simp]:
  "exc_isa c HttpError \<longleftrightarrow>
     c \<in> {HttpError, HttpRequestError, HttpConnectError, HttpTimeoutException, HttpStatusError}"
  by (cases c) (simp_all add: exc_isa_def eval_nat_numeral)

lemma exc_isa_HttpConnectError [simp]: "exc_isa c HttpConnectError \<longleftrightarrow> c = HttpConnectError"
  by (cases c) (simp_all add: exc_isa_def eval_nat_numeral)

lemma exc_isa_LLM [simp]:
  "exc_isa c LLMConnectionError \<longleftrightarrow> c = LLMConnectionError"
  "exc_isa c LLMTimeoutError \<longleftrightarrow> c = LLMTimeoutError"
  "exc_isa c LLMResponseError \<longleftrightarrow> c = LLMResponseError"
  "exc_isa c ToolExecutionError \<longleftrightarrow> c = ToolExecutionError"
  by (cases c; simp add: exc_isa_def eval_nat_numeral)+

lemma exc_isa_HttpTimeoutException [simp]:
  "exc_isa c HttpTimeoutException \<longleftrightarrow> c = HttpTimeoutException"
  by (cases c) (simp_all add: exc_isa_def eval_nat_numeral)

lemma exc_isa_HttpStatusError [simp]: "exc_isa c HttpStatusError \<longleftrightarrow> c = HttpStatusError"
  by (cases c) (simp_all add: exc_isa_def eval_nat_numeral)

text \<open>\<open>type(exc).__name__\<close>.\<close>

fun type_name :: "exc_class \<Rightarrow> string" where
  "type_name PyBaseException = ''BaseException''"
| "type_name PyException = ''Exception''"
| "type_name CancelledError = ''CancelledError''"
| "type_name ValueError = ''ValueError''"
| "type_name TypeError = ''TypeError''"
| "type_name KeyError = ''KeyError''"
| "type_name AttributeError = ''AttributeError''"
| "type_name RuntimeError = ''RuntimeError''"
| "type_name TimeoutError = ''TimeoutError''"
| "type_name JSONDecodeError = ''JSONDecodeError''"
| "type_name AgenyxError = ''AgenyxError''"
| "type_name AgentError = ''AgentError''"
| "type_name InvalidStateTransition = ''InvalidStateTransition''"
| "type_name PlanningError = ''PlanningError''"
| "type_name DecisionError = ''DecisionError''"
| "type_name AgentProtocolError = ''AgentProtocolError''"
| "type_name ToolNotFound = ''ToolNotFound''"
| "type_name UnknownToolError = ''UnknownToolError''"
| "type_name ToolValidationError = ''ToolValidationError''"
| "type_name InvalidToolArgumentsError = ''InvalidToolArgumentsError''"
| "type_name ToolExecutionError = ''ToolExecutionError''"
| "type_name ExecutionLimitExceeded = ''ExecutionLimitExceeded''"
| "type_name AgentMaxStepsError = ''AgentMaxStepsError''"
| "type_name ExecutionCancelled = ''ExecutionCancelled''"
| "type_name InferenceUnavailable = ''InferenceUnavailable''"
| "type_name InferenceRequestFailed = ''InferenceRequestFailed''"
| "type_name ToolError = ''ToolError''"
| "type_name LLMError = ''LLMError''"
| "type_name LLMConnectionError = ''LLMConnectionError''"
| "type_name LLMTimeoutError = ''LLMTimeoutError''"
| "type_name LLMResponseError = ''LLMResponseError''"
| "type_name AuthenticationError = ''AuthenticationError''"
| "type_name InvalidCredentialsError = ''InvalidCredentialsError''"
| "type_name UserAlreadyExistsError = ''UserAlreadyExistsError''"
| "type_name ToolAuthorizationError = ''ToolAuthorizationError''"
| "type_name ApprovalRequiredError = ''ApprovalRequiredError''"
| "type_name ApprovalNotFoundError = ''ApprovalNotFoundError''"
| "type_name ApprovalAlreadyResolvedError = ''ApprovalAlreadyResolvedError''"
| "type_name SandboxError = ''SandboxError''"
| "type_name SandboxUnavailableError = ''SandboxUnavailableError''"
| "type_name SandboxProtocolError = ''SandboxProtocolError''"
| "type_name SandboxToolError = ''SandboxToolError''"
| "type_name SemanticRouterError = ''SemanticRouterError''"
| "type_name HttpRequestError = ''RequestError''"
| "type_name HttpError = ''HTTPError''"
| "type_name HttpConnectError = ''ConnectError''"
| "type_name HttpTimeoutException = ''TimeoutException''"
| "type_name HttpStatusError = ''HTTPStatusError''"
| "type_name (ExternalError n) = n"

section \<open>Results\<close>

text \<open>A pure operation that may raise returns \<open>Inl\<close> of the exception or \<open>Inr\<close> of the value.\<close>

type_synonym 'a result = "exc + 'a"

abbreviation raise :: "exc_class \<Rightarrow> string \<Rightarrow> 'a result" where
  "raise c m \<equiv> Inl (Exc c m)"

fun rbind :: "'a result \<Rightarrow> ('a \<Rightarrow> 'b result) \<Rightarrow> 'b result" where
  "rbind (Inl e) f = Inl e"
| "rbind (Inr x) f = f x"

text \<open>\<open>if cond: raise c(m)\<close> followed by the rest.\<close>

definition check :: "bool \<Rightarrow> exc_class \<Rightarrow> string \<Rightarrow> unit result" where
  "check bad c m = (if bad then raise c m else Inr ())"

lemma rbind_Inr_iff [simp]: "rbind r f = Inr y \<longleftrightarrow> (\<exists>x. r = Inr x \<and> f x = Inr y)"
  by (cases r) simp_all

lemma rbind_Inl_iff: "rbind r f = Inl e \<longleftrightarrow> r = Inl e \<or> (\<exists>x. r = Inr x \<and> f x = Inl e)"
  by (cases r) simp_all

lemma check_Inr_iff [simp]: "check bad c m = Inr u \<longleftrightarrow> \<not> bad"
  by (simp add: check_def)

lemma check_Inl_iff [simp]: "check bad c m = Inl e \<longleftrightarrow> bad \<and> e = Exc c m"
  by (auto simp: check_def)

end
