(* ===== verification/PyValue.thy ===== *)
theory PyValue
  imports Prelude
begin

text \<open>
  The dynamically typed values the Python code passes around (JSON documents, chat messages,
  tool arguments and outputs), ordered dictionaries, the string methods the code calls, the
  text of \<open>str\<close>/\<open>repr\<close> and of \<open>json.dumps\<close>.

  A Python string is the list of its code points, each below 256.  A float is identified by
  the text \<open>repr\<close> prints for it, which determines it.
\<close>

section \<open>Values and dictionaries\<close>

datatype pyval =
    PNone
  | PBool bool
  | PInt int
  | PFloat string
  | PStr string
  | PList "pyval list"
  | PDict "(string \<times> pyval) list"

text \<open>A dictionary with string keys, in insertion order.\<close>

type_synonym pydict = "(string \<times> pyval) list"

text \<open>\<open>d.get(k)\<close>, with \<open>None\<close> for a missing key.\<close>

definition dget :: "pydict \<Rightarrow> string \<Rightarrow> pyval" where
  "dget d k = (case map_of d k of None \<Rightarrow> PNone | Some v \<Rightarrow> v)"

text \<open>\<open>d.get(k, default)\<close>.\<close>

definition dget_or :: "pydict \<Rightarrow> string \<Rightarrow> pyval \<Rightarrow> pyval" where
  "dget_or d k v0 = (case map_of d k of None \<Rightarrow> v0 | Some v \<Rightarrow> v)"

text \<open>\<open>d[k] = v\<close>: in place for a present key, at the end for a new one.\<close>

definition dset :: "'k \<Rightarrow> 'v \<Rightarrow> ('k \<times> 'v) list \<Rightarrow> ('k \<times> 'v) list" where
  "dset k v d = AList.update k v d"

lemma map_of_dset [simp]: "map_of (dset k v d) = (map_of d)(k \<mapsto> v)"
  by (simp add: dset_def update_conv')

lemma distinct_dset: "distinct (map fst d) \<Longrightarrow> distinct (map fst (dset k v d))"
  by (simp add: dset_def distinct_update)

lemma set_keys_dset: "fst ` set (dset k v d) = insert k (fst ` set d)"
  by (simp add: dset_def dom_update)

text \<open>Truth value testing.\<close>

fun truthy :: "pyval \<Rightarrow> bool" where
  "truthy PNone = False"
| "truthy (PBool b) = b"
| "truthy (PInt i) = (i \<noteq> 0)"
| "truthy (PFloat s) = (s \<noteq> ''0.0'' \<and> s \<noteq> ''-0.0'')"
| "truthy (PStr s) = (s \<noteq> [])"
| "truthy (PList xs) = (xs \<noteq> [])"
| "truthy (PDict d) = (d \<noteq> [])"

fun is_str :: "pyval \<Rightarrow> bool" where
  "is_str (PStr _) = True"
| "is_str _ = False"

fun is_dict :: "pyval \<Rightarrow> bool" where
  "is_dict (PDict _) = True"
| "is_dict _ = False"

section \<open>String methods\<close>

definition code_point :: "char \<Rightarrow> nat" where
  "code_point c = of_char c"

text \<open>\<open>str.isspace\<close> of one code point below 256.\<close>

definition py_space :: "char \<Rightarrow> bool" where
  "py_space c = (let n = code_point c in
     (9 \<le> n \<and> n \<le> 13) \<or> (28 \<le> n \<and> n \<le> 32) \<or> n = 133 \<or> n = 160)"

definition py_lstrip :: "string \<Rightarrow> string" where
  "py_lstrip s = dropWhile py_space s"

definition py_rstrip :: "string \<Rightarrow> string" where
  "py_rstrip s = rev (dropWhile py_space (rev s))"

definition py_strip :: "string \<Rightarrow> string" where
  "py_strip s = py_rstrip (py_lstrip s)"

lemma py_strip_Nil [simp]: "py_strip [] = []"
  by (simp add: py_strip_def py_lstrip_def py_rstrip_def)

lemma py_strip_eq_Nil: "py_strip s = [] \<longleftrightarrow> (\<forall>c \<in> set s. py_space c)"
proof -
  have "py_strip s = [] \<longleftrightarrow> (\<forall>c \<in> set (dropWhile py_space s). py_space c)"
    by (simp add: py_strip_def py_rstrip_def py_lstrip_def dropWhile_eq_Nil_conv)
  also have "\<dots> \<longleftrightarrow> (\<forall>c \<in> set s. py_space c)"
    by (induction s) auto
  finally show ?thesis .
qed

lemma hd_py_rstrip: "py_rstrip s \<noteq> [] \<Longrightarrow> hd (py_rstrip s) = hd s"
proof -
  assume ne: "py_rstrip s \<noteq> []"
  have "rev s = takeWhile py_space (rev s) @ dropWhile py_space (rev s)"
    by simp
  then have "s = py_rstrip s @ rev (takeWhile py_space (rev s))"
    unfolding py_rstrip_def by (metis rev_append rev_rev_ident)
  with ne show ?thesis by (metis hd_append2)
qed

text \<open>A stripped string neither begins nor ends with white space, so stripping twice is stripping once.\<close>

lemma py_strip_ends:
  assumes "py_strip s \<noteq> []"
  shows "\<not> py_space (hd (py_strip s)) \<and> \<not> py_space (last (py_strip s))"
proof
  have l: "py_lstrip s \<noteq> []"
    using assms by (auto simp: py_strip_def py_rstrip_def)
  then have "\<not> py_space (hd (py_lstrip s))"
    unfolding py_lstrip_def by (rule hd_dropWhile)
  then show "\<not> py_space (hd (py_strip s))"
    using assms by (simp add: py_strip_def hd_py_rstrip)
  show "\<not> py_space (last (py_strip s))"
    using assms hd_dropWhile [of py_space "rev (py_lstrip s)"]
    by (simp add: py_strip_def py_rstrip_def last_rev)
qed

lemma py_strip_idem [simp]: "py_strip (py_strip s) = py_strip s"
proof (cases "py_strip s = []")
  case False
  then have "\<not> py_space (hd (py_strip s))" and "\<not> py_space (last (py_strip s))"
    using py_strip_ends by auto
  with False have "dropWhile py_space (py_strip s) = py_strip s"
      "dropWhile py_space (rev (py_strip s)) = rev (py_strip s)"
    by (simp_all add: dropWhile_eq_self_iff hd_rev)
  then have "py_lstrip (py_strip s) = py_strip s" "py_rstrip (py_strip s) = py_strip s"
    by (simp_all add: py_lstrip_def py_rstrip_def)
  then show ?thesis unfolding py_strip_def [of "py_strip s"] by simp
qed simp

text \<open>\<open>s.rstrip("/")\<close> and \<open>str.lower\<close> on the Latin letters.\<close>

definition rstrip_slash :: "string \<Rightarrow> string" where
  "rstrip_slash s = rev (dropWhile (\<lambda>c. c = CHR ''/'') (rev s))"

definition py_lower_char :: "char \<Rightarrow> char" where
  "py_lower_char c = (let n = code_point c in
     if (65 \<le> n \<and> n \<le> 90) \<or> (192 \<le> n \<and> n \<le> 222 \<and> n \<noteq> 215) then char_of (n + 32) else c)"

definition py_lower :: "string \<Rightarrow> string" where
  "py_lower s = map py_lower_char s"

section \<open>Numbers as text\<close>

definition digit_char :: "nat \<Rightarrow> char" where
  "digit_char d = char_of (48 + d)"

fun nat_str :: "nat \<Rightarrow> string" where
  "nat_str n = (if n < 10 then [digit_char n] else nat_str (n div 10) @ [digit_char (n mod 10)])"

declare nat_str.simps [simp del]

definition int_str :: "int \<Rightarrow> string" where
  "int_str i = (if i < 0 then ''-'' @ nat_str (nat (- i)) else nat_str (nat i))"

lemma nat_str_nonempty [simp]: "nat_str n \<noteq> []"
  by (subst nat_str.simps) simp

lemma digit_char_inject:
  assumes "a < 10" "b < 10" "digit_char a = digit_char b"
  shows "a = b"
proof -
  have "(of_char (digit_char a) :: nat) = of_char (digit_char b)"
    using assms(3) by simp
  then show ?thesis using assms(1,2) by (simp add: digit_char_def)
qed

lemma nat_str_inject: "nat_str m = nat_str n \<longleftrightarrow> m = n"
proof
  assume "nat_str m = nat_str n"
  then show "m = n"
  proof (induction m arbitrary: n rule: nat_str.induct)
    case (1 m)
    show ?case
    proof (cases "m < 10"; cases "n < 10")
      assume "\<not> m < 10" "\<not> n < 10"
      with "1.prems" have eq: "nat_str (m div 10) @ [digit_char (m mod 10)] =
          nat_str (n div 10) @ [digit_char (n mod 10)]"
        by (simp add: nat_str.simps [of m] nat_str.simps [of n])
      then have "m div 10 = n div 10" using "1.IH" \<open>\<not> m < 10\<close> by simp
      moreover have "m mod 10 = n mod 10"
        using eq by (simp add: digit_char_inject)
      ultimately show ?thesis by (metis div_mod_decomp)
    qed (use "1.prems" in \<open>auto simp: nat_str.simps [of m] nat_str.simps [of n]
           append_eq_Cons_conv Cons_eq_append_conv intro: digit_char_inject\<close>)
  qed
qed simp

section \<open>\<open>repr\<close> and \<open>str\<close>\<close>

definition hex_char :: "nat \<Rightarrow> char" where
  "hex_char d = (if d < 10 then digit_char d else char_of (87 + d))"

definition hex2 :: "nat \<Rightarrow> string" where
  "hex2 n = [hex_char (n div 16), hex_char (n mod 16)]"

definition squote :: char where "squote = char_of (39 :: nat)"
definition dquote :: char where "dquote = char_of (34 :: nat)"
definition bslash :: char where "bslash = char_of (92 :: nat)"

text \<open>A text in single quotes, as the messages write it.\<close>

definition quoted :: "string \<Rightarrow> string" where
  "quoted s = [squote] @ s @ [squote]"

definition repr_char :: "char \<Rightarrow> char \<Rightarrow> string" where
  "repr_char q c = (let n = code_point c in
     if c = q \<or> c = bslash then [bslash, c]
     else if n = 9 then [bslash, CHR ''t'']
     else if n = 10 then [bslash, CHR ''n'']
     else if n = 13 then [bslash, CHR ''r'']
     else if n < 32 \<or> (127 \<le> n \<and> n \<le> 160) \<or> n = 173 then [bslash, CHR ''x''] @ hex2 n
     else [c])"

definition repr_str :: "string \<Rightarrow> string" where
  "repr_str s = (let q = (if squote \<in> set s \<and> dquote \<notin> set s then dquote else squote)
                 in q # concat (map (repr_char q) s) @ [q])"

fun intersperse_str :: "string \<Rightarrow> string list \<Rightarrow> string" where
  "intersperse_str sep [] = []"
| "intersperse_str sep [x] = x"
| "intersperse_str sep (x # y # zs) = x @ sep @ intersperse_str sep (y # zs)"

fun py_repr :: "pyval \<Rightarrow> string"
and py_repr_items :: "pydict \<Rightarrow> string list"
and py_repr_elems :: "pyval list \<Rightarrow> string list" where
  "py_repr PNone = ''None''"
| "py_repr (PBool b) = (if b then ''True'' else ''False'')"
| "py_repr (PInt i) = int_str i"
| "py_repr (PFloat s) = s"
| "py_repr (PStr s) = repr_str s"
| "py_repr (PList xs) = ''['' @ intersperse_str '', '' (py_repr_elems xs) @ '']''"
| "py_repr (PDict d) = ''{'' @ intersperse_str '', '' (py_repr_items d) @ ''}''"
| "py_repr_elems [] = []"
| "py_repr_elems (x # xs) = py_repr x # py_repr_elems xs"
| "py_repr_items [] = []"
| "py_repr_items ((k, v) # d) = (repr_str k @ '': '' @ py_repr v) # py_repr_items d"

definition py_str :: "pyval \<Rightarrow> string" where
  "py_str v = (case v of PStr s \<Rightarrow> s | _ \<Rightarrow> py_repr v)"

section \<open>\<open>json.dumps\<close>\<close>

text \<open>
  The encoder.  With \<open>ensure_ascii\<close>, its default, everything outside the printable ASCII characters is
  escaped; without it only quotes, backslashes and control characters are.
\<close>

definition json_char :: "bool \<Rightarrow> char \<Rightarrow> string" where
  "json_char ascii c = (let n = code_point c in
     if c = dquote \<or> c = bslash then [bslash, c]
     else if n = 8 then [bslash, CHR ''b'']
     else if n = 9 then [bslash, CHR ''t'']
     else if n = 10 then [bslash, CHR ''n'']
     else if n = 12 then [bslash, CHR ''f'']
     else if n = 13 then [bslash, CHR ''r'']
     else if n < 32 \<or> ascii \<and> 126 < n then [bslash, CHR ''u'', CHR ''0'', CHR ''0''] @ hex2 n
     else [c])"

definition json_str :: "bool \<Rightarrow> string \<Rightarrow> string" where
  "json_str ascii s = dquote # concat (map (json_char ascii) s) @ [dquote]"

definition json_float :: "string \<Rightarrow> string" where
  "json_float s = (if s = ''nan'' then ''NaN'' else if s = ''inf'' then ''Infinity''
     else if s = ''-inf'' then ''-Infinity'' else s)"

text \<open>
  The separators and \<open>sort_keys\<close> are the arguments of \<open>json.dumps\<close>.  Sorting
  is by the key, at every level.
\<close>

record json_opts =
  jo_ascii :: bool
  jo_sort :: bool
  jo_item_sep :: string
  jo_key_sep :: string

definition sort_items :: "bool \<Rightarrow> (string \<times> 'a) list \<Rightarrow> (string \<times> 'a) list" where
  "sort_items b d = (if b then sort_key fst d else d)"

fun json_dumps :: "json_opts \<Rightarrow> pyval \<Rightarrow> string"
and json_elems :: "json_opts \<Rightarrow> pyval list \<Rightarrow> string list"
and json_items :: "json_opts \<Rightarrow> pydict \<Rightarrow> (string \<times> string) list" where
  "json_dumps jo PNone = ''null''"
| "json_dumps jo (PBool b) = (if b then ''true'' else ''false'')"
| "json_dumps jo (PInt i) = int_str i"
| "json_dumps jo (PFloat s) = json_float s"
| "json_dumps jo (PStr s) = json_str (jo_ascii jo) s"
| "json_dumps jo (PList xs) =
     ''['' @ intersperse_str (jo_item_sep jo) (json_elems jo xs) @ '']''"
| "json_dumps jo (PDict d) =
     ''{'' @ intersperse_str (jo_item_sep jo)
        (map (\<lambda>(k, t). json_str (jo_ascii jo) k @ jo_key_sep jo @ t) (sort_items (jo_sort jo) (json_items jo d)))
      @ ''}''"
| "json_elems jo [] = []"
| "json_elems jo (x # xs) = json_dumps jo x # json_elems jo xs"
| "json_items jo [] = []"
| "json_items jo ((k, v) # d) = (k, json_dumps jo v) # json_items jo d"

text \<open>\<open>json.dumps(v, sort_keys=True, separators=(",", ":"))\<close>.\<close>

definition canonical_opts :: json_opts where
  "canonical_opts = \<lparr>jo_ascii = True, jo_sort = True, jo_item_sep = '','', jo_key_sep = '':''\<rparr>"

definition json_canonical :: "pydict \<Rightarrow> string" where
  "json_canonical d = json_dumps canonical_opts (PDict d)"

lemma json_items_conv: "json_items jo d = map (\<lambda>(k, v). (k, json_dumps jo v)) d"
  by (induction d) auto

text \<open>The canonical text does not depend on the order of insertion of the keys.\<close>

lemma sort_key_fst_eqI:
  fixes d d' :: "('k::linorder \<times> 'a) list"
  assumes "distinct (map fst d)" "distinct (map fst d')" "set d = set d'"
  shows "sort_key fst d = sort_key fst d'"
proof (rule map_sorted_distinct_set_unique)
  show "inj_on fst (set (sort_key fst d) \<union> set (sort_key fst d'))"
    using assms by (simp add: distinct_map)
qed (use assms in \<open>auto simp: distinct_map\<close>)

lemma json_canonical_order:
  assumes "distinct (map fst d)" "distinct (map fst d')" "set d = set d'"
  shows "json_canonical d = json_canonical d'"
proof -
  have "sort_key fst (json_items canonical_opts d) = sort_key fst (json_items canonical_opts d')"
    by (rule sort_key_fst_eqI) (use assms in \<open>auto simp: json_items_conv comp_def split_def\<close>)
  then show ?thesis
    by (simp add: json_canonical_def sort_items_def canonical_opts_def)
qed

end
