(* ===== verification/StepDomain.thy ===== *)
theory StepDomain
  imports PyValue
begin

text \<open>
  One step of an execution (\<^verbatim>\<open>domain/step.py\<close>, \<^verbatim>\<open>step_status.py\<close>, \<^verbatim>\<open>step_type.py\<close>): its data, its
  lifecycle table and the operations that move it, and the interface \<open>lifecycle\<close> that the
  tables of steps and of executions both satisfy.
\<close>

section \<open>Lifecycle tables\<close>

text \<open>
  A lifecycle table gives for every status the statuses that may follow it.  Its clients rely on
  the terminal statuses being exactly those nothing follows.
\<close>

locale lifecycle =
  fixes successors :: "'s \<Rightarrow> 's list"
    and terminal :: "'s \<Rightarrow> bool"
  assumes terminal_iff: "terminal s \<longleftrightarrow> successors s = []"
begin

text \<open>A trace is a list of statuses, each allowed after the one before.\<close>

definition trace_ok :: "'s \<Rightarrow> 's list \<Rightarrow> bool" where
  "trace_ok s ts \<longleftrightarrow> (\<forall>i < length ts. ts ! i \<in> set (successors ((s # ts) ! i)))"

lemma trace_ok_Nil [simp]: "trace_ok s []"
  by (simp add: trace_ok_def)

lemma trace_ok_Cons [simp]: "trace_ok s (t # ts) \<longleftrightarrow> t \<in> set (successors s) \<and> trace_ok t ts"
  by (auto simp: trace_ok_def nth_Cons all_conj_distrib less_Suc_eq_0_disj split: nat.splits)

lemma terminal_stuck: "terminal s \<Longrightarrow> t \<notin> set (successors s)"
  by (simp add: terminal_iff)

text \<open>The statuses that some trace leads to.\<close>

definition reaches :: "'s \<Rightarrow> 's \<Rightarrow> bool" where
  "reaches s t \<longleftrightarrow> (\<exists>ts. trace_ok s ts \<and> last (s # ts) = t)"

lemma trace_ok_append: "trace_ok s (xs @ ys) \<longleftrightarrow> trace_ok s xs \<and> trace_ok (last (s # xs)) ys"
  by (induction xs arbitrary: s) auto

lemma reaches_refl [simp]: "reaches s s"
  unfolding reaches_def by (rule exI [of _ "[]"]) simp

lemma reaches_trace: "trace_ok s ts \<Longrightarrow> reaches s (last (s # ts))"
  unfolding reaches_def by blast

lemma reaches_step: "t \<in> set (successors s) \<Longrightarrow> reaches s t"
  unfolding reaches_def by (rule exI [of _ "[t]"]) simp

lemma reaches_trans: "reaches s t \<Longrightarrow> reaches t u \<Longrightarrow> reaches s u"
  unfolding reaches_def
proof (elim exE conjE)
  fix xs ys assume "trace_ok s xs" "last (s # xs) = t" "trace_ok t ys" "last (t # ys) = u"
  then show "\<exists>ts. trace_ok s ts \<and> last (s # ts) = u"
    by (intro exI [of _ "xs @ ys"]) (auto simp: trace_ok_append)
qed

text \<open>Nothing follows a terminal status: it is the last of every trace.\<close>

lemma terminal_ends_trace: "trace_ok s ts \<Longrightarrow> terminal s \<Longrightarrow> ts = []"
  by (cases ts) (auto dest: terminal_stuck)

lemma terminal_reaches: "terminal s \<Longrightarrow> reaches s t \<Longrightarrow> t = s"
  unfolding reaches_def by (auto dest: terminal_ends_trace)

lemma terminal_only_last:
  "trace_ok s ts \<Longrightarrow> i < length ts \<Longrightarrow> terminal (ts ! i) \<Longrightarrow> Suc i = length ts"
proof (induction ts arbitrary: s i)
  case (Cons t ts)
  show ?case
  proof (cases i)
    case 0
    with Cons.prems show ?thesis by (auto dest: terminal_ends_trace)
  next
    case (Suc j)
    with Cons show ?thesis by auto
  qed
qed simp

end

section \<open>Data\<close>

datatype step_type = StepType_PLAN | StepType_INFERENCE | StepType_TOOL_CALL
  | StepType_TOOL_RESULT | StepType_OBSERVATION | StepType_FINAL

datatype step_status = StepStatus_CREATED | StepStatus_WAITING_APPROVAL | StepStatus_RUNNING
  | StepStatus_COMPLETED | StepStatus_FAILED | StepStatus_CANCELLED

fun step_type_value :: "step_type \<Rightarrow> string" where
  "step_type_value StepType_PLAN = ''plan''"
| "step_type_value StepType_INFERENCE = ''inference''"
| "step_type_value StepType_TOOL_CALL = ''tool_call''"
| "step_type_value StepType_TOOL_RESULT = ''tool_result''"
| "step_type_value StepType_OBSERVATION = ''observation''"
| "step_type_value StepType_FINAL = ''final''"

fun step_status_value :: "step_status \<Rightarrow> string" where
  "step_status_value StepStatus_CREATED = ''created''"
| "step_status_value StepStatus_WAITING_APPROVAL = ''waiting_approval''"
| "step_status_value StepStatus_RUNNING = ''running''"
| "step_status_value StepStatus_COMPLETED = ''completed''"
| "step_status_value StepStatus_FAILED = ''failed''"
| "step_status_value StepStatus_CANCELLED = ''cancelled''"

fun step_status_is_terminal :: "step_status \<Rightarrow> bool" where
  "step_status_is_terminal s = (s \<in> {StepStatus_COMPLETED, StepStatus_FAILED, StepStatus_CANCELLED})"

record step =
  step_id :: string
  step_number :: int
  step_type :: step_type
  step_status :: step_status
  step_input :: pyval
  step_output :: pyval
  step_error :: "string option"
  step_started_at :: "time option"
  step_completed_at :: "time option"

text \<open>The constructor with its \<open>__post_init__\<close> check; the other fields have their defaults.\<close>

definition new_step :: "string \<Rightarrow> int \<Rightarrow> step_type \<Rightarrow> pyval \<Rightarrow> step result" where
  "new_step sid number ty inp =
     (if number < 1 then raise ValueError ''Step number must be greater than zero''
      else Inr \<lparr>step_id = sid, step_number = number, step_type = ty,
                step_status = StepStatus_CREATED, step_input = inp, step_output = PNone,
                step_error = None, step_started_at = None, step_completed_at = None\<rparr>)"

section \<open>Transitions\<close>

fun step_transitions :: "step_status \<Rightarrow> step_status list" where
  "step_transitions StepStatus_CREATED =
     [StepStatus_WAITING_APPROVAL, StepStatus_RUNNING, StepStatus_FAILED, StepStatus_CANCELLED]"
| "step_transitions StepStatus_WAITING_APPROVAL =
     [StepStatus_RUNNING, StepStatus_FAILED, StepStatus_CANCELLED]"
| "step_transitions StepStatus_RUNNING =
     [StepStatus_COMPLETED, StepStatus_FAILED, StepStatus_CANCELLED]"
| "step_transitions StepStatus_COMPLETED = []"
| "step_transitions StepStatus_FAILED = []"
| "step_transitions StepStatus_CANCELLED = []"

definition step_transition_to :: "step_status \<Rightarrow> step \<Rightarrow> step result" where
  "step_transition_to target s =
     (if target \<notin> set (step_transitions (step_status s)) then
        raise InvalidStateTransition (''Invalid step state transition: ''
          @ step_status_value (step_status s) @ '' -> '' @ step_status_value target)
      else Inr (s\<lparr>step_status := target\<rparr>))"

definition step_mark_waiting_approval :: "step \<Rightarrow> step result" where
  "step_mark_waiting_approval s = step_transition_to StepStatus_WAITING_APPROVAL s"

definition stamp :: "time \<Rightarrow> time option \<Rightarrow> time option" where
  "stamp now old = (case old of None \<Rightarrow> Some now | Some t \<Rightarrow> Some t)"

definition step_mark_started :: "time \<Rightarrow> step \<Rightarrow> step result" where
  "step_mark_started now s =
     (if step_status s = StepStatus_RUNNING then Inr s
      else rbind (step_transition_to StepStatus_RUNNING s)
             (\<lambda>s. Inr (s\<lparr>step_started_at := stamp now (step_started_at s)\<rparr>)))"

definition step_mark_completed :: "time \<Rightarrow> pyval \<Rightarrow> step \<Rightarrow> step result" where
  "step_mark_completed now out s =
     rbind (step_transition_to StepStatus_COMPLETED s)
       (\<lambda>s. Inr (s\<lparr>step_output := out, step_completed_at := stamp now (step_completed_at s)\<rparr>))"

definition step_mark_failed :: "time \<Rightarrow> string \<Rightarrow> step \<Rightarrow> step result" where
  "step_mark_failed now err s =
     (if err = [] then raise ValueError ''Step failure error cannot be empty''
      else rbind (step_transition_to StepStatus_FAILED s)
             (\<lambda>s. Inr (s\<lparr>step_error := Some err,
                          step_completed_at := stamp now (step_completed_at s)\<rparr>)))"

definition step_mark_cancelled :: "time \<Rightarrow> step \<Rightarrow> step result" where
  "step_mark_cancelled now s =
     rbind (step_transition_to StepStatus_CANCELLED s)
       (\<lambda>s. Inr (s\<lparr>step_completed_at := stamp now (step_completed_at s)\<rparr>))"

definition step_duration_seconds :: "step \<Rightarrow> time option" where
  "step_duration_seconds s = (case (step_started_at s, step_completed_at s) of
      (Some a, Some b) \<Rightarrow> Some (max 0 (b - a)) | _ \<Rightarrow> None)"

definition step_is_terminal :: "step \<Rightarrow> bool" where
  "step_is_terminal s = step_status_is_terminal (step_status s)"

definition step_is_completed :: "step \<Rightarrow> bool" where
  "step_is_completed s \<longleftrightarrow> step_status s = StepStatus_COMPLETED"

definition step_is_failed :: "step \<Rightarrow> bool" where
  "step_is_failed s \<longleftrightarrow> step_status s = StepStatus_FAILED"

definition step_is_cancelled :: "step \<Rightarrow> bool" where
  "step_is_cancelled s \<longleftrightarrow> step_status s = StepStatus_CANCELLED"

text \<open>The operations on a step, for statements about any sequence of them.\<close>

datatype step_op = StepOp_wait | StepOp_start time | StepOp_complete time pyval
  | StepOp_fail time string | StepOp_cancel time

fun apply_step_op :: "step_op \<Rightarrow> step \<Rightarrow> step result" where
  "apply_step_op StepOp_wait s = step_mark_waiting_approval s"
| "apply_step_op (StepOp_start t) s = step_mark_started t s"
| "apply_step_op (StepOp_complete t v) s = step_mark_completed t v s"
| "apply_step_op (StepOp_fail t e) s = step_mark_failed t e s"
| "apply_step_op (StepOp_cancel t) s = step_mark_cancelled t s"

section \<open>The table is a lifecycle\<close>

interpretation step_lc: lifecycle step_transitions step_status_is_terminal
proof unfold_locales
  fix s show "step_status_is_terminal s \<longleftrightarrow> step_transitions s = []"
    by (cases s) simp_all
qed

lemmas step_op_defs = step_mark_waiting_approval_def step_mark_started_def step_mark_completed_def
  step_mark_failed_def step_mark_cancelled_def step_transition_to_def

lemma step_value_inject [simp]: "step_status_value a = step_status_value b \<longleftrightarrow> a = b"
  by (cases a; cases b) simp_all

lemma step_type_value_inject [simp]: "step_type_value a = step_type_value b \<longleftrightarrow> a = b"
  by (cases a; cases b) simp_all

lemma stamp_Some [simp]: "stamp now (Some t) = Some t"
  by (simp add: stamp_def)

lemma stamp_None [simp]: "stamp now None = Some now"
  by (simp add: stamp_def)

lemma stamp_not_None [simp]: "stamp now x \<noteq> None"
  by (cases x) (simp_all add: stamp_def)

text \<open>Every accepted operation moves the status along the table or leaves the step alone.\<close>

lemma apply_step_op_moves:
  assumes "apply_step_op op s = Inr s'"
  shows "s' = s \<or> step_status s' \<in> set (step_transitions (step_status s))"
  using assms by (cases op) (auto simp: step_op_defs split: if_splits)

text \<open>What no operation changes.\<close>

lemma apply_step_op_frame:
  assumes "apply_step_op op s = Inr s'"
  shows "step_id s' = step_id s" "step_number s' = step_number s" "step_type s' = step_type s"
    "step_input s' = step_input s"
  using assms by (cases op; auto simp: step_op_defs split: if_splits)+

text \<open>
  The consistency of status and time stamps: a completed step was started, and a step has a
  completion time exactly when it is terminal.
\<close>

definition step_inv :: "step \<Rightarrow> bool" where
  "step_inv s \<longleftrightarrow> 1 \<le> step_number s
     \<and> (step_completed_at s \<noteq> None \<longleftrightarrow> step_is_terminal s)
     \<and> (step_status s \<in> {StepStatus_RUNNING, StepStatus_COMPLETED} \<longrightarrow> step_started_at s \<noteq> None)
     \<and> (step_status s \<in> {StepStatus_CREATED, StepStatus_WAITING_APPROVAL} \<longrightarrow> step_started_at s = None)
     \<and> (step_is_failed s \<longleftrightarrow> (\<exists>e. step_error s = Some e \<and> e \<noteq> []))
     \<and> (step_error s = None \<longleftrightarrow> \<not> step_is_failed s)"

lemma new_step_inv: "new_step sid n ty inp = Inr s \<Longrightarrow> step_inv s"
  by (auto simp: new_step_def step_inv_def step_is_terminal_def step_is_failed_def split: if_splits)

lemma apply_step_op_inv:
  assumes "step_inv s" "apply_step_op op s = Inr s'"
  shows "step_inv s'"
  using assms
  by (cases op; cases "step_status s")
     (auto simp: step_op_defs step_inv_def step_is_terminal_def step_is_failed_def stamp_def
        split: if_splits option.splits)

text \<open>A terminal step refuses every operation.\<close>

lemma terminal_step_refuses:
  assumes "step_is_terminal s"
  shows "\<exists>e. apply_step_op op s = Inl e"
  using assms
  by (cases op; cases "step_status s") (auto simp: step_op_defs step_is_terminal_def)

end
