(* ===== verification/ExecDomain.thy ===== *)
theory ExecDomain
  imports StepDomain
begin

text \<open>
  The execution of one agent request (\<^verbatim>\<open>state_machine.py\<close>, \<^verbatim>\<open>domain/execution.py\<close>,
  \<^verbatim>\<open>domain/result.py\<close>, \<^verbatim>\<open>domain/decision.py\<close>, \<^verbatim>\<open>domain/context.py\<close>): the lifecycle table, the
  record with its legacy status and time stamps, the operations that move it, the result
  snapshot, the decision the planner produces and the working context of the runtime.
\<close>

section \<open>States\<close>

datatype execution_state = State_CREATED | State_PLANNING | State_INFERENCE
  | State_WAITING_APPROVAL | State_TOOL_EXECUTION | State_OBSERVING | State_COMPLETED
  | State_FAILED | State_CANCELLED

datatype execution_status = Status_CREATED | Status_RUNNING | Status_COMPLETED | Status_FAILED
  | Status_CANCELLED | Status_WAITING_APPROVAL | Status_CRASHED | Status_RECOVERING
  | Status_REPLAYING

fun execution_state_value :: "execution_state \<Rightarrow> string" where
  "execution_state_value State_CREATED = ''created''"
| "execution_state_value State_PLANNING = ''planning''"
| "execution_state_value State_INFERENCE = ''inference''"
| "execution_state_value State_WAITING_APPROVAL = ''waiting_approval''"
| "execution_state_value State_TOOL_EXECUTION = ''tool_execution''"
| "execution_state_value State_OBSERVING = ''observing''"
| "execution_state_value State_COMPLETED = ''completed''"
| "execution_state_value State_FAILED = ''failed''"
| "execution_state_value State_CANCELLED = ''cancelled''"

fun execution_status_value :: "execution_status \<Rightarrow> string" where
  "execution_status_value Status_CREATED = ''created''"
| "execution_status_value Status_RUNNING = ''running''"
| "execution_status_value Status_COMPLETED = ''completed''"
| "execution_status_value Status_FAILED = ''failed''"
| "execution_status_value Status_CANCELLED = ''cancelled''"
| "execution_status_value Status_WAITING_APPROVAL = ''waiting_approval''"
| "execution_status_value Status_CRASHED = ''crashed''"
| "execution_status_value Status_RECOVERING = ''recovering''"
| "execution_status_value Status_REPLAYING = ''replaying''"

text \<open>The table \<open>_TRANSITIONS\<close> of \<open>ExecutionStateMachine\<close>.\<close>

fun execution_transitions :: "execution_state \<Rightarrow> execution_state list" where
  "execution_transitions State_CREATED = [State_PLANNING, State_FAILED, State_CANCELLED]"
| "execution_transitions State_PLANNING = [State_INFERENCE, State_FAILED, State_CANCELLED]"
| "execution_transitions State_INFERENCE =
     [State_TOOL_EXECUTION, State_WAITING_APPROVAL, State_COMPLETED, State_FAILED, State_CANCELLED]"
| "execution_transitions State_WAITING_APPROVAL =
     [State_TOOL_EXECUTION, State_FAILED, State_CANCELLED]"
| "execution_transitions State_TOOL_EXECUTION = [State_OBSERVING, State_FAILED, State_CANCELLED]"
| "execution_transitions State_OBSERVING = [State_INFERENCE, State_FAILED, State_CANCELLED]"
| "execution_transitions State_COMPLETED = []"
| "execution_transitions State_FAILED = []"
| "execution_transitions State_CANCELLED = []"

fun state_is_terminal :: "execution_state \<Rightarrow> bool" where
  "state_is_terminal s = (s \<in> {State_COMPLETED, State_FAILED, State_CANCELLED})"

definition machine_can_transition_to :: "execution_state \<Rightarrow> execution_state \<Rightarrow> bool" where
  "machine_can_transition_to s target \<longleftrightarrow> target \<in> set (execution_transitions s)"

definition machine_transition_to :: "execution_state \<Rightarrow> execution_state \<Rightarrow> execution_state result" where
  "machine_transition_to target s =
     (if \<not> machine_can_transition_to s target then
        raise InvalidStateTransition (''Invalid execution state transition: ''
          @ execution_state_value s @ '' -> '' @ execution_state_value target)
      else Inr target)"

section \<open>Executions\<close>

text \<open>The state machine object of an execution holds nothing but its state.\<close>

record execution =
  ex_id :: string
  ex_status :: execution_status
  ex_created_at :: time
  ex_started_at :: "time option"
  ex_updated_at :: time
  ex_completed_at :: "time option"
  ex_metadata :: pydict
  ex_error :: "string option"
  ex_error_type :: "string option"
  ex_steps :: "step list"
  ex_state :: execution_state

text \<open>\<open>Execution(metadata=...)\<close> with its defaults; \<open>created_at\<close> is read before \<open>updated_at\<close>.\<close>

definition new_execution :: "string \<Rightarrow> clock \<Rightarrow> pydict \<Rightarrow> execution" where
  "new_execution eid clk meta =
     \<lparr>ex_id = eid, ex_status = Status_CREATED, ex_created_at = clk 0, ex_started_at = None,
      ex_updated_at = clk 1, ex_completed_at = None, ex_metadata = meta, ex_error = None,
      ex_error_type = None, ex_steps = [], ex_state = State_CREATED\<rparr>"

definition can_transition_to :: "execution_state \<Rightarrow> execution \<Rightarrow> bool" where
  "can_transition_to target e = machine_can_transition_to (ex_state e) target"

fun status_of_state :: "execution_state \<Rightarrow> execution_status" where
  "status_of_state State_CREATED = Status_CREATED"
| "status_of_state State_PLANNING = Status_RUNNING"
| "status_of_state State_INFERENCE = Status_RUNNING"
| "status_of_state State_WAITING_APPROVAL = Status_RUNNING"
| "status_of_state State_TOOL_EXECUTION = Status_RUNNING"
| "status_of_state State_OBSERVING = Status_RUNNING"
| "status_of_state State_COMPLETED = Status_COMPLETED"
| "status_of_state State_FAILED = Status_FAILED"
| "status_of_state State_CANCELLED = Status_CANCELLED"

definition sync_status :: "execution \<Rightarrow> execution" where
  "sync_status e = e\<lparr>ex_status := status_of_state (ex_state e)\<rparr>"

definition touch :: "time \<Rightarrow> execution \<Rightarrow> execution" where
  "touch now e = e\<lparr>ex_updated_at := now\<rparr>"

definition mark_started_at :: "time \<Rightarrow> execution \<Rightarrow> execution" where
  "mark_started_at now e = e\<lparr>ex_started_at := stamp now (ex_started_at e)\<rparr>"

text \<open>The bodies of \<open>_mark_completed\<close>, \<open>_mark_failed_state\<close> and \<open>_mark_cancelled_state\<close> are the same.\<close>

definition mark_completed_at :: "time \<Rightarrow> execution \<Rightarrow> execution" where
  "mark_completed_at now e = e\<lparr>ex_completed_at := stamp now (ex_completed_at e)\<rparr>"

definition transition_to :: "clock \<Rightarrow> execution_state \<Rightarrow> execution \<Rightarrow> execution result" where
  "transition_to clk target e =
     rbind (machine_transition_to target (ex_state e)) (\<lambda>st.
       let e = touch (clk 0) (sync_status (e\<lparr>ex_state := st\<rparr>)) in
       Inr (case target of
              State_PLANNING \<Rightarrow> mark_started_at (clk 1) e
            | State_COMPLETED \<Rightarrow> mark_completed_at (clk 1) e
            | State_FAILED \<Rightarrow> mark_completed_at (clk 1) e
            | State_CANCELLED \<Rightarrow> mark_completed_at (clk 1) e
            | _ \<Rightarrow> e))"

definition mark_started :: "clock \<Rightarrow> execution \<Rightarrow> execution result" where
  "mark_started clk e =
     (if ex_state e = State_CREATED then transition_to clk State_PLANNING e
      else if ex_state e \<in> {State_PLANNING, State_INFERENCE, State_WAITING_APPROVAL,
                             State_TOOL_EXECUTION, State_OBSERVING} then
        Inr (if ex_started_at e = None then touch (clk 1) (mark_started_at (clk 0) e) else e)
      else raise RuntimeError (''Cannot start execution from terminal state ''
             @ [squote] @ execution_state_value (ex_state e) @ [squote]))"

definition mark_completed :: "clock \<Rightarrow> execution \<Rightarrow> execution result" where
  "mark_completed clk e =
     rbind (if ex_state e = State_PLANNING then
              rbind (machine_transition_to State_INFERENCE (ex_state e))
                (\<lambda>st. Inr (touch (clk 0) (sync_status (e\<lparr>ex_state := st\<rparr>))))
            else Inr e)
       (\<lambda>e. if ex_state e = State_INFERENCE then transition_to (\<lambda>i. clk (Suc i)) State_COMPLETED e
            else if ex_state e = State_COMPLETED then Inr e
            else raise RuntimeError (''Cannot complete execution from state ''
                   @ [squote] @ execution_state_value (ex_state e) @ [squote]))"

definition mark_failed :: "clock \<Rightarrow> string \<Rightarrow> string option \<Rightarrow> execution \<Rightarrow> execution result" where
  "mark_failed clk err err_type e =
     (if err = [] then raise ValueError ''Execution failure error cannot be empty''
      else if ex_state e \<in> {State_COMPLETED, State_FAILED, State_CANCELLED} then
        raise RuntimeError (''Cannot fail execution from terminal state ''
          @ [squote] @ execution_state_value (ex_state e) @ [squote])
      else transition_to clk State_FAILED (e\<lparr>ex_error := Some err, ex_error_type := err_type\<rparr>))"

definition mark_cancelled :: "clock \<Rightarrow> execution \<Rightarrow> execution result" where
  "mark_cancelled clk e =
     (if ex_state e = State_CANCELLED then Inr e
      else if ex_state e \<in> {State_COMPLETED, State_FAILED} then
        raise RuntimeError (''Cannot cancel execution from terminal state ''
          @ [squote] @ execution_state_value (ex_state e) @ [squote])
      else transition_to clk State_CANCELLED e)"

definition add_step :: "step \<Rightarrow> execution \<Rightarrow> execution" where
  "add_step s e = e\<lparr>ex_steps := ex_steps e @ [s]\<rparr>"

definition execution_duration_seconds :: "execution \<Rightarrow> time option" where
  "execution_duration_seconds e = (case ex_started_at e of None \<Rightarrow> None
     | Some a \<Rightarrow> (case ex_completed_at e of None \<Rightarrow> None | Some b \<Rightarrow> Some (max 0 (b - a))))"

definition execution_is_terminal :: "execution \<Rightarrow> bool" where
  "execution_is_terminal e = state_is_terminal (ex_state e)"

definition execution_is_completed :: "execution \<Rightarrow> bool" where
  "execution_is_completed e \<longleftrightarrow> ex_state e = State_COMPLETED"

definition execution_is_failed :: "execution \<Rightarrow> bool" where
  "execution_is_failed e \<longleftrightarrow> ex_state e = State_FAILED"

definition execution_is_cancelled :: "execution \<Rightarrow> bool" where
  "execution_is_cancelled e \<longleftrightarrow> ex_state e = State_CANCELLED"

section \<open>Results\<close>

record execution_result =
  er_execution_id :: string
  er_status :: execution_status
  er_output :: pyval
  er_error :: "string option"
  er_error_type :: "string option"
  er_metadata :: pydict
  er_created_at :: "time option"
  er_started_at :: "time option"
  er_completed_at :: "time option"
  er_duration_seconds :: "time option"

definition from_execution :: "pyval \<Rightarrow> execution \<Rightarrow> execution_result" where
  "from_execution out e =
     \<lparr>er_execution_id = ex_id e, er_status = ex_status e, er_output = out,
      er_error = ex_error e, er_error_type = ex_error_type e, er_metadata = ex_metadata e,
      er_created_at = Some (ex_created_at e), er_started_at = ex_started_at e,
      er_completed_at = ex_completed_at e, er_duration_seconds = execution_duration_seconds e\<rparr>"

definition succeeded :: "execution_result \<Rightarrow> bool" where
  "succeeded r \<longleftrightarrow> er_status r = Status_COMPLETED"

definition result_failed :: "execution_result \<Rightarrow> bool" where
  "result_failed r \<longleftrightarrow> er_status r = Status_FAILED"

definition result_cancelled :: "execution_result \<Rightarrow> bool" where
  "result_cancelled r \<longleftrightarrow> er_status r = Status_CANCELLED"

section \<open>Decisions\<close>

datatype decision_type = DecisionType_FINAL | DecisionType_TOOL_CALL | DecisionType_CONTINUE
  | DecisionType_FAIL

record tool_call =
  tc_name :: string
  tc_arguments :: pydict
  tc_call_id :: "string option"

record agent_decision =
  ad_type :: decision_type
  ad_content :: "string option"
  ad_tool_calls :: "tool_call list"
  ad_tool_name :: "string option"
  ad_arguments :: pydict
  ad_call_id :: "string option"
  ad_error :: "string option"

definition has_multiple_tool_calls :: "agent_decision \<Rightarrow> bool" where
  "has_multiple_tool_calls d \<longleftrightarrow> 1 < length (ad_tool_calls d)"

definition normalized_tool_calls :: "agent_decision \<Rightarrow> tool_call list" where
  "normalized_tool_calls d =
     (if ad_tool_calls d \<noteq> [] then ad_tool_calls d
      else case ad_tool_name d of None \<Rightarrow> []
           | Some n \<Rightarrow> [\<lparr>tc_name = n, tc_arguments = ad_arguments d, tc_call_id = ad_call_id d\<rparr>])"

section \<open>The working context\<close>

text \<open>
  The runtime shares the execution object with its context; the model keeps the execution in
  the state of the runtime and the rest of the context here.
\<close>

record execution_context =
  cx_messages :: "pydict list"
  cx_current_plan :: "string option"
  cx_current_step :: int
  cx_tool_calls :: "pydict list"
  cx_observations :: "string list"
  cx_errors :: "string list"
  cx_metadata :: pydict

definition new_context :: "pydict list \<Rightarrow> execution_context" where
  "new_context ms = \<lparr>cx_messages = ms, cx_current_plan = None, cx_current_step = 0,
     cx_tool_calls = [], cx_observations = [], cx_errors = [], cx_metadata = []\<rparr>"

definition add_message :: "pydict \<Rightarrow> execution_context \<Rightarrow> execution_context" where
  "add_message m c = c\<lparr>cx_messages := cx_messages c @ [m]\<rparr>"

definition add_tool_call :: "pydict \<Rightarrow> execution_context \<Rightarrow> execution_context" where
  "add_tool_call t c = c\<lparr>cx_tool_calls := cx_tool_calls c @ [t]\<rparr>"

definition add_observation :: "string \<Rightarrow> execution_context \<Rightarrow> execution_context" where
  "add_observation t c = c\<lparr>cx_observations := cx_observations c @ [t]\<rparr>"

definition add_error :: "string \<Rightarrow> execution_context \<Rightarrow> execution_context result" where
  "add_error t c = (if t = [] then raise ValueError ''Execution context error cannot be empty''
     else Inr (c\<lparr>cx_errors := cx_errors c @ [t]\<rparr>))"

definition advance_step :: "execution_context \<Rightarrow> execution_context" where
  "advance_step c = c\<lparr>cx_current_step := cx_current_step c + 1\<rparr>"

definition tool_call_count :: "execution_context \<Rightarrow> nat" where
  "tool_call_count c = length (cx_tool_calls c)"

section \<open>The table is a lifecycle\<close>

interpretation exec_lc: lifecycle execution_transitions state_is_terminal
proof unfold_locales
  fix s show "state_is_terminal s \<longleftrightarrow> execution_transitions s = []"
    by (cases s) simp_all
qed

lemma state_value_inject [simp]: "execution_state_value a = execution_state_value b \<longleftrightarrow> a = b"
  by (cases a; cases b) simp_all

lemma status_value_inject [simp]: "execution_status_value a = execution_status_value b \<longleftrightarrow> a = b"
  by (cases a; cases b) simp_all

lemmas exec_op_defs = transition_to_def machine_transition_to_def machine_can_transition_to_def
  mark_started_def mark_completed_def mark_failed_def mark_cancelled_def touch_def sync_status_def
  mark_started_at_def mark_completed_at_def

text \<open>The lifecycle operations on an execution, for statements about any sequence of them.\<close>

datatype exec_op = ExecOp_transition clock execution_state | ExecOp_start clock
  | ExecOp_complete clock | ExecOp_fail clock string "string option" | ExecOp_cancel clock
  | ExecOp_add_step step

fun apply_exec_op :: "exec_op \<Rightarrow> execution \<Rightarrow> execution result" where
  "apply_exec_op (ExecOp_transition clk t) e = transition_to clk t e"
| "apply_exec_op (ExecOp_start clk) e = mark_started clk e"
| "apply_exec_op (ExecOp_complete clk) e = mark_completed clk e"
| "apply_exec_op (ExecOp_fail clk m ty) e = mark_failed clk m ty e"
| "apply_exec_op (ExecOp_cancel clk) e = mark_cancelled clk e"
| "apply_exec_op (ExecOp_add_step s) e = Inr (add_step s e)"

text \<open>A rejected operation leaves the execution as it was: the exception is caught by the caller.\<close>

definition exec_after :: "exec_op \<Rightarrow> execution \<Rightarrow> execution" where
  "exec_after op e = (case apply_exec_op op e of Inl _ \<Rightarrow> e | Inr e' \<Rightarrow> e')"

text \<open>
  The consistency of an execution: the legacy status follows the state, it is completed in time
  exactly when it is terminal, it has a start time from \<open>PLANNING\<close> on, none in \<open>CREATED\<close>.
\<close>

definition exec_inv :: "execution \<Rightarrow> bool" where
  "exec_inv e \<longleftrightarrow> ex_status e = status_of_state (ex_state e)
     \<and> (ex_completed_at e \<noteq> None \<longleftrightarrow> execution_is_terminal e)
     \<and> (ex_state e \<in> {State_PLANNING, State_INFERENCE, State_WAITING_APPROVAL,
          State_TOOL_EXECUTION, State_OBSERVING, State_COMPLETED} \<longrightarrow> ex_started_at e \<noteq> None)
     \<and> (ex_state e = State_CREATED \<longrightarrow> ex_started_at e = None)"

lemma new_execution_inv: "exec_inv (new_execution eid clk meta)"
  by (simp add: new_execution_def exec_inv_def execution_is_terminal_def)

text \<open>What an accepted transition makes of an execution.\<close>

definition advanced :: "clock \<Rightarrow> execution_state \<Rightarrow> execution \<Rightarrow> execution" where
  "advanced clk t e = e\<lparr>ex_state := t, ex_status := status_of_state t, ex_updated_at := clk 0,
     ex_started_at := (if t = State_PLANNING then stamp (clk 1) (ex_started_at e) else ex_started_at e),
     ex_completed_at := (if state_is_terminal t then stamp (clk 1) (ex_completed_at e)
                         else ex_completed_at e)\<rparr>"

lemma transition_to_eq:
  "transition_to clk t e =
     (if t \<in> set (execution_transitions (ex_state e)) then Inr (advanced clk t e)
      else raise InvalidStateTransition (''Invalid execution state transition: ''
          @ execution_state_value (ex_state e) @ '' -> '' @ execution_state_value t))"
  by (cases t) (simp_all add: transition_to_def machine_transition_to_def touch_def sync_status_def
      machine_can_transition_to_def mark_started_at_def mark_completed_at_def advanced_def)

lemma transition_to_Inr:
  "transition_to clk t e = Inr e' \<longleftrightarrow>
     t \<in> set (execution_transitions (ex_state e)) \<and> e' = advanced clk t e"
  by (auto simp: transition_to_eq)

lemma advanced_frame [simp]:
  "ex_state (advanced clk t e) = t"
  "ex_id (advanced clk t e) = ex_id e" "ex_steps (advanced clk t e) = ex_steps e"
  "ex_metadata (advanced clk t e) = ex_metadata e"
  "ex_created_at (advanced clk t e) = ex_created_at e" "ex_error (advanced clk t e) = ex_error e"
  "ex_error_type (advanced clk t e) = ex_error_type e"
  by (simp_all add: advanced_def)

lemma advanced_inv:
  assumes "exec_inv e" "t \<in> set (execution_transitions (ex_state e))"
  shows "exec_inv (advanced clk t e)"
  using assms
  by (cases "ex_state e")
     (auto simp: advanced_def exec_inv_def execution_is_terminal_def)

lemma transition_to_inv: "exec_inv e \<Longrightarrow> transition_to clk t e = Inr e' \<Longrightarrow> exec_inv e'"
  by (auto simp: transition_to_Inr advanced_inv)

text \<open>The five lifecycle methods in terms of accepted transitions.\<close>

lemma mark_completed_PLANNING:
  assumes "ex_state e = State_PLANNING"
  shows "mark_completed clk e = Inr (advanced (\<lambda>i. clk (Suc i)) State_COMPLETED (advanced clk State_INFERENCE e))"
  using assms
  by (simp add: mark_completed_def transition_to_eq machine_transition_to_def
      machine_can_transition_to_def touch_def sync_status_def) (simp add: advanced_def)

lemma mark_completed_other:
  assumes "ex_state e \<noteq> State_PLANNING"
  shows "mark_completed clk e = (if ex_state e = State_INFERENCE
           then transition_to (\<lambda>i. clk (Suc i)) State_COMPLETED e
           else if ex_state e = State_COMPLETED then Inr e
           else raise RuntimeError (''Cannot complete execution from state ''
                   @ [squote] @ execution_state_value (ex_state e) @ [squote]))"
  using assms by (simp add: mark_completed_def)

lemma exec_inv_frame [simp]:
  "exec_inv (e\<lparr>ex_error := x, ex_error_type := y\<rparr>) = exec_inv e"
  "exec_inv (e\<lparr>ex_steps := ss\<rparr>) = exec_inv e"
  "exec_inv (e\<lparr>ex_updated_at := u\<rparr>) = exec_inv e"
  "exec_inv (e\<lparr>ex_metadata := m\<rparr>) = exec_inv e"
  by (simp_all add: exec_inv_def execution_is_terminal_def)

lemma mark_completed_inv: "exec_inv e \<Longrightarrow> mark_completed clk e = Inr e' \<Longrightarrow> exec_inv e'"
  by (cases "ex_state e = State_PLANNING")
     (auto simp: mark_completed_PLANNING mark_completed_other transition_to_Inr
        intro!: advanced_inv split: if_splits)

lemma apply_exec_op_inv:
  assumes inv: "exec_inv e" and op: "apply_exec_op op e = Inr e'"
  shows "exec_inv e'"
proof (cases op)
  case (ExecOp_start clk)
  with inv op show ?thesis
    by (auto simp: mark_started_def touch_def mark_started_at_def exec_inv_def
        execution_is_terminal_def dest: transition_to_inv [OF inv] split: if_splits)
next
  case (ExecOp_fail clk m ty)
  then have "transition_to clk State_FAILED (e\<lparr>ex_error := Some m, ex_error_type := ty\<rparr>) = Inr e'"
    using op by (auto simp: mark_failed_def split: if_splits)
  then show ?thesis by (rule transition_to_inv [rotated]) (simp add: inv)
qed (use inv op in \<open>auto simp: mark_cancelled_def add_step_def mark_completed_inv
      dest: transition_to_inv split: if_splits\<close>)

lemma exec_after_inv: "exec_inv e \<Longrightarrow> exec_inv (exec_after op e)"
  by (auto simp: exec_after_def dest: apply_exec_op_inv split: sum.splits)

text \<open>The states one operation passes through: every accepted operation follows the table.\<close>

definition exec_path :: "exec_op \<Rightarrow> execution \<Rightarrow> execution_state list" where
  "exec_path op e = (case op of
      ExecOp_transition clk t \<Rightarrow> [t]
    | ExecOp_start clk \<Rightarrow> (if ex_state e = State_CREATED then [State_PLANNING] else [])
    | ExecOp_complete clk \<Rightarrow> (if ex_state e = State_PLANNING then [State_INFERENCE, State_COMPLETED]
                             else if ex_state e = State_INFERENCE then [State_COMPLETED] else [])
    | ExecOp_fail clk m ty \<Rightarrow> [State_FAILED]
    | ExecOp_cancel clk \<Rightarrow> (if ex_state e = State_CANCELLED then [] else [State_CANCELLED])
    | ExecOp_add_step s \<Rightarrow> [])"

lemma apply_exec_op_path:
  assumes "apply_exec_op op e = Inr e'"
  shows "exec_lc.trace_ok (ex_state e) (exec_path op e) \<and> ex_state e' = last (ex_state e # exec_path op e)"
proof (cases op)
  case (ExecOp_complete clk)
  with assms show ?thesis
    by (cases "ex_state e = State_PLANNING")
       (auto simp: exec_path_def mark_completed_PLANNING mark_completed_other transition_to_Inr
          split: if_splits)
qed (use assms in \<open>auto simp: exec_path_def mark_started_def mark_failed_def mark_cancelled_def
      touch_def mark_started_at_def add_step_def transition_to_Inr split: if_splits\<close>)

text \<open>
  A terminal execution keeps its state, status, time stamps and error under every operation;
  only steps can still be appended to its trace.
\<close>

definition exec_outcome ::
  "execution \<Rightarrow> execution_state \<times> execution_status \<times> time option \<times> time option \<times> string option \<times> string option" where
  "exec_outcome e = (ex_state e, ex_status e, ex_started_at e, ex_completed_at e, ex_error e, ex_error_type e)"

lemma terminal_absorbs:
  assumes "execution_is_terminal e"
  shows "exec_outcome (exec_after op e) = exec_outcome e"
proof -
  have no: "transition_to clk t e = Inr e' \<Longrightarrow> False" for clk t e'
    using assms exec_lc.terminal_stuck by (auto simp: execution_is_terminal_def transition_to_Inr)
  show ?thesis
    using assms
    by (cases op) (auto simp: exec_after_def exec_outcome_def add_step_def mark_started_def
        mark_completed_def mark_failed_def mark_cancelled_def execution_is_terminal_def
        dest: no split: sum.splits if_splits)
qed

end
