(* ===== verification/ContextMgr.thy ===== *)
theory ContextMgr
  imports ExecDomain "HOL-Library.Sublist"
begin

text \<open>
  The context manager (\<^verbatim>\<open>context_manager.py\<close>): token estimation, the context budget, the messages,
  tool calls and observations it adds to the execution context, and trimming to the budget.
\<close>

section \<open>Token counters\<close>

text \<open>
  What trimming needs of a token counter: an estimate of a concatenation is at most the sum of
  the estimates of its parts.
\<close>

locale token_counter =
  fixes cnt :: "pydict list \<Rightarrow> int"
  assumes cnt_nonneg: "0 \<le> cnt ms"
    and cnt_Nil: "cnt [] = 0"
    and cnt_append: "cnt (ms @ ns) \<le> cnt ms + cnt ns"

fun count_value :: "pyval \<Rightarrow> nat"
and count_items :: "pydict \<Rightarrow> nat"
and count_elems :: "pyval list \<Rightarrow> nat" where
  "count_value PNone = 0"
| "count_value (PStr s) = length s"
| "count_value (PDict d) = count_items d"
| "count_value (PList xs) = count_elems xs"
| "count_value (PBool b) = length (py_str (PBool b))"
| "count_value (PInt i) = length (py_str (PInt i))"
| "count_value (PFloat f) = length (py_str (PFloat f))"
| "count_items [] = 0"
| "count_items ((k, v) # d) = length k + count_value v + count_items d"
| "count_elems [] = 0"
| "count_elems (x # xs) = count_value x + count_elems xs"

text \<open>\<open>CharacterTokenCounter\<close> with its ratio; the constructor rejects the ratios below one.\<close>

definition new_counter :: "int \<Rightarrow> int result" where
  "new_counter cpt = (if cpt \<le> 0 then raise ValueError ''characters_per_token must be greater than zero''
     else Inr cpt)"

definition total_characters :: "pydict list \<Rightarrow> nat" where
  "total_characters ms = sum_list (map (\<lambda>m. count_value (PDict m)) ms)"

definition count_message_tokens :: "int \<Rightarrow> pydict list \<Rightarrow> int" where
  "count_message_tokens cpt ms =
     (let n = int (total_characters ms) in if n = 0 then 0 else (n + cpt - 1) div cpt)"

lemma total_characters_simps [simp]:
  "total_characters [] = 0"
  "total_characters (ms @ ns) = total_characters ms + total_characters ns"
  by (simp_all add: total_characters_def)

lemma ceiling_div_le:
  fixes c n k :: int
  assumes "0 < c"
  shows "(n + c - 1) div c \<le> k \<longleftrightarrow> n \<le> c * k"
proof -
  let ?q = "(n + c - 1) div c"
  have eq: "c * ?q + (n + c - 1) mod c = n + c - 1" by simp
  have r: "0 \<le> (n + c - 1) mod c" "(n + c - 1) mod c < c" using assms by simp_all
  show ?thesis
  proof
    assume "?q \<le> k"
    then have "c * ?q \<le> c * k" using assms by simp
    with eq r show "n \<le> c * k" by linarith
  next
    assume n: "n \<le> c * k"
    show "?q \<le> k"
    proof (rule ccontr)
      assume "\<not> ?q \<le> k"
      then have "c * (k + 1) \<le> c * ?q" using assms by (intro mult_left_mono) simp_all
      then have "c * k + c \<le> c * ?q" by (simp only: distrib_left mult_1_right)
      with eq r n show False by linarith
    qed
  qed
qed

lemma count_message_tokens_le:
  "0 < cpt \<Longrightarrow> count_message_tokens cpt ms \<le> k \<longleftrightarrow> int (total_characters ms) \<le> cpt * k"
  using ceiling_div_le [of cpt 0 k] ceiling_div_le [of cpt "int (total_characters ms)" k]
  by (auto simp: count_message_tokens_def Let_def zero_le_mult_iff)

lemma character_counter:
  assumes "0 < cpt"
  shows "token_counter (count_message_tokens cpt)"
proof
  fix ms ns
  show "0 \<le> count_message_tokens cpt ms"
    using assms by (simp add: count_message_tokens_def Let_def pos_imp_zdiv_nonneg_iff)
  show "count_message_tokens cpt [] = 0"
    by (simp add: count_message_tokens_def)
  have "int (total_characters xs) \<le> cpt * count_message_tokens cpt xs" for xs
    using count_message_tokens_le [OF assms] by blast
  from this [of ms] this [of ns]
  show "count_message_tokens cpt (ms @ ns) \<le> count_message_tokens cpt ms + count_message_tokens cpt ns"
    by (simp add: count_message_tokens_le [OF assms] algebra_simps)
qed

text \<open>The counter the runtime uses: four characters to a token.\<close>

definition default_counter :: "pydict list \<Rightarrow> int" where
  "default_counter = count_message_tokens 4"

interpretation default_tc: token_counter default_counter
  unfolding default_counter_def by (rule character_counter) simp

section \<open>Budgets\<close>

record context_budget =
  max_context_tokens :: int
  reserved_output_tokens :: int

definition new_budget :: "context_budget \<Rightarrow> context_budget result" where
  "new_budget b =
     (if max_context_tokens b \<le> 0 then raise ValueError ''max_context_tokens must be greater than zero''
      else if reserved_output_tokens b < 0 then
        raise ValueError ''reserved_output_tokens cannot be negative''
      else if max_context_tokens b \<le> reserved_output_tokens b then
        raise ValueError ''reserved_output_tokens must be smaller than max_context_tokens''
      else Inr b)"

definition budget_available :: "context_budget \<Rightarrow> int" where
  "budget_available b = max_context_tokens b - reserved_output_tokens b"

section \<open>Messages\<close>

definition mgr_add_message :: "pyval \<Rightarrow> execution_context \<Rightarrow> execution_context result" where
  "mgr_add_message m c = (case m of
      PDict d \<Rightarrow> (case dget d ''role'' of
          PStr r \<Rightarrow> (if r = [] then raise ValueError ''message must contain a valid role''
                     else Inr (add_message d c))
        | _ \<Rightarrow> raise ValueError ''message must contain a valid role'')
    | _ \<Rightarrow> raise TypeError ''message must be a dictionary'')"

definition add_system_message :: "pyval \<Rightarrow> execution_context \<Rightarrow> execution_context result" where
  "add_system_message content c =
     (if \<not> is_str content then raise TypeError ''system message content must be a string''
      else mgr_add_message (PDict [(''role'', PStr ''system''), (''content'', content)]) c)"

definition add_user_message :: "pyval \<Rightarrow> execution_context \<Rightarrow> execution_context result" where
  "add_user_message content c =
     (if \<not> is_str content then raise TypeError ''user message content must be a string''
      else mgr_add_message (PDict [(''role'', PStr ''user''), (''content'', content)]) c)"

text \<open>A value that is not a dictionary has no \<open>get\<close>.\<close>

definition add_assistant_message :: "pyval \<Rightarrow> execution_context \<Rightarrow> execution_context result" where
  "add_assistant_message m c = (case m of
      PDict d \<Rightarrow> (if dget d ''role'' \<noteq> PStr ''assistant''
                 then raise ValueError (''Assistant message must have role '' @ [squote] @ ''assistant'' @ [squote])
                 else mgr_add_message m c)
    | _ \<Rightarrow> raise AttributeError ''get'')"

definition add_tool_message ::
  "string \<Rightarrow> string \<Rightarrow> pyval \<Rightarrow> execution_context \<Rightarrow> execution_context result" where
  "add_tool_message call_id name content c =
     (if call_id = [] then raise ValueError ''Tool message requires a call_id''
      else if name = [] then raise ValueError ''Tool message requires a tool name''
      else if \<not> is_str content then raise TypeError ''Tool message content must be a string''
      else mgr_add_message (PDict [(''role'', PStr ''tool''), (''tool_call_id'', PStr call_id),
             (''name'', PStr name), (''content'', content)]) c)"

definition get_messages :: "execution_context \<Rightarrow> pydict list" where
  "get_messages c = cx_messages c"

definition mgr_add_tool_call :: "pyval \<Rightarrow> execution_context \<Rightarrow> execution_context result" where
  "mgr_add_tool_call t c = (case t of PDict d \<Rightarrow> Inr (add_tool_call d c)
     | _ \<Rightarrow> raise TypeError ''tool_call must be a dictionary'')"

definition get_tool_calls :: "execution_context \<Rightarrow> pydict list" where
  "get_tool_calls c = cx_tool_calls c"

definition get_observations :: "execution_context \<Rightarrow> string list" where
  "get_observations c = cx_observations c"

section \<open>Token management and trimming\<close>

text \<open>The manager is given by its token counter and its budget.\<close>

record context_manager =
  cm_counter :: "pydict list \<Rightarrow> int"
  cm_budget :: "context_budget option"

definition token_count :: "context_manager \<Rightarrow> pydict list option \<Rightarrow> execution_context \<Rightarrow> int" where
  "token_count cm ms c = cm_counter cm (case ms of None \<Rightarrow> get_messages c | Some xs \<Rightarrow> xs)"

definition available_input_tokens :: "context_manager \<Rightarrow> int option" where
  "available_input_tokens cm = map_option budget_available (cm_budget cm)"

definition remaining_input_tokens ::
  "context_manager \<Rightarrow> pydict list option \<Rightarrow> execution_context \<Rightarrow> int option" where
  "remaining_input_tokens cm ms c = (case available_input_tokens cm of None \<Rightarrow> None
     | Some a \<Rightarrow> Some (max (a - token_count cm ms c) 0))"

definition exceeds_budget ::
  "context_manager \<Rightarrow> pydict list option \<Rightarrow> execution_context \<Rightarrow> bool" where
  "exceeds_budget cm ms c = (case available_input_tokens cm of None \<Rightarrow> False
     | Some a \<Rightarrow> a < token_count cm ms c)"

definition is_system :: "pydict \<Rightarrow> bool" where
  "is_system m \<longleftrightarrow> dget m ''role'' = PStr ''system''"

text \<open>The loop that takes the first system message out of the list.\<close>

fun split_system :: "pydict list \<Rightarrow> pydict option \<times> pydict list" where
  "split_system [] = (None, [])"
| "split_system (m # ms) =
     (if is_system m then (Some m, ms)
      else (case split_system ms of (sys, rest) \<Rightarrow> (sys, m # rest)))"

text \<open>The loop over the reversed messages; \<open>sel\<close> holds the selected ones after the system message.\<close>

fun take_recent :: "(pydict list \<Rightarrow> int) \<Rightarrow> pydict list \<Rightarrow> int \<Rightarrow> pydict list \<Rightarrow> pydict list" where
  "take_recent cnt [] b sel = sel"
| "take_recent cnt (m # ms) b sel =
     (if b < cnt [m] then take_recent cnt ms b sel
      else if b - cnt [m] \<le> 0 then m # sel
      else take_recent cnt ms (b - cnt [m]) (m # sel))"

definition trim_messages :: "context_manager \<Rightarrow> pydict list \<Rightarrow> pydict list" where
  "trim_messages cm ms = (case available_input_tokens cm of
      None \<Rightarrow> ms
    | Some avail \<Rightarrow>
        if ms = [] then []
        else case split_system ms of
            (None, rest) \<Rightarrow> take_recent (cm_counter cm) (rev rest) avail []
          | (Some sys, rest) \<Rightarrow>
              (let st = cm_counter cm [sys] in
               if avail < st then []
               else sys # take_recent (cm_counter cm) (rev rest) (avail - st) []))"

definition get_messages_for_inference :: "context_manager \<Rightarrow> execution_context \<Rightarrow> pydict list" where
  "get_messages_for_inference cm c =
     (let ms = get_messages c in
      if ms = [] then [] else if \<not> exceeds_budget cm (Some ms) c then ms else trim_messages cm ms)"

definition trim_to_budget :: "context_manager \<Rightarrow> execution_context \<Rightarrow> execution_context" where
  "trim_to_budget cm c = c\<lparr>cx_messages := get_messages_for_inference cm c\<rparr>"

definition clear_context :: "execution_context \<Rightarrow> execution_context" where
  "clear_context c = c\<lparr>cx_messages := [], cx_tool_calls := [], cx_observations := []\<rparr>"

section \<open>What trimming guarantees\<close>

context token_counter
begin

lemma cnt_Cons: "cnt (m # ms) \<le> cnt [m] + cnt ms"
  using cnt_append [of "[m]" ms] by simp

lemma take_recent_cnt: "0 \<le> b \<Longrightarrow> cnt (take_recent cnt ms b sel) \<le> cnt sel + b"
proof (induction ms arbitrary: b sel)
  case (Cons m ms)
  show ?case
  proof (cases "b < cnt [m] \<or> b - cnt [m] \<le> 0")
    case True
    with Cons cnt_Cons [of m sel] show ?thesis by auto
  next
    case False
    then have "cnt (take_recent cnt ms (b - cnt [m]) (m # sel)) \<le> cnt (m # sel) + (b - cnt [m])"
      by (intro Cons.IH) simp
    with False cnt_Cons [of m sel] show ?thesis by simp
  qed
qed simp

lemma trim_cnt:
  assumes "cm_counter cm = cnt" "available_input_tokens cm = Some avail" "0 \<le> avail"
  shows "cnt (trim_messages cm ms) \<le> avail"
proof -
  obtain sys rest where sp: "split_system ms = (sys, rest)" by fastforce
  show ?thesis
  proof (cases sys)
    case None
    with assms sp cnt_Nil take_recent_cnt [of avail "rev rest" "[]"] show ?thesis
      by (simp add: trim_messages_def)
  next
    case (Some s)
    let ?sel = "take_recent cnt (rev rest) (avail - cnt [s]) []"
    have "cnt [s] \<le> avail \<Longrightarrow> cnt (s # ?sel) \<le> avail"
      using take_recent_cnt [of "avail - cnt [s]" "rev rest" "[]"] cnt_Cons [of s ?sel] cnt_Nil
      by linarith
    with assms sp Some cnt_Nil show ?thesis by (simp add: trim_messages_def Let_def)
  qed
qed

lemma inference_messages_fit:
  assumes "cm_counter cm = cnt" "available_input_tokens cm = Some avail" "0 \<le> avail"
  shows "cnt (get_messages_for_inference cm c) \<le> avail"
  using assms trim_cnt [OF assms] cnt_Nil
  by (auto simp: get_messages_for_inference_def Let_def exceeds_budget_def token_count_def)

end

lemma split_system_None: "\<forall>m \<in> set ms. \<not> is_system m \<Longrightarrow> split_system ms = (None, ms)"
  by (induction ms) auto

lemma split_system_append:
  "\<forall>m \<in> set xs. \<not> is_system m \<Longrightarrow> is_system s \<Longrightarrow> split_system (xs @ s # ys) = (Some s, xs @ ys)"
  by (induction xs) auto

lemma split_system_eq:
  "split_system ms = (find is_system ms, case find is_system ms of None \<Rightarrow> ms
     | Some _ \<Rightarrow> takeWhile (\<lambda>m. \<not> is_system m) ms @ tl (dropWhile (\<lambda>m. \<not> is_system m) ms))"
  by (induction ms) (auto split: option.splits)

text \<open>
  What the trimming selects, as indices of the message list: a message is kept exactly when it fits
  in what the newer kept ones leave of the budget, and these have not used it up.
\<close>

definition fits_after :: "(pydict list \<Rightarrow> int) \<Rightarrow> int \<Rightarrow> pydict list \<Rightarrow> nat set \<Rightarrow> nat \<Rightarrow> bool" where
  "fits_after cnt B ms K i \<longleftrightarrow>
     (let newer = {j \<in> K. i < j}; used = (\<Sum>j \<in> newer. cnt [ms ! j]) in
        used + cnt [ms ! i] \<le> B \<and> (newer = {} \<or> used < B))"

definition recent_fit :: "(pydict list \<Rightarrow> int) \<Rightarrow> int \<Rightarrow> pydict list \<Rightarrow> pydict list \<Rightarrow> bool" where
  "recent_fit cnt B ms zs \<longleftrightarrow> (\<exists>K \<subseteq> {..<length ms}. zs = nths ms K
     \<and> (\<forall>i < length ms. i \<in> K \<longleftrightarrow> fits_after cnt B ms K i))"

lemma nths_same: "(\<And>i. i < length xs \<Longrightarrow> i \<in> A \<longleftrightarrow> i \<in> B) \<Longrightarrow> nths xs A = nths xs B"
  unfolding nths_def by (rule arg_cong [where f = "map fst"], rule filter_cong) (auto dest: set_zip_rightD)

lemma fits_after_snoc:
  assumes "K \<subseteq> {..<length ms}" "i < length ms"
  shows "fits_after cnt B (ms @ [m]) K i = fits_after cnt B ms K i"
proof -
  have "(\<Sum>j \<in> {j \<in> K. i < j}. cnt [(ms @ [m]) ! j]) = (\<Sum>j \<in> {j \<in> K. i < j}. cnt [ms ! j])"
    by (rule sum.cong) (use assms(1) in \<open>auto simp: nth_append\<close>)
  with assms(2) show ?thesis by (simp add: fits_after_def Let_def nth_append)
qed

lemma fits_after_kept:
  assumes "K \<subseteq> {..<length ms}" "i < length ms" "0 < B - cnt [m]"
  shows "fits_after cnt B (ms @ [m]) (insert (length ms) K) i = fits_after cnt (B - cnt [m]) ms K i"
proof -
  let ?N = "{j \<in> K. i < j}"
  have fin: "finite ?N" using assms(1) by (simp add: finite_subset)
  have N: "{j \<in> insert (length ms) K. i < j} = insert (length ms) ?N" "length ms \<notin> ?N" using assms(1,2) by auto
  have "(\<Sum>j \<in> ?N. cnt [(ms @ [m]) ! j]) = (\<Sum>j \<in> ?N. cnt [ms ! j])"
    by (rule sum.cong) (use assms(1) in \<open>auto simp: nth_append\<close>)
  then have "(\<Sum>j \<in> insert (length ms) ?N. cnt [(ms @ [m]) ! j]) = cnt [m] + (\<Sum>j \<in> ?N. cnt [ms ! j])"
    using fin N(2) by simp
  moreover have "?N = {} \<Longrightarrow> (\<Sum>j \<in> ?N. cnt [ms ! j]) = 0" by (simp only: sum.empty)
  moreover have "[(ms @ [m]) ! i] = [ms ! i]" using assms(2) by (simp add: nth_append)
  ultimately show ?thesis using assms(3) unfolding fits_after_def Let_def N(1) by force
qed

lemma fits_after_newest: "K \<subseteq> {..length ms} \<Longrightarrow> fits_after cnt B (ms @ [m]) K (length ms) \<longleftrightarrow> cnt [m] \<le> B"
proof -
  assume "K \<subseteq> {..length ms}"
  then have "{j \<in> K. length ms < j} = {}" by auto
  then show ?thesis unfolding fits_after_def Let_def by (simp only: sum.empty) simp
qed

lemma take_recent_fit:
  "\<exists>zs. take_recent cnt (rev ms) B sel = zs @ sel \<and> recent_fit cnt B ms zs"
proof (induction ms arbitrary: B sel rule: rev_induct)
  case Nil
  then show ?case by (simp add: recent_fit_def)
next
  case (snoc m ms)
  let ?n = "length ms"
  show ?case
  proof (cases "B < cnt [m]")
    case True
    obtain K where K: "K \<subseteq> {..<?n}" "take_recent cnt (rev ms) B sel = nths ms K @ sel"
      "\<forall>i < ?n. i \<in> K \<longleftrightarrow> fits_after cnt B ms K i"
      using snoc [of B sel] by (auto simp: recent_fit_def)
    have "K \<subseteq> {..?n}" using K(1) by auto
    from fits_after_newest [OF this, of cnt B m] True
    have "i \<in> K \<longleftrightarrow> fits_after cnt B (ms @ [m]) K i" if "i < Suc ?n" for i
      using that K(1,3) by (cases "i = ?n") (auto simp: fits_after_snoc)
    moreover have "nths (ms @ [m]) K = nths ms K" using K(1) by (auto simp: nths_append)
    ultimately show ?thesis using True K(1,2)
      by (auto simp: recent_fit_def intro!: exI [of _ "nths ms K"] exI [of _ K])
  next
    case False
    show ?thesis
    proof (cases "B - cnt [m] \<le> 0")
      case True
      have "i \<in> {?n} \<longleftrightarrow> fits_after cnt B (ms @ [m]) {?n} i" if "i < Suc ?n" for i
      proof (cases "i = ?n")
        case True
        with \<open>\<not> B < cnt [m]\<close> fits_after_newest [of "{?n}" ms cnt B m] show ?thesis by simp
      next
        case False
        with that have "{j \<in> {?n}. i < j} = {?n}" by auto
        with \<open>B - cnt [m] \<le> 0\<close> False show ?thesis by (simp add: fits_after_def)
      qed
      moreover have "nths (ms @ [m]) {?n} = [m]" using nths_same [of ms "{?n}" "{}"] by (simp add: nths_append)
      ultimately show ?thesis using True False
        by (auto simp: recent_fit_def intro!: exI [of _ "[m]"] exI [of _ "{?n}"])
    next
      case more: False
      obtain K where K: "K \<subseteq> {..<?n}" "take_recent cnt (rev ms) (B - cnt [m]) (m # sel) = nths ms K @ m # sel"
        "\<forall>i < ?n. i \<in> K \<longleftrightarrow> fits_after cnt (B - cnt [m]) ms K i"
        using snoc [of "B - cnt [m]" "m # sel"] by (auto simp: recent_fit_def)
      let ?K = "insert ?n K"
      have "i \<in> ?K \<longleftrightarrow> fits_after cnt B (ms @ [m]) ?K i" if "i < Suc ?n" for i
      proof (cases "i = ?n")
        case True
        have "?K \<subseteq> {..?n}" using K(1) by auto
        from fits_after_newest [OF this, of cnt B m] True False show ?thesis by simp
      next
        case older: False
        with that have "i < ?n" by simp
        with older more K(1,3) show ?thesis by (simp add: fits_after_kept)
      qed
      moreover have "nths (ms @ [m]) ?K = nths ms K @ [m]"
        using nths_same [of ms ?K K] by (simp add: nths_append)
      ultimately show ?thesis using False more K(1,2)
        by (auto simp: recent_fit_def intro!: exI [of _ "nths ms K @ [m]"] exI [of _ ?K])
    qed
  qed
qed

text \<open>
  The first system message is kept, and of the others the recent ones that fit; when the system
  message alone is too large, nothing is left.
\<close>

definition trimmed_to :: "(pydict list \<Rightarrow> int) \<Rightarrow> int \<Rightarrow> pydict list \<Rightarrow> pydict list \<Rightarrow> bool" where
  "trimmed_to cnt avail ms out \<longleftrightarrow> (case find is_system ms of
      None \<Rightarrow> recent_fit cnt avail ms out
    | Some s \<Rightarrow> if avail < cnt [s] then out = []
        else \<exists>zs. out = s # zs \<and> recent_fit cnt (avail - cnt [s])
               (takeWhile (\<lambda>m. \<not> is_system m) ms @ tl (dropWhile (\<lambda>m. \<not> is_system m) ms)) zs)"

lemma trim_messages_spec:
  assumes "available_input_tokens cm = Some avail"
  shows "trimmed_to (cm_counter cm) avail ms (trim_messages cm ms)"
proof (cases "ms = []")
  case True
  then show ?thesis using assms by (simp add: trimmed_to_def trim_messages_def recent_fit_def)
next
  case False
  have fit: "recent_fit (cm_counter cm) B xs (take_recent (cm_counter cm) (rev xs) B [])" for B xs
    using take_recent_fit [of "cm_counter cm" xs B "[]"] by auto
  show ?thesis
    using assms False fit
    by (simp add: trimmed_to_def trim_messages_def split_system_eq Let_def del: rev_append split: option.split)
qed

end
