(* ===== verification/Planner.thy ===== *)
theory Planner
  imports ContextMgr
begin

text \<open>
  The tool registry (\<^verbatim>\<open>tools/registry.py\<close>) and the planner (\<^verbatim>\<open>planner.py\<close>), which turns one response
  of the model into a decision: it validates the message and every tool call of the batch before
  it returns any of them.
\<close>

section \<open>The tool registry\<close>

text \<open>
  \<open>tl_execute\<close> is the Python function of the tool applied to its keyword arguments: a value or the
  exception it raises.
\<close>

record tool =
  tl_name :: string
  tl_description :: string
  tl_input_schema :: pydict
  tl_execute :: "pydict \<Rightarrow> pyval result"

type_synonym tool_registry = "(string \<times> tool) list"

definition new_registry :: tool_registry where
  "new_registry = []"

definition register :: "tool \<Rightarrow> tool_registry \<Rightarrow> tool_registry result" where
  "register t reg =
     (if map_of reg (tl_name t) \<noteq> None then
        raise ValueError (''Tool already registered: '' @ tl_name t)
      else Inr (dset (tl_name t) t reg))"

definition registry_has :: "tool_registry \<Rightarrow> string \<Rightarrow> bool" where
  "registry_has reg n \<longleftrightarrow> map_of reg n \<noteq> None"

definition registry_definitions :: "tool_registry \<Rightarrow> pyval list" where
  "registry_definitions reg = map (\<lambda>(_, t). PDict [(''type'', PStr ''function''),
     (''function'', PDict [(''name'', PStr (tl_name t)), (''description'', PStr (tl_description t)),
        (''parameters'', PDict (tl_input_schema t))])]) reg"

definition registry_execute :: "tool_registry \<Rightarrow> string \<Rightarrow> pydict \<Rightarrow> pyval result" where
  "registry_execute reg n args = (case map_of reg n of
      None \<Rightarrow> raise UnknownToolError (''Unknown tool: '' @ n)
    | Some t \<Rightarrow> (case tl_execute t args of
          Inr v \<Rightarrow> Inr v
        | Inl e \<Rightarrow>
            if isinstance_exc e TypeError then
              raise InvalidToolArgumentsError
                (''Invalid arguments for '' @ [squote] @ n @ [squote] @ '': '' @ exc_msg e)
            else if isinstance_exc e PyException then
              raise ToolExecutionError (''Tool '' @ [squote] @ n @ [squote] @ '' failed'')
            else Inl e))"

text \<open>The names in the registry are the names of its tools, each once.\<close>

definition registry_ok :: "tool_registry \<Rightarrow> bool" where
  "registry_ok reg \<longleftrightarrow> distinct (map fst reg) \<and> (\<forall>(n, t) \<in> set reg. tl_name t = n)"

section \<open>Extraction\<close>

definition agent_protocol_error :: "string \<Rightarrow> 'a result" where
  "agent_protocol_error m = raise AgentProtocolError m"

definition validate_context :: "execution_context \<Rightarrow> unit result" where
  "validate_context c = check (cx_current_step c < 0) AgentProtocolError
     ''Execution context contains invalid current step''"

definition extract_message :: "pyval \<Rightarrow> pydict result" where
  "extract_message response = (case response of
      PDict resp \<Rightarrow> (case dget resp ''choices'' of
          PList [] \<Rightarrow> agent_protocol_error ''Inference response does not contain choices''
        | PList (PDict choice # _) \<Rightarrow> (case dget choice ''message'' of
              PDict message \<Rightarrow> (case dget message ''role'' of
                  PNone \<Rightarrow> Inr message
                | PStr role \<Rightarrow> (if role \<noteq> ''assistant'' then
                      agent_protocol_error
                        (''Inference response message must have role '' @ quoted ''assistant'')
                    else Inr message)
                | _ \<Rightarrow> agent_protocol_error ''Inference message role must be a string'')
            | _ \<Rightarrow> agent_protocol_error ''Inference response does not contain message'')
        | PList _ \<Rightarrow> agent_protocol_error ''Inference response contains invalid choice''
        | _ \<Rightarrow> agent_protocol_error (''Inference response '' @ quoted ''choices'' @ '' must be a list''))
    | _ \<Rightarrow> agent_protocol_error ''Inference response must be an object'')"

fun dicts_of :: "pyval list \<Rightarrow> pydict list option" where
  "dicts_of [] = Some []"
| "dicts_of (PDict d # vs) = map_option (Cons d) (dicts_of vs)"
| "dicts_of (_ # vs) = None"

definition extract_tool_calls :: "pydict \<Rightarrow> pydict list result" where
  "extract_tool_calls message = (case dget message ''tool_calls'' of
      PNone \<Rightarrow> Inr []
    | PList vs \<Rightarrow> (case dicts_of vs of
          None \<Rightarrow> agent_protocol_error ''Tool call must be an object''
        | Some ds \<Rightarrow> Inr ds)
    | _ \<Rightarrow> agent_protocol_error (''Inference message '' @ quoted ''tool_calls'' @ '' must be a list''))"

definition blank_decision :: "decision_type \<Rightarrow> agent_decision" where
  "blank_decision ty = \<lparr>ad_type = ty, ad_content = None, ad_tool_calls = [], ad_tool_name = None,
     ad_arguments = [], ad_call_id = None, ad_error = None\<rparr>"

definition plan_final_response :: "pydict \<Rightarrow> agent_decision result" where
  "plan_final_response message = (case dget message ''content'' of
      PNone \<Rightarrow> agent_protocol_error ''Inference returned neither tool calls nor content''
    | PStr s \<Rightarrow> (let content = py_strip s in
        if content = [] then agent_protocol_error ''Inference returned empty content''
        else Inr (blank_decision DecisionType_FINAL\<lparr>ad_content := Some content\<rparr>))
    | _ \<Rightarrow> agent_protocol_error ''Inference message content must be a string'')"

definition extract_call_id :: "pydict \<Rightarrow> string result" where
  "extract_call_id tc = (case dget tc ''id'' of
      PStr s \<Rightarrow> (if py_strip s = [] then agent_protocol_error ''Tool call has no valid ID''
                else Inr (py_strip s))
    | _ \<Rightarrow> agent_protocol_error ''Tool call has no valid ID'')"

definition extract_function :: "pydict \<Rightarrow> pydict result" where
  "extract_function tc = (case dget tc ''function'' of PDict f \<Rightarrow> Inr f
    | _ \<Rightarrow> agent_protocol_error ''Tool call has invalid function'')"

definition extract_tool_name :: "pydict \<Rightarrow> string result" where
  "extract_tool_name f = (case dget f ''name'' of
      PStr s \<Rightarrow> (if py_strip s = [] then agent_protocol_error ''Tool call has no valid name''
                else Inr (py_strip s))
    | _ \<Rightarrow> agent_protocol_error ''Tool call has no valid name'')"

text \<open>
  \<open>loads\<close> is \<open>json.loads\<close>: a value, or the exception it raises.
\<close>

definition extract_arguments :: "(string \<Rightarrow> pyval result) \<Rightarrow> pydict \<Rightarrow> string \<Rightarrow> pydict result" where
  "extract_arguments loads f tool_name = (case dget_or f ''arguments'' (PStr ''{}'') of
      PStr s \<Rightarrow>
        (let raw = (if py_strip s = [] then ''{}'' else py_strip s) in
         case loads raw of
           Inl e \<Rightarrow> (if isinstance_exc e JSONDecodeError then
               agent_protocol_error (''Invalid JSON arguments for tool '' @ quoted tool_name)
             else Inl e)
         | Inr (PDict d) \<Rightarrow> Inr d
         | Inr _ \<Rightarrow> agent_protocol_error
             (''Arguments for tool '' @ quoted tool_name @ '' must be a JSON object''))
    | _ \<Rightarrow> agent_protocol_error (''Invalid arguments for tool '' @ quoted tool_name
             @ '': arguments must be a JSON string''))"

definition validate_context_policy :: "string \<Rightarrow> execution_context \<Rightarrow> unit result" where
  "validate_context_policy name c = check (cx_current_step c \<le> 0) AgentProtocolError
     (''Invalid execution step for tool '' @ quoted name)"

definition validate_tool :: "tool_registry \<Rightarrow> string \<Rightarrow> execution_context \<Rightarrow> unit result" where
  "validate_tool reg name c =
     (if \<not> registry_has reg name then
        agent_protocol_error (''Unknown tool requested by model: '' @ quoted name)
      else validate_context_policy name c)"

section \<open>Planning\<close>

definition plan_tool_call ::
  "(string \<Rightarrow> pyval result) \<Rightarrow> tool_registry \<Rightarrow> execution_context \<Rightarrow> pydict \<Rightarrow> tool_call result" where
  "plan_tool_call loads reg c tc =
     rbind (extract_call_id tc) (\<lambda>call_id.
     rbind (extract_function tc) (\<lambda>f.
     rbind (extract_tool_name f) (\<lambda>name.
     rbind (extract_arguments loads f name) (\<lambda>args.
     rbind (validate_tool reg name c) (\<lambda>_.
     Inr \<lparr>tc_name = name, tc_arguments = args, tc_call_id = Some call_id\<rparr>)))))"

fun plan_calls ::
  "(string \<Rightarrow> pyval result) \<Rightarrow> tool_registry \<Rightarrow> execution_context \<Rightarrow> pydict list \<Rightarrow> tool_call list result" where
  "plan_calls loads reg c [] = Inr []"
| "plan_calls loads reg c (tc # tcs) =
     rbind (plan_tool_call loads reg c tc) (\<lambda>x.
     rbind (plan_calls loads reg c tcs) (\<lambda>xs. Inr (x # xs)))"

definition plan_tool_calls ::
  "(string \<Rightarrow> pyval result) \<Rightarrow> tool_registry \<Rightarrow> execution_context \<Rightarrow> pydict list \<Rightarrow> agent_decision result" where
  "plan_tool_calls loads reg c tcs =
     rbind (plan_calls loads reg c tcs) (\<lambda>calls. case calls of
         [] \<Rightarrow> agent_protocol_error ''Planner produced an empty tool-call decision''
       | x # _ \<Rightarrow> Inr (blank_decision DecisionType_TOOL_CALL\<lparr>ad_tool_calls := calls,
             ad_tool_name := Some (tc_name x), ad_arguments := tc_arguments x,
             ad_call_id := tc_call_id x\<rparr>))"

definition plan_body ::
  "(string \<Rightarrow> pyval result) \<Rightarrow> tool_registry \<Rightarrow> execution_context \<Rightarrow> pyval \<Rightarrow> agent_decision result" where
  "plan_body loads reg c response =
     rbind (validate_context c) (\<lambda>_.
     rbind (extract_message response) (\<lambda>message.
     rbind (extract_tool_calls message) (\<lambda>tcs.
     if tcs \<noteq> [] then plan_tool_calls loads reg c tcs else plan_final_response message)))"

text \<open>The handlers of \<open>plan\<close>: protocol errors pass, every other exception becomes a planning error.\<close>

definition plan ::
  "(string \<Rightarrow> pyval result) \<Rightarrow> tool_registry \<Rightarrow> execution_context \<Rightarrow> pyval \<Rightarrow> agent_decision result" where
  "plan loads reg c response = (case plan_body loads reg c response of
      Inr d \<Rightarrow> Inr d
    | Inl e \<Rightarrow>
        if isinstance_exc e AgentProtocolError then Inl e
        else if isinstance_exc e PyException then
          raise PlanningError ''Planner failed while creating an agent decision''
        else Inl e)"

section \<open>What planning guarantees\<close>

lemma agent_protocol_error_eq [simp]: "agent_protocol_error m = raise AgentProtocolError m"
  by (simp add: agent_protocol_error_def)

text \<open>A planned call names a registered tool, by a stripped name, and has a stripped identifier.\<close>

definition call_ok :: "tool_registry \<Rightarrow> tool_call \<Rightarrow> bool" where
  "call_ok reg x \<longleftrightarrow> registry_has reg (tc_name x) \<and> tc_name x \<noteq> [] \<and> py_strip (tc_name x) = tc_name x
     \<and> (\<exists>i. tc_call_id x = Some i \<and> i \<noteq> [] \<and> py_strip i = i)"

lemma extract_call_id_Inr:
  "extract_call_id tc = Inr i \<longleftrightarrow> (\<exists>s. dget tc ''id'' = PStr s \<and> py_strip s \<noteq> [] \<and> i = py_strip s)"
  by (cases "dget tc ''id''") (auto simp: extract_call_id_def)

lemma extract_tool_name_Inr:
  "extract_tool_name f = Inr n \<longleftrightarrow> (\<exists>s. dget f ''name'' = PStr s \<and> py_strip s \<noteq> [] \<and> n = py_strip s)"
  by (cases "dget f ''name''") (auto simp: extract_tool_name_def)

lemma validate_tool_Inr:
  "validate_tool reg n c = Inr u \<longleftrightarrow> registry_has reg n \<and> 0 < cx_current_step c"
  by (auto simp: validate_tool_def validate_context_policy_def)

lemma plan_tool_call_ok: "plan_tool_call loads reg c tc = Inr x \<Longrightarrow> call_ok reg x \<and> 0 < cx_current_step c"
  by (auto simp: plan_tool_call_def call_ok_def extract_call_id_Inr extract_tool_name_Inr
      validate_tool_Inr)

lemma plan_calls_ok:
  "plan_calls loads reg c tcs = Inr xs \<Longrightarrow> length xs = length tcs \<and> (\<forall>x \<in> set xs. call_ok reg x)"
  by (induction tcs arbitrary: xs) (auto dest: plan_tool_call_ok)

text \<open>The batch is planned call by call, in the order of the model.\<close>

lemma plan_calls_iff:
  "plan_calls loads reg c tcs = Inr xs \<longleftrightarrow> list_all2 (\<lambda>tc x. plan_tool_call loads reg c tc = Inr x) tcs xs"
  by (induction tcs arbitrary: xs) (auto simp: list_all2_Cons1)

text \<open>One bad call and the whole batch is refused.\<close>

lemma plan_calls_Inl_iff:
  "(\<exists>e. plan_calls loads reg c tcs = Inl e) \<longleftrightarrow> (\<exists>tc \<in> set tcs. \<exists>e. plan_tool_call loads reg c tc = Inl e)"
proof (induction tcs)
  case (Cons tc tcs)
  then show ?case
    by (cases "plan_tool_call loads reg c tc"; cases "plan_calls loads reg c tcs") auto
qed simp

text \<open>
  Every error of planning is a protocol error, or an exception of \<open>json.loads\<close> other than the
  decoding error, which \<open>plan\<close> turns into a planning error.
\<close>

lemma extract_arguments_error:
  "extract_arguments loads f n = Inl e \<Longrightarrow> exc_class e = AgentProtocolError \<or> (\<exists>s. loads s = Inl e)"
  by (auto simp: extract_arguments_def Let_def split: pyval.splits sum.splits if_splits)

lemma plan_tool_call_error:
  "plan_tool_call loads reg c tc = Inl e \<Longrightarrow> exc_class e = AgentProtocolError \<or> (\<exists>s. loads s = Inl e)"
  by (auto simp: plan_tool_call_def rbind_Inl_iff extract_call_id_def extract_function_def
      extract_tool_name_def validate_tool_def validate_context_policy_def
      dest: extract_arguments_error split: pyval.splits if_splits)

lemma plan_calls_error:
  "plan_calls loads reg c tcs = Inl e \<Longrightarrow> exc_class e = AgentProtocolError \<or> (\<exists>s. loads s = Inl e)"
  by (induction tcs) (auto simp: rbind_Inl_iff dest: plan_tool_call_error)

lemma extract_message_error: "extract_message r = Inl e \<Longrightarrow> exc_class e = AgentProtocolError"
  by (auto simp: extract_message_def split: pyval.splits list.splits if_splits)

lemma extract_tool_calls_error: "extract_tool_calls m = Inl e \<Longrightarrow> exc_class e = AgentProtocolError"
  by (auto simp: extract_tool_calls_def split: pyval.splits option.splits)

lemma plan_final_response_error: "plan_final_response m = Inl e \<Longrightarrow> exc_class e = AgentProtocolError"
  by (auto simp: plan_final_response_def Let_def split: pyval.splits if_splits)

lemma plan_tool_calls_error:
  assumes "plan_tool_calls loads reg c tcs = Inl e"
  shows "exc_class e = AgentProtocolError \<or> (\<exists>s. loads s = Inl e)"
proof (cases "plan_calls loads reg c tcs")
  case (Inl x)
  with assms show ?thesis by (auto simp: plan_tool_calls_def dest: plan_calls_error)
next
  case (Inr calls)
  with assms show ?thesis by (cases calls) (auto simp: plan_tool_calls_def)
qed

lemma plan_body_error:
  assumes "plan_body loads reg c r = Inl e"
  shows "exc_class e = AgentProtocolError \<or> (\<exists>s. loads s = Inl e)"
  using assms
  by (auto simp: plan_body_def rbind_Inl_iff validate_context_def
      dest: plan_tool_calls_error extract_message_error extract_tool_calls_error
        plan_final_response_error
      split: if_splits)

lemma plan_errors:
  assumes "plan loads reg c response = Inl e"
    and "\<And>s x. loads s = Inl x \<Longrightarrow> isinstance_exc x PyException"
  shows "exc_class e \<in> {AgentProtocolError, PlanningError}"
proof (cases "plan_body loads reg c response")
  case (Inl x)
  have "isinstance_exc x AgentProtocolError \<or> isinstance_exc x PyException"
    using plan_body_error [OF Inl] assms(2) by (auto simp: isinstance_exc_def)
  with assms(1) Inl show ?thesis
    by (auto simp: plan_def isinstance_exc_def split: if_splits)
qed (use assms(1) in \<open>simp add: plan_def\<close>)

text \<open>The two shapes of a planned decision.\<close>

definition decision_ok :: "tool_registry \<Rightarrow> agent_decision \<Rightarrow> bool" where
  "decision_ok reg d \<longleftrightarrow>
     (ad_type d = DecisionType_FINAL \<and> ad_tool_calls d = []
        \<and> (\<exists>s. ad_content d = Some s \<and> s \<noteq> [] \<and> py_strip s = s))
   \<or> (ad_type d = DecisionType_TOOL_CALL \<and> ad_tool_calls d \<noteq> []
        \<and> (\<forall>x \<in> set (ad_tool_calls d). call_ok reg x)
        \<and> normalized_tool_calls d = ad_tool_calls d)"

lemma plan_final_response_ok: "plan_final_response m = Inr d \<Longrightarrow> decision_ok reg d"
  by (auto simp: plan_final_response_def decision_ok_def blank_decision_def Let_def
      split: pyval.splits if_splits)

lemma plan_tool_calls_Inr:
  "plan_tool_calls loads reg c tcs = Inr d \<longleftrightarrow>
     (\<exists>x xs. plan_calls loads reg c tcs = Inr (x # xs) \<and>
        d = blank_decision DecisionType_TOOL_CALL\<lparr>ad_tool_calls := x # xs,
             ad_tool_name := Some (tc_name x), ad_arguments := tc_arguments x,
             ad_call_id := tc_call_id x\<rparr>)"
proof (cases "plan_calls loads reg c tcs")
  case (Inr calls)
  then show ?thesis by (cases calls) (auto simp: plan_tool_calls_def)
qed (simp add: plan_tool_calls_def)

lemma plan_tool_calls_ok: "plan_tool_calls loads reg c tcs = Inr d \<Longrightarrow> decision_ok reg d"
  by (auto simp: plan_tool_calls_Inr decision_ok_def blank_decision_def normalized_tool_calls_def
      dest!: plan_calls_ok)

lemma plan_Inr_iff: "plan loads reg c response = Inr d \<longleftrightarrow> plan_body loads reg c response = Inr d"
  by (auto simp: plan_def split: sum.splits if_splits)

lemma plan_ok: "plan loads reg c response = Inr d \<Longrightarrow> decision_ok reg d"
  by (auto simp: plan_Inr_iff plan_body_def dest: plan_final_response_ok plan_tool_calls_ok
      split: if_splits)

end
