(* ===== verification/Idempotency.thy ===== *)
theory Idempotency
  imports PyValue
begin

text \<open>
  The idempotency store of tool executions (\<^verbatim>\<open>idempotency.py\<close>): its interface, what the callers
  rely on, and the in-memory store with its claims, records and events.
\<close>

section \<open>The interface\<close>

text \<open>
  \<open>held s k\<close>: some caller has claimed \<open>k\<close> and not finished.  The laws say when a claim is granted
  and what the operations keep.
\<close>

locale idempotency_store =
  fixes get :: "'s \<Rightarrow> string \<Rightarrow> 'r option"
    and claim :: "string \<Rightarrow> 's \<Rightarrow> bool \<times> 's"
    and put :: "string \<Rightarrow> 'r \<Rightarrow> 's \<Rightarrow> 's"
    and release :: "string \<Rightarrow> 's \<Rightarrow> 's"
    and held :: "'s \<Rightarrow> string \<Rightarrow> bool"
  assumes claim_granted: "fst (claim k s) \<longleftrightarrow> \<not> held s k \<and> get s k = None"
    and claim_held: "held (snd (claim k s)) j \<longleftrightarrow> held s j \<or> (j = k \<and> get s k = None)"
    and claim_get: "get (snd (claim k s)) j = get s j"
    and put_get: "get (put k r s) j = (if j = k then Some r else get s j)"
    and put_held: "held (put k r s) j \<longleftrightarrow> held s j \<and> j \<noteq> k"
    and release_get: "get (release k s) j = get s j"
    and release_held: "held (release k s) j \<longleftrightarrow> held s j \<and> j \<noteq> k"

text \<open>The operations of all callers in the order the store performs them.\<close>

datatype 'r idem_op = IdemOp_claim string | IdemOp_put string 'r | IdemOp_release string

fun idem_key :: "'r idem_op \<Rightarrow> string" where
  "idem_key (IdemOp_claim k) = k"
| "idem_key (IdemOp_put k r) = k"
| "idem_key (IdemOp_release k) = k"

fun releases :: "string \<Rightarrow> 'r idem_op list \<Rightarrow> nat" where
  "releases k [] = 0"
| "releases k (IdemOp_release j # ops) = (if j = k then 1 else 0) + releases k ops"
| "releases k (op # ops) = releases k ops"

context idempotency_store
begin

fun apply_op :: "'r idem_op \<Rightarrow> 's \<Rightarrow> 's" where
  "apply_op (IdemOp_claim k) s = snd (claim k s)"
| "apply_op (IdemOp_put k r) s = put k r s"
| "apply_op (IdemOp_release k) s = release k s"

fun apply_ops :: "'r idem_op list \<Rightarrow> 's \<Rightarrow> 's" where
  "apply_ops [] s = s"
| "apply_ops (op # ops) s = apply_ops ops (apply_op op s)"

text \<open>How many claims of \<open>k\<close> are granted along a sequence.\<close>

fun grants :: "string \<Rightarrow> 'r idem_op list \<Rightarrow> 's \<Rightarrow> nat" where
  "grants k [] s = 0"
| "grants k (op # ops) s =
     (if op = IdemOp_claim k \<and> fst (claim k s) then 1 else 0) + grants k ops (apply_op op s)"

text \<open>Whether a claim of \<open>k\<close> would be granted.\<close>

definition free :: "'s \<Rightarrow> string \<Rightarrow> bool" where
  "free s k \<longleftrightarrow> \<not> held s k \<and> get s k = None"

lemma free_apply_op:
  "free (apply_op op s) k \<Longrightarrow> free s k \<or> (op = IdemOp_release k)"
  by (cases op) (auto simp: free_def claim_held claim_get put_get put_held release_get release_held
      split: if_splits)

lemma free_claimed: "\<not> free (snd (claim k s)) k"
  by (cases "get s k") (simp_all add: free_def claim_held claim_get)

text \<open>
  Between two grants of one key lies a release of it: every execution but the last one failed.
\<close>

lemma grants_bound: "grants k ops s \<le> (if free s k then 1 else 0) + releases k ops"
proof (induction ops arbitrary: s)
  case (Cons op ops)
  have ih: "grants k ops (apply_op op s) \<le> (if free (apply_op op s) k then 1 else 0) + releases k ops"
    by (rule Cons.IH)
  show ?case
  proof (cases "op = IdemOp_claim k \<and> fst (claim k s)")
    case True
    then have "\<not> free (apply_op op s) k" "free s k"
      using free_claimed by (auto simp: free_def claim_granted)
    with True ih show ?thesis by simp
  next
    case False
    have "releases k (op # ops) = (if op = IdemOp_release k then 1 else 0) + releases k ops"
      by (cases op) auto
    with False ih free_apply_op [of op s k] show ?thesis by (auto split: if_splits)
  qed
qed simp

text \<open>A recorded result is never claimed again, and stays recorded.\<close>

lemma recorded_no_grant: "get s k \<noteq> None \<Longrightarrow> grants k ops s = 0"
proof (induction ops arbitrary: s)
  case (Cons op ops)
  from Cons.prems have "get (apply_op op s) k \<noteq> None"
    by (cases op) (simp_all add: claim_get put_get release_get)
  then have "grants k ops (apply_op op s) = 0" by (rule Cons.IH)
  with Cons.prems show ?case by (simp add: claim_granted)
qed simp

lemma recorded_stays: "get s k \<noteq> None \<Longrightarrow> get (apply_ops ops s) k \<noteq> None"
proof (induction ops arbitrary: s)
  case (Cons op ops)
  from Cons.prems have "get (apply_op op s) k \<noteq> None"
    by (cases op) (simp_all add: claim_get put_get release_get)
  then show ?case using Cons.IH by simp
qed simp

end

section \<open>The in-memory store\<close>

text \<open>
  An event is an object of its own: a claim replaces the key's event while waiters may still hold
  the old one.  \<open>im_events\<close> maps a key to the number of its event, \<open>im_set\<close> lists the events
  that are set, \<open>im_next\<close> is the number of the next event.
\<close>

record 'r idem_store =
  im_records :: "(string \<times> 'r) list"
  im_claimed :: "string list"
  im_events :: "(string \<times> nat) list"
  im_set :: "nat list"
  im_next :: nat

definition new_idem_store :: "'r idem_store" where
  "new_idem_store = \<lparr>im_records = [], im_claimed = [], im_events = [], im_set = [], im_next = 0\<rparr>"

definition idem_get :: "'r idem_store \<Rightarrow> string \<Rightarrow> 'r option" where
  "idem_get s k = map_of (im_records s) k"

definition idem_claim :: "string \<Rightarrow> 'r idem_store \<Rightarrow> bool \<times> 'r idem_store" where
  "idem_claim k s =
     (if k \<in> set (im_claimed s) then (False, s)
      else if map_of (im_records s) k \<noteq> None then (False, s)
      else (True, s\<lparr>im_claimed := k # im_claimed s, im_events := dset k (im_next s) (im_events s),
                    im_next := im_next s + 1\<rparr>))"

definition set_idem_event :: "string \<Rightarrow> 'r idem_store \<Rightarrow> 'r idem_store" where
  "set_idem_event k s = (case map_of (im_events s) k of None \<Rightarrow> s
     | Some ev \<Rightarrow> s\<lparr>im_set := ev # im_set s\<rparr>)"

definition idem_put :: "string \<Rightarrow> 'r \<Rightarrow> 'r idem_store \<Rightarrow> 'r idem_store" where
  "idem_put k r s = set_idem_event k (s\<lparr>im_records := dset k r (im_records s),
     im_claimed := removeAll k (im_claimed s)\<rparr>)"

definition idem_release :: "string \<Rightarrow> 'r idem_store \<Rightarrow> 'r idem_store" where
  "idem_release k s = set_idem_event k (s\<lparr>im_claimed := removeAll k (im_claimed s)\<rparr>)"

text \<open>\<open>wait\<close> before its \<open>await\<close>: the record at once, an error, or the event to wait for.\<close>

datatype 'r idem_wait = IdemReady 'r | IdemBlocked nat

definition idem_wait_begin :: "string \<Rightarrow> 'r idem_store \<Rightarrow> 'r idem_wait result" where
  "idem_wait_begin k s = (case map_of (im_records s) k of
      Some r \<Rightarrow> Inr (IdemReady r)
    | None \<Rightarrow> (case map_of (im_events s) k of
          None \<Rightarrow> raise RuntimeError (''No in-flight operation exists for key: '' @ k)
        | Some ev \<Rightarrow> Inr (IdemBlocked ev)))"

definition idem_wait_end :: "string \<Rightarrow> 'r idem_store \<Rightarrow> 'r result" where
  "idem_wait_end k s = (case map_of (im_records s) k of
      None \<Rightarrow> raise RuntimeError (''Idempotency operation did not produce a result for key: '' @ k)
    | Some r \<Rightarrow> Inr r)"

definition idem_held :: "'r idem_store \<Rightarrow> string \<Rightarrow> bool" where
  "idem_held s k \<longleftrightarrow> k \<in> set (im_claimed s)"

lemma set_idem_event_frame [simp]:
  "im_records (set_idem_event k s) = im_records s"
  "im_claimed (set_idem_event k s) = im_claimed s"
  "im_events (set_idem_event k s) = im_events s"
  "im_next (set_idem_event k s) = im_next s"
  by (auto simp: set_idem_event_def split: option.splits)

interpretation mem_idem: idempotency_store idem_get idem_claim idem_put idem_release idem_held
  by unfold_locales (auto simp: idem_get_def idem_claim_def idem_put_def idem_release_def idem_held_def)

section \<open>No lost wake-up\<close>

text \<open>
  Every event ever created is set, unless it is the current event of a key that is still claimed.
\<close>

definition idem_inv :: "'r idem_store \<Rightarrow> bool" where
  "idem_inv s \<longleftrightarrow> (\<forall>k \<in> set (im_claimed s). map_of (im_events s) k \<noteq> None)
     \<and> (\<forall>k ev. map_of (im_events s) k = Some ev \<longrightarrow> ev < im_next s)
     \<and> (\<forall>ev < im_next s. ev \<in> set (im_set s) \<or>
          (\<exists>k \<in> set (im_claimed s). map_of (im_events s) k = Some ev))"

lemma new_idem_store_inv: "idem_inv new_idem_store"
  by (simp add: idem_inv_def new_idem_store_def)

lemma idem_claim_inv: "idem_inv s \<Longrightarrow> idem_inv (snd (idem_claim k s))"
  unfolding idem_inv_def idem_claim_def by (auto simp: less_Suc_eq split: if_splits)

lemma unclaim_inv:
  assumes inv: "idem_inv s"
  shows "idem_inv (set_idem_event k (s\<lparr>im_claimed := removeAll k (im_claimed s)\<rparr>))"
proof (cases "map_of (im_events s) k")
  case None
  then have "k \<notin> set (im_claimed s)" using inv by (auto simp: idem_inv_def)
  with None inv show ?thesis by (simp add: set_idem_event_def)
next
  case (Some ev)
  have "e \<in> set (ev # im_set s) \<or> (\<exists>j \<in> set (removeAll k (im_claimed s)). map_of (im_events s) j = Some e)"
    if "e < im_next s" for e
  proof (cases "e \<in> set (im_set s) \<or> e = ev")
    case False
    with inv that obtain j where "j \<in> set (im_claimed s)" "map_of (im_events s) j = Some e"
      by (auto simp: idem_inv_def)
    with False Some show ?thesis by (intro disjI2 bexI [of _ j]) auto
  qed auto
  with inv Some show ?thesis by (simp add: idem_inv_def set_idem_event_def)
qed

lemma idem_inv_records [simp]: "idem_inv (s\<lparr>im_records := rs\<rparr>) = idem_inv s"
  by (simp add: idem_inv_def)

lemma idem_release_inv: "idem_inv s \<Longrightarrow> idem_inv (idem_release k s)"
  by (simp add: idem_release_def unclaim_inv)

lemma idem_put_inv: "idem_inv s \<Longrightarrow> idem_inv (idem_put k r s)"
  using unclaim_inv [of "s\<lparr>im_records := dset k r (im_records s)\<rparr>" k] by (simp add: idem_put_def)

lemma apply_ops_inv: "idem_inv s \<Longrightarrow> idem_inv (mem_idem.apply_ops ops s)"
proof (induction ops arbitrary: s)
  case (Cons op ops)
  have "idem_inv (mem_idem.apply_op op s)"
    using Cons.prems by (cases op) (simp_all add: idem_claim_inv idem_put_inv idem_release_inv)
  then show ?case using Cons.IH by simp
qed simp

text \<open>
  A caller that lost the claim never waits for ever: once nobody holds a key, every event a
  waiter of any key may hold is set, or belongs to another key still being worked on.
\<close>

lemma blocked_event:
  assumes "idem_inv s" "idem_wait_begin k s = Inr (IdemBlocked ev)"
  shows "ev < im_next s"
  using assms by (auto simp: idem_inv_def idem_wait_begin_def split: option.splits)

lemma idle_store_wakes_all:
  "idem_inv s \<Longrightarrow> im_claimed s = [] \<Longrightarrow> ev < im_next s \<Longrightarrow> ev \<in> set (im_set s)"
  by (auto simp: idem_inv_def)

end
