(* ===== verification/Approval.thy ===== *)
theory Approval
  imports PyValue
begin

text \<open>
  Human approval of tool calls (\<^verbatim>\<open>approval.py\<close>) and the allow-list authorization of tools
  (\<^verbatim>\<open>authorization.py\<close>): the approval manager's two dictionaries and its operations, and the
  two allow-list policies.
\<close>

section \<open>Approval requests\<close>

datatype approval_status = Approval_PENDING | Approval_APPROVED | Approval_REJECTED

fun approval_status_value :: "approval_status \<Rightarrow> string" where
  "approval_status_value Approval_PENDING = ''pending''"
| "approval_status_value Approval_APPROVED = ''approved''"
| "approval_status_value Approval_REJECTED = ''rejected''"

record approval_request =
  ar_approval_id :: string
  ar_execution_id :: string
  ar_call_id :: string
  ar_tool_name :: string
  ar_arguments :: pydict
  ar_status :: approval_status

text \<open>\<open>AllowListApprovalPolicy\<close>: the names that need approval.\<close>

record approval_policy =
  approval_required_tools :: "string list"

definition approval_from_tools :: "string list \<Rightarrow> approval_policy" where
  "approval_from_tools ts = \<lparr>approval_required_tools = remdups ts\<rparr>"

definition requires_approval :: "approval_policy \<Rightarrow> string \<Rightarrow> bool" where
  "requires_approval p tool \<longleftrightarrow> tool \<in> set (approval_required_tools p)"

text \<open>\<open>ApprovalManager\<close>: the requests, and for each one whether its event is set.\<close>

record approval_manager =
  am_requests :: "(string \<times> approval_request) list"
  am_events :: "(string \<times> bool) list"

definition new_approval_manager :: approval_manager where
  "new_approval_manager = \<lparr>am_requests = [], am_events = []\<rparr>"

definition create_request ::
  "string \<Rightarrow> string \<Rightarrow> string \<Rightarrow> string \<Rightarrow> pydict \<Rightarrow> approval_manager
     \<Rightarrow> (approval_request \<times> approval_manager) result" where
  "create_request aid eid cid tool args m =
     (if aid = [] then raise ValueError ''approval_id cannot be empty''
      else if eid = [] then raise ValueError ''execution_id cannot be empty''
      else if cid = [] then raise ValueError ''call_id cannot be empty''
      else if tool = [] then raise ValueError ''tool_name cannot be empty''
      else if map_of (am_requests m) aid \<noteq> None then
        raise ValueError (''Approval request already exists: '' @ aid)
      else let r = \<lparr>ar_approval_id = aid, ar_execution_id = eid, ar_call_id = cid,
                    ar_tool_name = tool, ar_arguments = args, ar_status = Approval_PENDING\<rparr>
           in Inr (r, m\<lparr>am_requests := dset aid r (am_requests m),
                        am_events := dset aid False (am_events m)\<rparr>))"

definition get_request :: "string \<Rightarrow> approval_manager \<Rightarrow> approval_request result" where
  "get_request aid m = (case map_of (am_requests m) aid of
      None \<Rightarrow> raise ApprovalNotFoundError (''Approval request not found: '' @ aid)
    | Some r \<Rightarrow> Inr r)"

text \<open>
  \<open>wait_for_resolution\<close> up to its wait: it returns at once (\<open>Some\<close> of the request), raises, or
  blocks on the event (\<open>None\<close>); the second definition is the part after the wait.
\<close>

definition wait_for_resolution :: "string \<Rightarrow> approval_manager \<Rightarrow> approval_request option result" where
  "wait_for_resolution aid m =
     rbind (get_request aid m) (\<lambda>r.
       if ar_status r \<noteq> Approval_PENDING then Inr (Some r)
       else case map_of (am_events m) aid of
              None \<Rightarrow> raise ApprovalNotFoundError (''Approval event not found: '' @ aid)
            | Some True \<Rightarrow> rbind (get_request aid m) (\<lambda>r. Inr (Some r))
            | Some False \<Rightarrow> Inr None)"

definition after_wait :: "string \<Rightarrow> approval_manager \<Rightarrow> approval_request result" where
  "after_wait aid m = get_request aid m"

definition set_event :: "string \<Rightarrow> (string \<times> bool) list \<Rightarrow> (string \<times> bool) list" where
  "set_event k evs = (case map_of evs k of None \<Rightarrow> evs | Some _ \<Rightarrow> dset k True evs)"

definition approve :: "string \<Rightarrow> approval_manager \<Rightarrow> (approval_request \<times> approval_manager) result" where
  "approve aid m =
     rbind (get_request aid m) (\<lambda>r.
       if ar_status r \<noteq> Approval_PENDING then
         raise ApprovalAlreadyResolvedError (''Approval request already resolved: '' @ aid)
       else let r' = r\<lparr>ar_status := Approval_APPROVED\<rparr>
            in Inr (r', m\<lparr>am_requests := dset aid r' (am_requests m),
                          am_events := set_event aid (am_events m)\<rparr>))"

definition reject :: "string \<Rightarrow> approval_manager \<Rightarrow> (approval_request \<times> approval_manager) result" where
  "reject aid m =
     rbind (get_request aid m) (\<lambda>r.
       if ar_status r \<noteq> Approval_PENDING then
         raise ApprovalAlreadyResolvedError (''Approval request already resolved: '' @ aid)
       else let r' = r\<lparr>ar_status := Approval_REJECTED\<rparr>
            in Inr (r', m\<lparr>am_requests := dset aid r' (am_requests m),
                          am_events := set_event aid (am_events m)\<rparr>))"

section \<open>Authorization\<close>

record tool_authorization =
  allowed_tools :: "string list"

definition authorization_from_tools :: "string list \<Rightarrow> tool_authorization" where
  "authorization_from_tools ts = \<lparr>allowed_tools = remdups ts\<rparr>"

definition authorize :: "tool_authorization \<Rightarrow> string \<Rightarrow> unit result" where
  "authorize a tool =
     (if tool \<notin> set (allowed_tools a) then
        raise ToolAuthorizationError (''Tool '' @ [squote] @ tool @ [squote] @ '' is not authorized'')
      else Inr ())"

lemma authorize_from_tools: "authorize (authorization_from_tools ts) t = Inr () \<longleftrightarrow> t \<in> set ts"
  by (simp add: authorize_def authorization_from_tools_def)

lemma requires_approval_from_tools [simp]:
  "requires_approval (approval_from_tools ts) t \<longleftrightarrow> t \<in> set ts"
  by (simp add: requires_approval_def approval_from_tools_def)

section \<open>The life of a request\<close>

text \<open>
  The operations any task may perform on the manager between two steps of the waiting task.
\<close>

datatype approval_op = ApprovalOp_create string string string string pydict
  | ApprovalOp_approve string | ApprovalOp_reject string

fun apply_approval_op :: "approval_op \<Rightarrow> approval_manager \<Rightarrow> (approval_request \<times> approval_manager) result" where
  "apply_approval_op (ApprovalOp_create a e c t args) m = create_request a e c t args m"
| "apply_approval_op (ApprovalOp_approve a) m = approve a m"
| "apply_approval_op (ApprovalOp_reject a) m = reject a m"

inductive approval_step :: "approval_manager \<Rightarrow> approval_manager \<Rightarrow> bool" where
  performed: "apply_approval_op op m = Inr (r, m') \<Longrightarrow> approval_step m m'"
| refused: "apply_approval_op op m = Inl e \<Longrightarrow> approval_step m m"

inductive_cases approval_stepE: "approval_step m m'"

inductive approval_reachable :: "approval_manager \<Rightarrow> bool" where
  init: "approval_reachable new_approval_manager"
| step: "approval_reachable m \<Longrightarrow> approval_step m m' \<Longrightarrow> approval_reachable m'"

lemmas approval_op_defs = create_request_def approve_def reject_def get_request_def set_event_def Let_def

text \<open>
  The invariant of the manager: a request is stored under its own identifier and has an event,
  which is set exactly when the request is resolved.
\<close>

definition approval_inv :: "approval_manager \<Rightarrow> bool" where
  "approval_inv m \<longleftrightarrow> (\<forall>a r. map_of (am_requests m) a = Some r \<longrightarrow>
       ar_approval_id r = a \<and> ar_execution_id r \<noteq> [] \<and> ar_call_id r \<noteq> [] \<and> ar_tool_name r \<noteq> []
       \<and> map_of (am_events m) a = Some (ar_status r \<noteq> Approval_PENDING))"

lemma apply_approval_op_inv:
  assumes "approval_inv m" "apply_approval_op op m = Inr (r, m')"
  shows "approval_inv m'"
  using assms
  by (cases op) (auto simp: approval_op_defs approval_inv_def split: if_splits option.splits)

lemma approval_reachable_inv: "approval_reachable m \<Longrightarrow> approval_inv m"
proof (induction rule: approval_reachable.induct)
  case init
  show ?case by (simp add: approval_inv_def new_approval_manager_def)
next
  case (step m m')
  from step.hyps(2) step.IH show ?case
    by (auto elim!: approval_stepE dest: apply_approval_op_inv)
qed

text \<open>A resolved request never changes: the first decision is the one every waiter sees.\<close>

lemma resolved_stays:
  assumes "map_of (am_requests m) a = Some r" "ar_status r \<noteq> Approval_PENDING" "approval_step m m'"
  shows "map_of (am_requests m') a = Some r"
  using assms(3)
proof (cases rule: approval_step.cases)
  case (performed op x)
  with assms(1,2) show ?thesis
    by (cases op) (auto simp: approval_op_defs split: if_splits option.splits)
qed (use assms in simp)

lemma request_identity_kept:
  assumes "map_of (am_requests m) a = Some r" "approval_step m m'"
  shows "\<exists>r'. map_of (am_requests m') a = Some r' \<and> r'\<lparr>ar_status := Approval_PENDING\<rparr> = r\<lparr>ar_status := Approval_PENDING\<rparr>"
  using assms(2)
proof (cases rule: approval_step.cases)
  case (performed op x)
  with assms(1) show ?thesis
    by (cases op) (auto simp: approval_op_defs split: if_splits option.splits)
qed (use assms in simp)

text \<open>A waiter blocks exactly on the pending requests, and no reachable state loses its event.\<close>

lemma wait_blocks_iff:
  assumes "approval_inv m" "map_of (am_requests m) a = Some r"
  shows "wait_for_resolution a m = (if ar_status r = Approval_PENDING then Inr None else Inr (Some r))"
  using assms by (auto simp: wait_for_resolution_def get_request_def approval_inv_def)

end
