(* ===== verification/ToolExec.thy ===== *)
theory ToolExec
  imports Planner Idempotency Approval
begin

text \<open>
  Tool execution (\<^verbatim>\<open>tools/executor.py\<close>, \<^verbatim>\<open>tools/idempotency.py\<close>, \<^verbatim>\<open>tools/result.py\<close>,
  \<^verbatim>\<open>sandbox/client.py\<close>): the sandbox client's reading of a reply, the idempotency key, and the
  executor split at the points where it waits.
\<close>

section \<open>The sandbox client\<close>

text \<open>
  Its construction and the body it posts to \<^verbatim>\<open>/execute\<close>.
\<close>

record sandbox_client =
  sc_base_url :: string
  sc_timeout :: time
  sc_connect :: time

definition new_sandbox_client :: "string \<Rightarrow> time \<Rightarrow> sandbox_client" where
  "new_sandbox_client url timeout = \<lparr>sc_base_url = rstrip_slash url, sc_timeout = timeout, sc_connect = 2\<rparr>"

definition sandbox_request :: "string \<Rightarrow> pydict \<Rightarrow> pydict" where
  "sandbox_request name args = [(''tool'', PStr name), (''arguments'', PDict args)]"

text \<open>
  What the HTTP client hands back: one of its exceptions, or a response with its body as JSON
  (\<open>None\<close> when it is not JSON).
\<close>

datatype sandbox_reply = SbConnectError | SbTimeout | SbHTTPError | SbRaised exc
  | SbResponse "pyval option"

definition sandbox_execute :: "sandbox_reply \<Rightarrow> string result" where
  "sandbox_execute reply = (case reply of
      SbConnectError \<Rightarrow> raise SandboxUnavailableError ''Sandbox is unavailable''
    | SbTimeout \<Rightarrow> raise SandboxUnavailableError ''Sandbox request timed out''
    | SbHTTPError \<Rightarrow> raise SandboxUnavailableError ''Sandbox connection failed''
    | SbRaised e \<Rightarrow> Inl e
    | SbResponse None \<Rightarrow> raise SandboxProtocolError ''Sandbox returned invalid JSON''
    | SbResponse (Some (PDict payload)) \<Rightarrow>
        (if dget payload ''ok'' = PBool True then
           (case dget payload ''result'' of PStr r \<Rightarrow> Inr r
            | _ \<Rightarrow> raise SandboxProtocolError ''Sandbox result must be a string'')
         else raise SandboxToolError (case dget payload ''error'' of PStr e \<Rightarrow> e
            | _ \<Rightarrow> ''Sandbox tool execution failed''))
    | SbResponse (Some _) \<Rightarrow> raise SandboxProtocolError ''Sandbox response must be an object'')"

text \<open>A result comes only from a response that says \<open>ok\<close> and carries a string.\<close>

lemma sandbox_execute_Inr:
  "sandbox_execute reply = Inr r \<longleftrightarrow>
     (\<exists>p. reply = SbResponse (Some (PDict p)) \<and> dget p ''ok'' = PBool True \<and> dget p ''result'' = PStr r)"
  by (cases reply) (auto simp: sandbox_execute_def split: option.splits pyval.splits)

section \<open>Idempotency keys\<close>

definition spaced_sorted_opts :: json_opts where
  "spaced_sorted_opts = \<lparr>jo_ascii = True, jo_sort = True, jo_item_sep = '', '', jo_key_sep = '': ''\<rparr>"

text \<open>The text that is hashed, and the key for a hash function \<open>sha\<close> (SHA-256, in hexadecimal).\<close>

definition raw_key :: "string \<Rightarrow> nat \<Rightarrow> string \<Rightarrow> pydict \<Rightarrow> string" where
  "raw_key eid idx tool payload =
     eid @ '':'' @ nat_str idx @ '':'' @ tool @ '':'' @ json_dumps spaced_sorted_opts (PDict payload)"

definition generate_key :: "(string \<Rightarrow> string) \<Rightarrow> string \<Rightarrow> nat \<Rightarrow> string \<Rightarrow> pydict \<Rightarrow> string" where
  "generate_key sha eid idx tool payload = sha (raw_key eid idx tool payload)"

section \<open>Tool results\<close>

record tool_result =
  tr_success :: bool
  tr_output :: pyval
  tr_error :: "string option"
  tr_metadata :: pydict
  tr_duration_seconds :: "time option"

definition tool_result_failed :: "tool_result \<Rightarrow> bool" where
  "tool_result_failed r \<longleftrightarrow> \<not> tr_success r"

definition failure_result :: "string \<Rightarrow> string \<Rightarrow> string \<Rightarrow> time \<Rightarrow> tool_result" where
  "failure_result err err_type name dur = \<lparr>tr_success = False, tr_output = PNone,
     tr_error = Some err,
     tr_metadata = [(''error_type'', PStr err_type), (''tool_name'', PStr name)],
     tr_duration_seconds = Some dur\<rparr>"

section \<open>The executor\<close>

text \<open>
  Its registry, whether it has an idempotency store, and its authorization policy.  The store
  itself is state.  \<open>ctx\<close> is the context argument.
\<close>

record tool_executor =
  te_registry :: tool_registry
  te_idempotent :: bool
  te_authorization :: "tool_authorization option"

text \<open>The sections up to the sandbox call: done, call the sandbox, or wait for another caller.\<close>

datatype exec_next = ExecDone tool_result | ExecSandbox | ExecWait nat

definition discovery_failure :: "tool_executor \<Rightarrow> string \<Rightarrow> time \<Rightarrow> tool_result option" where
  "discovery_failure te name dur =
     (if \<not> registry_has (te_registry te) name
      then Some (failure_result (''Unknown tool: '' @ name) ''unknown_tool'' name dur) else None)"

definition authorization_failure ::
  "tool_executor \<Rightarrow> string \<Rightarrow> execution_context option \<Rightarrow> time \<Rightarrow> tool_result option" where
  "authorization_failure te name ctx dur = (case te_authorization te of
      None \<Rightarrow> None
    | Some auth \<Rightarrow> (case ctx of
          None \<Rightarrow> Some (failure_result ''Execution context is required for tool authorization''
                    ''authorization_context_missing'' name dur)
        | Some _ \<Rightarrow> (case authorize auth name of
              Inr _ \<Rightarrow> None
            | Inl e \<Rightarrow> Some (failure_result (exc_msg e) ''tool_not_authorized'' name dur))))"

text \<open>Whether this call goes through the store, and under which key.\<close>

definition idem_active :: "tool_executor \<Rightarrow> string option \<Rightarrow> string option" where
  "idem_active te key = (if te_idempotent te then key else None)"

definition idempotency_check ::
  "string option \<Rightarrow> tool_result idem_store \<Rightarrow> exec_next result \<times> tool_result idem_store" where
  "idempotency_check key st = (case key of
      None \<Rightarrow> (Inr ExecSandbox, st)
    | Some k \<Rightarrow> (case idem_get st k of
          Some r \<Rightarrow> (Inr (ExecDone r), st)
        | None \<Rightarrow> (case idem_claim k st of (granted, st') \<Rightarrow>
            if granted then (Inr ExecSandbox, st')
            else (case idem_wait_begin k st' of
                Inl e \<Rightarrow> (Inl e, st')
              | Inr (IdemReady r) \<Rightarrow> (Inr (ExecDone r), st')
              | Inr (IdemBlocked ev) \<Rightarrow> (Inr (ExecWait ev), st')))))"

definition tool_exec_begin ::
  "tool_executor \<Rightarrow> string \<Rightarrow> string option \<Rightarrow> execution_context option \<Rightarrow> time
     \<Rightarrow> tool_result idem_store \<Rightarrow> exec_next result \<times> tool_result idem_store" where
  "tool_exec_begin te name key ctx dur st = (case discovery_failure te name dur of
      Some r \<Rightarrow> (Inr (ExecDone r), st)
    | None \<Rightarrow> (case authorization_failure te name ctx dur of
          Some r \<Rightarrow> (Inr (ExecDone r), st)
        | None \<Rightarrow> idempotency_check (idem_active te key) st))"

text \<open>After the event of another caller's claim was set.\<close>

definition tool_exec_waited :: "string option \<Rightarrow> tool_result idem_store \<Rightarrow> tool_result result" where
  "tool_exec_waited key st = (case key of
      None \<Rightarrow> raise RuntimeError ''''
    | Some k \<Rightarrow> idem_wait_end k st)"

text \<open>After the sandbox call ended, with its output or an exception.\<close>

definition tool_exec_finish ::
  "tool_executor \<Rightarrow> string \<Rightarrow> string option \<Rightarrow> time \<Rightarrow> string result
     \<Rightarrow> tool_result idem_store \<Rightarrow> tool_result result \<times> tool_result idem_store" where
  "tool_exec_finish te name key dur outcome st = (case outcome of
      Inl e \<Rightarrow>
        if isinstance_exc e PyException then
          (Inr (failure_result (exc_msg e) (type_name (exc_class e)) name dur),
           case idem_active te key of None \<Rightarrow> st | Some k \<Rightarrow> idem_release k st)
        else (Inl e, st)
    | Inr out \<Rightarrow>
        let r = \<lparr>tr_success = True, tr_output = PStr out, tr_error = None,
                 tr_metadata = [(''tool_name'', PStr name)], tr_duration_seconds = Some dur\<rparr>
        in (Inr r, case idem_active te key of None \<Rightarrow> st | Some k \<Rightarrow> idem_put k r st))"

section \<open>What the executor guarantees\<close>

lemmas tool_exec_defs = tool_exec_begin_def discovery_failure_def authorization_failure_def
  idempotency_check_def

lemma tool_exec_begin_sandbox:
  assumes "tool_exec_begin te name key ctx dur st = (Inr ExecSandbox, st')"
  shows "registry_has (te_registry te) name
     \<and> (\<forall>auth. te_authorization te = Some auth \<longrightarrow> ctx \<noteq> None \<and> authorize auth name = Inr ())
     \<and> (\<forall>k. idem_active te key = Some k \<longrightarrow> idem_claim k st = (True, st') \<and> idem_get st k = None)
     \<and> (idem_active te key = None \<longrightarrow> st' = st)"
  using assms
  by (auto simp: tool_exec_defs split: if_splits option.splits sum.splits prod.splits idem_wait.splits)

text \<open>A caller that reaches the sandbox holds its key; nobody else can reach it with that key.\<close>

lemma tool_exec_begin_holds:
  assumes "tool_exec_begin te name key ctx dur st = (Inr ExecSandbox, st')" "idem_active te key = Some k"
  shows "idem_held st' k \<and> \<not> idem_held st k"
proof -
  have "idem_claim k st = (True, st')"
    using tool_exec_begin_sandbox [OF assms(1)] assms(2) by blast
  then show ?thesis
    using mem_idem.claim_granted [of k st] mem_idem.claim_held [of k st k] by auto
qed

lemma held_key_blocks:
  assumes "idem_active te key = Some k" "idem_held st k"
  shows "tool_exec_begin te name key ctx dur st \<noteq> (Inr ExecSandbox, st')"
  using tool_exec_begin_holds [OF _ assms(1)] assms(2) by blast

text \<open>An executor with a policy refuses every call made without a context.\<close>

lemma no_context_refused:
  assumes "te_authorization te = Some auth" "registry_has (te_registry te) name"
  shows "tool_exec_begin te name key None dur st =
     (Inr (ExecDone (failure_result ''Execution context is required for tool authorization''
        ''authorization_context_missing'' name dur)), st)"
  using assms by (simp add: tool_exec_begin_def discovery_failure_def authorization_failure_def)

end
