(* ===== verification/ExecLimits.thy ===== *)
theory ExecLimits
  imports PyValue
begin

text \<open>
  The execution policy (\<^verbatim>\<open>execution_limits.py\<close>): the limits record with its validation, the
  admission checks and the remaining budgets, and the agreement of the two.
\<close>

text \<open>A float the code prints: its value and the text \<open>repr\<close> gives for it.\<close>

record pyfloat =
  fl_val :: time
  fl_text :: string

record execution_limits =
  max_steps :: int
  max_tool_calls :: int
  max_repeated_tool_calls :: int
  timeout_seconds :: pyfloat
  per_tool_limits :: "(string \<times> int) list"
  max_parallel_tool_calls :: int

definition default_limits :: execution_limits where
  "default_limits = \<lparr>max_steps = 10, max_tool_calls = 20, max_repeated_tool_calls = 3,
     timeout_seconds = \<lparr>fl_val = 60, fl_text = ''60.0''\<rparr>, per_tool_limits = [],
     max_parallel_tool_calls = 4\<rparr>"

fun validate_per_tool_limits :: "(string \<times> int) list \<Rightarrow> unit result" where
  "validate_per_tool_limits [] = Inr ()"
| "validate_per_tool_limits ((n, l) # rest) =
     (if n = [] then raise ValueError ''per_tool_limits contains an empty tool name''
      else if l < 0 then raise ValueError ''per_tool_limits values cannot be negative''
      else validate_per_tool_limits rest)"

text \<open>\<open>__post_init__\<close>: construction fails or gives the record itself.\<close>

definition new_limits :: "execution_limits \<Rightarrow> execution_limits result" where
  "new_limits l =
     (if max_steps l \<le> 0 then raise ValueError ''max_steps must be greater than zero''
      else if max_tool_calls l \<le> 0 then raise ValueError ''max_tool_calls must be greater than zero''
      else if max_repeated_tool_calls l \<le> 0 then
        raise ValueError ''max_repeated_tool_calls must be greater than zero''
      else if fl_val (timeout_seconds l) \<le> 0 then
        raise ValueError ''timeout_seconds must be greater than zero''
      else if max_parallel_tool_calls l \<le> 0 then
        raise ValueError ''max_parallel_tool_calls must be greater than zero''
      else rbind (validate_per_tool_limits (per_tool_limits l)) (\<lambda>_. Inr l))"

definition validate_step :: "execution_limits \<Rightarrow> int \<Rightarrow> unit result" where
  "validate_step l st =
     (if st \<le> 0 then raise ValueError ''step must be greater than zero''
      else if max_steps l < st then
        raise AgentMaxStepsError (''Agent exceeded maximum steps: '' @ int_str (max_steps l))
      else Inr ())"

definition validate_tool_call :: "execution_limits \<Rightarrow> int \<Rightarrow> unit result" where
  "validate_tool_call l n =
     (if n < 0 then raise ValueError ''tool_calls cannot be negative''
      else if max_tool_calls l \<le> n then
        raise ExecutionLimitExceeded
          (''Agent exceeded maximum tool calls: '' @ int_str (max_tool_calls l))
      else Inr ())"

definition validate_repeated_tool_call :: "execution_limits \<Rightarrow> int \<Rightarrow> unit result" where
  "validate_repeated_tool_call l n =
     (if n < 0 then raise ValueError ''repeated_calls cannot be negative''
      else if max_repeated_tool_calls l \<le> n then
        raise ExecutionLimitExceeded
          (''Agent exceeded maximum repeated tool calls: '' @ int_str (max_repeated_tool_calls l))
      else Inr ())"

definition validate_per_tool_call :: "execution_limits \<Rightarrow> string \<Rightarrow> int \<Rightarrow> unit result" where
  "validate_per_tool_call l tool n =
     (if tool = [] then raise ValueError ''tool_name cannot be empty''
      else if n < 0 then raise ValueError ''tool_calls cannot be negative''
      else case map_of (per_tool_limits l) tool of
             None \<Rightarrow> Inr ()
           | Some m \<Rightarrow> (if m \<le> n then
               raise ExecutionLimitExceeded (''Agent exceeded maximum calls for tool ''
                 @ [squote] @ tool @ [squote] @ '': '' @ int_str m @ '' (per-tool limit exceeded)'')
             else Inr ()))"

definition validate_timeout :: "execution_limits \<Rightarrow> time \<Rightarrow> time \<Rightarrow> unit result" where
  "validate_timeout l now started =
     (if fl_val (timeout_seconds l) \<le> now - started then
        raise ExecutionLimitExceeded
          (''Agent execution exceeded timeout: '' @ fl_text (timeout_seconds l) @ '' seconds'')
      else Inr ())"

definition remaining_steps :: "execution_limits \<Rightarrow> int \<Rightarrow> int result" where
  "remaining_steps l n =
     (if n < 0 then raise ValueError ''current_step cannot be negative''
      else Inr (max (max_steps l - n) 0))"

definition remaining_tool_calls :: "execution_limits \<Rightarrow> int \<Rightarrow> int result" where
  "remaining_tool_calls l n =
     (if n < 0 then raise ValueError ''tool_calls cannot be negative''
      else Inr (max (max_tool_calls l - n) 0))"

definition remaining_repeated_tool_calls :: "execution_limits \<Rightarrow> int \<Rightarrow> int result" where
  "remaining_repeated_tool_calls l n =
     (if n < 0 then raise ValueError ''repeated_calls cannot be negative''
      else Inr (max (max_repeated_tool_calls l - n) 0))"

definition remaining_per_tool_calls ::
  "execution_limits \<Rightarrow> string \<Rightarrow> int \<Rightarrow> int option result" where
  "remaining_per_tool_calls l tool n =
     (if tool = [] then raise ValueError ''tool_name cannot be empty''
      else if n < 0 then raise ValueError ''tool_calls cannot be negative''
      else Inr (case map_of (per_tool_limits l) tool of None \<Rightarrow> None | Some m \<Rightarrow> Some (max (m - n) 0)))"

definition remaining_timeout :: "execution_limits \<Rightarrow> time \<Rightarrow> time \<Rightarrow> time" where
  "remaining_timeout l now started = max (fl_val (timeout_seconds l) - (now - started)) 0"

section \<open>Well-formed limits\<close>

definition limits_ok :: "execution_limits \<Rightarrow> bool" where
  "limits_ok l \<longleftrightarrow> 0 < max_steps l \<and> 0 < max_tool_calls l \<and> 0 < max_repeated_tool_calls l
     \<and> 0 < fl_val (timeout_seconds l) \<and> 0 < max_parallel_tool_calls l
     \<and> (\<forall>(n, m) \<in> set (per_tool_limits l). n \<noteq> [] \<and> 0 \<le> m)"

lemma validate_per_tool_limits_iff:
  "validate_per_tool_limits ps = Inr () \<longleftrightarrow> (\<forall>(n, m) \<in> set ps. n \<noteq> [] \<and> 0 \<le> m)"
  by (induction ps rule: validate_per_tool_limits.induct) auto

text \<open>Construction succeeds on the well-formed limits only, and every failure is a \<open>ValueError\<close>.\<close>

lemma new_limits_iff: "new_limits l = Inr l' \<longleftrightarrow> l' = l \<and> limits_ok l"
  by (auto simp: new_limits_def limits_ok_def validate_per_tool_limits_iff)

lemma validate_per_tool_limits_error:
  "validate_per_tool_limits ps = Inl e \<Longrightarrow> exc_class e = ValueError"
  by (induction ps rule: validate_per_tool_limits.induct) (auto split: if_splits)

lemma new_limits_error: "new_limits l = Inl e \<Longrightarrow> exc_class e = ValueError"
  by (auto simp: new_limits_def rbind_Inl_iff validate_per_tool_limits_error split: if_splits)

lemma default_limits_ok: "limits_ok default_limits"
  by (simp add: limits_ok_def default_limits_def)

text \<open>An admission check passes exactly when the remaining budget is positive.\<close>

lemma validate_step_budget:
  "validate_step l (n + 1) = Inr () \<longleftrightarrow> (\<exists>r. remaining_steps l n = Inr r \<and> 0 < r)"
  by (auto simp: validate_step_def remaining_steps_def)

lemma validate_tool_call_budget:
  "validate_tool_call l n = Inr () \<longleftrightarrow> (\<exists>r. remaining_tool_calls l n = Inr r \<and> 0 < r)"
  by (auto simp: validate_tool_call_def remaining_tool_calls_def)

lemma validate_repeated_budget:
  "validate_repeated_tool_call l n = Inr () \<longleftrightarrow>
     (\<exists>r. remaining_repeated_tool_calls l n = Inr r \<and> 0 < r)"
  by (auto simp: validate_repeated_tool_call_def remaining_repeated_tool_calls_def)

lemma validate_per_tool_budget:
  "validate_per_tool_call l t n = Inr () \<longleftrightarrow>
     (\<exists>r. remaining_per_tool_calls l t n = Inr r \<and> (\<forall>k. r = Some k \<longrightarrow> 0 < k))"
  by (auto simp: validate_per_tool_call_def remaining_per_tool_calls_def split: option.splits)

lemma validate_timeout_budget:
  "validate_timeout l now st = Inr () \<longleftrightarrow> 0 < remaining_timeout l now st"
  by (auto simp: validate_timeout_def remaining_timeout_def)

lemma validate_tool_call_Inr [simp]:
  "validate_tool_call l n = Inr u \<longleftrightarrow> 0 \<le> n \<and> n < max_tool_calls l"
  by (auto simp: validate_tool_call_def)

lemma validate_repeated_Inr [simp]:
  "validate_repeated_tool_call l n = Inr u \<longleftrightarrow> 0 \<le> n \<and> n < max_repeated_tool_calls l"
  by (auto simp: validate_repeated_tool_call_def)

lemma validate_per_tool_Inr [simp]:
  "validate_per_tool_call l t n = Inr u \<longleftrightarrow> t \<noteq> [] \<and> 0 \<le> n
     \<and> (\<forall>m. map_of (per_tool_limits l) t = Some m \<longrightarrow> n < m)"
  by (auto simp: validate_per_tool_call_def split: option.splits)

text \<open>Admission and budget agree: each of the five \<open>validate\<close> methods lets a call pass exactly
  when the matching \<open>remaining\<close> method still reports something left.\<close>

lemma admission_agrees_with_budget:
  "(validate_step l (k + 1) = Inr () \<longleftrightarrow> (\<exists>r. remaining_steps l k = Inr r \<and> 0 < r))
   \<and> (validate_tool_call l k = Inr () \<longleftrightarrow> (\<exists>r. remaining_tool_calls l k = Inr r \<and> 0 < r))
   \<and> (validate_repeated_tool_call l k = Inr () \<longleftrightarrow> (\<exists>r. remaining_repeated_tool_calls l k = Inr r \<and> 0 < r))
   \<and> (validate_per_tool_call l t k = Inr () \<longleftrightarrow>
        (\<exists>r. remaining_per_tool_calls l t k = Inr r \<and> (case r of None \<Rightarrow> True | Some j \<Rightarrow> 0 < j)))
   \<and> (validate_timeout l now started = Inr () \<longleftrightarrow> 0 < remaining_timeout l now started)"
proof -
  have eq: "(\<forall>j. r = Some j \<longrightarrow> 0 < j) = (case r of None \<Rightarrow> True | Some j \<Rightarrow> 0 < j)" for r :: "int option"
    by (cases r) auto
  show ?thesis
    by (intro conjI validate_step_budget validate_tool_call_budget validate_repeated_budget
        validate_timeout_budget validate_per_tool_budget [of l t k, unfolded eq])
qed

end
