(* ===== verification/EventStream.thy ===== *)
theory EventStream
  imports PyValue
begin

text \<open>
  Agent events and the stream that carries them to a consumer (\<^verbatim>\<open>event_types.py\<close>, \<^verbatim>\<open>events.py\<close>,
  \<^verbatim>\<open>event_stream.py\<close>).
\<close>

section \<open>Events\<close>

datatype agent_event_type = EXECUTION_STARTED | EXECUTION_COMPLETED | EXECUTION_FAILED
  | EXECUTION_CANCELLED | INFERENCE_STARTED | INFERENCE_COMPLETED | TOOL_CALL_STARTED
  | TOOL_CALL_COMPLETED | APPROVAL_REQUIRED | APPROVAL_RESOLVED | STEP_STARTED

fun event_type_value :: "agent_event_type \<Rightarrow> string" where
  "event_type_value EXECUTION_STARTED = ''execution_started''"
| "event_type_value EXECUTION_COMPLETED = ''execution_completed''"
| "event_type_value EXECUTION_FAILED = ''execution_failed''"
| "event_type_value EXECUTION_CANCELLED = ''execution_cancelled''"
| "event_type_value INFERENCE_STARTED = ''inference_started''"
| "event_type_value INFERENCE_COMPLETED = ''inference_completed''"
| "event_type_value TOOL_CALL_STARTED = ''tool_call_started''"
| "event_type_value TOOL_CALL_COMPLETED = ''tool_call_completed''"
| "event_type_value APPROVAL_REQUIRED = ''approval_required''"
| "event_type_value APPROVAL_RESOLVED = ''approval_resolved''"
| "event_type_value STEP_STARTED = ''step_started''"

record agent_event =
  ev_type :: string
  ev_execution_id :: string
  ev_data :: pydict

definition new_event :: "string \<Rightarrow> string \<Rightarrow> pydict \<Rightarrow> agent_event result" where
  "new_event ty eid data =
     (if ty = [] then raise ValueError ''Event type cannot be empty''
      else if eid = [] then raise ValueError ''Execution ID cannot be empty''
      else Inr \<lparr>ev_type = ty, ev_execution_id = eid, ev_data = data\<rparr>)"

lemma event_type_value_nonempty [simp]: "event_type_value t \<noteq> []"
  by (cases t) simp_all

lemma event_type_value_inject [simp]: "event_type_value a = event_type_value b \<longleftrightarrow> a = b"
  by (cases a; cases b) simp_all

section \<open>The stream\<close>

datatype stream_item = Item agent_event | CLOSED

record event_stream =
  es_queue :: "stream_item list"
  es_closed :: bool

definition new_stream :: event_stream where
  "new_stream = \<lparr>es_queue = [], es_closed = False\<rparr>"

definition stream_publish :: "agent_event \<Rightarrow> event_stream \<Rightarrow> event_stream result" where
  "stream_publish ev s =
     (if es_closed s then raise RuntimeError ''Cannot publish to a closed event stream''
      else Inr (s\<lparr>es_queue := es_queue s @ [Item ev]\<rparr>))"

definition stream_close :: "event_stream \<Rightarrow> event_stream" where
  "stream_close s =
     (if es_closed s then s else s\<lparr>es_closed := True, es_queue := es_queue s @ [CLOSED]\<rparr>)"

text \<open>One turn of the loop of \<open>events\<close>: it waits, ends, or yields.\<close>

datatype stream_turn = Waits | Ends | Yields agent_event

definition stream_next :: "event_stream \<Rightarrow> stream_turn \<times> event_stream" where
  "stream_next s = (case es_queue s of [] \<Rightarrow> (Waits, s)
     | CLOSED # q \<Rightarrow> (Ends, s\<lparr>es_queue := q\<rparr>)
     | Item ev # q \<Rightarrow> (Yields ev, s\<lparr>es_queue := q\<rparr>))"

section \<open>One producer side, one consumer\<close>

text \<open>
  The stream with what was published, what the consumer got and whether its iteration ended;
  the moves of both sides in any order.
\<close>

record stream_run =
  sr_stream :: event_stream
  sr_published :: "agent_event list"
  sr_got :: "agent_event list"
  sr_ended :: bool

definition new_run :: stream_run where
  "new_run = \<lparr>sr_stream = new_stream, sr_published = [], sr_got = [], sr_ended = False\<rparr>"

datatype stream_move = Publish agent_event | Close | Consume

fun do_move :: "stream_move \<Rightarrow> stream_run \<Rightarrow> stream_run" where
  "do_move (Publish ev) r = (case stream_publish ev (sr_stream r) of
      Inl _ \<Rightarrow> r | Inr s \<Rightarrow> r\<lparr>sr_stream := s, sr_published := sr_published r @ [ev]\<rparr>)"
| "do_move Close r = r\<lparr>sr_stream := stream_close (sr_stream r)\<rparr>"
| "do_move Consume r = (if sr_ended r then r else
     case stream_next (sr_stream r) of
       (Waits, s) \<Rightarrow> r
     | (Ends, s) \<Rightarrow> r\<lparr>sr_stream := s, sr_ended := True\<rparr>
     | (Yields ev, s) \<Rightarrow> r\<lparr>sr_stream := s, sr_got := sr_got r @ [ev]\<rparr>)"

definition stream_moves :: "stream_move list \<Rightarrow> stream_run \<Rightarrow> stream_run" where
  "stream_moves ms r = fold do_move ms r"

text \<open>
  What was published is what was got followed by what is queued; the mark of the end is the last
  item of the queue of a closed stream until it is consumed.
\<close>

definition run_inv :: "stream_run \<Rightarrow> bool" where
  "run_inv r \<longleftrightarrow> (\<exists>pend. sr_published r = sr_got r @ pend \<and>
       (if sr_ended r then es_closed (sr_stream r) \<and> pend = [] \<and> es_queue (sr_stream r) = []
        else es_queue (sr_stream r) = map Item pend @ (if es_closed (sr_stream r) then [CLOSED] else [])))"

lemma do_move_inv: "run_inv r \<Longrightarrow> run_inv (do_move m r)"
proof (cases m)
  case Consume
  assume "run_inv r"
  then obtain pend where p: "sr_published r = sr_got r @ pend"
    "if sr_ended r then es_closed (sr_stream r) \<and> pend = [] \<and> es_queue (sr_stream r) = []
     else es_queue (sr_stream r) = map Item pend @ (if es_closed (sr_stream r) then [CLOSED] else [])"
    unfolding run_inv_def by blast
  show ?thesis
  proof (cases pend)
    case Nil
    with p Consume show ?thesis
      by (cases "sr_ended r"; cases "es_closed (sr_stream r)")
         (simp_all add: run_inv_def stream_next_def)
  next
    case (Cons ev pend')
    with p Consume show ?thesis
      by (auto simp: run_inv_def stream_next_def split: if_splits intro!: exI [of _ pend'])
  qed
next
  case (Publish ev)
  assume "run_inv r"
  with Publish show ?thesis
    by (cases "es_closed (sr_stream r)") (auto simp: run_inv_def stream_publish_def split: if_splits)
next
  case Close
  assume "run_inv r"
  with Close show ?thesis
    by (cases "es_closed (sr_stream r)") (auto simp: run_inv_def stream_close_def split: if_splits)
qed

lemma stream_moves_inv: "run_inv r \<Longrightarrow> run_inv (stream_moves ms r)"
  unfolding stream_moves_def by (induction ms arbitrary: r) (simp_all add: do_move_inv)

lemma new_run_inv: "run_inv new_run"
  by (simp add: run_inv_def new_run_def new_stream_def)

text \<open>
  Consuming everything that is left: after a close, one turn per queued item ends the iteration
  with all that was published.
\<close>

lemma consume_all:
  assumes "run_inv r" "es_closed (sr_stream r)" "length (es_queue (sr_stream r)) \<le> n"
  shows "sr_ended (stream_moves (replicate n Consume) r)
     \<and> sr_got (stream_moves (replicate n Consume) r) = sr_published r"
  using assms
proof (induction n arbitrary: r)
  case 0
  then show ?case by (auto simp: run_inv_def stream_moves_def split: if_splits)
next
  case (Suc n)
  let ?r = "do_move Consume r"
  have inv: "run_inv ?r" by (rule do_move_inv [OF Suc.prems(1)])
  have "sr_published ?r = sr_published r \<and> es_closed (sr_stream ?r)
      \<and> length (es_queue (sr_stream ?r)) \<le> n"
    using Suc.prems
    by (cases "es_queue (sr_stream r)")
       (auto simp: stream_next_def run_inv_def split: if_splits stream_item.splits)
  with Suc.IH [OF inv] show ?case by (simp add: stream_moves_def)
qed

end
