(* ===== verification/Effects.thy ===== *)
theory Effects
  imports Prelude
begin

text \<open>
  Handlers that change state and may raise.  An action maps a state to a result and a state: a
  Python exception does not undo what was done before it, so the state is kept on both sides.
  The second half is the calculus the proofs use: \<open>wp\<close>, the weakest precondition for a normal
  and an exceptional postcondition, and \<open>kept\<close>, for the relations every action respects.
\<close>

section \<open>Actions\<close>

type_synonym ('s, 'a) act = "'s \<Rightarrow> 'a result \<times> 's"

definition ret :: "'a \<Rightarrow> ('s, 'a) act" where
  "ret x s = (Inr x, s)"

definition throw :: "exc \<Rightarrow> ('s, 'a) act" where
  "throw e s = (Inl e, s)"

definition bnd :: "('s, 'a) act \<Rightarrow> ('a \<Rightarrow> ('s, 'b) act) \<Rightarrow> ('s, 'b) act" where
  "bnd m f s = (case m s of (Inl e, s') \<Rightarrow> (Inl e, s') | (Inr x, s') \<Rightarrow> f x s')"

definition seq :: "('s, 'a) act \<Rightarrow> ('s, 'b) act \<Rightarrow> ('s, 'b) act" where
  "seq m n = bnd m (\<lambda>_. n)"

text \<open>\<open>try: m except: h\<close>, where \<open>h\<close> selects on the exception and re-raises what it does not handle.\<close>

definition catch :: "('s, 'a) act \<Rightarrow> (exc \<Rightarrow> ('s, 'a) act) \<Rightarrow> ('s, 'a) act" where
  "catch m h s = (case m s of (Inl e, s') \<Rightarrow> h e s' | (Inr x, s') \<Rightarrow> (Inr x, s'))"

text \<open>\<open>try: m finally: f\<close>.\<close>

definition ensure :: "('s, 'a) act \<Rightarrow> ('s, unit) act \<Rightarrow> ('s, 'a) act" where
  "ensure m f s = (case m s of (r, s') \<Rightarrow> (case f s' of (Inr _, s'') \<Rightarrow> (r, s'') | (Inl e, s'') \<Rightarrow> (Inl e, s'')))"

definition gets :: "('s \<Rightarrow> 'a) \<Rightarrow> ('s, 'a) act" where
  "gets f s = (Inr (f s), s)"

definition modify :: "('s \<Rightarrow> 's) \<Rightarrow> ('s, unit) act" where
  "modify f s = (Inr (), f s)"

definition lift_res :: "'a result \<Rightarrow> ('s, 'a) act" where
  "lift_res r s = (r, s)"

definition guarded :: "bool \<Rightarrow> ('s, unit) act \<Rightarrow> ('s, unit) act" where
  "guarded b m = (if b then m else ret ())"

primrec for_each :: "'b list \<Rightarrow> ('b \<Rightarrow> ('s, unit) act) \<Rightarrow> ('s, unit) act" where
  "for_each [] f = ret ()"
| "for_each (x # xs) f = seq (f x) (for_each xs f)"

text \<open>A loop that collects a value per element.\<close>

primrec collect :: "'b list \<Rightarrow> ('b \<Rightarrow> ('s, 'a) act) \<Rightarrow> ('s, 'a list) act" where
  "collect [] f = ret []"
| "collect (x # xs) f = bnd (f x) (\<lambda>y. bnd (collect xs f) (\<lambda>ys. ret (y # ys)))"

section \<open>Weakest preconditions\<close>

definition wp :: "('s, 'a) act \<Rightarrow> ('a \<Rightarrow> 's \<Rightarrow> bool) \<Rightarrow> (exc \<Rightarrow> 's \<Rightarrow> bool) \<Rightarrow> 's \<Rightarrow> bool" where
  "wp m Q E s = (case m s of (Inr x, s') \<Rightarrow> Q x s' | (Inl e, s') \<Rightarrow> E e s')"

named_theorems wp

lemma wp_ret [wp]: "wp (ret x) Q E s = Q x s"
  by (simp add: wp_def ret_def)

lemma wp_throw [wp]: "wp (throw e) Q E s = E e s"
  by (simp add: wp_def throw_def)

lemma wp_bnd [wp]: "wp (bnd m f) Q E s = wp m (\<lambda>x. wp (f x) Q E) E s"
  by (auto simp: wp_def bnd_def split: prod.splits sum.splits)

lemma wp_seq [wp]: "wp (seq m n) Q E s = wp m (\<lambda>_. wp n Q E) E s"
  by (simp add: seq_def wp_bnd)

lemma wp_catch [wp]: "wp (catch m h) Q E s = wp m Q (\<lambda>e. wp (h e) Q E) s"
  by (auto simp: wp_def catch_def split: prod.splits sum.splits)

lemma wp_ensure [wp]:
  "wp (ensure m f) Q E s = wp m (\<lambda>x. wp f (\<lambda>_. Q x) E) (\<lambda>e. wp f (\<lambda>_. E e) E) s"
  by (auto simp: wp_def ensure_def split: prod.splits sum.splits)

lemma wp_gets [wp]: "wp (gets f) Q E s = Q (f s) s"
  by (simp add: wp_def gets_def)

lemma wp_modify [wp]: "wp (modify f) Q E s = Q () (f s)"
  by (simp add: wp_def modify_def)

lemma wp_lift_res [wp]:
  "wp (lift_res r) Q E s \<longleftrightarrow> (\<forall>x. r = Inr x \<longrightarrow> Q x s) \<and> (\<forall>e. r = Inl e \<longrightarrow> E e s)"
  by (auto simp: wp_def lift_res_def split: sum.splits)

lemma wp_guarded [wp]: "wp (guarded b m) Q E s = (if b then wp m Q E s else Q () s)"
  by (simp add: guarded_def wp_ret)

lemma wp_mono:
  assumes "wp m Q E s" "\<And>x s'. Q x s' \<Longrightarrow> Q' x s'" "\<And>e s'. E e s' \<Longrightarrow> E' e s'"
  shows "wp m Q' E' s"
  using assms by (auto simp: wp_def split: prod.splits sum.splits)

lemma wp_conj: "wp m Q E s \<Longrightarrow> wp m Q' E' s \<Longrightarrow> wp m (\<lambda>x s. Q x s \<and> Q' x s) (\<lambda>e s. E e s \<and> E' e s) s"
  by (auto simp: wp_def split: prod.splits sum.splits)

lemma wp_for_each:
  assumes "\<And>x s. x \<in> set xs \<Longrightarrow> I s \<Longrightarrow> wp (f x) (\<lambda>_. I) E s" "I s"
  shows "wp (for_each xs f) (\<lambda>_. I) E s"
  using assms
proof (induction xs arbitrary: s)
  case (Cons x xs)
  have "wp (f x) (\<lambda>_. I) E s" using Cons.prems by simp
  then have "wp (f x) (\<lambda>_. wp (for_each xs f) (\<lambda>_. I) E) E s"
    by (rule wp_mono) (use Cons in auto)
  then show ?case by (simp add: wp_seq)
qed (simp add: wp_ret)

text \<open>Reading a run off a \<open>wp\<close> fact.\<close>

lemma wp_Inr: "wp m Q E s \<Longrightarrow> m s = (Inr x, s') \<Longrightarrow> Q x s'"
  by (simp add: wp_def)

lemma wp_Inl: "wp m Q E s \<Longrightarrow> m s = (Inl e, s') \<Longrightarrow> E e s'"
  by (simp add: wp_def)

lemma wp_case: "wp m Q E s \<longleftrightarrow> (case m s of (Inl e, s') \<Rightarrow> E e s' | (Inr x, s') \<Rightarrow> Q x s')"
  by (simp add: wp_def split: prod.split sum.split)

lemma wp_snd: "wp m (\<lambda>_. P) (\<lambda>_. P) s \<longleftrightarrow> P (snd (m s))"
  by (auto simp: wp_def split: prod.splits sum.splits)

lemma wp_True [simp]: "wp m (\<lambda>_ _. True) (\<lambda>_ _. True) s"
  by (auto simp: wp_def split: prod.splits sum.splits)

lemma wp_True_eta [simp]: "wp m (\<lambda>_ _. True) (\<lambda>_ _. True) = (\<lambda>_. True)"
  by (rule ext) simp

section \<open>Relations every action respects\<close>

text \<open>
  A preorder between the states before and after: what only grows, what never changes, what may
  only move along a table.
\<close>

locale kept =
  fixes R :: "'s \<Rightarrow> 's \<Rightarrow> bool"
  assumes R_refl: "R s s"
    and R_trans: "R s t \<Longrightarrow> R t u \<Longrightarrow> R s u"
begin

definition keeps :: "('s, 'a) act \<Rightarrow> bool" where
  "keeps m \<longleftrightarrow> (\<forall>s. R s (snd (m s)))"

lemma keepsI: "(\<And>s. R s (snd (m s))) \<Longrightarrow> keeps m"
  by (simp add: keeps_def)

lemma keepsD: "keeps m \<Longrightarrow> R s (snd (m s))"
  by (simp add: keeps_def)

lemma keeps_ret: "keeps (ret x)"
  by (simp add: keeps_def ret_def R_refl)

lemma keeps_throw: "keeps (throw e)"
  by (simp add: keeps_def throw_def R_refl)

lemma keeps_gets: "keeps (gets f)"
  by (simp add: keeps_def gets_def R_refl)

lemma keeps_lift_res: "keeps (lift_res r)"
  by (simp add: keeps_def lift_res_def R_refl)

lemma keeps_modify: "(\<And>s. R s (f s)) \<Longrightarrow> keeps (modify f)"
  by (simp add: keeps_def modify_def)

lemma keeps_bnd: "keeps m \<Longrightarrow> (\<And>x. keeps (f x)) \<Longrightarrow> keeps (bnd m f)"
  unfolding keeps_def bnd_def
  by (auto split: prod.splits sum.splits intro: R_trans) (metis R_trans snd_conv)+

lemma keeps_seq: "keeps m \<Longrightarrow> keeps n \<Longrightarrow> keeps (seq m n)"
  by (simp add: seq_def keeps_bnd)

lemma keeps_catch: "keeps m \<Longrightarrow> (\<And>e. keeps (h e)) \<Longrightarrow> keeps (catch m h)"
  unfolding keeps_def catch_def
  by (auto split: prod.splits sum.splits) (metis R_trans snd_conv)+

lemma keeps_ensure: "keeps m \<Longrightarrow> keeps f \<Longrightarrow> keeps (ensure m f)"
  unfolding keeps_def ensure_def
  by (auto split: prod.splits sum.splits) (metis R_trans snd_conv)+

lemma keeps_guarded: "(b \<Longrightarrow> keeps m) \<Longrightarrow> keeps (guarded b m)"
  by (simp add: guarded_def keeps_ret)

lemma keeps_for_each: "(\<And>x. x \<in> set xs \<Longrightarrow> keeps (f x)) \<Longrightarrow> keeps (for_each xs f)"
  by (induction xs) (simp_all add: keeps_ret keeps_seq)

lemma keeps_collect: "(\<And>x. x \<in> set xs \<Longrightarrow> keeps (f x)) \<Longrightarrow> keeps (collect xs f)"
  by (induction xs) (simp_all add: keeps_ret keeps_bnd)

lemma keeps_if: "(b \<Longrightarrow> keeps m) \<Longrightarrow> (\<not> b \<Longrightarrow> keeps n) \<Longrightarrow> keeps (if b then m else n)"
  by simp

lemmas keeps_rules = keeps_if keeps_ret keeps_throw keeps_gets keeps_lift_res keeps_bnd keeps_seq
  keeps_catch keeps_ensure keeps_guarded keeps_for_each keeps_collect

text \<open>A \<open>wp\<close> fact may assume the relation to the first state.\<close>

lemma keeps_wp: "keeps m \<Longrightarrow> wp m (\<lambda>_. R s) (\<lambda>_. R s) s"
  by (simp add: wp_snd keeps_def)

lemma wp_after:
  assumes "keeps m" "\<And>x t. R s t \<Longrightarrow> Q x t" "\<And>e t. R s t \<Longrightarrow> E e t"
  shows "wp m Q E s"
  using keeps_wp [OF assms(1)] by (rule wp_mono) (use assms in auto)

lemma bnd_after:
  assumes "keeps m" "\<And>x t. R s t \<Longrightarrow> wp (f x) Q E t" "\<And>e t. R s t \<Longrightarrow> E e t"
  shows "wp (bnd m f) Q E s"
  unfolding wp_bnd using assms by (rule wp_after)

lemma seq_after:
  assumes "keeps m" "\<And>t. R s t \<Longrightarrow> wp n Q E t" "\<And>e t. R s t \<Longrightarrow> E e t"
  shows "wp (seq m n) Q E s"
  unfolding wp_seq using assms by (rule wp_after)

end

end
