(* ===== verification/RtBase.thy ===== *)
theory RtBase
  imports ToolExec ExecLimits EventStream Effects
begin

text \<open>
  The agent runtime's state for one execution (\<^verbatim>\<open>runtime.py\<close>, \<^verbatim>\<open>cancellation.py\<close>), what its
  environment supplies, and the small operations every phase uses.

  The environment (model router, inference service, sandbox, approvers, the database, the clocks,
  whoever cancels) is a record of functions of the \<open>tick\<close>, a counter of the environment calls made
  so far: a theorem about every such record is a theorem about every behaviour of the environment.
\<close>

section \<open>The runtime and its environment\<close>

text \<open>The fields of \<open>AgentRuntime\<close>; \<open>rt_loads\<close> and \<open>rt_sha\<close> are \<open>json.loads\<close> and SHA-256.\<close>

record runtime =
  rt_limits :: execution_limits
  rt_tools :: tool_registry
  rt_planner_tools :: tool_registry
  rt_loads :: "string \<Rightarrow> pyval result"
  rt_sha :: "string \<Rightarrow> string"
  rt_context_budget :: "context_budget option"
  rt_approval_policy :: "approval_policy option"
  rt_persistence :: bool
  rt_executor :: tool_executor

text \<open>
  The constructor: \<open>max_ctx\<close> and \<open>reserved\<close> are the two context arguments, \<open>executor\<close> and
  \<open>sandbox\<close> say which of the two alternatives were passed; the rest of the record is stored as it
  is.
\<close>

definition new_runtime ::
  "runtime \<Rightarrow> int option \<Rightarrow> int \<Rightarrow> tool_executor option \<Rightarrow> bool \<Rightarrow> runtime result" where
  "new_runtime rt max_ctx reserved executor sandbox =
     rbind (check (max_steps (rt_limits rt) \<le> 0) ValueError ''max_steps must be greater than zero'') (\<lambda>_.
     rbind (check (max_parallel_tool_calls (rt_limits rt) \<le> 0) ValueError
              ''max_parallel_tool_calls must be greater than zero'') (\<lambda>_.
     rbind (check (case max_ctx of None \<Rightarrow> False | Some m \<Rightarrow> m \<le> 0) ValueError
              ''max_context_tokens must be greater than zero when provided'') (\<lambda>_.
     rbind (check (reserved < 0) ValueError ''reserved_output_tokens cannot be negative'') (\<lambda>_.
     rbind (check (case max_ctx of None \<Rightarrow> False | Some m \<Rightarrow> m \<le> reserved) ValueError
              ''reserved_output_tokens must be smaller than max_context_tokens'') (\<lambda>_.
     rbind (new_limits (rt_limits rt)) (\<lambda>lim.
     rbind (case executor of Some te \<Rightarrow> Inr te
              | None \<Rightarrow> (if \<not> sandbox then raise ValueError ''Either tool_executor or sandbox must be provided''
                 else Inr \<lparr>te_registry = rt_tools rt, te_idempotent = False, te_authorization = None\<rparr>)) (\<lambda>te.
     rbind (case max_ctx of None \<Rightarrow> Inr None
              | Some m \<Rightarrow> rbind (new_budget \<lparr>max_context_tokens = m, reserved_output_tokens = reserved\<rparr>)
                  (\<lambda>b. Inr (Some b))) (\<lambda>b.
     Inr (rt\<lparr>rt_limits := lim, rt_executor := te, rt_context_budget := b\<rparr>)))))))))"

definition runtime_ok :: "runtime \<Rightarrow> bool" where
  "runtime_ok rt \<longleftrightarrow> limits_ok (rt_limits rt)
     \<and> (\<forall>b. rt_context_budget rt = Some b \<longrightarrow> 0 < budget_available b)"

lemma new_runtime_ok: "new_runtime rt mc rs te sb = Inr rt' \<Longrightarrow> runtime_ok rt'"
  by (cases mc) (auto simp: new_runtime_def runtime_ok_def new_limits_iff new_budget_def
      budget_available_def split: option.splits if_splits)

text \<open>What other tasks do while the waits for approval run.\<close>

datatype approval_move = ApStart nat | ApWake nat | ApTimeout nat | ApOther approval_op

text \<open>What can happen while the tasks of a tool batch run.\<close>

datatype batch_event = BatchStart nat | BatchReply nat sandbox_reply | BatchWake nat | BatchTimeout nat

record env =
  en_mono :: "nat \<Rightarrow> time"
  en_utc :: "nat \<Rightarrow> clock"
  en_uuid :: "nat \<Rightarrow> string"
  en_cancel :: "nat \<Rightarrow> bool"
  en_persist :: "nat \<Rightarrow> unit result"
  en_route :: "nat \<Rightarrow> (string \<times> string) result"
  en_infer :: "nat \<Rightarrow> pyval result"
  en_approvals :: "nat \<Rightarrow> approval_move list"
  en_batch :: "nat \<Rightarrow> batch_event list"
  en_task_cancelled :: "nat \<Rightarrow> bool"

section \<open>The state of one execution\<close>

text \<open>
  What left the process or the database took, in order.  A save carries the execution as it was then; a request to the inference service carries the
  model, the messages, the tools and the deadline.
\<close>

datatype log_entry =
    LogCreate execution
  | LogUpdate execution
  | LogRoute "pydict list"
  | LogInfer string "pydict list" "pyval list" time
  | LogSandbox string string pydict

text \<open>A task of the batch: where it is suspended, or its outcome.\<close>

datatype task_pc = TQueued | TSandbox | TWaiting nat | TDone "pyval result"

record tool_task =
  tk_call :: tool_call
  tk_step :: nat
  tk_key :: string
  tk_begun :: time
  tk_pc :: task_pc

datatype waiter_pc = WStart | WWaiting | WDone

record world =
  w_exec :: execution
  w_ctx :: execution_context
  w_cancelled :: bool
  w_stream :: event_stream
  w_stream_ref :: bool
  w_active :: bool
  w_result :: "execution_result option"
  w_approvals :: approval_manager
  w_idem :: "tool_result idem_store"
  w_repeated :: "((string \<times> string) \<times> int) list"
  w_counts :: "(string \<times> int) list"
  w_tasks :: "tool_task list"
  w_waiters :: "(string \<times> waiter_pc) list"
  w_log :: "log_entry list"
  w_tick :: nat

type_synonym 'a rt = "(world, 'a) act"

section \<open>Small operations\<close>

definition tick :: "nat rt" where
  "tick w = (Inr (w_tick w), w\<lparr>w_tick := Suc (w_tick w)\<rparr>)"

definition log_it :: "log_entry \<Rightarrow> unit rt" where
  "log_it e = modify (\<lambda>w. w\<lparr>w_log := w_log w @ [e]\<rparr>)"

definition monotonic :: "env \<Rightarrow> time rt" where
  "monotonic en = bnd tick (\<lambda>n. ret (en_mono en n))"

text \<open>\<open>CancellationToken.cancel\<close>, and \<open>_check_cancellation\<close>; others may have cancelled meanwhile.\<close>

definition cancel_token :: "unit rt" where
  "cancel_token = modify (\<lambda>w. w\<lparr>w_cancelled := True\<rparr>)"

definition check_cancellation :: "env \<Rightarrow> unit rt" where
  "check_cancellation en =
     bnd tick (\<lambda>n.
     seq (modify (\<lambda>w. w\<lparr>w_cancelled := (w_cancelled w \<or> en_cancel en n)\<rparr>))
     (bnd (gets w_cancelled) (\<lambda>c.
      if c then throw (Exc ExecutionCancelled ''Agent execution was cancelled'') else ret ())))"

definition check_timeout :: "runtime \<Rightarrow> env \<Rightarrow> time \<Rightarrow> unit rt" where
  "check_timeout rt en started =
     bnd (monotonic en) (\<lambda>now. lift_res (validate_timeout (rt_limits rt) now started))"

definition timeout_text :: "runtime \<Rightarrow> string" where
  "timeout_text rt = fl_text (timeout_seconds (rt_limits rt)) @ '' seconds''"

definition remaining_time :: "runtime \<Rightarrow> env \<Rightarrow> time \<Rightarrow> time rt" where
  "remaining_time rt en started =
     bnd (monotonic en) (\<lambda>now.
       let remaining = remaining_timeout (rt_limits rt) now started in
       if remaining \<le> 0 then
         throw (Exc ExecutionLimitExceeded (''Agent execution exceeded timeout: '' @ timeout_text rt))
       else ret remaining)"

text \<open>\<open>_publish_event\<close>: a closed stream is no error of the execution.\<close>

definition publish_event :: "agent_event_type \<Rightarrow> pydict \<Rightarrow> unit rt" where
  "publish_event ty data = modify (\<lambda>w.
     if \<not> (w_active w \<and> w_stream_ref w) then w
     else case rbind (new_event (event_type_value ty) (ex_id (w_exec w)) data)
                 (\<lambda>ev. stream_publish ev (w_stream w)) of
            Inl _ \<Rightarrow> w
          | Inr s \<Rightarrow> w\<lparr>w_stream := s\<rparr>)"

text \<open>\<open>_create_persistent_execution\<close> and \<open>_persist_execution\<close>.\<close>

definition create_persistent_execution :: "runtime \<Rightarrow> env \<Rightarrow> unit rt" where
  "create_persistent_execution rt en =
     (if \<not> rt_persistence rt then ret ()
      else bnd tick (\<lambda>n. seq (lift_res (en_persist en n))
             (bnd (gets w_exec) (\<lambda>e. log_it (LogCreate e)))))"

definition persist_execution :: "runtime \<Rightarrow> env \<Rightarrow> unit rt" where
  "persist_execution rt en =
     (if \<not> rt_persistence rt then ret ()
      else bnd tick (\<lambda>n. seq (lift_res (en_persist en n))
             (bnd (gets w_exec) (\<lambda>e. log_it (LogUpdate e)))))"

text \<open>An operation of the execution, and one of the context; a refused one changes nothing.\<close>

definition exec_do :: "env \<Rightarrow> (clock \<Rightarrow> execution \<Rightarrow> execution result) \<Rightarrow> unit rt" where
  "exec_do en f =
     bnd tick (\<lambda>n. bnd (gets w_exec) (\<lambda>e. bnd (lift_res (f (en_utc en n) e))
       (\<lambda>e'. modify (\<lambda>w. w\<lparr>w_exec := e'\<rparr>))))"

definition go_to :: "env \<Rightarrow> execution_state \<Rightarrow> unit rt" where
  "go_to en st = exec_do en (\<lambda>clk. transition_to clk st)"

definition ctx_do :: "(execution_context \<Rightarrow> execution_context result) \<Rightarrow> unit rt" where
  "ctx_do f = bnd (gets w_ctx) (\<lambda>c. bnd (lift_res (f c)) (\<lambda>c'. modify (\<lambda>w. w\<lparr>w_ctx := c'\<rparr>)))"

text \<open>Steps are shared by reference: the model refers to one by its index in the trace.\<close>

definition step_do :: "env \<Rightarrow> nat \<Rightarrow> (time \<Rightarrow> step \<Rightarrow> step result) \<Rightarrow> unit rt" where
  "step_do en i f =
     bnd tick (\<lambda>n. bnd (gets (\<lambda>w. ex_steps (w_exec w) ! i)) (\<lambda>s. bnd (lift_res (f (en_utc en n 0) s))
       (\<lambda>s'. modify (\<lambda>w. w\<lparr>w_exec := (w_exec w)\<lparr>ex_steps := (ex_steps (w_exec w))[i := s']\<rparr>\<rparr>))))"

definition step_terminal :: "nat \<Rightarrow> bool rt" where
  "step_terminal i = gets (\<lambda>w. step_is_terminal (ex_steps (w_exec w) ! i))"

definition set_step_output :: "nat \<Rightarrow> pyval \<Rightarrow> unit rt" where
  "set_step_output i v = modify (\<lambda>w. w\<lparr>w_exec := (w_exec w)\<lparr>ex_steps :=
     (ex_steps (w_exec w))[i := (ex_steps (w_exec w) ! i)\<lparr>step_output := v\<rparr>]\<rparr>\<rparr>)"

text \<open>\<open>Step(number=len(execution.steps) + 1, ...)\<close>, with the step appended to the trace.\<close>

definition append_step :: "env \<Rightarrow> step_type \<Rightarrow> pyval \<Rightarrow> (time \<Rightarrow> step \<Rightarrow> step result) \<Rightarrow> nat rt" where
  "append_step en ty inp f =
     bnd tick (\<lambda>n.
     bnd (gets (\<lambda>w. length (ex_steps (w_exec w)))) (\<lambda>i.
     bnd (lift_res (new_step (en_uuid en n) (int i + 1) ty inp)) (\<lambda>s.
     bnd (lift_res (f (en_utc en n 0) s)) (\<lambda>s.
     seq (modify (\<lambda>w. w\<lparr>w_exec := add_step s (w_exec w)\<rparr>)) (ret i)))))"

text \<open>\<open>_start_step\<close>.\<close>

definition start_step :: "env \<Rightarrow> step_type \<Rightarrow> pyval \<Rightarrow> nat rt" where
  "start_step en ty inp = append_step en ty inp step_mark_started"

text \<open>\<open>mark_completed()\<close> without an output, as the runtime calls it for its own steps.\<close>

definition complete_step :: "env \<Rightarrow> nat \<Rightarrow> unit rt" where
  "complete_step en i = step_do en i (\<lambda>t. step_mark_completed t PNone)"

definition the_context_manager :: "runtime \<Rightarrow> context_manager" where
  "the_context_manager rt = \<lparr>cm_counter = default_counter, cm_budget = rt_context_budget rt\<rparr>"

definition set_context_metadata :: "string \<Rightarrow> pyval \<Rightarrow> unit rt" where
  "set_context_metadata k v = modify (\<lambda>w. w\<lparr>w_ctx := (w_ctx w)\<lparr>cx_metadata := dset k v (cx_metadata (w_ctx w))\<rparr>\<rparr>)"

section \<open>Their weakest preconditions\<close>

lemma wp_tick [wp]: "wp tick Q E w = Q (w_tick w) (w\<lparr>w_tick := Suc (w_tick w)\<rparr>)"
  by (simp add: wp_def tick_def)

lemma wp_log_it [wp]: "wp (log_it e) Q E w = Q () (w\<lparr>w_log := w_log w @ [e]\<rparr>)"
  by (simp add: log_it_def wp)

lemma wp_check_cancellation:
  "wp (check_cancellation en) Q E w =
     (let w' = w\<lparr>w_tick := Suc (w_tick w), w_cancelled := (w_cancelled w \<or> en_cancel en (w_tick w))\<rparr>
      in if w_cancelled w' then E (Exc ExecutionCancelled ''Agent execution was cancelled'') w' else Q () w')"
  by (simp add: check_cancellation_def wp Let_def)

section \<open>Relations the whole runtime respects\<close>

fun terminal_event :: "agent_event_type \<Rightarrow> bool" where
  "terminal_event ty = (ty \<in> {EXECUTION_COMPLETED, EXECUTION_FAILED, EXECUTION_CANCELLED})"

text \<open>
  How the execution may change in one operation of a phase: a transition that does not end it, or
  an operation on a step.
\<close>

definition exec_moves :: "execution \<Rightarrow> execution \<Rightarrow> bool" where
  "exec_moves e e' \<longleftrightarrow> (\<exists>clk st. \<not> state_is_terminal st \<and> transition_to clk st e = Inr e')
     \<or> (\<exists>i op s. i < length (ex_steps e) \<and> apply_step_op op (ex_steps e ! i) = Inr s
          \<and> e' = e\<lparr>ex_steps := (ex_steps e)[i := s]\<rparr>)
     \<or> (\<exists>i v. i < length (ex_steps e)
          \<and> e' = e\<lparr>ex_steps := (ex_steps e)[i := (ex_steps e ! i)\<lparr>step_output := v\<rparr>]\<rparr>)
     \<or> (\<exists>sid ty inp s. new_step sid (int (length (ex_steps e)) + 1) ty inp = Inr s \<and> e' = add_step s e)
     \<or> (\<exists>sid ty inp t s s'. new_step sid (int (length (ex_steps e)) + 1) ty inp = Inr s
          \<and> step_mark_started t s = Inr s' \<and> e' = add_step s' e)"

lemma exec_moves_id: "exec_moves e e' \<Longrightarrow> ex_id e' = ex_id e"
  unfolding exec_moves_def by (auto simp: add_step_def transition_to_Inr)

text \<open>
  \<open>rt_kept_base\<close>: a relation that the phases around the batch respect, because it allows their
  primitive updates.  What the handlers keep is proved here once, for every such relation.
  \<open>rt_kept\<close> also allows the batch its tasks.
\<close>

locale rt_kept_base = kept R for R :: "world \<Rightarrow> world \<Rightarrow> bool" +
  assumes R_tick: "R s (s\<lparr>w_tick := n\<rparr>)"
    and R_cancelled: "w_cancelled s \<longrightarrow> b \<Longrightarrow> R s (s\<lparr>w_cancelled := b\<rparr>)"
    and R_stream: "\<not> terminal_event ty \<Longrightarrow> ev_type ev = event_type_value ty
       \<Longrightarrow> stream_publish ev (w_stream s) = Inr x \<Longrightarrow> R s (s\<lparr>w_stream := x\<rparr>)"
    and R_exec: "exec_moves (w_exec s) e \<Longrightarrow> R s (s\<lparr>w_exec := e\<rparr>)"
    and R_approvals: "apply_approval_op op (w_approvals s) = Inr (r, m) \<Longrightarrow> R s (s\<lparr>w_approvals := m\<rparr>)"
    and R_waiters: "R s (s\<lparr>w_waiters := ws\<rparr>)"
begin

named_theorems keeps_ops

lemma keeps_tick [keeps_ops]: "keeps tick"
  by (rule keepsI) (simp add: tick_def R_tick)

lemma keeps_monotonic [keeps_ops]: "keeps (monotonic en)"
  unfolding monotonic_def by (intro keeps_rules keeps_ops)

lemma keeps_check_cancellation [keeps_ops]: "keeps (check_cancellation en)"
  unfolding check_cancellation_def
  by (intro keeps_rules keeps_ops keeps_modify R_cancelled) simp

lemma keeps_check_timeout [keeps_ops]: "keeps (check_timeout rt en st)"
  unfolding check_timeout_def by (intro keeps_rules keeps_ops)

lemma keeps_remaining_time [keeps_ops]: "keeps (remaining_time rt en st)"
  unfolding remaining_time_def Let_def by (intro keeps_rules keeps_ops)

lemma keeps_cancel_token [keeps_ops]: "keeps cancel_token"
  unfolding cancel_token_def by (rule keeps_modify) (simp add: R_cancelled)

lemma keeps_publish_event:
  assumes "\<not> terminal_event ty"
  shows "keeps (publish_event ty d)"
  unfolding publish_event_def
  by (rule keeps_modify)
     (use assms in \<open>auto simp: R_refl new_event_def split: sum.split if_splits intro!: R_stream [OF assms]\<close>)

lemma keeps_publish_events [keeps_ops]:
  "keeps (publish_event EXECUTION_STARTED d)" "keeps (publish_event INFERENCE_STARTED d)"
  "keeps (publish_event INFERENCE_COMPLETED d)" "keeps (publish_event TOOL_CALL_STARTED d)"
  "keeps (publish_event TOOL_CALL_COMPLETED d)"
  by (rule keeps_publish_event; simp)+

lemma keeps_exec_do:
  assumes "\<And>clk s e. f clk (w_exec s) = Inr e \<Longrightarrow> R s (s\<lparr>w_exec := e\<rparr>)"
  shows "keeps (exec_do en f)"
proof (rule keepsI)
  fix s :: world
  show "R s (snd (exec_do en f s))"
  proof (cases "f (en_utc en (w_tick s)) (w_exec s)")
    case (Inl e)
    then show ?thesis
      by (simp add: exec_do_def bnd_def tick_def gets_def lift_res_def R_tick)
  next
    case (Inr e')
    have "R (s\<lparr>w_tick := Suc (w_tick s)\<rparr>) (s\<lparr>w_tick := Suc (w_tick s), w_exec := e'\<rparr>)"
      using assms [of _ "s\<lparr>w_tick := Suc (w_tick s)\<rparr>"] Inr by simp
    with Inr R_tick R_trans show ?thesis
      by (simp add: exec_do_def bnd_def tick_def gets_def lift_res_def modify_def) blast
  qed
qed

lemma keeps_go_to:
  assumes "\<not> state_is_terminal st"
  shows "keeps (go_to en st)"
  unfolding go_to_def
proof (rule keeps_exec_do, rule R_exec)
  fix clk s e assume "transition_to clk st (w_exec s) = Inr e"
  with assms show "exec_moves (w_exec s) e" unfolding exec_moves_def by blast
qed

lemma keeps_go_tos [keeps_ops]:
  "keeps (go_to en State_PLANNING)" "keeps (go_to en State_INFERENCE)"
  "keeps (go_to en State_WAITING_APPROVAL)" "keeps (go_to en State_TOOL_EXECUTION)"
  "keeps (go_to en State_OBSERVING)"
  by (rule keeps_go_to; simp)+

text \<open>An index outside the trace names no step, and updating it changes nothing.\<close>

lemma keeps_step_do:
  assumes "\<And>t s s'. f t s = Inr s' \<Longrightarrow> \<exists>op. apply_step_op op s = Inr s'"
  shows "keeps (step_do en i f)"
proof (rule keepsI)
  fix s :: world
  let ?s = "s\<lparr>w_tick := Suc (w_tick s)\<rparr>" and ?st = "ex_steps (w_exec s)"
  show "R s (snd (step_do en i f s))"
  proof (cases "f (en_utc en (w_tick s) 0) (?st ! i)")
    case (Inl e)
    then show ?thesis
      by (simp add: step_do_def bnd_def tick_def gets_def lift_res_def R_tick)
  next
    case (Inr s')
    have "R ?s (?s\<lparr>w_exec := (w_exec s)\<lparr>ex_steps := ?st[i := s']\<rparr>\<rparr>)"
    proof (cases "i < length ?st")
      case True
      with assms [OF Inr] have "exec_moves (w_exec s) ((w_exec s)\<lparr>ex_steps := ?st[i := s']\<rparr>)"
        unfolding exec_moves_def by blast
      then have "exec_moves (w_exec ?s) ((w_exec s)\<lparr>ex_steps := ?st[i := s']\<rparr>)" by simp
      then show ?thesis by (rule R_exec)
    next
      case False
      then show ?thesis by (simp add: list_update_beyond R_refl)
    qed
    with Inr R_tick R_trans show ?thesis
      by (simp add: step_do_def bnd_def tick_def gets_def lift_res_def modify_def) blast
  qed
qed

lemma keeps_step_ops [keeps_ops]:
  "keeps (step_do en i step_mark_started)"
  "keeps (step_do en i step_mark_cancelled)"
  "keeps (step_do en i (\<lambda>_. step_mark_waiting_approval))"
  "keeps (step_do en i (\<lambda>t. step_mark_completed t out))"
  "keeps (step_do en i (\<lambda>t. step_mark_failed t err))"
  by (rule keeps_step_do; metis apply_step_op.simps)+

lemma keeps_complete_step [keeps_ops]: "keeps (complete_step en i)"
  unfolding complete_step_def by (intro keeps_ops)

lemma keeps_step_terminal [keeps_ops]: "keeps (step_terminal i)"
  unfolding step_terminal_def by (rule keeps_gets)

lemma keeps_set_step_output [keeps_ops]: "keeps (set_step_output i v)"
  unfolding set_step_output_def
proof (rule keeps_modify)
  fix w :: world
  show "R w (w\<lparr>w_exec := (w_exec w)\<lparr>ex_steps :=
     (ex_steps (w_exec w))[i := (ex_steps (w_exec w) ! i)\<lparr>step_output := v\<rparr>]\<rparr>\<rparr>)"
  proof (cases "i < length (ex_steps (w_exec w))")
    case True
    then show ?thesis by (intro R_exec) (auto simp: exec_moves_def)
  next
    case False
    then show ?thesis by (simp add: list_update_beyond R_refl)
  qed
qed

lemma keeps_append_step:
  assumes "\<And>t s s'. f t s = Inr s' \<Longrightarrow> s' = s \<or> step_mark_started t s = Inr s'"
  shows "keeps (append_step en ty inp f)"
proof (rule keepsI)
  fix s :: world
  let ?s = "s\<lparr>w_tick := Suc (w_tick s)\<rparr>" and ?n = "length (ex_steps (w_exec s))"
  show "R s (snd (append_step en ty inp f s))"
  proof (cases "rbind (new_step (en_uuid en (w_tick s)) (int ?n + 1) ty inp) (f (en_utc en (w_tick s) 0))")
    case (Inl e)
    then show ?thesis
      by (auto simp: append_step_def bnd_def tick_def gets_def lift_res_def R_tick rbind_Inl_iff)
  next
    case (Inr s')
    then obtain s0 where n: "new_step (en_uuid en (w_tick s)) (int ?n + 1) ty inp = Inr s0"
      and f: "f (en_utc en (w_tick s) 0) s0 = Inr s'" by auto
    have "exec_moves (w_exec s) (add_step s' (w_exec s))"
      using assms [OF f] n unfolding exec_moves_def by blast
    then have "exec_moves (w_exec ?s) (add_step s' (w_exec s))" by simp
    then have "R ?s (?s\<lparr>w_exec := add_step s' (w_exec s)\<rparr>)" by (rule R_exec)
    with n f R_tick R_trans show ?thesis
      by (simp add: append_step_def seq_def bnd_def tick_def gets_def lift_res_def modify_def ret_def) blast
  qed
qed

lemma keeps_start_step [keeps_ops]: "keeps (start_step en ty inp)"
  unfolding start_step_def by (rule keeps_append_step) simp

lemma keeps_created_step [keeps_ops]: "keeps (append_step en ty inp (\<lambda>_ s. Inr s))"
  by (rule keeps_append_step) simp

end

locale rt_kept = rt_kept_base +
  assumes R_tasks: "R s (s\<lparr>w_tasks := ts\<rparr>)"

end
