(* ===== verification/RtBatch.thy ===== *)
theory RtBatch
  imports RtBase
begin

text \<open>
  The concurrent execution of one batch of tool calls (\<open>_execute_single_tool\<close> and the inner
  \<open>execute_one\<close> of \<open>_execute_tool_calls\<close> in \<^verbatim>\<open>runtime.py\<close>).  A task is split at the points where it
  waits: for the semaphore (\<open>TQueued\<close>), for the sandbox (\<open>TSandbox\<close>) and for another caller with the
  same idempotency key (\<open>TWaiting\<close>).  The tasks of a batch interleave only there, in the order of a
  list of events that the environment chooses; an event that cannot happen in the state it meets is
  skipped.
\<close>

section \<open>One tool call\<close>

definition call_id_of :: "tool_call \<Rightarrow> string" where
  "call_id_of c = (case tc_call_id c of None \<Rightarrow> [] | Some i \<Rightarrow> i)"

definition call_event_data :: "tool_call \<Rightarrow> pydict" where
  "call_event_data c = [(''call_id'', PStr (call_id_of c)), (''tool_name'', PStr (tc_name c))]"

definition publish_completed :: "tool_call \<Rightarrow> bool \<Rightarrow> unit rt" where
  "publish_completed c ok =
     publish_event TOOL_CALL_COMPLETED (call_event_data c @ [(''success'', PBool ok)])"

text \<open>The handlers around the executor's call.\<close>

definition tool_call_failed :: "runtime \<Rightarrow> tool_call \<Rightarrow> exc \<Rightarrow> 'a rt" where
  "tool_call_failed rt c e =
     (if isinstance_exc e TimeoutError then
        seq (publish_completed c False)
          (throw (Exc ExecutionLimitExceeded
             (''Agent tool execution exceeded execution timeout: '' @ timeout_text rt)))
      else if isinstance_exc e CancelledError then throw e
      else if isinstance_exc e PyException then seq (publish_completed c False) (throw e)
      else throw e)"

definition get_task :: "nat \<Rightarrow> tool_task rt" where
  "get_task i = gets (\<lambda>w. w_tasks w ! i)"

definition set_task :: "nat \<Rightarrow> (tool_task \<Rightarrow> tool_task) \<Rightarrow> unit rt" where
  "set_task i f = modify (\<lambda>w. w\<lparr>w_tasks := (w_tasks w)[i := f (w_tasks w ! i)]\<rparr>)"

definition set_pc :: "nat \<Rightarrow> task_pc \<Rightarrow> unit rt" where
  "set_pc i pc = set_task i (\<lambda>t. t\<lparr>tk_pc := pc\<rparr>)"

text \<open>The call of \<open>ToolExecutor.execute\<close> up to where it waits: a result at once, or the task is suspended.\<close>

definition executor_begin :: "runtime \<Rightarrow> env \<Rightarrow> nat \<Rightarrow> tool_call \<Rightarrow> string \<Rightarrow> tool_result option rt" where
  "executor_begin rt en i c key =
     bnd (monotonic en) (\<lambda>t0.
     bnd (monotonic en) (\<lambda>t1.
     bnd (gets w_idem) (\<lambda>st.
     case tool_exec_begin (rt_executor rt) (tc_name c) (Some key) None (t1 - t0) st of (r, st') \<Rightarrow>
       seq (modify (\<lambda>w. w\<lparr>w_idem := st'\<rparr>))
       (bnd (lift_res r) (\<lambda>nx. case nx of
            ExecDone tr \<Rightarrow> ret (Some tr)
          | ExecSandbox \<Rightarrow>
              seq (log_it (LogSandbox (call_id_of c) (tc_name c) (tc_arguments c)))
              (seq (set_task i (\<lambda>t. t\<lparr>tk_key := key, tk_begun := t0, tk_pc := TSandbox\<rparr>)) (ret None))
          | ExecWait ev \<Rightarrow>
              seq (set_task i (\<lambda>t. t\<lparr>tk_key := key, tk_begun := t0, tk_pc := TWaiting ev\<rparr>)) (ret None))))))"

definition single_tool_begin :: "runtime \<Rightarrow> env \<Rightarrow> time \<Rightarrow> nat \<Rightarrow> tool_call \<Rightarrow> tool_result option rt" where
  "single_tool_begin rt en started i c =
     seq (check_cancellation en)
     (bnd (remaining_time rt en started) (\<lambda>_.
     (bnd (gets (\<lambda>w. generate_key (rt_sha rt) (ex_id (w_exec w)) (length (ex_steps (w_exec w)))
              (tc_name c) (tc_arguments c))) (\<lambda>key.
     seq (publish_event TOOL_CALL_STARTED (call_event_data c))
     (catch (executor_begin rt en i c key) (tool_call_failed rt c))))))"

definition single_tool_end :: "runtime \<Rightarrow> env \<Rightarrow> time \<Rightarrow> tool_call \<Rightarrow> tool_result \<Rightarrow> pyval rt" where
  "single_tool_end rt en started c tr =
     seq (check_cancellation en)
     (seq (check_timeout rt en started)
     (if tool_result_failed tr then
        seq (publish_completed c False)
        (if dget (tr_metadata tr) ''error_type'' = PStr ''unknown_tool'' then
           throw (Exc AgentProtocolError (''Unknown tool requested by model: '' @ tc_name c))
         else throw (Exc ToolExecutionError (case tr_error tr of
             None \<Rightarrow> ''Tool execution failed: '' @ tc_name c
           | Some m \<Rightarrow> (if m = [] then ''Tool execution failed: '' @ tc_name c else m))))
      else seq (publish_completed c True) (ret (tr_output tr))))"

section \<open>One task\<close>

definition complete_task :: "env \<Rightarrow> nat \<Rightarrow> pyval \<Rightarrow> unit rt" where
  "complete_task en i out =
     bnd (get_task i) (\<lambda>t.
     seq (step_do en (tk_step t) (\<lambda>now. step_mark_completed now out)) (set_pc i (TDone (Inr out))))"

text \<open>The handlers of \<open>execute_one\<close>; an exception of a handler would be the outcome of the task.\<close>

definition task_failed :: "env \<Rightarrow> nat \<Rightarrow> exc \<Rightarrow> unit rt" where
  "task_failed en i e =
     catch
       (bnd (get_task i) (\<lambda>t.
        bnd (step_terminal (tk_step t)) (\<lambda>terminal.
        seq (if isinstance_exc e CancelledError \<or> isinstance_exc e ExecutionCancelled then
               guarded (\<not> terminal) (step_do en (tk_step t) step_mark_cancelled)
             else if isinstance_exc e PyException then
               guarded (\<not> terminal) (step_do en (tk_step t) (\<lambda>now. step_mark_failed now
                 (if exc_msg e \<noteq> [] then exc_msg e else type_name (exc_class e))))
             else ret ())
        (set_pc i (TDone (Inl e))))))
       (\<lambda>e'. set_pc i (TDone (Inl e')))"

definition task_start :: "runtime \<Rightarrow> env \<Rightarrow> time \<Rightarrow> nat \<Rightarrow> unit rt" where
  "task_start rt en started i =
     bnd (get_task i) (\<lambda>t.
     catch
       (seq (check_cancellation en)
       (seq (step_do en (tk_step t) step_mark_started)
       (bnd (single_tool_begin rt en started i (tk_call t)) (\<lambda>r. case r of
            None \<Rightarrow> ret ()
          | Some tr \<Rightarrow> bnd (single_tool_end rt en started (tk_call t) tr) (complete_task en i)))))
       (task_failed en i))"

text \<open>A suspended task goes on with what the executor's call gives.\<close>

definition task_resume :: "runtime \<Rightarrow> env \<Rightarrow> time \<Rightarrow> nat \<Rightarrow> tool_result rt \<Rightarrow> unit rt" where
  "task_resume rt en started i m =
     bnd (get_task i) (\<lambda>t.
     catch
       (bnd (catch m (tool_call_failed rt (tk_call t)))
         (\<lambda>tr. bnd (single_tool_end rt en started (tk_call t) tr) (complete_task en i)))
       (task_failed en i))"

definition executor_finish :: "runtime \<Rightarrow> env \<Rightarrow> nat \<Rightarrow> string result \<Rightarrow> tool_result rt" where
  "executor_finish rt en i outcome =
     bnd (get_task i) (\<lambda>t.
     bnd (monotonic en) (\<lambda>t1.
     bnd (gets w_idem) (\<lambda>st.
     case tool_exec_finish (rt_executor rt) (tc_name (tk_call t)) (Some (tk_key t)) (t1 - tk_begun t)
            outcome st of (r, st') \<Rightarrow>
       seq (modify (\<lambda>w. w\<lparr>w_idem := st'\<rparr>)) (lift_res r))))"

definition executor_waited :: "runtime \<Rightarrow> nat \<Rightarrow> tool_result rt" where
  "executor_waited rt i =
     bnd (get_task i) (\<lambda>t.
     bnd (gets w_idem) (\<lambda>st. lift_res (tool_exec_waited (idem_active (rt_executor rt) (Some (tk_key t))) st)))"

section \<open>The batch\<close>

fun pc_running :: "task_pc \<Rightarrow> bool" where
  "pc_running TSandbox = True"
| "pc_running (TWaiting _) = True"
| "pc_running _ = False"

fun pc_done :: "task_pc \<Rightarrow> bool" where
  "pc_done (TDone _) = True"
| "pc_done _ = False"

text \<open>The tasks that hold the semaphore.\<close>

definition running :: "world \<Rightarrow> nat" where
  "running w = length (filter (\<lambda>t. pc_running (tk_pc t)) (w_tasks w))"

definition all_done :: "world \<Rightarrow> bool" where
  "all_done w \<longleftrightarrow> (\<forall>t \<in> set (w_tasks w). pc_done (tk_pc t))"

definition task_pc :: "nat \<Rightarrow> world \<Rightarrow> task_pc option" where
  "task_pc i w = (if i < length (w_tasks w) then Some (tk_pc (w_tasks w ! i)) else None)"

definition cancelled_error :: exc where
  "cancelled_error = Exc CancelledError []"

definition batch_do :: "runtime \<Rightarrow> env \<Rightarrow> time \<Rightarrow> batch_event \<Rightarrow> unit rt" where
  "batch_do rt en started ev = (case ev of
      BatchStart i \<Rightarrow>
        bnd (gets (\<lambda>w. task_pc i w = Some TQueued
                 \<and> int (running w) < max_parallel_tool_calls (rt_limits rt))) (\<lambda>ok.
        guarded ok (task_start rt en started i))
    | BatchReply i reply \<Rightarrow>
        bnd (gets (\<lambda>w. task_pc i w = Some TSandbox)) (\<lambda>ok.
        guarded ok (task_resume rt en started i (executor_finish rt en i (sandbox_execute reply))))
    | BatchWake i \<Rightarrow>
        bnd (gets (\<lambda>w. \<exists>k \<in> set (im_set (w_idem w)). task_pc i w = Some (TWaiting k))) (\<lambda>ok.
        guarded ok (task_resume rt en started i (executor_waited rt i)))
    | BatchTimeout i \<Rightarrow>
        bnd (gets (task_pc i)) (\<lambda>pc.
        guarded (case pc of None \<Rightarrow> False | Some p \<Rightarrow> pc_running p)
          (task_resume rt en started i
            (catch (if pc = Some TSandbox then executor_finish rt en i (Inl cancelled_error)
                    else throw cancelled_error)
               (\<lambda>_. throw (Exc TimeoutError []))))))"

text \<open>Cancelling what is left: a queued task ends in \<open>semaphore.acquire\<close>, outside its handlers.\<close>

definition task_cancel :: "runtime \<Rightarrow> env \<Rightarrow> time \<Rightarrow> nat \<Rightarrow> unit rt" where
  "task_cancel rt en started i =
     bnd (gets (\<lambda>w. tk_pc (w_tasks w ! i))) (\<lambda>pc. case pc of
        TQueued \<Rightarrow> set_pc i (TDone (Inl cancelled_error))
      | TSandbox \<Rightarrow> task_resume rt en started i (executor_finish rt en i (Inl cancelled_error))
      | TWaiting _ \<Rightarrow> task_resume rt en started i (throw cancelled_error)
      | TDone _ \<Rightarrow> ret ())"

definition cancel_all :: "runtime \<Rightarrow> env \<Rightarrow> time \<Rightarrow> unit rt" where
  "cancel_all rt en started =
     bnd (gets (\<lambda>w. length (w_tasks w))) (\<lambda>n. for_each [0..<n] (task_cancel rt en started))"

definition batch_results :: "world \<Rightarrow> (tool_call \<times> pyval result) list" where
  "batch_results w = map (\<lambda>t. (tk_call t, case tk_pc t of TDone r \<Rightarrow> r | _ \<Rightarrow> Inl cancelled_error)) (w_tasks w)"

text \<open>
  \<open>wait_for(gather(...))\<close> with its handlers: the schedule runs; when it leaves tasks unfinished, the
  batch was cancelled or the time ran out.
\<close>

definition finish_batch :: "runtime \<Rightarrow> env \<Rightarrow> time \<Rightarrow> bool \<Rightarrow> (tool_call \<times> pyval result) list rt" where
  "finish_batch rt en started cancelled =
     bnd (gets all_done) (\<lambda>d.
        if d then gets batch_results
        else if cancelled then
          seq cancel_token (seq (cancel_all rt en started)
            (throw (Exc ExecutionCancelled ''Agent execution was cancelled during parallel tool execution'')))
        else
          seq (cancel_all rt en started)
            (throw (Exc ExecutionLimitExceeded
               (''Agent parallel tool execution exceeded execution timeout: '' @ timeout_text rt))))"

definition run_batch :: "runtime \<Rightarrow> env \<Rightarrow> time \<Rightarrow> (tool_call \<times> pyval result) list rt" where
  "run_batch rt en started =
     bnd (remaining_time rt en started) (\<lambda>_.
     bnd tick (\<lambda>n.
     seq (for_each (en_batch en n) (batch_do rt en started))
         (finish_batch rt en started (en_task_cancelled en n))))"

lemma map_list_update_same:
  assumes "f x = f (xs ! i)"
  shows "map f (xs[i := x]) = map f xs"
proof (cases "i < length xs")
  case True
  then have "map f (xs[i := x]) = (map f xs)[i := map f xs ! i]"
    using assms by (simp add: map_update)
  then show ?thesis by simp
qed (simp add: list_update_beyond)

section \<open>What one task may change\<close>

text \<open>
  A batch leaves everything alone but the steps of the trace, the event stream, the idempotency
  store, the log, the tasks and the cancellation flag.
\<close>

definition batch_frame :: "world \<Rightarrow> world \<Rightarrow> bool" where
  "batch_frame s t \<longleftrightarrow> w_ctx t = w_ctx s \<and> w_active t = w_active s \<and> w_stream_ref t = w_stream_ref s
     \<and> w_result t = w_result s \<and> w_approvals t = w_approvals s \<and> w_repeated t = w_repeated s
     \<and> w_counts t = w_counts s \<and> w_waiters t = w_waiters s
     \<and> (w_exec t)\<lparr>ex_steps := []\<rparr> = (w_exec s)\<lparr>ex_steps := []\<rparr>
     \<and> length (ex_steps (w_exec t)) = length (ex_steps (w_exec s))
     \<and> (w_cancelled s \<longrightarrow> w_cancelled t)"

text \<open>The entry that a task's call leaves in the log.\<close>

definition sandbox_entry :: "tool_call \<Rightarrow> log_entry" where
  "sandbox_entry c = LogSandbox (call_id_of c) (tc_name c) (tc_arguments c)"

text \<open>
  One task moving: it keeps its call and its step; it goes from waiting to done; a sandbox call is
  made only on leaving the queue.
\<close>

definition task_moves :: "nat \<Rightarrow> world \<Rightarrow> world \<Rightarrow> bool" where
  "task_moves i s t \<longleftrightarrow> batch_frame s t \<and>
     (\<exists>t'. w_tasks t = (w_tasks s)[i := t'] \<and> tk_call t' = tk_call (w_tasks s ! i)
        \<and> tk_step t' = tk_step (w_tasks s ! i)
        \<and> ((w_log t = w_log s \<and> (tk_pc t' = tk_pc (w_tasks s ! i) \<or> pc_done (tk_pc t')))
          \<or> (i < length (w_tasks s) \<and> tk_pc (w_tasks s ! i) = TQueued \<and> tk_pc t' \<noteq> TQueued
             \<and> w_log t = w_log s @ [sandbox_entry (tk_call (w_tasks s ! i))])
          \<or> (i < length (w_tasks s) \<and> tk_pc (w_tasks s ! i) = TQueued \<and> tk_pc t' \<noteq> TQueued
             \<and> w_log t = w_log s)))"

lemma batch_frame_refl: "batch_frame s s"
  by (simp add: batch_frame_def)

lemma batch_frame_trans: "batch_frame s t \<Longrightarrow> batch_frame t u \<Longrightarrow> batch_frame s u"
  by (simp add: batch_frame_def)

interpretation frame: kept batch_frame
  by unfold_locales (use batch_frame_refl batch_frame_trans in blast)+

lemma task_moves_quiet:
  "batch_frame s t \<Longrightarrow> w_tasks t = w_tasks s \<Longrightarrow> w_log t = w_log s \<Longrightarrow> task_moves i s t"
  unfolding task_moves_def by (auto intro!: exI [of _ "w_tasks s ! i"])

lemma task_moves_trans:
  assumes "task_moves i s t" "task_moves i t u"
  shows "task_moves i s u"
proof -
  obtain t' where t: "w_tasks t = (w_tasks s)[i := t']" and f1: "batch_frame s t"
    and t': "tk_call t' = tk_call (w_tasks s ! i)" "tk_step t' = tk_step (w_tasks s ! i)"
      "(w_log t = w_log s \<and> (tk_pc t' = tk_pc (w_tasks s ! i) \<or> pc_done (tk_pc t')))
          \<or> (i < length (w_tasks s) \<and> tk_pc (w_tasks s ! i) = TQueued \<and> tk_pc t' \<noteq> TQueued
             \<and> w_log t = w_log s @ [sandbox_entry (tk_call (w_tasks s ! i))])
          \<or> (i < length (w_tasks s) \<and> tk_pc (w_tasks s ! i) = TQueued \<and> tk_pc t' \<noteq> TQueued
             \<and> w_log t = w_log s)"
    using assms(1) unfolding task_moves_def by blast
  obtain u' where u: "w_tasks u = (w_tasks t)[i := u']" and f2: "batch_frame t u"
    and u': "tk_call u' = tk_call (w_tasks t ! i)" "tk_step u' = tk_step (w_tasks t ! i)"
      "(w_log u = w_log t \<and> (tk_pc u' = tk_pc (w_tasks t ! i) \<or> pc_done (tk_pc u')))
          \<or> (i < length (w_tasks t) \<and> tk_pc (w_tasks t ! i) = TQueued \<and> tk_pc u' \<noteq> TQueued
             \<and> w_log u = w_log t @ [sandbox_entry (tk_call (w_tasks t ! i))])
          \<or> (i < length (w_tasks t) \<and> tk_pc (w_tasks t ! i) = TQueued \<and> tk_pc u' \<noteq> TQueued
             \<and> w_log u = w_log t)"
    using assms(2) unfolding task_moves_def by blast
  have f: "batch_frame s u" using f1 f2 by (rule batch_frame_trans)
  show ?thesis
  proof (cases "i < length (w_tasks s)")
    case True
    then have "w_tasks t ! i = t'" by (simp add: t)
    with True t t' u u' f show ?thesis
      unfolding task_moves_def by (intro conjI exI [of _ u']) (auto split: task_pc.splits)
  next
    case False
    then have "w_tasks t = w_tasks s" by (simp add: t list_update_beyond)
    with False t' u u' f show ?thesis
      unfolding task_moves_def by (intro conjI exI [of _ u']) auto
  qed
qed

interpretation moves: kept "task_moves i" for i
  by unfold_locales (auto intro: task_moves_quiet batch_frame_refl task_moves_trans)

section \<open>What the operations change\<close>

definition quiet :: "world \<Rightarrow> world \<Rightarrow> bool" where
  "quiet s t \<longleftrightarrow> batch_frame s t \<and> w_tasks t = w_tasks s \<and> w_log t = w_log s"

interpretation quiet: kept quiet
  by unfold_locales (auto simp: quiet_def batch_frame_refl intro: batch_frame_trans)

lemma quiet_moves: "quiet.keeps m \<Longrightarrow> moves.keeps i m"
  unfolding quiet.keeps_def moves.keeps_def quiet_def using task_moves_quiet by blast

named_theorems quiet_ops

lemma quiet_tick [quiet_ops]: "quiet.keeps tick"
  by (rule quiet.keepsI) (simp add: quiet_def batch_frame_def tick_def)

lemma quiet_monotonic [quiet_ops]: "quiet.keeps (monotonic en)"
  unfolding monotonic_def by (intro quiet.keeps_rules quiet_ops)

lemma quiet_check_cancellation [quiet_ops]: "quiet.keeps (check_cancellation en)"
  unfolding check_cancellation_def
  by (intro quiet.keeps_rules quiet_ops quiet.keeps_modify) (simp add: quiet_def batch_frame_def)

lemma quiet_check_timeout [quiet_ops]: "quiet.keeps (check_timeout rt en st)"
  unfolding check_timeout_def by (intro quiet.keeps_rules quiet_ops)

lemma quiet_remaining_time [quiet_ops]: "quiet.keeps (remaining_time rt en st)"
  unfolding remaining_time_def Let_def
  by (intro quiet.keeps_rules quiet_ops)

lemma quiet_cancel_token [quiet_ops]: "quiet.keeps cancel_token"
  unfolding cancel_token_def by (rule quiet.keeps_modify) (simp add: quiet_def batch_frame_def)

lemma quiet_publish_event [quiet_ops]: "quiet.keeps (publish_event ty d)"
  unfolding publish_event_def
  by (rule quiet.keeps_modify) (simp add: quiet_def batch_frame_def split: sum.split)

lemma quiet_publish_completed [quiet_ops]: "quiet.keeps (publish_completed c b)"
  unfolding publish_completed_def by (rule quiet_publish_event)

lemma quiet_tool_call_failed [quiet_ops]: "quiet.keeps (tool_call_failed rt c e)"
  unfolding tool_call_failed_def
  by (auto intro!: quiet.keeps_rules quiet_ops)

lemma quiet_get_task [quiet_ops]: "quiet.keeps (get_task i)"
  unfolding get_task_def by (rule quiet.keeps_gets)

lemma quiet_step_terminal [quiet_ops]: "quiet.keeps (step_terminal i)"
  unfolding step_terminal_def by (rule quiet.keeps_gets)

lemma quiet_step_do [quiet_ops]: "quiet.keeps (step_do en i f)"
  unfolding step_do_def
  by (intro quiet.keeps_rules quiet_ops quiet.keeps_modify) (simp add: quiet_def batch_frame_def)

lemma quiet_single_tool_end [quiet_ops]: "quiet.keeps (single_tool_end rt en st c tr)"
  unfolding single_tool_end_def by (auto intro!: quiet.keeps_rules quiet_ops)

lemma quiet_set_idem [quiet_ops]: "quiet.keeps (modify (\<lambda>w. w\<lparr>w_idem := st\<rparr>))"
  by (rule quiet.keeps_modify) (simp add: quiet_def batch_frame_def)

lemma quiet_executor_finish [quiet_ops]: "quiet.keeps (executor_finish rt en i out)"
  unfolding executor_finish_def
  by (intro quiet.keeps_rules quiet_ops) (auto intro!: quiet.keeps_rules quiet_ops split: prod.splits)

lemma quiet_executor_waited [quiet_ops]: "quiet.keeps (executor_waited rt i)"
  unfolding executor_waited_def by (intro quiet.keeps_rules quiet_ops)

lemmas moves_ops = quiet_ops [THEN quiet_moves]

text \<open>The end of a task moves it, and only it.\<close>

lemma moves_set_done: "moves.keeps i (set_pc i (TDone r))"
  unfolding set_pc_def set_task_def
  by (rule moves.keeps_modify) (auto simp: task_moves_def batch_frame_def)

lemma moves_complete_task: "moves.keeps i (complete_task en i out)"
  unfolding complete_task_def
  by (intro moves.keeps_rules moves_set_done moves_ops)

lemma moves_task_failed: "moves.keeps i (task_failed en i e)"
  unfolding task_failed_def
  by (intro moves.keeps_rules moves_set_done moves_ops)

lemma moves_task_resume:
  assumes "moves.keeps i m"
  shows "moves.keeps i (task_resume rt en st i m)"
  unfolding task_resume_def
  by (intro moves.keeps_rules moves_complete_task moves_task_failed assms moves_ops)

text \<open>Starting a queued task: at most one entry in the log, and then it has left the queue.\<close>

lemma quiet_moves_sound: "quiet s t \<Longrightarrow> task_moves i s t"
  by (simp add: quiet_def task_moves_quiet)

lemma wp_executor_begin:
  assumes q: "i < length (w_tasks w)" "tk_pc (w_tasks w ! i) = TQueued" and c: "c = tk_call (w_tasks w ! i)"
  shows "wp (executor_begin rt en i c key) (\<lambda>_. task_moves i w) (\<lambda>_. task_moves i w) w"
proof -
  note c [simp]
  let ?t0 = "en_mono en (w_tick w)" and ?t1 = "en_mono en (Suc (w_tick w))"
  obtain r st' where b: "tool_exec_begin (rt_executor rt) (tc_name (tk_call (w_tasks w ! i))) (Some key)
      None (?t1 - ?t0) (w_idem w) = (r, st')" by fastforce
  have idle: "task_moves i w (w\<lparr>w_tick := Suc (Suc (w_tick w)), w_idem := st'\<rparr>)"
    by (rule quiet_moves_sound) (simp add: quiet_def batch_frame_def)
  show ?thesis
  proof (cases r)
    case (Inl e)
    with b idle show ?thesis by (simp add: executor_begin_def monotonic_def wp)
  next
    case (Inr nx)
    with b idle q show ?thesis
      by (cases nx) (auto simp: executor_begin_def monotonic_def wp set_task_def task_moves_def
          batch_frame_def sandbox_entry_def)
  qed
qed

text \<open>Operations before and after it are quiet, so the relation carries over to the whole task.\<close>

lemma wp_moves_after:
  assumes "wp m (\<lambda>_. task_moves i s) (\<lambda>_. task_moves i s) s" "\<And>x. moves.keeps i (f x)"
  shows "wp (bnd m f) (\<lambda>_. task_moves i s) (\<lambda>_. task_moves i s) s"
  unfolding wp_bnd
proof (rule wp_mono [OF assms(1)])
  fix x t assume "task_moves i s t"
  then show "wp (f x) (\<lambda>_. task_moves i s) (\<lambda>_. task_moves i s) t"
    using assms(2) by (intro moves.wp_after) (auto intro: task_moves_trans)
qed

lemma wp_moves_catch:
  assumes "wp m (\<lambda>_. task_moves i s) (\<lambda>_. task_moves i s) s" "\<And>e. moves.keeps i (h e)"
  shows "wp (catch m h) (\<lambda>_. task_moves i s) (\<lambda>_. task_moves i s) s"
  unfolding wp_catch
proof (rule wp_mono [OF assms(1)])
  fix e t assume "task_moves i s t"
  then show "wp (h e) (\<lambda>_. task_moves i s) (\<lambda>_. task_moves i s) t"
    using assms(2) by (intro moves.wp_after) (auto intro: task_moves_trans)
qed simp

lemma wp_moves_before:
  assumes "quiet.keeps m"
    and "\<And>x t. quiet s t \<Longrightarrow> wp (f x) (\<lambda>_. task_moves i t) (\<lambda>_. task_moves i t) t"
  shows "wp (bnd m f) (\<lambda>_. task_moves i s) (\<lambda>_. task_moves i s) s"
  unfolding wp_bnd
proof (rule quiet.wp_after [OF assms(1)])
  fix x t assume q: "quiet s t"
  show "wp (f x) (\<lambda>_. task_moves i s) (\<lambda>_. task_moves i s) t"
    by (rule wp_mono [OF assms(2) [OF q]]) (use q in \<open>blast intro: quiet_moves_sound task_moves_trans\<close>)+
qed (rule quiet_moves_sound)

lemma wp_single_tool_begin:
  assumes "i < length (w_tasks w)" "tk_pc (w_tasks w ! i) = TQueued" "c = tk_call (w_tasks w ! i)"
  shows "wp (single_tool_begin rt en started i c) (\<lambda>_. task_moves i w) (\<lambda>_. task_moves i w) w"
  unfolding single_tool_begin_def seq_def
  apply (rule wp_moves_before [OF quiet_check_cancellation])
  apply (rule wp_moves_before [OF quiet_remaining_time])
  apply (rule wp_moves_before [OF quiet.keeps_gets])
  apply (rule wp_moves_before [OF quiet_publish_event])
  apply (rule wp_moves_catch [OF wp_executor_begin quiet_moves [OF quiet_tool_call_failed]])
  using assms by (simp_all add: quiet_def)

lemma wp_task_start:
  assumes "i < length (w_tasks w)" "tk_pc (w_tasks w ! i) = TQueued"
  shows "wp (task_start rt en started i) (\<lambda>_. task_moves i w) (\<lambda>_. task_moves i w) w"
proof -
  let ?t = "w_tasks w ! i"
  have "wp (bnd (single_tool_begin rt en started i (tk_call ?t)) (\<lambda>r. case r of
            None \<Rightarrow> ret ()
          | Some tr \<Rightarrow> bnd (single_tool_end rt en started (tk_call ?t) tr) (complete_task en i)))
        (\<lambda>_. task_moves i s) (\<lambda>_. task_moves i s) s" if "w_tasks s = w_tasks w" for s
  proof (rule wp_moves_after)
    show "wp (single_tool_begin rt en started i (tk_call ?t)) (\<lambda>_. task_moves i s) (\<lambda>_. task_moves i s) s"
      using assms that by (intro wp_single_tool_begin) auto
    show "moves.keeps i (case r of None \<Rightarrow> ret ()
          | Some tr \<Rightarrow> bnd (single_tool_end rt en started (tk_call ?t) tr) (complete_task en i))" for r
      by (cases r) (auto intro!: moves.keeps_rules moves_complete_task moves_ops)
  qed
  then have "wp (seq (check_cancellation en) (seq (step_do en (tk_step ?t) step_mark_started)
       (bnd (single_tool_begin rt en started i (tk_call ?t)) (\<lambda>r. case r of
            None \<Rightarrow> ret ()
          | Some tr \<Rightarrow> bnd (single_tool_end rt en started (tk_call ?t) tr) (complete_task en i)))))
        (\<lambda>_. task_moves i w) (\<lambda>_. task_moves i w) w"
    unfolding seq_def
    by (intro wp_moves_before [OF quiet_check_cancellation] wp_moves_before [OF quiet_step_do])
       (simp add: quiet_def)
  then have "wp (catch (seq (check_cancellation en) (seq (step_do en (tk_step ?t) step_mark_started)
       (bnd (single_tool_begin rt en started i (tk_call ?t)) (\<lambda>r. case r of
            None \<Rightarrow> ret ()
          | Some tr \<Rightarrow> bnd (single_tool_end rt en started (tk_call ?t) tr) (complete_task en i)))))
       (task_failed en i)) (\<lambda>_. task_moves i w) (\<lambda>_. task_moves i w) w"
    by (rule wp_moves_catch) (rule moves_task_failed)
  then show ?thesis by (simp add: task_start_def get_task_def wp_bnd wp_gets)
qed

section \<open>What one event of the batch may change\<close>

text \<open>An event moves the task it names, if it is enabled; otherwise nothing happens.\<close>

fun event_task :: "batch_event \<Rightarrow> nat" where
  "event_task (BatchStart i) = i"
| "event_task (BatchReply i r) = i"
| "event_task (BatchWake i) = i"
| "event_task (BatchTimeout i) = i"

lemma task_moves_refl: "task_moves i s s"
  by (rule moves.R_refl)

lemma wp_moves_guarded:
  assumes "b \<Longrightarrow> wp m (\<lambda>_. task_moves i s) (\<lambda>_. task_moves i s) s"
  shows "wp (guarded b m) (\<lambda>_. task_moves i s) (\<lambda>_. task_moves i s) s"
  using assms by (simp add: wp_guarded task_moves_refl)

lemma moves_wp: "moves.keeps i m \<Longrightarrow> wp m (\<lambda>_. task_moves i s) (\<lambda>_. task_moves i s) s"
  by (rule moves.keeps_wp)

lemma wp_batch_do:
  "wp (batch_do rt en started ev) (\<lambda>_. task_moves (event_task ev) s) (\<lambda>_. task_moves (event_task ev) s) s"
proof (cases ev)
  case (BatchStart i)
  then show ?thesis
    by (auto simp: batch_do_def wp_bnd wp_gets task_pc_def split: if_splits
        intro!: wp_moves_guarded wp_task_start)
next
  case (BatchTimeout i)
  have "moves.keeps i (catch (if pc = Some TSandbox then executor_finish rt en i (Inl cancelled_error)
                    else throw cancelled_error) (\<lambda>_. throw (Exc TimeoutError [])))" for pc
    by (intro moves.keeps_rules moves_ops)
  then have "moves.keeps i (guarded b (task_resume rt en started i (catch (if pc = Some TSandbox
                    then executor_finish rt en i (Inl cancelled_error)
                    else throw cancelled_error) (\<lambda>_. throw (Exc TimeoutError [])))))" for b pc
    by (intro moves.keeps_guarded moves_task_resume)
  with BatchTimeout show ?thesis
    by (simp only: batch_do_def batch_event.case wp_bnd wp_gets event_task.simps moves_wp)
qed (auto simp: batch_do_def wp_bnd wp_gets
      intro!: moves_wp moves.keeps_guarded moves_task_resume moves_ops)

section \<open>What a batch may change\<close>

text \<open>
  The tasks keep their calls and steps; a task that left the queue does not return to it and a
  finished one keeps its outcome; the log grows by one sandbox call for each of some distinct
  tasks that left the queue.
\<close>

definition batch_moves :: "world \<Rightarrow> world \<Rightarrow> bool" where
  "batch_moves s t \<longleftrightarrow> batch_frame s t
     \<and> map tk_call (w_tasks t) = map tk_call (w_tasks s) \<and> map tk_step (w_tasks t) = map tk_step (w_tasks s)
     \<and> (\<forall>i < length (w_tasks s). tk_pc (w_tasks s ! i) \<noteq> TQueued \<longrightarrow> tk_pc (w_tasks t ! i) \<noteq> TQueued)
     \<and> (\<exists>is. distinct is \<and> w_log t = w_log s @ map (\<lambda>i. sandbox_entry (tk_call (w_tasks s ! i))) is
          \<and> (\<forall>i \<in> set is. i < length (w_tasks s) \<and> tk_pc (w_tasks s ! i) = TQueued
               \<and> tk_pc (w_tasks t ! i) \<noteq> TQueued))"

lemma batch_moves_refl: "batch_moves s s"
  by (auto simp: batch_moves_def batch_frame_refl intro: exI [of _ "[]"])

lemma batch_moves_trans:
  assumes "batch_moves s t" "batch_moves t u"
  shows "batch_moves s u"
proof -
  from assms(1) obtain is1 where 1: "distinct is1" "w_log t = w_log s @ map (\<lambda>i. sandbox_entry (tk_call (w_tasks s ! i))) is1"
      "\<forall>i \<in> set is1. i < length (w_tasks s) \<and> tk_pc (w_tasks s ! i) = TQueued \<and> tk_pc (w_tasks t ! i) \<noteq> TQueued"
    unfolding batch_moves_def by blast
  from assms(2) obtain is2 where 2: "distinct is2" "w_log u = w_log t @ map (\<lambda>i. sandbox_entry (tk_call (w_tasks t ! i))) is2"
      "\<forall>i \<in> set is2. i < length (w_tasks t) \<and> tk_pc (w_tasks t ! i) = TQueued \<and> tk_pc (w_tasks u ! i) \<noteq> TQueued"
    unfolding batch_moves_def by blast
  have calls: "map tk_call (w_tasks t) = map tk_call (w_tasks s)" using assms(1) by (simp add: batch_moves_def)
  then have len: "length (w_tasks t) = length (w_tasks s)" by (metis length_map)
  have call: "tk_call (w_tasks t ! i) = tk_call (w_tasks s ! i)" if "i < length (w_tasks s)" for i
    using calls that len by (metis nth_map)
  have q: "tk_pc (w_tasks s ! i) \<noteq> TQueued \<Longrightarrow> tk_pc (w_tasks t ! i) \<noteq> TQueued" if "i < length (w_tasks s)" for i
    using assms(1) that by (simp add: batch_moves_def)
  have q': "tk_pc (w_tasks t ! i) \<noteq> TQueued \<Longrightarrow> tk_pc (w_tasks u ! i) \<noteq> TQueued" if "i < length (w_tasks s)" for i
    using assms(2) that len by (simp add: batch_moves_def)
  have "distinct (is1 @ is2)" using 1 2 by auto
  moreover have "w_log u = w_log s @ map (\<lambda>i. sandbox_entry (tk_call (w_tasks s ! i))) (is1 @ is2)"
    using 1(2) 2(2,3) call len by (auto intro!: map_cong)
  moreover have "\<forall>i \<in> set (is1 @ is2). i < length (w_tasks s) \<and> tk_pc (w_tasks s ! i) = TQueued
      \<and> tk_pc (w_tasks u ! i) \<noteq> TQueued"
    using 1(3) 2(3) q q' len by auto
  moreover have "batch_frame s u"
    using assms batch_frame_trans unfolding batch_moves_def by blast
  ultimately show ?thesis
    using assms q q' unfolding batch_moves_def by (intro conjI exI [of _ "is1 @ is2"]) (auto simp: len)
qed

interpretation batch: kept batch_moves
  by unfold_locales (auto intro: batch_moves_refl batch_moves_trans)

lemma task_moves_batch:
  assumes "task_moves i s t"
  shows "batch_moves s t"
proof -
  obtain t' where t: "w_tasks t = (w_tasks s)[i := t']" and f: "batch_frame s t"
    and t': "tk_call t' = tk_call (w_tasks s ! i)" "tk_step t' = tk_step (w_tasks s ! i)"
    and c: "(w_log t = w_log s \<and> (tk_pc t' = tk_pc (w_tasks s ! i) \<or> pc_done (tk_pc t')))
          \<or> (i < length (w_tasks s) \<and> tk_pc (w_tasks s ! i) = TQueued \<and> tk_pc t' \<noteq> TQueued
             \<and> w_log t = w_log s @ [sandbox_entry (tk_call (w_tasks s ! i))])
          \<or> (i < length (w_tasks s) \<and> tk_pc (w_tasks s ! i) = TQueued \<and> tk_pc t' \<noteq> TQueued
             \<and> w_log t = w_log s)"
    using assms unfolding task_moves_def by blast
  have keep: "tk_pc (w_tasks s ! j) \<noteq> TQueued \<Longrightarrow> tk_pc (w_tasks t ! j) \<noteq> TQueued" if "j < length (w_tasks s)" for j
    using c t that by (cases "j = i") auto
  have same: "map tk_call (w_tasks t) = map tk_call (w_tasks s)" "map tk_step (w_tasks t) = map tk_step (w_tasks s)"
    using t t' by (simp_all add: map_list_update_same)
  show ?thesis
  proof (cases "w_log t = w_log s")
    case True
    then show ?thesis
      using f keep same unfolding batch_moves_def by (auto intro: exI [of _ "[]"])
  next
    case False
    with c t have "i < length (w_tasks s)" "tk_pc (w_tasks s ! i) = TQueued" "tk_pc (w_tasks t ! i) \<noteq> TQueued"
      "w_log t = w_log s @ [sandbox_entry (tk_call (w_tasks s ! i))]" by auto
    then show ?thesis
      using f keep same unfolding batch_moves_def by (auto intro: exI [of _ "[i]"])
  qed
qed

lemma batch_do_keeps: "batch.keeps (batch_do rt en started ev)"
  using wp_batch_do task_moves_batch unfolding wp_snd by (intro batch.keepsI) blast

lemma task_cancel_keeps: "batch.keeps (task_cancel rt en started i)"
proof -
  have "moves.keeps i (case pc of
        TQueued \<Rightarrow> set_pc i (TDone (Inl cancelled_error))
      | TSandbox \<Rightarrow> task_resume rt en started i (executor_finish rt en i (Inl cancelled_error))
      | TWaiting _ \<Rightarrow> task_resume rt en started i (throw cancelled_error)
      | TDone _ \<Rightarrow> ret ())" for pc
    by (cases pc) (auto intro!: moves_set_done moves_task_resume moves_ops moves.keeps_rules)
  then have "moves.keeps i (task_cancel rt en started i)"
    unfolding task_cancel_def by (intro moves.keeps_bnd moves.keeps_gets)
  then show ?thesis
    unfolding batch.keeps_def moves.keeps_def using task_moves_batch by blast
qed

section \<open>Bounded concurrency\<close>

lemma length_filter_update_le:
  "length (filter P (xs[i := x])) \<le> (if P x \<and> \<not> P (xs ! i) then 1 else 0) + length (filter P xs)"
proof (induction xs arbitrary: i)
  case (Cons y ys)
  show ?case
  proof (cases i)
    case (Suc j)
    with Cons.IH [of j] show ?thesis by auto
  qed auto
qed simp

lemma pc_done_not_running: "pc_done pc \<Longrightarrow> \<not> pc_running pc"
  by (cases pc) simp_all

lemma task_moves_running:
  assumes "task_moves i s t"
  shows "running t \<le> running s + (if i < length (w_tasks s) \<and> tk_pc (w_tasks s ! i) = TQueued then 1 else 0)"
proof -
  obtain t' where t: "w_tasks t = (w_tasks s)[i := t']"
    and c: "tk_pc t' = tk_pc (w_tasks s ! i) \<or> pc_done (tk_pc t')
          \<or> (i < length (w_tasks s) \<and> tk_pc (w_tasks s ! i) = TQueued)"
    using assms unfolding task_moves_def by blast
  show ?thesis
  proof (cases "i < length (w_tasks s)")
    case True
    have "pc_running (tk_pc t') \<Longrightarrow> \<not> pc_running (tk_pc (w_tasks s ! i)) \<Longrightarrow> tk_pc (w_tasks s ! i) = TQueued"
      using c pc_done_not_running by auto
    with True t length_filter_update_le [of "\<lambda>t. pc_running (tk_pc t)" "w_tasks s" i t']
    show ?thesis by (auto simp: running_def split: if_splits)
  qed (simp add: running_def t list_update_beyond)
qed

lemma batch_do_running:
  assumes "int (running s) \<le> max_parallel_tool_calls (rt_limits rt)"
  shows "int (running (snd (batch_do rt en started ev s))) \<le> max_parallel_tool_calls (rt_limits rt)"
proof -
  let ?u = "snd (batch_do rt en started ev s)"
  have m: "task_moves (event_task ev) s ?u"
    using wp_batch_do unfolding wp_snd by blast
  show ?thesis
  proof (cases "event_task ev < length (w_tasks s) \<and> tk_pc (w_tasks s ! event_task ev) = TQueued")
    case True
    show ?thesis
    proof (cases "?u = s")
      case False
      with True have "int (running s) < max_parallel_tool_calls (rt_limits rt)"
        by (cases ev) (auto simp: batch_do_def bnd_def gets_def guarded_def ret_def task_pc_def split: if_splits)
      with task_moves_running [OF m] show ?thesis by (auto split: if_splits)
    qed (use assms in simp)
  next
    case False
    with task_moves_running [OF m] assms show ?thesis by (simp split: if_splits)
  qed
qed

section \<open>Progress\<close>

text \<open>\<open>ends_done i m\<close>: from a state with a task \<open>i\<close>, \<open>m\<close> ends normally with that task finished.\<close>

definition at_pc :: "(task_pc \<Rightarrow> bool) \<Rightarrow> nat \<Rightarrow> world \<Rightarrow> bool" where
  "at_pc P i w \<longleftrightarrow> i < length (w_tasks w) \<and> P (tk_pc (w_tasks w ! i))"

lemma wp_set_pc: "wp (set_pc i pc) Q E s = Q () (s\<lparr>w_tasks := (w_tasks s)[i := (w_tasks s ! i)\<lparr>tk_pc := pc\<rparr>]\<rparr>)"
  by (simp add: set_pc_def set_task_def wp)

lemma wp_set_pc_done:
  "i < length (w_tasks s) \<Longrightarrow> wp (set_pc i (TDone r)) (\<lambda>_. at_pc pc_done i) E s"
  by (simp add: wp_set_pc at_pc_def)

lemma task_moves_length: "task_moves i s t \<Longrightarrow> length (w_tasks t) = length (w_tasks s)"
  by (auto simp: task_moves_def)

lemma wp_task_failed:
  assumes "i < length (w_tasks s)"
  shows "wp (task_failed en i e) (\<lambda>_. at_pc pc_done i) (\<lambda>_ _. False) s"
proof -
  have len: "task_moves i s t \<Longrightarrow> wp (set_pc i (TDone r)) (\<lambda>_. at_pc pc_done i) E t" for t r E
    using assms by (intro wp_set_pc_done) (simp add: task_moves_length)
  show ?thesis
    unfolding task_failed_def wp_catch wp_bnd wp_seq get_task_def step_terminal_def wp_gets
    by (rule moves.wp_after) (intro moves.keeps_rules moves_ops, (erule len)+)
qed

lemma wp_complete_task:
  assumes "i < length (w_tasks s)"
  shows "wp (complete_task en i out) (\<lambda>_. at_pc pc_done i) (\<lambda>_ t. i < length (w_tasks t)) s"
  unfolding complete_task_def wp_bnd wp_seq get_task_def wp_gets
  by (rule moves.wp_after [where i = i])
     (use assms in \<open>auto intro: moves_ops wp_set_pc_done simp: task_moves_length\<close>)

lemma wp_task_tail:
  assumes "i < length (w_tasks s)"
  shows "wp (catch (bnd (single_tool_end rt en started c tr) (complete_task en i)) (task_failed en i))
           (\<lambda>_. at_pc pc_done i) (\<lambda>_ _. False) s"
  unfolding wp_catch wp_bnd
proof (rule moves.wp_after [where i = i, OF quiet_moves [OF quiet_single_tool_end]])
  fix x u assume "task_moves i s u"
  then have "i < length (w_tasks u)" using assms by (simp add: task_moves_length)
  then show "wp (complete_task en i x) (\<lambda>_. at_pc pc_done i)
            (\<lambda>e. wp (task_failed en i e) (\<lambda>_. at_pc pc_done i) (\<lambda>_ _. False)) u"
    by (rule wp_mono [OF wp_complete_task]) (auto intro: wp_task_failed)
next
  fix e u assume "task_moves i s u"
  then show "wp (task_failed en i e) (\<lambda>_. at_pc pc_done i) (\<lambda>_ _. False) u"
    using assms by (intro wp_task_failed) (simp add: task_moves_length)
qed

lemma wp_task_resume:
  assumes "i < length (w_tasks s)" "moves.keeps i m"
  shows "wp (task_resume rt en started i m) (\<lambda>_. at_pc pc_done i) (\<lambda>_ _. False) s"
proof -
  let ?c = "tk_call (w_tasks s ! i)"
  have k: "moves.keeps i (catch m (tool_call_failed rt ?c))"
    by (intro moves.keeps_catch assms(2) moves_ops)
  show ?thesis
    unfolding task_resume_def wp_bnd get_task_def wp_gets
    apply (subst wp_catch, subst wp_bnd)
    apply (rule moves.wp_after [OF k])
     apply (rule wp_task_tail [unfolded wp_catch])
    using assms(1) by (auto intro: wp_task_failed simp: task_moves_length)
qed

text \<open>A started task leaves the queue.\<close>

lemma wp_single_tool_begin_leaves:
  assumes "i < length (w_tasks s)"
  shows "wp (single_tool_begin rt en started i c)
           (\<lambda>r t. i < length (w_tasks t) \<and> (r = None \<longrightarrow> at_pc (\<lambda>p. p \<noteq> TQueued) i t))
           (\<lambda>_ t. i < length (w_tasks t)) s"
proof -
  have fin: "quiet t u \<Longrightarrow> i < length (w_tasks t) \<Longrightarrow> i < length (w_tasks u)" for t u
    by (simp add: quiet_def)
  have exe: "wp (executor_begin rt en i c key)
      (\<lambda>r t. i < length (w_tasks t) \<and> (r = None \<longrightarrow> at_pc (\<lambda>p. p \<noteq> TQueued) i t))
      (\<lambda>e t. wp (tool_call_failed rt c e)
          (\<lambda>r t. i < length (w_tasks t) \<and> (r = None \<longrightarrow> at_pc (\<lambda>p. p \<noteq> TQueued) i t))
          (\<lambda>_ t. i < length (w_tasks t)) t) t"
    if "i < length (w_tasks t)" for key t
  proof -
    have bad: "wp (tool_call_failed rt c e)
          (\<lambda>r t. i < length (w_tasks t) \<and> (r = None \<longrightarrow> at_pc (\<lambda>p. p \<noteq> TQueued) i t))
          (\<lambda>_ t. i < length (w_tasks t)) u" if "i < length (w_tasks u)" for e u
      using that fin quiet.keepsD [OF quiet_publish_completed, of u c False]
      by (auto simp: tool_call_failed_def wp publish_completed_def publish_event_def modify_def
          split: sum.splits)
    show ?thesis
      unfolding executor_begin_def monotonic_def wp_bnd wp_gets wp_tick wp_ret
      using that
      by (auto simp: wp_seq wp_bnd wp_modify wp_lift_res wp_ret wp_log_it set_task_def at_pc_def
          intro!: bad [unfolded at_pc_def] split: prod.splits exec_next.splits)
  qed
  show ?thesis
    unfolding single_tool_begin_def wp_seq wp_bnd wp_gets wp_catch
    apply (rule quiet.wp_after [OF quiet_check_cancellation])
    apply (rule quiet.wp_after [OF quiet_remaining_time])
    apply (rule quiet.wp_after [OF quiet_publish_event])
    using assms by (auto simp: quiet_def intro!: exe)
qed

lemma wp_task_start_leaves:
  assumes "i < length (w_tasks s)"
  shows "wp (task_start rt en started i) (\<lambda>_. at_pc (\<lambda>p. p \<noteq> TQueued) i) (\<lambda>_ _. False) s"
proof -
  let ?c = "tk_call (w_tasks s ! i)"
  have fin: "at_pc pc_done i t \<Longrightarrow> at_pc (\<lambda>p. p \<noteq> TQueued) i t" for t
    by (auto simp: at_pc_def)
  have failed: "wp (task_failed en i e) (\<lambda>_. at_pc (\<lambda>p. p \<noteq> TQueued) i) (\<lambda>_ _. False) t"
    if "i < length (w_tasks t)" for e t
    using that by (intro wp_mono [OF wp_task_failed]) (auto intro: fin)
  have tail: "wp (single_tool_end rt en started ?c tr)
      (\<lambda>x. wp (complete_task en i x) (\<lambda>_. at_pc (\<lambda>p. p \<noteq> TQueued) i)
         (\<lambda>e. wp (task_failed en i e) (\<lambda>_. at_pc (\<lambda>p. p \<noteq> TQueued) i) (\<lambda>_ _. False)))
      (\<lambda>e. wp (task_failed en i e) (\<lambda>_. at_pc (\<lambda>p. p \<noteq> TQueued) i) (\<lambda>_ _. False)) t"
    if "i < length (w_tasks t)" for tr t
    using wp_mono [OF wp_task_tail [OF that], of "\<lambda>_. at_pc (\<lambda>p. p \<noteq> TQueued) i" "\<lambda>_ _. False"] fin
    by (simp add: wp_catch wp_bnd)
  show ?thesis
    unfolding task_start_def wp_bnd get_task_def wp_gets wp_catch wp_seq
    apply (rule quiet.wp_after [OF quiet_check_cancellation])
    apply (rule quiet.wp_after [OF quiet_step_do])
    apply (rule wp_mono [OF wp_single_tool_begin_leaves])
    using assms by (auto simp: quiet_def wp_ret wp_bnd intro!: failed tail split: option.splits)
qed

text \<open>The work left: two turns for a queued task, one for a suspended one.\<close>

fun pc_weight :: "task_pc \<Rightarrow> nat" where
  "pc_weight TQueued = 2"
| "pc_weight (TDone _) = 0"
| "pc_weight _ = 1"

definition batch_work :: "world \<Rightarrow> nat" where
  "batch_work w = sum_list (map (\<lambda>t. pc_weight (tk_pc t)) (w_tasks w))"

fun enabled :: "runtime \<Rightarrow> batch_event \<Rightarrow> world \<Rightarrow> bool" where
  "enabled rt (BatchStart i) w = (task_pc i w = Some TQueued
     \<and> int (running w) < max_parallel_tool_calls (rt_limits rt))"
| "enabled rt (BatchReply i r) w = (task_pc i w = Some TSandbox)"
| "enabled rt (BatchWake i) w = (\<exists>k \<in> set (im_set (w_idem w)). task_pc i w = Some (TWaiting k))"
| "enabled rt (BatchTimeout i) w = (case task_pc i w of None \<Rightarrow> False | Some p \<Rightarrow> pc_running p)"

lemma sum_list_map_update_less:
  fixes f :: "'a \<Rightarrow> nat"
  assumes "i < length xs" "f x < f (xs ! i)"
  shows "sum_list (map f (xs[i := x])) < sum_list (map f xs)"
  using assms
proof (induction xs arbitrary: i)
  case (Cons y ys)
  then show ?case by (cases i) auto
qed simp

lemma at_pc_done_work:
  assumes "task_moves i s t" "at_pc P i t" "i < length (w_tasks s)"
    "\<And>p. P p \<Longrightarrow> pc_weight p < pc_weight (tk_pc (w_tasks s ! i))"
  shows "batch_work t < batch_work s"
proof -
  obtain t' where t: "w_tasks t = (w_tasks s)[i := t']"
    using assms(1) unfolding task_moves_def by blast
  with assms(2-4) show ?thesis
    by (auto simp: batch_work_def at_pc_def intro!: sum_list_map_update_less)
qed

lemma pc_weight_done [simp]: "pc_weight p = 0 \<longleftrightarrow> pc_done p"
  by (cases p) simp_all

lemma pc_weight_running: "pc_running p \<Longrightarrow> pc_weight p = 1"
  by (cases p) simp_all

lemma wp_enabled_resume:
  assumes "i < length (w_tasks s)" "pc_running (tk_pc (w_tasks s ! i))" "moves.keeps i m"
  shows "wp (task_resume rt en started i m) (\<lambda>_ t. batch_work t < batch_work s) (\<lambda>_ _. False) s"
  by (intro wp_mono [OF wp_conj [OF moves_wp [OF moves_task_resume [OF assms(3)]]
        wp_task_resume [OF assms(1,3)]]])
     (use assms in \<open>auto simp: pc_weight_running intro: at_pc_done_work\<close>)

lemma wp_enabled_start:
  assumes "i < length (w_tasks s)" "tk_pc (w_tasks s ! i) = TQueued"
  shows "wp (task_start rt en started i) (\<lambda>_ t. batch_work t < batch_work s) (\<lambda>_ _. False) s"
proof -
  have "pc_weight p < 2" if "p \<noteq> TQueued" for p using that by (cases p) simp_all
  with assms show ?thesis
    by (intro wp_mono [OF wp_conj [OF wp_task_start wp_task_start_leaves]])
       (auto intro: at_pc_done_work)
qed

text \<open>An enabled event always makes progress, and no event ever raises.\<close>

lemma wp_batch_do_enabled:
  assumes "enabled rt ev s"
  shows "wp (batch_do rt en started ev) (\<lambda>_ t. batch_work t < batch_work s) (\<lambda>_ _. False) s"
proof (cases ev)
  case (BatchTimeout i)
  have "moves.keeps i (catch (if pc = Some TSandbox then executor_finish rt en i (Inl cancelled_error)
                    else throw cancelled_error) (\<lambda>_. throw (Exc TimeoutError [])))" for pc
    by (intro moves.keeps_rules moves_ops)
  then have "wp (task_resume rt en started i
            (catch (if pc = Some TSandbox then executor_finish rt en i (Inl cancelled_error)
                    else throw cancelled_error) (\<lambda>_. throw (Exc TimeoutError []))))
        (\<lambda>_ t. batch_work t < batch_work s) (\<lambda>_ _. False) s" for pc
    using assms BatchTimeout
    by (intro wp_enabled_resume) (auto simp: task_pc_def split: if_splits)
  then show ?thesis
    using assms BatchTimeout by (simp add: batch_do_def wp_bnd wp_gets wp_guarded)
qed (use assms in \<open>auto simp: batch_do_def wp_bnd wp_gets wp_guarded task_pc_def
       intro!: wp_enabled_start wp_enabled_resume moves_ops split: if_splits\<close>)

lemma batch_do_disabled: "\<not> enabled rt ev s \<Longrightarrow> batch_do rt en started ev s = (Inr (), s)"
  by (cases ev) (auto simp: batch_do_def bnd_def gets_def guarded_def ret_def)

lemma batch_do_total: "fst (batch_do rt en started ev s) = Inr ()"
proof (cases "enabled rt ev s")
  case True
  then show ?thesis
    using wp_batch_do_enabled [OF True, of en started]
    by (auto simp: wp_def split: prod.splits sum.splits)
qed (simp add: batch_do_disabled)

lemma for_each_batch_do:
  "for_each evs (batch_do rt en started) s =
     (Inr (), fold (\<lambda>ev w. snd (batch_do rt en started ev w)) evs s)"
proof (induction evs arbitrary: s)
  case (Cons ev evs)
  obtain w where "batch_do rt en started ev s = (Inr (), w)"
    by (metis batch_do_total prod.collapse)
  then show ?case
    using Cons by (simp add: seq_def bnd_def)
qed (simp add: ret_def)

definition run_events :: "runtime \<Rightarrow> env \<Rightarrow> time \<Rightarrow> batch_event list \<Rightarrow> world \<Rightarrow> world" where
  "run_events rt en started evs w = snd (for_each evs (batch_do rt en started) w)"

lemma run_events_simps [simp]:
  "run_events rt en started [] w = w"
  "run_events rt en started (ev # evs) w =
     run_events rt en started evs (snd (batch_do rt en started ev w))"
  by (simp_all only: run_events_def for_each_batch_do) simp_all

lemma run_events_running:
  "int (running w) \<le> max_parallel_tool_calls (rt_limits rt) \<Longrightarrow>
     int (running (run_events rt en started evs w)) \<le> max_parallel_tool_calls (rt_limits rt)"
  by (induction evs arbitrary: w) (simp_all add: batch_do_running)

lemma run_events_moves: "batch_moves w (run_events rt en started evs w)"
  by (induction evs arbitrary: w)
     (auto intro: batch_moves_refl batch_moves_trans batch.keepsD [OF batch_do_keeps])

text \<open>Something can always happen until every task is finished.\<close>

lemma some_enabled:
  assumes "\<not> all_done w" "0 < max_parallel_tool_calls (rt_limits rt)"
  shows "\<exists>ev. enabled rt ev w"
proof (cases "\<exists>i < length (w_tasks w). pc_running (tk_pc (w_tasks w ! i))")
  case True
  then obtain i where "i < length (w_tasks w)" "pc_running (tk_pc (w_tasks w ! i))" by blast
  then have "enabled rt (BatchTimeout i) w" by (simp add: task_pc_def)
  then show ?thesis by blast
next
  case False
  then have "running w = 0"
    by (auto simp: running_def in_set_conv_nth filter_empty_conv)
  moreover from assms(1) obtain i where i: "i < length (w_tasks w)" "\<not> pc_done (tk_pc (w_tasks w ! i))"
    by (auto simp: all_done_def in_set_conv_nth)
  moreover have "tk_pc (w_tasks w ! i) = TQueued"
    using False i by (cases "tk_pc (w_tasks w ! i)") (metis pc_running.simps pc_done.simps)+
  ultimately have "enabled rt (BatchStart i) w" using assms(2) by (simp add: task_pc_def)
  then show ?thesis by blast
qed

lemma batch_can_finish:
  assumes "0 < max_parallel_tool_calls (rt_limits rt)"
  shows "\<exists>evs. length evs \<le> batch_work w \<and> all_done (run_events rt en started evs w)"
proof (induction "batch_work w" arbitrary: w rule: less_induct)
  case less
  show ?case
  proof (cases "all_done w")
    case True
    then show ?thesis by (intro exI [of _ "[]"]) simp
  next
    case False
    then obtain ev where ev: "enabled rt ev w" using some_enabled [OF _ assms] by blast
    let ?w = "snd (batch_do rt en started ev w)"
    have lt: "batch_work ?w < batch_work w"
      using wp_batch_do_enabled [OF ev, of en started] batch_do_total [of rt en started ev w]
      by (auto simp: wp_def split: prod.splits)
    from less [OF lt] obtain evs where "length evs \<le> batch_work ?w"
      "all_done (run_events rt en started evs ?w)" by blast
    with lt show ?thesis by (intro exI [of _ "ev # evs"]) simp
  qed
qed

section \<open>The whole batch\<close>

lemma wp_task_cancel:
  assumes "i < length (w_tasks s)"
  shows "wp (task_cancel rt en started i) (\<lambda>_ t. task_moves i s t \<and> at_pc pc_done i t) (\<lambda>_ _. False) s"
proof (cases "tk_pc (w_tasks s ! i)")
  case TQueued
  then show ?thesis
    using wp_conj [OF moves_wp [OF moves_set_done] wp_set_pc_done [OF assms]]
    by (simp add: task_cancel_def wp_bnd wp_gets) (simp add: wp_set_pc)
next
  case (TDone r)
  with assms show ?thesis
    by (simp add: task_cancel_def wp_bnd wp_gets wp_ret task_moves_refl at_pc_def)
next
  case TSandbox
  have k: "moves.keeps i (executor_finish rt en i (Inl cancelled_error))" by (intro moves_ops)
  show ?thesis
    using wp_conj [OF moves_wp [OF moves_task_resume [OF k]] wp_task_resume [OF assms k]] TSandbox
    by (simp add: task_cancel_def wp_bnd wp_gets)
next
  case (TWaiting ev)
  have k: "moves.keeps i (throw cancelled_error)" by (intro moves.keeps_rules)
  show ?thesis
    using wp_conj [OF moves_wp [OF moves_task_resume [OF k]] wp_task_resume [OF assms k]] TWaiting
    by (simp add: task_cancel_def wp_bnd wp_gets)
qed

lemma wp_cancel_upto:
  assumes "length (w_tasks s) = n" "k \<le> n" "\<forall>j < k. pc_done (tk_pc (w_tasks s ! j))"
  shows "wp (for_each [k..<n] (task_cancel rt en started))
           (\<lambda>_ t. batch_moves s t \<and> length (w_tasks t) = n \<and> (\<forall>j < n. pc_done (tk_pc (w_tasks t ! j))))
           (\<lambda>_ _. False) s"
  using assms
proof (induction "n - k" arbitrary: k s)
  case 0
  then show ?case by (simp add: wp_ret batch_moves_refl)
next
  case (Suc m)
  then have k: "k < n" and up: "[k..<n] = k # [Suc k..<n]" by (simp_all add: upt_conv_Cons)
  show ?case
    unfolding up for_each.simps wp_seq
  proof (rule wp_mono [OF wp_task_cancel])
    show "k < length (w_tasks s)" using k Suc.prems by simp
    fix x t assume t: "task_moves k s t \<and> at_pc pc_done k t"
    have "\<forall>j < Suc k. pc_done (tk_pc (w_tasks t ! j))"
      using t Suc.prems by (auto simp: task_moves_def at_pc_def less_Suc_eq nth_list_update)
    then have "wp (for_each [Suc k..<n] (task_cancel rt en started))
           (\<lambda>_ u. batch_moves t u \<and> length (w_tasks u) = n \<and> (\<forall>j < n. pc_done (tk_pc (w_tasks u ! j))))
           (\<lambda>_ _. False) t"
      using Suc t k by (intro Suc.hyps(1)) (auto simp: task_moves_length)
    then show "wp (for_each [Suc k..<n] (task_cancel rt en started))
           (\<lambda>_ u. batch_moves s u \<and> length (w_tasks u) = n \<and> (\<forall>j < n. pc_done (tk_pc (w_tasks u ! j))))
           (\<lambda>_ _. False) t"
      by (rule wp_mono) (use t task_moves_batch in \<open>blast intro: batch_moves_trans\<close>)+
  qed simp
qed

lemma wp_cancel_all: "wp (cancel_all rt en started) (\<lambda>_ t. batch_moves s t \<and> all_done t) (\<lambda>_ _. False) s"
  unfolding cancel_all_def wp_bnd wp_gets
  by (rule wp_mono [OF wp_cancel_upto]) (auto simp: all_done_def in_set_conv_nth)

lemma quiet_batch_moves: "quiet s t \<Longrightarrow> batch_moves s t"
  using quiet_moves_sound task_moves_batch by blast

definition batch_stop :: "exc \<Rightarrow> bool" where
  "batch_stop e \<longleftrightarrow> exc_class e = ExecutionLimitExceeded \<or> exc_class e = ExecutionCancelled"

lemma batch_stop_simps: "batch_stop (Exc ExecutionLimitExceeded m)" "batch_stop (Exc ExecutionCancelled m)"
  by (simp_all add: batch_stop_def)

lemma wp_finish_batch:
  "wp (finish_batch rt en started c)
     (\<lambda>rs t. batch_moves s t \<and> all_done t \<and> rs = batch_results t)
     (\<lambda>e t. batch_moves s t \<and> batch_stop e) s"
proof -
  have can: "wp (cancel_all rt en started) (\<lambda>_. wp (throw (Exc c m)) (\<lambda>rs u. batch_moves s u \<and> all_done u \<and> rs = batch_results u)
         (\<lambda>e u. batch_moves s u \<and> batch_stop e)) (\<lambda>e u. batch_moves s u \<and> batch_stop e) u"
    if "batch_moves s u" "batch_stop (Exc c m)" for c m u
    using that by (intro wp_mono [OF wp_cancel_all]) (auto simp: wp_throw intro: batch_moves_trans)
  have tok: "batch_moves s (s\<lparr>w_cancelled := True\<rparr>)"
    by (rule quiet_batch_moves) (simp add: quiet_def batch_frame_def)
  show ?thesis
    by (auto simp: finish_batch_def wp_bnd wp_gets wp_seq cancel_token_def wp_modify batch_moves_refl
        batch_stop_simps intro!: can tok)
qed

lemma wp_run_batch:
  "wp (run_batch rt en started)
     (\<lambda>rs t. batch_moves s t \<and> all_done t \<and> rs = batch_results t)
     (\<lambda>e t. batch_moves s t \<and> batch_stop e) s"
proof -
  have after: "wp (for_each evs (batch_do rt en started)) (\<lambda>_. wp (finish_batch rt en started c)
       (\<lambda>rs u. batch_moves s u \<and> all_done u \<and> rs = batch_results u) (\<lambda>e u. batch_moves s u \<and> batch_stop e)) E t"
    if "batch_moves s t" for evs c t E
  proof -
    have m: "batch_moves s (run_events rt en started evs t)"
      using that run_events_moves by (rule batch_moves_trans)
    have "wp (finish_batch rt en started c) (\<lambda>rs u. batch_moves s u \<and> all_done u \<and> rs = batch_results u)
        (\<lambda>e u. batch_moves s u \<and> batch_stop e) (run_events rt en started evs t)"
      by (rule wp_mono [OF wp_finish_batch]) (use m in \<open>blast intro: batch_moves_trans\<close>)+
    then show ?thesis
      by (simp add: wp_def [of "for_each _ _"] run_events_def for_each_batch_do)
  qed
  have tk: "batch_moves t (t\<lparr>w_tick := n\<rparr>)" for t n
    by (rule quiet_batch_moves) (simp add: quiet_def batch_frame_def)
  show ?thesis
    unfolding run_batch_def remaining_time_def monotonic_def wp_bnd wp_tick wp_ret Let_def
    by (auto simp: wp_throw wp_ret wp_tick wp_bnd wp_seq tk batch_stop_simps
        intro!: after batch_moves_trans [OF tk tk])
qed

section \<open>Relations that the batch respects\<close>

locale rt_kept_batch = rt_kept +
  assumes R_idem: "R s (s\<lparr>w_idem := st\<rparr>)"
    and R_log: "R s (s\<lparr>w_log := w_log s @ [LogSandbox i n a]\<rparr>)"
begin

lemma keeps_log_it [keeps_ops]: "keeps (log_it (LogSandbox i n a))"
  unfolding log_it_def by (rule keeps_modify) (rule R_log)

lemma keeps_publish_completed [keeps_ops]: "keeps (publish_completed c b)"
  unfolding publish_completed_def by (intro keeps_ops)

lemma keeps_tool_call_failed [keeps_ops]: "keeps (tool_call_failed rt c e)"
  unfolding tool_call_failed_def by (intro keeps_rules keeps_ops)

lemma keeps_get_task [keeps_ops]: "keeps (get_task i)"
  unfolding get_task_def by (rule keeps_gets)

lemma keeps_set_task [keeps_ops]: "keeps (set_task i f)"
  unfolding set_task_def by (rule keeps_modify) (rule R_tasks)

lemma keeps_set_pc [keeps_ops]: "keeps (set_pc i pc)"
  unfolding set_pc_def by (rule keeps_set_task)

lemma keeps_set_idem [keeps_ops]: "keeps (modify (\<lambda>w. w\<lparr>w_idem := st\<rparr>))"
  by (rule keeps_modify) (rule R_idem)

lemma keeps_executor_begin [keeps_ops]: "keeps (executor_begin rt en i c key)"
  unfolding executor_begin_def
  by (intro keeps_rules keeps_ops)
     (auto intro!: keeps_rules keeps_ops split: prod.split exec_next.split)

lemma keeps_single_tool_begin [keeps_ops]: "keeps (single_tool_begin rt en started i c)"
  unfolding single_tool_begin_def by (intro keeps_rules keeps_ops)

lemma keeps_single_tool_end [keeps_ops]: "keeps (single_tool_end rt en started c tr)"
  unfolding single_tool_end_def by (intro keeps_rules keeps_ops)

lemma keeps_complete_task [keeps_ops]: "keeps (complete_task en i out)"
  unfolding complete_task_def by (intro keeps_rules keeps_ops)

lemma keeps_task_failed [keeps_ops]: "keeps (task_failed en i e)"
  unfolding task_failed_def by (intro keeps_rules keeps_ops)

lemma keeps_task_start [keeps_ops]: "keeps (task_start rt en started i)"
  unfolding task_start_def
  by (intro keeps_rules keeps_ops) (auto intro!: keeps_rules keeps_ops split: option.split)

lemma keeps_task_resume: "keeps m \<Longrightarrow> keeps (task_resume rt en started i m)"
  unfolding task_resume_def by (intro keeps_rules keeps_ops)

lemma keeps_executor_finish [keeps_ops]: "keeps (executor_finish rt en i out)"
  unfolding executor_finish_def
  by (intro keeps_rules keeps_ops) (auto intro!: keeps_rules keeps_ops split: prod.split)

lemma keeps_executor_waited [keeps_ops]: "keeps (executor_waited rt i)"
  unfolding executor_waited_def by (intro keeps_rules keeps_ops)

lemma keeps_batch_do [keeps_ops]: "keeps (batch_do rt en started ev)"
  unfolding batch_do_def
  by (cases ev) (simp_all, (intro keeps_rules keeps_ops keeps_task_resume)+)

lemma keeps_task_cancel [keeps_ops]: "keeps (task_cancel rt en started i)"
  unfolding task_cancel_def
  by (intro keeps_rules keeps_ops)
     (auto intro!: keeps_rules keeps_ops keeps_task_resume split: task_pc.split)

lemma keeps_run_batch [keeps_ops]: "keeps (run_batch rt en started)"
  unfolding run_batch_def finish_batch_def cancel_all_def
  by (intro keeps_rules keeps_ops)

end

end
