(* ===== verification/RtCalls.thy ===== *)
theory RtCalls
  imports RtBatch
begin

text \<open>
  The handling of one tool decision (\<open>_execute_tool_calls\<close>, \<open>_handle_required_approvals\<close>,
  \<open>_record_tool_result\<close> and their helpers in \<^verbatim>\<open>runtime.py\<close>): the whole batch is admitted
  against the limits, approvals are waited for, the tasks run, and the results are applied in the
  order of the model.
\<close>

declare split_paired_All [simp del]

section \<open>Admission\<close>

type_synonym call_key = "string \<times> string"

definition call_key :: "tool_call \<Rightarrow> call_key" where
  "call_key c = (tc_name c, json_canonical (tc_arguments c))"

definition count_of :: "('k \<times> int) list \<Rightarrow> 'k \<Rightarrow> int" where
  "count_of m k = (case map_of m k of None \<Rightarrow> 0 | Some n \<Rightarrow> n)"

text \<open>The checks of one call against the projected counts.\<close>

definition admit_call ::
  "runtime \<Rightarrow> env \<Rightarrow> time \<Rightarrow> tool_call \<Rightarrow> int \<Rightarrow> (string \<times> int) list \<Rightarrow> (call_key \<times> int) list \<Rightarrow> unit rt" where
  "admit_call rt en started c g counts reps =
     seq (check_cancellation en)
     (if tc_name c = [] then throw (Exc AgentProtocolError ''Tool call is missing tool name'')
      else if call_id_of c = [] then throw (Exc AgentProtocolError ''Tool call is missing call_id'')
      else if \<not> registry_has (rt_tools rt) (tc_name c) then
        throw (Exc AgentProtocolError (''Unknown tool requested by model: '' @ tc_name c))
      else
        seq (lift_res (validate_tool_call (rt_limits rt) g))
        (seq (lift_res (validate_per_tool_call (rt_limits rt) (tc_name c) (count_of counts (tc_name c))))
        (seq (lift_res (validate_repeated_tool_call (rt_limits rt) (count_of reps (call_key c))))
        (check_timeout rt en started))))"

primrec admit_calls ::
  "runtime \<Rightarrow> env \<Rightarrow> time \<Rightarrow> tool_call list \<Rightarrow> int \<Rightarrow> (string \<times> int) list \<Rightarrow> (call_key \<times> int) list \<Rightarrow> unit rt" where
  "admit_calls rt en started [] g counts reps = ret ()"
| "admit_calls rt en started (c # cs) g counts reps =
     seq (admit_call rt en started c g counts reps)
       (admit_calls rt en started cs (g + 1)
          (dset (tc_name c) (count_of counts (tc_name c) + 1) counts)
          (dset (call_key c) (count_of reps (call_key c) + 1) reps))"

text \<open>The loop that counts the admitted calls.\<close>

definition bump :: "'k \<Rightarrow> ('k \<times> int) list \<Rightarrow> ('k \<times> int) list" where
  "bump k m = dset k (count_of m k + 1) m"

definition count_admissions :: "tool_call list \<Rightarrow> unit rt" where
  "count_admissions cs = for_each cs (\<lambda>c. modify (\<lambda>w. w\<lparr>
     w_repeated := bump (call_key c) (w_repeated w), w_counts := bump (tc_name c) (w_counts w)\<rparr>))"

section \<open>The assistant message\<close>

text \<open>An inference response is a value of the JSON decoder, never an object with attributes.\<close>

definition extract_assistant_message :: "pyval \<Rightarrow> pydict result" where
  "extract_assistant_message response =
     (let bad = raise AgentProtocolError ''Inference response does not contain a valid assistant message'' in
      case response of
        PDict d \<Rightarrow> (case dget d ''message'' of PDict m \<Rightarrow> Inr m
          | _ \<Rightarrow> (case dget d ''choices'' of
                PList (PDict choice # _) \<Rightarrow> (case dget choice ''message'' of PDict m \<Rightarrow> Inr m | _ \<Rightarrow> bad)
              | PList (_ # _) \<Rightarrow> raise AgentProtocolError ''Inference choice must be an object''
              | _ \<Rightarrow> bad))
      | _ \<Rightarrow> bad)"

section \<open>Steps of the batch\<close>

definition tool_step_input :: "tool_call \<Rightarrow> pyval" where
  "tool_step_input c = PDict [(''call_id'', PStr (call_id_of c)), (''tool_name'', PStr (tc_name c)),
     (''arguments'', PDict (tc_arguments c))]"

text \<open>One \<open>TOOL_CALL\<close> step per call; \<open>tool_steps\<close> maps the call's identifier to its step.\<close>

primrec add_tool_steps :: "env \<Rightarrow> tool_call list \<Rightarrow> (string \<times> nat) list \<Rightarrow> (string \<times> nat) list rt" where
  "add_tool_steps en [] d = ret d"
| "add_tool_steps en (c # cs) d =
     seq (check_cancellation en)
     (bnd (append_step en StepType_TOOL_CALL (tool_step_input c) (\<lambda>_ s. Inr s)) (\<lambda>i.
      add_tool_steps en cs (dset (call_id_of c) i d)))"

definition step_of :: "(string \<times> nat) list \<Rightarrow> string \<Rightarrow> nat" where
  "step_of d k = (case map_of d k of None \<Rightarrow> 0 | Some i \<Rightarrow> i)"

section \<open>Approval\<close>

definition approval_id :: "string \<Rightarrow> tool_call \<Rightarrow> string" where
  "approval_id eid c = eid @ '':'' @ call_id_of c"

primrec required_approvals :: "runtime \<Rightarrow> env \<Rightarrow> time \<Rightarrow> approval_policy \<Rightarrow> tool_call list \<Rightarrow> tool_call list rt" where
  "required_approvals rt en started p [] = ret []"
| "required_approvals rt en started p (c # cs) =
     seq (check_cancellation en)
     (seq (check_timeout rt en started)
     (bnd (required_approvals rt en started p cs) (\<lambda>rest.
      ret (if requires_approval p (tc_name c) then c # rest else rest))))"

definition create_approval :: "env \<Rightarrow> string \<Rightarrow> tool_call \<Rightarrow> unit rt" where
  "create_approval en eid c =
     seq (check_cancellation en)
     (bnd (gets w_approvals) (\<lambda>m.
      bnd (lift_res (create_request (approval_id eid c) eid (call_id_of c) (tc_name c) (tc_arguments c) m))
        (\<lambda>(r, m'). modify (\<lambda>w. w\<lparr>w_approvals := m'\<rparr>))))"

definition set_waiter :: "nat \<Rightarrow> waiter_pc \<Rightarrow> unit rt" where
  "set_waiter i pc = modify (\<lambda>w. w\<lparr>w_waiters := (w_waiters w)[i := (fst (w_waiters w ! i), pc)]\<rparr>)"

text \<open>The end of one turn of \<open>wait_for_approval\<close>, with the request it was woken with.\<close>

definition approval_decided :: "nat \<Rightarrow> approval_request \<Rightarrow> unit rt" where
  "approval_decided i r = (case ar_status r of
      Approval_APPROVED \<Rightarrow> set_waiter i WDone
    | Approval_REJECTED \<Rightarrow> throw (Exc ToolExecutionError
        (''Human approval rejected for tool '' @ quoted (ar_tool_name r)
         @ '' (call_id='' @ ar_call_id r @ '')''))
    | Approval_PENDING \<Rightarrow> set_waiter i WStart)"

definition approval_turn :: "runtime \<Rightarrow> env \<Rightarrow> time \<Rightarrow> nat \<Rightarrow> unit rt" where
  "approval_turn rt en started i =
     seq (check_cancellation en)
     (seq (check_timeout rt en started)
     (bnd (remaining_time rt en started) (\<lambda>_.
     (bnd (gets (\<lambda>w. wait_for_resolution (fst (w_waiters w ! i)) (w_approvals w))) (\<lambda>res.
      bnd (lift_res res) (\<lambda>r. case r of
          None \<Rightarrow> set_waiter i WWaiting
        | Some req \<Rightarrow> approval_decided i req))))))"

definition waiter_pc :: "nat \<Rightarrow> world \<Rightarrow> waiter_pc option" where
  "waiter_pc i w = (if i < length (w_waiters w) then Some (snd (w_waiters w ! i)) else None)"

definition approval_timeout_error :: "runtime \<Rightarrow> exc" where
  "approval_timeout_error rt = Exc ExecutionLimitExceeded
     (''Agent execution exceeded timeout while waiting for human approval: '' @ timeout_text rt)"

definition approval_do :: "runtime \<Rightarrow> env \<Rightarrow> time \<Rightarrow> approval_move \<Rightarrow> unit rt" where
  "approval_do rt en started mv = (case mv of
      ApStart i \<Rightarrow>
        bnd (gets (\<lambda>w. waiter_pc i w = Some WStart)) (\<lambda>ok. guarded ok (approval_turn rt en started i))
    | ApWake i \<Rightarrow>
        bnd (gets (\<lambda>w. waiter_pc i w = Some WWaiting
                 \<and> map_of (am_events (w_approvals w)) (fst (w_waiters w ! i)) = Some True)) (\<lambda>ok.
        guarded ok
          (bnd (gets (\<lambda>w. after_wait (fst (w_waiters w ! i)) (w_approvals w))) (\<lambda>res.
           bnd (lift_res res) (approval_decided i))))
    | ApTimeout i \<Rightarrow>
        bnd (gets (\<lambda>w. waiter_pc i w = Some WWaiting)) (\<lambda>ok.
        guarded ok (throw (approval_timeout_error rt)))
    | ApOther op \<Rightarrow> modify (\<lambda>w. case apply_approval_op op (w_approvals w) of
          Inl _ \<Rightarrow> w | Inr (_, m) \<Rightarrow> w\<lparr>w_approvals := m\<rparr>))"

definition all_approved :: "world \<Rightarrow> bool" where
  "all_approved w \<longleftrightarrow> (\<forall>(a, pc) \<in> set (w_waiters w). pc = WDone)"

text \<open>
  The \<open>gather\<close> of the waits.  When it is cancelled the first unfinished waiter decides: one that
  waits turns the cancellation into \<open>ExecutionCancelled\<close>, one that never ran passes it on.
\<close>

definition await_approvals :: "runtime \<Rightarrow> env \<Rightarrow> time \<Rightarrow> unit rt" where
  "await_approvals rt en started =
     bnd tick (\<lambda>n.
     seq (for_each (en_approvals en n) (approval_do rt en started))
     (bnd (gets all_approved) (\<lambda>d.
      if d then ret ()
      else if en_task_cancelled en n then
        bnd (gets (\<lambda>w. find (\<lambda>(a, pc). pc \<noteq> WDone) (w_waiters w))) (\<lambda>first.
        case first of
          Some (_, WWaiting) \<Rightarrow> seq cancel_token (throw (Exc ExecutionCancelled
             ''Agent execution was cancelled while waiting for human approval''))
        | _ \<Rightarrow> throw cancelled_error)
      else throw (approval_timeout_error rt))))"

text \<open>\<open>_handle_required_approvals\<close>: the identifiers of the calls that needed and got approval.\<close>

definition handle_required_approvals :: "runtime \<Rightarrow> env \<Rightarrow> time \<Rightarrow> tool_call list \<Rightarrow> string list rt" where
  "handle_required_approvals rt en started cs = (case rt_approval_policy rt of
      None \<Rightarrow> ret []
    | Some p \<Rightarrow>
        bnd (gets (\<lambda>w. ex_id (w_exec w))) (\<lambda>eid.
        bnd (required_approvals rt en started p cs) (\<lambda>req.
        if req = [] then ret []
        else
          seq (for_each req (create_approval en eid))
          (seq (go_to en State_WAITING_APPROVAL)
          (seq (modify (\<lambda>w. w\<lparr>w_waiters := map (\<lambda>c. (approval_id eid c, WStart)) req\<rparr>))
          (seq (await_approvals rt en started)
          (seq (check_cancellation en)
          (seq (check_timeout rt en started)
               (ret (remdups (map call_id_of req))))))))))  )"

section \<open>Results\<close>

definition normalize_tool_output :: "pyval \<Rightarrow> string" where
  "normalize_tool_output v = (case v of PStr s \<Rightarrow> s | PNone \<Rightarrow> [] | _ \<Rightarrow> py_str v)"

definition recorded_call :: "tool_call \<Rightarrow> pyval \<Rightarrow> pydict" where
  "recorded_call c out = [(''id'', PStr (call_id_of c)), (''name'', PStr (tc_name c)),
     (''arguments'', PDict (tc_arguments c)), (''result'', out)]"

definition record_tool_result :: "env \<Rightarrow> tool_call \<Rightarrow> pyval \<Rightarrow> unit rt" where
  "record_tool_result en c out =
     seq (check_cancellation en)
     (if call_id_of c = [] then throw (Exc AgentProtocolError ''Tool call is missing call_id'')
      else
        bnd (start_step en StepType_TOOL_RESULT (tool_step_input c)) (\<lambda>i.
        seq (set_step_output i out)
        (seq (complete_step en i)
        (seq (ctx_do (mgr_add_tool_call (PDict (recorded_call c out))))
        (let obs = normalize_tool_output out in
         bnd (start_step en StepType_OBSERVATION
                (PDict [(''call_id'', PStr (call_id_of c)), (''tool_name'', PStr (tc_name c))])) (\<lambda>j.
         seq (set_step_output j (PStr obs))
         (seq (complete_step en j)
         (seq (ctx_do (\<lambda>cx. Inr (add_observation obs cx)))
         (seq (ctx_do (add_tool_message (call_id_of c) (tc_name c) (PStr obs)))
              (check_cancellation en))))))))))"

definition apply_result :: "env \<Rightarrow> tool_call \<times> pyval result \<Rightarrow> unit rt" where
  "apply_result en cr =
     seq (check_cancellation en)
     (case snd cr of Inl _ \<Rightarrow> ret () | Inr out \<Rightarrow> record_tool_result en (fst cr) out)"

definition first_failure :: "(tool_call \<times> pyval result) list \<Rightarrow> exc option" where
  "first_failure rs = (case [e. (_, Inl e) \<leftarrow> rs] of [] \<Rightarrow> None | e # _ \<Rightarrow> Some e)"

definition raise_first_failure :: "(tool_call \<times> pyval result) list \<Rightarrow> unit rt" where
  "raise_first_failure rs = (case first_failure rs of
      None \<Rightarrow> ret ()
    | Some e \<Rightarrow>
        if isinstance_exc e ExecutionCancelled then throw e
        else if isinstance_exc e ExecutionLimitExceeded then throw e
        else if isinstance_exc e CancelledError then
          seq cancel_token (throw (Exc ExecutionCancelled
            ''Agent execution was cancelled during parallel tool execution''))
        else throw e)"

section \<open>One tool decision\<close>

definition prepare_calls ::
  "runtime \<Rightarrow> env \<Rightarrow> time \<Rightarrow> pyval \<Rightarrow> tool_call list \<Rightarrow> (string \<times> nat) list rt" where
  "prepare_calls rt en started response cs =
     (if cs = [] then throw (Exc AgentProtocolError ''Tool decision contains no tool calls'')
      else
        seq (check_cancellation en)
        (bnd (gets (\<lambda>w. (int (tool_call_count (w_ctx w)), w_counts w, w_repeated w))) (\<lambda>(g, counts, reps).
         seq (admit_calls rt en started cs g counts reps)
        (seq (count_admissions cs)
        (bnd (lift_res (extract_assistant_message response)) (\<lambda>msg.
         seq (ctx_do (add_assistant_message (PDict msg)))
             (add_tool_steps en cs []))))))  )"

definition make_task :: "(string \<times> nat) list \<Rightarrow> tool_call \<Rightarrow> tool_task" where
  "make_task d c = \<lparr>tk_call = c, tk_step = step_of d (call_id_of c), tk_key = [], tk_begun = 0, tk_pc = TQueued\<rparr>"

definition start_batch :: "runtime \<Rightarrow> env \<Rightarrow> time \<Rightarrow> tool_call list \<Rightarrow> (string \<times> nat) list \<Rightarrow> unit rt" where
  "start_batch rt en started cs d =
     bnd (handle_required_approvals rt en started cs) (\<lambda>approved.
     seq (for_each approved (\<lambda>k. step_do en (step_of d k) (\<lambda>_. step_mark_waiting_approval)))
     (seq (check_cancellation en)
     (seq (go_to en State_TOOL_EXECUTION)
          (modify (\<lambda>w. w\<lparr>w_tasks := map (make_task d) cs\<rparr>)))))"

definition apply_results :: "env \<Rightarrow> (tool_call \<times> pyval result) list \<Rightarrow> unit rt" where
  "apply_results en rs =
     seq (go_to en State_OBSERVING)
     (seq (for_each rs (apply_result en))
          (raise_first_failure rs))"

definition execute_tool_calls :: "runtime \<Rightarrow> env \<Rightarrow> time \<Rightarrow> pyval \<Rightarrow> agent_decision \<Rightarrow> unit rt" where
  "execute_tool_calls rt en started response d =
     (let cs = normalized_tool_calls d in
      bnd (prepare_calls rt en started response cs) (\<lambda>steps.
      seq (start_batch rt en started cs steps)
      (bnd (run_batch rt en started) (apply_results en))))"

section \<open>Relations the phases respect\<close>

context rt_kept
begin

lemma keeps_admit_call [keeps_ops]: "keeps (admit_call rt en started c g counts reps)"
  unfolding admit_call_def by (intro keeps_rules keeps_ops)

lemma keeps_admit_calls [keeps_ops]: "keeps (admit_calls rt en started cs g counts reps)"
  by (induction cs arbitrary: g counts reps) (auto intro!: keeps_rules keeps_ops)

lemma keeps_add_tool_steps [keeps_ops]: "keeps (add_tool_steps en cs d)"
  by (induction cs arbitrary: d) (auto intro!: keeps_rules keeps_ops)

lemma keeps_set_waiter [keeps_ops]: "keeps (set_waiter i pc)"
  unfolding set_waiter_def by (rule keeps_modify) (rule R_waiters)

lemma keeps_approval_decided [keeps_ops]: "keeps (approval_decided i r)"
  unfolding approval_decided_def
  by (cases "ar_status r") (auto intro!: keeps_rules keeps_ops)

lemma keeps_approval_turn [keeps_ops]: "keeps (approval_turn rt en started i)"
  unfolding approval_turn_def
  by (intro keeps_rules keeps_ops) (auto intro!: keeps_ops split: option.split)

lemma keeps_approval_do [keeps_ops]: "keeps (approval_do rt en started mv)"
proof (cases mv)
  case (ApOther op)
  have "R w (case apply_approval_op op (w_approvals w) of Inl _ \<Rightarrow> w | Inr (_, m) \<Rightarrow> w\<lparr>w_approvals := m\<rparr>)" for w
    by (cases "apply_approval_op op (w_approvals w)") (auto intro: R_approvals R_refl)
  with ApOther show ?thesis by (simp add: approval_do_def keeps_modify)
qed (auto simp: approval_do_def intro!: keeps_rules keeps_ops)

lemma keeps_await_approvals [keeps_ops]: "keeps (await_approvals rt en started)"
  unfolding await_approvals_def
  by (intro keeps_rules keeps_ops)
     (auto intro!: keeps_rules keeps_ops split: option.split waiter_pc.split)

lemma keeps_required_approvals [keeps_ops]: "keeps (required_approvals rt en started p cs)"
  by (induction cs) (auto intro!: keeps_rules keeps_ops)

lemma keeps_create_approval [keeps_ops]: "keeps (create_approval en eid c)"
  unfolding create_approval_def
proof (intro keeps_seq keeps_check_cancellation keepsI)
  fix s :: world
  let ?op = "ApprovalOp_create (approval_id eid c) eid (call_id_of c) (tc_name c) (tc_arguments c)"
  show "R s (snd (bnd (gets w_approvals) (\<lambda>m.
      bnd (lift_res (create_request (approval_id eid c) eid (call_id_of c) (tc_name c) (tc_arguments c) m))
        (\<lambda>(r, m'). modify (\<lambda>w. w\<lparr>w_approvals := m'\<rparr>))) s))"
    using R_approvals [of ?op s]
    by (cases "create_request (approval_id eid c) eid (call_id_of c) (tc_name c) (tc_arguments c) (w_approvals s)")
       (auto simp: bnd_def gets_def lift_res_def modify_def R_refl)
qed

lemma keeps_handle_required_approvals [keeps_ops]: "keeps (handle_required_approvals rt en started cs)"
  unfolding handle_required_approvals_def
  by (auto intro!: keeps_rules keeps_ops keeps_modify R_waiters split: option.split)

lemma keeps_start_batch [keeps_ops]: "keeps (start_batch rt en started cs d)"
  unfolding start_batch_def by (intro keeps_rules keeps_ops keeps_modify R_tasks)

end

text \<open>Recording the results leaves the tasks of the batch alone.\<close>

locale rt_kept_record = rt_kept_base +
  assumes R_ctx: "R s (s\<lparr>w_ctx := c\<rparr>)"
begin

lemma keeps_raise_first_failure [keeps_ops]: "keeps (raise_first_failure rs)"
  unfolding raise_first_failure_def
  by (auto intro!: keeps_rules keeps_ops split: option.split)

lemma keeps_ctx_do [keeps_ops]: "keeps (ctx_do f)"
  unfolding ctx_do_def by (intro keeps_rules keeps_ops keeps_modify R_ctx)

lemma keeps_record_tool_result [keeps_ops]: "keeps (record_tool_result en c out)"
  unfolding record_tool_result_def Let_def by (intro keeps_rules keeps_ops)

lemma keeps_apply_result [keeps_ops]: "keeps (apply_result en cr)"
  unfolding apply_result_def
  by (auto intro!: keeps_rules keeps_ops split: sum.split)

lemma keeps_apply_results [keeps_ops]: "keeps (apply_results en rs)"
  unfolding apply_results_def by (intro keeps_rules keeps_ops)

end

locale rt_kept_ctx = rt_kept R + rt_kept_record R for R :: "world \<Rightarrow> world \<Rightarrow> bool"

definition same_tasks :: "world \<Rightarrow> world \<Rightarrow> bool" where
  "same_tasks s t \<longleftrightarrow> w_tasks t = w_tasks s"

interpretation tasks: rt_kept_record same_tasks
  by unfold_locales (auto simp: same_tasks_def)

text \<open>The log and the counters change only in the batch and on admission.\<close>

definition same_calls :: "world \<Rightarrow> world \<Rightarrow> bool" where
  "same_calls s t \<longleftrightarrow> w_log t = w_log s \<and> w_counts t = w_counts s \<and> w_repeated t = w_repeated s"

interpretation calls: rt_kept_ctx same_calls
  by unfold_locales (auto simp: same_calls_def)

text \<open>The context changes only by the operations of the context.\<close>

definition same_ctx :: "world \<Rightarrow> world \<Rightarrow> bool" where
  "same_ctx s t \<longleftrightarrow> w_ctx t = w_ctx s"

interpretation ctx: rt_kept_batch same_ctx
  by unfold_locales (auto simp: same_ctx_def)

section \<open>Admission and the limits\<close>

definition calls_of :: "string \<Rightarrow> tool_call list \<Rightarrow> int" where
  "calls_of n cs = int (length (filter (\<lambda>c. tc_name c = n) cs))"

definition key_calls_of :: "call_key \<Rightarrow> tool_call list \<Rightarrow> int" where
  "key_calls_of k cs = int (length (filter (\<lambda>c. call_key c = k) cs))"

lemma calls_of_simps [simp]:
  "calls_of n [] = 0" "calls_of n (c # cs) = (if tc_name c = n then 1 else 0) + calls_of n cs"
  "key_calls_of k [] = 0" "key_calls_of k (c # cs) = (if call_key c = k then 1 else 0) + key_calls_of k cs"
  by (simp_all add: calls_of_def key_calls_of_def)

lemma calls_of_nonneg [simp]: "0 \<le> calls_of n cs" "0 \<le> key_calls_of k cs"
  by (simp_all add: calls_of_def key_calls_of_def)

lemma count_of_bump: "count_of (bump k m) j = count_of m j + (if j = k then 1 else 0)"
  by (auto simp: count_of_def bump_def)

text \<open>The batch fits: globally, per tool and per repeated call.\<close>

definition admitted ::
  "runtime \<Rightarrow> tool_call list \<Rightarrow> int \<Rightarrow> (string \<times> int) list \<Rightarrow> (call_key \<times> int) list \<Rightarrow> bool" where
  "admitted rt cs g counts reps \<longleftrightarrow>
     (\<forall>c \<in> set cs. tc_name c \<noteq> [] \<and> call_id_of c \<noteq> [] \<and> registry_has (rt_tools rt) (tc_name c))
   \<and> (cs \<noteq> [] \<longrightarrow> g + int (length cs) \<le> max_tool_calls (rt_limits rt))
   \<and> (\<forall>n m. map_of (per_tool_limits (rt_limits rt)) n = Some m \<and> calls_of n cs \<noteq> 0
        \<longrightarrow> count_of counts n + calls_of n cs \<le> m)
   \<and> (\<forall>k. key_calls_of k cs \<noteq> 0
        \<longrightarrow> count_of reps k + key_calls_of k cs \<le> max_repeated_tool_calls (rt_limits rt))"

lemma admitted_Cons:
  assumes "tc_name c \<noteq> []" "call_id_of c \<noteq> []" "registry_has (rt_tools rt) (tc_name c)"
    "g < max_tool_calls (rt_limits rt)"
    "\<forall>m. map_of (per_tool_limits (rt_limits rt)) (tc_name c) = Some m \<longrightarrow> count_of counts (tc_name c) < m"
    "count_of reps (call_key c) < max_repeated_tool_calls (rt_limits rt)"
    "admitted rt cs (g + 1) (bump (tc_name c) counts) (bump (call_key c) reps)"
  shows "admitted rt (c # cs) g counts reps"
proof -
  have t: "calls_of n cs \<noteq> 0 \<Longrightarrow> map_of (per_tool_limits (rt_limits rt)) n = Some m \<Longrightarrow>
      count_of (bump (tc_name c) counts) n + calls_of n cs \<le> m" for n m
    using assms(7) by (simp add: admitted_def)
  have r: "key_calls_of k cs \<noteq> 0 \<Longrightarrow>
      count_of (bump (call_key c) reps) k + key_calls_of k cs \<le> max_repeated_tool_calls (rt_limits rt)" for k
    using assms(7) unfolding admitted_def by blast
  have "count_of counts n + calls_of n (c # cs) \<le> m"
    if "map_of (per_tool_limits (rt_limits rt)) n = Some m" "calls_of n (c # cs) \<noteq> 0" for n m
    using t [of n m] assms(5) that
    by (cases "calls_of n cs = 0") (simp_all add: count_of_bump split: if_splits)
  moreover have "count_of reps k + key_calls_of k (c # cs) \<le> max_repeated_tool_calls (rt_limits rt)"
    if "key_calls_of k (c # cs) \<noteq> 0" for k
    using r [of k] assms(6) that
    by (cases "key_calls_of k cs = 0") (simp_all add: count_of_bump split: if_splits)
  ultimately show ?thesis
    using assms unfolding admitted_def by (cases cs) auto
qed

lemma wp_admit_call:
  "wp (admit_call rt en started c g counts reps)
     (\<lambda>_ _. tc_name c \<noteq> [] \<and> call_id_of c \<noteq> [] \<and> registry_has (rt_tools rt) (tc_name c)
        \<and> g < max_tool_calls (rt_limits rt)
        \<and> (\<forall>m. map_of (per_tool_limits (rt_limits rt)) (tc_name c) = Some m \<longrightarrow> count_of counts (tc_name c) < m)
        \<and> count_of reps (call_key c) < max_repeated_tool_calls (rt_limits rt))
     (\<lambda>_ _. True) s"
  by (simp add: admit_call_def check_timeout_def monotonic_def wp wp_check_cancellation Let_def)

lemma wp_admit_calls:
  "wp (admit_calls rt en started cs g counts reps) (\<lambda>_ _. admitted rt cs g counts reps) (\<lambda>_ _. True) s"
proof (induction cs arbitrary: g counts reps s)
  case Nil
  then show ?case by (simp add: wp_ret admitted_def)
next
  case (Cons c cs)
  show ?case
    unfolding admit_calls.simps wp_seq
    by (rule wp_mono [OF wp_admit_call])
       (auto intro!: wp_mono [OF Cons.IH] admitted_Cons simp: bump_def)
qed

text \<open>The sandbox calls in the log: all, those of a tool, those of a repeated call.\<close>

fun sandbox_key :: "log_entry \<Rightarrow> call_key option" where
  "sandbox_key (LogSandbox i n args) = Some (n, json_canonical args)"
| "sandbox_key _ = None"

definition sandbox_count :: "(call_key \<Rightarrow> bool) \<Rightarrow> world \<Rightarrow> int" where
  "sandbox_count P w = int (length (filter (\<lambda>e. case sandbox_key e of None \<Rightarrow> False | Some k \<Rightarrow> P k) (w_log w)))"

text \<open>The counters bound the log, and stay within the limits; \<open>cs\<close> are admitted calls not yet made.\<close>

definition calls_pending :: "runtime \<Rightarrow> tool_call list \<Rightarrow> world \<Rightarrow> bool" where
  "calls_pending rt cs w \<longleftrightarrow>
     sandbox_count (\<lambda>_. True) w + int (length cs) \<le> max_tool_calls (rt_limits rt)
   \<and> (\<forall>n. sandbox_count (\<lambda>k. fst k = n) w + calls_of n cs \<le> count_of (w_counts w) n)
   \<and> (\<forall>k. sandbox_count (\<lambda>j. j = k) w + key_calls_of k cs \<le> count_of (w_repeated w) k)
   \<and> (\<forall>n m. map_of (per_tool_limits (rt_limits rt)) n = Some m \<longrightarrow> count_of (w_counts w) n \<le> m)
   \<and> (\<forall>k. count_of (w_repeated w) k \<le> max_repeated_tool_calls (rt_limits rt))"

definition calls_ok :: "runtime \<Rightarrow> world \<Rightarrow> bool" where
  "calls_ok rt w \<longleftrightarrow> calls_pending rt [] w"

text \<open>Between two decisions every call made has been recorded in the context.\<close>

definition calls_recorded :: "world \<Rightarrow> bool" where
  "calls_recorded w \<longleftrightarrow> sandbox_count (\<lambda>_. True) w \<le> int (tool_call_count (w_ctx w))"

lemma calls_pending_ok:
  assumes p: "calls_pending rt cs w"
  shows "calls_ok rt w"
proof -
  have "sandbox_count (\<lambda>k. fst k = n) w \<le> count_of (w_counts w) n" for n
    using p calls_of_nonneg(1) [of n cs] unfolding calls_pending_def by (meson add_le_same_cancel1 add_increasing2 order_trans order_refl le_add_same_cancel1)
  moreover have "sandbox_count (\<lambda>j. j = k) w \<le> count_of (w_repeated w) k" for k
    using p calls_of_nonneg(2) [of k cs] unfolding calls_pending_def by (meson add_le_same_cancel1 add_increasing2 order_trans order_refl le_add_same_cancel1)
  ultimately show ?thesis
    using p by (simp add: calls_ok_def calls_pending_def)
qed

lemma same_calls_pending: "same_calls s t \<Longrightarrow> calls_pending rt cs s \<Longrightarrow> calls_pending rt cs t"
  by (simp add: same_calls_def calls_pending_def sandbox_count_def)

lemma same_calls_ok: "same_calls s t \<Longrightarrow> calls_ok rt s \<Longrightarrow> calls_ok rt t"
  unfolding calls_ok_def by (rule same_calls_pending)

text \<open>Counting the admitted calls.\<close>

lemma wp_count_admissions:
  "wp (count_admissions cs) (\<lambda>_ t. w_log t = w_log s \<and> w_ctx t = w_ctx s
        \<and> (\<forall>n. count_of (w_counts t) n = count_of (w_counts s) n + calls_of n cs)
        \<and> (\<forall>k. count_of (w_repeated t) k = count_of (w_repeated s) k + key_calls_of k cs)) (\<lambda>_ _. False) s"
proof (induction cs arbitrary: s)
  case Nil
  then show ?case by (simp add: count_admissions_def wp_ret)
next
  case (Cons c cs)
  let ?s = "s\<lparr>w_repeated := bump (call_key c) (w_repeated s), w_counts := bump (tc_name c) (w_counts s)\<rparr>"
  have "wp (count_admissions cs) (\<lambda>_ t. w_log t = w_log s \<and> w_ctx t = w_ctx s
        \<and> (\<forall>n. count_of (w_counts t) n = count_of (w_counts s) n + calls_of n (c # cs))
        \<and> (\<forall>k. count_of (w_repeated t) k = count_of (w_repeated s) k + key_calls_of k (c # cs))) (\<lambda>_ _. False) ?s"
    by (rule wp_mono [OF Cons.IH]) (auto simp: count_of_bump)
  then show ?case by (simp add: count_admissions_def wp_seq wp_modify)
qed

lemma admitted_pending:
  assumes ok: "calls_ok rt s" "calls_recorded s"
    and adm: "admitted rt cs (int (tool_call_count (w_ctx s))) (w_counts s) (w_repeated s)"
    and t: "w_log t = w_log s" "\<And>n. count_of (w_counts t) n = count_of (w_counts s) n + calls_of n cs"
      "\<And>k. count_of (w_repeated t) k = count_of (w_repeated s) k + key_calls_of k cs"
  shows "calls_pending rt cs t"
proof -
  have sc: "sandbox_count P t = sandbox_count P s" for P
    by (simp add: sandbox_count_def t(1))
  have base: "sandbox_count (\<lambda>_. True) s \<le> max_tool_calls (rt_limits rt)"
    "sandbox_count (\<lambda>k. fst k = n) s \<le> count_of (w_counts s) n"
    "sandbox_count (\<lambda>j. j = k) s \<le> count_of (w_repeated s) k"
    "map_of (per_tool_limits (rt_limits rt)) n = Some m \<Longrightarrow> count_of (w_counts s) n \<le> m"
    "count_of (w_repeated s) k \<le> max_repeated_tool_calls (rt_limits rt)" for n k m
    using ok(1) by (simp_all add: calls_ok_def calls_pending_def)
  have g: "sandbox_count (\<lambda>_. True) s + int (length cs) \<le> max_tool_calls (rt_limits rt)"
    using adm base(1) ok(2) by (cases "cs = []") (auto simp: admitted_def calls_recorded_def)
  have n: "count_of (w_counts s) n + calls_of n cs \<le> m"
    if "map_of (per_tool_limits (rt_limits rt)) n = Some m" for n m
    using adm base(4) [OF that] that unfolding admitted_def by (cases "calls_of n cs = 0") auto
  have k: "count_of (w_repeated s) k + key_calls_of k cs \<le> max_repeated_tool_calls (rt_limits rt)" for k
    using adm base(5) [of k] unfolding admitted_def by (cases "key_calls_of k cs = 0") auto
  show ?thesis
    unfolding calls_pending_def sc t using g n k base by simp
qed

text \<open>What the batch adds to the log was pending.\<close>

lemma sandbox_key_entry [simp]: "sandbox_key (sandbox_entry c) = Some (call_key c)"
  by (simp add: sandbox_entry_def call_key_def)

lemma length_filter_indices_le:
  assumes "distinct is" "\<forall>i \<in> set is. i < length xs"
  shows "length (filter (\<lambda>i. P (xs ! i)) is) \<le> length (filter P xs)"
proof -
  have "length (filter (\<lambda>i. P (xs ! i)) is) = card {i \<in> set is. P (xs ! i)}"
    using assms(1) by (metis distinct_card distinct_filter set_filter)
  also have "\<dots> \<le> card {i. i < length xs \<and> P (xs ! i)}"
    using assms(2) by (intro card_mono) auto
  finally show ?thesis by (simp add: length_filter_conv_card)
qed

lemma batch_moves_count:
  assumes "batch_moves s t" "map tk_call (w_tasks s) = cs"
  shows "sandbox_count P t \<le> sandbox_count P s + int (length (filter (\<lambda>c. P (call_key c)) cs))"
proof -
  from assms(1) obtain "is" where i: "distinct is"
      "w_log t = w_log s @ map (\<lambda>i. sandbox_entry (tk_call (w_tasks s ! i))) is"
      "\<forall>i \<in> set is. i < length (w_tasks s)"
    unfolding batch_moves_def by blast
  have cs: "tk_call (w_tasks s ! i) = cs ! i" if "i \<in> set is" for i
    using i(3) assms(2) that by auto
  have "sandbox_count P t = sandbox_count P s + int (length (filter (\<lambda>i. P (call_key (tk_call (w_tasks s ! i)))) is))"
    by (simp add: sandbox_count_def i(2) filter_map comp_def)
  also have "filter (\<lambda>i. P (call_key (tk_call (w_tasks s ! i)))) is = filter (\<lambda>i. P (call_key (cs ! i))) is"
    by (rule filter_cong) (simp_all add: cs)
  also have "int (length (filter (\<lambda>i. P (call_key (cs ! i))) is)) \<le> int (length (filter (\<lambda>c. P (call_key c)) cs))"
    using length_filter_indices_le [OF i(1), of cs "\<lambda>c. P (call_key c)"] i(3) assms(2) by auto
  finally show ?thesis by simp
qed

lemma batch_moves_calls_ok:
  assumes m: "batch_moves s t" "map tk_call (w_tasks s) = cs" and p: "calls_pending rt cs s"
  shows "calls_ok rt t"
proof -
  have c: "w_counts t = w_counts s" "w_repeated t = w_repeated s"
    using m(1) by (simp_all add: batch_moves_def batch_frame_def)
  have n: "length (filter (\<lambda>c. fst (call_key c) = n) cs) = calls_of n cs" for n
    by (simp add: calls_of_def call_key_def)
  have k: "length (filter (\<lambda>c. call_key c = k) cs) = key_calls_of k cs" for k
    by (simp add: key_calls_of_def)
  have "sandbox_count (\<lambda>_. True) t \<le> max_tool_calls (rt_limits rt)"
    using p batch_moves_count [OF m, of "\<lambda>_. True"] by (simp add: calls_pending_def)
  moreover have "sandbox_count (\<lambda>k. fst k = n) t \<le> count_of (w_counts s) n" for n
    using p batch_moves_count [OF m, of "\<lambda>k. fst k = n"] unfolding n calls_pending_def
    by (meson order_trans)
  moreover have "sandbox_count (\<lambda>j. j = k) t \<le> count_of (w_repeated s) k" for k
    using p batch_moves_count [OF m, of "\<lambda>j. j = k"] unfolding k calls_pending_def
    by (meson order_trans)
  ultimately show ?thesis
    using p by (simp add: calls_ok_def calls_pending_def c)
qed

section \<open>What is recorded\<close>

text \<open>The effect of one recorded result on the context.\<close>

definition add_recorded :: "tool_call \<Rightarrow> pyval \<Rightarrow> execution_context \<Rightarrow> execution_context" where
  "add_recorded c out cx = cx\<lparr>cx_tool_calls := cx_tool_calls cx @ [recorded_call c out],
     cx_observations := cx_observations cx @ [normalize_tool_output out],
     cx_messages := cx_messages cx @ [[(''role'', PStr ''tool''), (''tool_call_id'', PStr (call_id_of c)),
        (''name'', PStr (tc_name c)), (''content'', PStr (normalize_tool_output out))]]\<rparr>"

definition add_results :: "(tool_call \<times> pyval result) list \<Rightarrow> execution_context \<Rightarrow> execution_context" where
  "add_results rs cx = fold (\<lambda>(c, r) cx. case r of Inl _ \<Rightarrow> cx | Inr out \<Rightarrow> add_recorded c out cx) rs cx"

lemma wp_ctx_do: "wp (ctx_do f) Q E s \<longleftrightarrow>
    (\<forall>c. f (w_ctx s) = Inr c \<longrightarrow> Q () (s\<lparr>w_ctx := c\<rparr>)) \<and> (\<forall>e. f (w_ctx s) = Inl e \<longrightarrow> E e s)"
  by (auto simp: ctx_do_def wp)

text \<open>An interrupted recording has the tool message or it has not.\<close>

definition may_add_message :: "tool_call \<Rightarrow> pyval \<Rightarrow> world \<Rightarrow> world \<Rightarrow> bool" where
  "may_add_message c out s t \<longleftrightarrow> cx_messages (w_ctx t) = cx_messages (w_ctx s)
     \<or> cx_messages (w_ctx t) = cx_messages (add_recorded c out (w_ctx s))"

lemma wp_record_tool_result:
  "wp (record_tool_result en c out) (\<lambda>_ t. w_ctx t = add_recorded c out (w_ctx s))
     (\<lambda>_. may_add_message c out s) s"
proof -
  note k = ctx.seq_after [OF ctx.keeps_set_step_output] ctx.seq_after [OF ctx.keeps_complete_step]
    ctx.bnd_after [OF ctx.keeps_start_step]
  have last: "wp (seq (ctx_do (\<lambda>cx. Inr (add_observation (normalize_tool_output out) cx)))
       (seq (ctx_do (add_tool_message (call_id_of c) (tc_name c) (PStr (normalize_tool_output out))))
          (check_cancellation en))) (\<lambda>_ t. w_ctx t = add_recorded c out (w_ctx s)) (\<lambda>_. may_add_message c out s) u"
    if "w_ctx u = add_tool_call (recorded_call c out) (w_ctx s)" for u
    using that
    by (auto simp: wp_seq wp_ctx_do wp_check_cancellation Let_def add_recorded_def add_tool_call_def
        add_observation_def may_add_message_def add_tool_message_def mgr_add_message_def dget_def add_message_def split: if_splits)
  have mid: "wp (seq (ctx_do (mgr_add_tool_call (PDict (recorded_call c out)))) n)
      (\<lambda>_ t. w_ctx t = add_recorded c out (w_ctx s)) (\<lambda>_. may_add_message c out s) u"
    if "w_ctx u = w_ctx s"
      "\<And>v. w_ctx v = add_tool_call (recorded_call c out) (w_ctx s) \<Longrightarrow>
        wp n (\<lambda>_ t. w_ctx t = add_recorded c out (w_ctx s)) (\<lambda>_. may_add_message c out s) v" for u n
    using that by (simp add: wp_seq wp_ctx_do mgr_add_tool_call_def may_add_message_def)
  show ?thesis
    unfolding record_tool_result_def Let_def
    apply (rule ctx.seq_after [OF ctx.keeps_check_cancellation])
     apply (cases "call_id_of c = []")
      apply (simp add: wp_throw may_add_message_def same_ctx_def)
     apply (simp only: if_False)
     apply (intro k mid last)
                   apply (simp_all add: same_ctx_def may_add_message_def add_tool_call_def)
    done
qed

lemma wp_apply_results_ctx:
  "wp (for_each rs (apply_result en)) (\<lambda>_ t. w_ctx t = add_results rs (w_ctx s))
     (\<lambda>_ t. \<exists>k. cx_messages (w_ctx t) = cx_messages (add_results (take k rs) (w_ctx s))) s"
proof (induction rs arbitrary: s)
  case Nil
  then show ?case by (simp add: wp_ret add_results_def)
next
  case (Cons cr rs)
  let ?E = "\<lambda>_ t. \<exists>k. cx_messages (w_ctx t) = cx_messages (add_results (take k (cr # rs)) (w_ctx s))"
  obtain c r where cr: "cr = (c, r)" by fastforce
  let ?one = "add_results [cr] (w_ctx s)"
  have none: "?E x t" if "cx_messages (w_ctx t) = cx_messages (w_ctx s)" for x :: exc and t
    using that by (intro exI [of _ 0]) (simp add: add_results_def)
  have one: "?E x t" if "cx_messages (w_ctx t) = cx_messages ?one" for x :: exc and t
    using that by (intro exI [of _ 1]) simp
  have step: "wp (apply_result en cr) (\<lambda>_ t. w_ctx t = ?one) ?E s"
    unfolding apply_result_def wp_seq
  proof (rule ctx.wp_after [OF ctx.keeps_check_cancellation])
    fix t assume t: "same_ctx s t"
    show "wp (case snd cr of Inl _ \<Rightarrow> ret () | Inr out \<Rightarrow> record_tool_result en (fst cr) out)
       (\<lambda>_ t. w_ctx t = ?one) ?E t"
    proof (cases r)
      case (Inr out)
      have same: "w_ctx t = w_ctx s" using t by (simp add: same_ctx_def)
      have ctx: "?one = add_recorded c out (w_ctx t)" by (simp add: add_results_def cr Inr same)
      have "wp (record_tool_result en c out) (\<lambda>_ t. w_ctx t = ?one) ?E t"
      proof (rule wp_mono [OF wp_record_tool_result])
        fix x u assume "may_add_message c out t u"
        then have "cx_messages (w_ctx u) = cx_messages (w_ctx s) \<or> cx_messages (w_ctx u) = cx_messages ?one"
          by (simp only: may_add_message_def ctx same)
        then show "?E x u" using none one by blast
      qed (simp add: ctx)
      then show ?thesis by (simp add: cr Inr)
    qed (use t in \<open>simp add: cr wp_ret same_ctx_def add_results_def\<close>)
  qed (rule none, simp add: same_ctx_def)
  have rest: "wp (for_each rs (apply_result en)) (\<lambda>_ u. w_ctx u = add_results (cr # rs) (w_ctx s)) ?E t"
    if "w_ctx t = ?one" for t
  proof (rule wp_mono [OF Cons.IH])
    fix x u assume "\<exists>k. cx_messages (w_ctx u) = cx_messages (add_results (take k rs) (w_ctx t))"
    then obtain k where "cx_messages (w_ctx u) = cx_messages (add_results (take k rs) (w_ctx t))" ..
    with that show "?E x u" by (intro exI [of _ "Suc k"]) (simp add: add_results_def)
  qed (use that in \<open>simp add: add_results_def\<close>)
  show ?case
    unfolding for_each.simps wp_seq by (rule wp_mono [OF step]) (use rest in auto)
qed

text \<open>An error of admission leaves no trace in the counters, the log or the context.\<close>

lemma raise_first_failure_Inr:
  "wp (raise_first_failure rs) (\<lambda>_ t. t = s \<and> (\<forall>(c, r) \<in> set rs. \<exists>out. r = Inr out)) (\<lambda>_ _. True) s"
proof (cases "first_failure rs")
  case None
  then have "[e. (_, Inl e) \<leftarrow> rs] = []"
    by (auto simp: first_failure_def split: list.splits)
  then have "\<forall>(c, r) \<in> set rs. \<exists>out. r = Inr out"
    by (induction rs) (auto split: sum.splits)
  with None show ?thesis by (simp add: raise_first_failure_def wp_ret)
qed (auto simp: raise_first_failure_def cancel_token_def wp split: if_splits)

lemma add_results_count:
  "(\<forall>(c, r) \<in> set rs. \<exists>out. r = Inr out) \<Longrightarrow>
     tool_call_count (add_results rs cx) = tool_call_count cx + length rs"
  by (induction rs arbitrary: cx)
     (auto simp: add_results_def tool_call_count_def add_recorded_def)

section \<open>The limits hold through a tool decision\<close>

text \<open>What the phases before the batch keep.\<close>

definition pre_batch :: "world \<Rightarrow> world \<Rightarrow> bool" where
  "pre_batch s t \<longleftrightarrow> same_calls s t \<and> cx_tool_calls (w_ctx t) = cx_tool_calls (w_ctx s)"

interpretation pre: rt_kept pre_batch
  by unfold_locales (auto simp: pre_batch_def same_calls_def)

lemma pre_add_message: "pre.keeps (ctx_do (add_assistant_message m))"
proof -
  have "cx_tool_calls c' = cx_tool_calls c" if "add_assistant_message m c = Inr c'" for c c'
    using that by (auto simp: add_assistant_message_def mgr_add_message_def add_message_def
        split: pyval.splits if_splits)
  then show ?thesis
    by (intro pre.keepsI) (auto simp: ctx_do_def bnd_def gets_def lift_res_def modify_def
        pre_batch_def same_calls_def split: sum.split)
qed

definition pending ::  "runtime \<Rightarrow> tool_call list \<Rightarrow> world \<Rightarrow> world \<Rightarrow> bool" where
  "pending rt cs s t \<longleftrightarrow> calls_pending rt cs t
     \<and> cx_tool_calls (w_ctx t) = cx_tool_calls (w_ctx s)
     \<and> sandbox_count (\<lambda>_. True) t = sandbox_count (\<lambda>_. True) s"

lemma pending_pre: "pending rt cs s t \<Longrightarrow> pre_batch t u \<Longrightarrow> pending rt cs s u"
  unfolding pending_def pre_batch_def
  using same_calls_pending by (auto simp: same_calls_def sandbox_count_def)

lemma pending_ok: "pending rt cs s t \<Longrightarrow> calls_ok rt t"
  unfolding pending_def by (blast intro: calls_pending_ok)

lemma pre_ok: "pre_batch s t \<Longrightarrow> calls_ok rt s \<Longrightarrow> calls_ok rt t"
  unfolding pre_batch_def by (blast intro: same_calls_ok)

lemma wp_pending_tail:
  assumes "pre.keeps m" "pending rt cs s u"
  shows "wp m (\<lambda>_ t. pending rt cs s t) (\<lambda>_ t. calls_ok rt t) u"
  by (rule pre.wp_after [OF assms(1)]) (use assms(2) in \<open>blast intro: pending_pre pending_ok\<close>)+

lemma wp_prepare_calls:
  assumes ok: "calls_ok rt s" "calls_recorded s"
  shows "wp (prepare_calls rt en started resp cs) (\<lambda>_ t. pending rt cs s t) (\<lambda>_ t. calls_ok rt t) s"
proof (cases "cs = []")
  case True
  then show ?thesis using ok by (simp add: prepare_calls_def wp_throw)
next
  case False
  let ?rest = "bnd (lift_res (extract_assistant_message resp)) (\<lambda>msg.
         seq (ctx_do (add_assistant_message (PDict msg))) (add_tool_steps en cs []))"
  have rest: "pre.keeps ?rest"
    by (intro pre.keeps_rules pre_add_message pre.keeps_add_tool_steps)
  have count: "wp (seq (count_admissions cs) ?rest) (\<lambda>_ t. pending rt cs s t) (\<lambda>_ t. calls_ok rt t) u"
    if u: "pre_batch s u" "admitted rt cs (int (tool_call_count (w_ctx u))) (w_counts u) (w_repeated u)" for u
    unfolding wp_seq
  proof (rule wp_mono [OF wp_count_admissions])
    fix x :: unit and t :: world
    assume t: "w_log t = w_log u \<and> w_ctx t = w_ctx u
        \<and> (\<forall>n. count_of (w_counts t) n = count_of (w_counts u) n + calls_of n cs)
        \<and> (\<forall>k. count_of (w_repeated t) k = count_of (w_repeated u) k + key_calls_of k cs)"
    have "calls_ok rt u" "calls_recorded u"
      using u(1) ok pre_ok by (auto simp: pre_batch_def same_calls_def calls_recorded_def
          sandbox_count_def tool_call_count_def)
    then have "calls_pending rt cs t" using t u(2) by (intro admitted_pending) auto
    then have "pending rt cs s t"
      using t u(1) by (auto simp: pending_def pre_batch_def same_calls_def sandbox_count_def)
    with rest show "wp ?rest (\<lambda>_ t. pending rt cs s t) (\<lambda>_ t. calls_ok rt t) t"
      by (rule wp_pending_tail)
  qed simp
  have admit: "wp (admit_calls rt en started cs g counts reps)
       (\<lambda>_ t. pre_batch u t \<and> admitted rt cs g counts reps) (\<lambda>_ t. pre_batch u t \<and> True) u" for g counts reps u
    by (intro wp_conj pre.keeps_wp pre.keeps_admit_calls wp_admit_calls)
  show ?thesis
    unfolding prepare_calls_def using False ok(1)
    apply (simp only: if_False)
    apply (rule pre.seq_after [OF pre.keeps_check_cancellation])
     apply (simp only: wp_bnd [of "gets _"] wp_gets split)
     apply (subst wp_seq, rule wp_mono [OF admit])
      apply (rule count)
       apply (auto intro: pre.R_trans pre_ok simp: pre_batch_def same_calls_def tool_call_count_def)
    done
qed

lemma tasks_start_batch:
  "wp (start_batch rt en started cs d) (\<lambda>_ t. map tk_call (w_tasks t) = cs) (\<lambda>_ _. True) s"
  unfolding start_batch_def wp_bnd wp_seq wp_modify
  by (auto simp: make_task_def comp_def)

text \<open>
  Applying the results: the successes go to the context in the order of the calls, and only a batch
  without a failure goes on.
\<close>

lemma wp_apply_results:
  "wp (apply_results en rs)
     (\<lambda>_ t. same_calls s t \<and> w_ctx t = add_results rs (w_ctx s) \<and> (\<forall>(c, r) \<in> set rs. \<exists>out. r = Inr out))
     (\<lambda>_ t. same_calls s t) s"
proof -
  have "wp (apply_results en rs)
     (\<lambda>_ t. w_ctx t = add_results rs (w_ctx s) \<and> (\<forall>(c, r) \<in> set rs. \<exists>out. r = Inr out)) (\<lambda>_ _. True) s"
    unfolding apply_results_def
  proof (rule ctx.seq_after [OF ctx.keeps_go_tos(5)])
    fix t assume "same_ctx s t"
    then show "wp (seq (for_each rs (apply_result en)) (raise_first_failure rs))
       (\<lambda>_ t. w_ctx t = add_results rs (w_ctx s) \<and> (\<forall>(c, r) \<in> set rs. \<exists>out. r = Inr out)) (\<lambda>_ _. True) t"
      unfolding wp_seq
      by (intro wp_mono [OF wp_apply_results_ctx]) (auto simp: same_ctx_def
          intro!: wp_mono [OF raise_first_failure_Inr])
  qed simp
  from wp_conj [OF calls.keeps_wp [OF calls.keeps_apply_results] this]
  show ?thesis by simp
qed

lemma batch_results_calls: "map fst (batch_results w) = map tk_call (w_tasks w)"
  by (simp add: batch_results_def comp_def)

text \<open>
  The outcomes of a finished batch, each beside its call.  A failed one is reported as it is, but
  that a cancelled task cancels the execution.
\<close>

definition task_outcomes :: "tool_call list \<Rightarrow> world \<Rightarrow> (tool_call \<times> pyval result) list" where
  "task_outcomes cs w = zip cs (map (\<lambda>t. case tk_pc t of TDone r \<Rightarrow> r | _ \<Rightarrow> Inl cancelled_error) (w_tasks w))"

definition reported_failure :: "exc \<Rightarrow> exc" where
  "reported_failure e =
     (if isinstance_exc e CancelledError \<and> \<not> isinstance_exc e ExecutionCancelled \<and> \<not> isinstance_exc e ExecutionLimitExceeded
      then Exc ExecutionCancelled ''Agent execution was cancelled during parallel tool execution'' else e)"

lemma batch_results_outcomes: "map tk_call (w_tasks w) = cs \<Longrightarrow> batch_results w = task_outcomes cs w"
  unfolding batch_results_def task_outcomes_def
  by (rule nth_equalityI) auto

lemma raise_first_failure_Inl:
  "wp (raise_first_failure rs) Q
     (\<lambda>e t. w_ctx t = w_ctx s \<and> (\<exists>x. first_failure rs = Some x \<and> e = reported_failure x)) s" if "\<And>t. Q () t"
  using that by (auto simp: raise_first_failure_def reported_failure_def cancel_token_def wp split: option.split)

text \<open>The context after the results were applied, all of them or only the first ones.\<close>

definition results_stopped :: "(tool_call \<times> pyval result) list \<Rightarrow> execution_context \<Rightarrow> exc \<Rightarrow> execution_context \<Rightarrow> bool" where
  "results_stopped rs cx e cx' \<longleftrightarrow>
     cx' = add_results rs cx \<and> (\<exists>x. first_failure rs = Some x \<and> e = reported_failure x)
     \<or> (\<exists>k. cx_messages cx' = cx_messages (add_results (take k rs) cx))"

lemma results_not_begun: "cx' = cx \<Longrightarrow> results_stopped rs cx e cx'"
  unfolding results_stopped_def by (intro disjI2 exI [of _ 0]) (simp add: add_results_def)

lemma wp_apply_results_stopped:
  "wp (apply_results en rs) (\<lambda>_ _. True) (\<lambda>e t. results_stopped rs (w_ctx s) e (w_ctx t)) s"
  unfolding apply_results_def
proof (rule ctx.seq_after [OF ctx.keeps_go_tos(5)])
  fix t assume t: "same_ctx s t"
  show "wp (seq (for_each rs (apply_result en)) (raise_first_failure rs)) (\<lambda>_ _. True)
     (\<lambda>e t. results_stopped rs (w_ctx s) e (w_ctx t)) t"
    unfolding wp_seq
  proof (rule wp_mono [OF wp_apply_results_ctx])
    fix u :: world assume "w_ctx u = add_results rs (w_ctx t)"
    with t show "wp (raise_first_failure rs) (\<lambda>_ _. True) (\<lambda>e t. results_stopped rs (w_ctx s) e (w_ctx t)) u"
      by (intro wp_mono [OF raise_first_failure_Inl]) (auto simp: results_stopped_def same_ctx_def)
  qed (use t in \<open>auto simp: results_stopped_def same_ctx_def\<close>)
qed (simp add: results_not_begun same_ctx_def)

text \<open>From the tasks of a batch to the context.\<close>

definition batch_applied :: "tool_call list \<Rightarrow> execution_context \<Rightarrow> world \<Rightarrow> bool" where
  "batch_applied cs cx t \<longleftrightarrow> map tk_call (w_tasks t) = cs
     \<and> (\<exists>outs. map tk_pc (w_tasks t) = map (\<lambda>out. TDone (Inr out)) outs
          \<and> w_ctx t = fold (\<lambda>(c, out). add_recorded c out) (zip cs outs) cx)"

lemma outcomes_all_done:
  assumes "all_done t" "map tk_call (w_tasks t) = cs" "\<forall>(c, r) \<in> set (task_outcomes cs t). \<exists>out. r = Inr out"
  obtains outs where "map tk_pc (w_tasks t) = map (\<lambda>out. TDone (Inr out)) outs"
    "task_outcomes cs t = zip cs (map Inr outs)"
proof -
  let ?res = "\<lambda>t. case tk_pc t of TDone r \<Rightarrow> r | _ \<Rightarrow> Inl cancelled_error"
  have out: "\<exists>out. tk_pc x = TDone (Inr out)" if x: "x \<in> set (w_tasks t)" for x
  proof -
    have "task_outcomes cs t = map (\<lambda>x. (tk_call x, ?res x)) (w_tasks t)"
      unfolding task_outcomes_def assms(2) [symmetric] by (rule nth_equalityI) auto
    with x have "(tk_call x, ?res x) \<in> set (task_outcomes cs t)" by simp
    with assms(3) obtain out where "?res x = Inr out" by fastforce
    then show ?thesis by (auto split: task_pc.splits simp: cancelled_error_def)
  qed
  define outs where "outs = map (\<lambda>x. case tk_pc x of TDone (Inr out) \<Rightarrow> out | _ \<Rightarrow> PNone) (w_tasks t)"
  have "map tk_pc (w_tasks t) = map (\<lambda>out. TDone (Inr out)) outs" "map ?res (w_tasks t) = map Inr outs"
    unfolding outs_def using out by fastforce+
  then show ?thesis by (intro that [of outs]) (simp_all add: task_outcomes_def)
qed

lemma add_results_fold: "add_results (zip cs (map Inr outs)) cx = fold (\<lambda>(c, out). add_recorded c out) (zip cs outs) cx"
  by (induction cs outs arbitrary: cx rule: list_induct2') (simp_all add: add_results_def)

lemma wp_batch_applied:
  assumes "map tk_call (w_tasks w) = cs"
  shows "wp (bnd (run_batch rt en started) (apply_results en)) (\<lambda>_. batch_applied cs (w_ctx w))
     (\<lambda>e t. results_stopped (task_outcomes cs t) (w_ctx w) e (w_ctx t)) w"
  unfolding wp_bnd
proof (rule wp_mono [OF wp_conj [OF wp_run_batch ctx.keeps_wp [OF ctx.keeps_run_batch]]])
  fix rs t assume t: "(batch_moves w t \<and> all_done t \<and> rs = batch_results t) \<and> same_ctx w t"
  have cs: "map tk_call (w_tasks t) = cs" using t assms by (simp add: batch_moves_def)
  have rs: "rs = task_outcomes cs t" using t batch_results_outcomes [OF cs] by simp
  have same: "task_outcomes cs u = rs" "map tk_call (w_tasks u) = cs" "all_done u" if "same_tasks t u" for u
    using that t cs by (simp_all add: rs same_tasks_def task_outcomes_def all_done_def)
  have "wp (apply_results en rs)
     (\<lambda>_ u. same_tasks t u \<and> (same_calls t u \<and> w_ctx u = add_results rs (w_ctx t) \<and> (\<forall>(c, r) \<in> set rs. \<exists>out. r = Inr out)) \<and> True)
     (\<lambda>e u. same_tasks t u \<and> same_calls t u \<and> results_stopped rs (w_ctx t) e (w_ctx u)) t"
    by (intro wp_conj tasks.keeps_wp tasks.keeps_apply_results wp_apply_results wp_apply_results_stopped)
  then show "wp (apply_results en rs) (\<lambda>_. batch_applied cs (w_ctx w))
     (\<lambda>e t. results_stopped (task_outcomes cs t) (w_ctx w) e (w_ctx t)) t"
  proof (rule wp_mono)
    fix x u
    assume u: "same_tasks t u \<and> (same_calls t u \<and> w_ctx u = add_results rs (w_ctx t) \<and> (\<forall>(c, r) \<in> set rs. \<exists>out. r = Inr out)) \<and> True"
    note s = same [OF conjunct1 [OF u]]
    obtain outs where outs: "map tk_pc (w_tasks u) = map (\<lambda>out. TDone (Inr out)) outs" "rs = zip cs (map Inr outs)"
      using outcomes_all_done [OF s(3,2)] u s(1) by metis
    have "w_ctx u = add_results rs (w_ctx w)" using u t by (simp add: same_ctx_def)
    then have "w_ctx u = fold (\<lambda>(c, out). add_recorded c out) (zip cs outs) (w_ctx w)"
      unfolding outs(2) by (simp only: add_results_fold)
    with outs(1) s(2) show "batch_applied cs (w_ctx w) u"
      unfolding batch_applied_def by blast
  next
    fix e u assume u: "same_tasks t u \<and> same_calls t u \<and> results_stopped rs (w_ctx t) e (w_ctx u)"
    from same(1) [OF conjunct1 [OF u]] u t show "results_stopped (task_outcomes cs u) (w_ctx w) e (w_ctx u)"
      by (simp add: same_ctx_def)
  qed
next
  fix e t assume "(batch_moves w t \<and> batch_stop e) \<and> same_ctx w t"
  then show "results_stopped (task_outcomes cs t) (w_ctx w) e (w_ctx t)"
    by (intro results_not_begun) (simp add: same_ctx_def)
qed

lemma wp_tool_batch:
  "wp (seq (start_batch rt en started cs d) (bnd (run_batch rt en started) (apply_results en)))
     (\<lambda>_. batch_applied cs (w_ctx w)) (\<lambda>e t. results_stopped (task_outcomes cs t) (w_ctx w) e (w_ctx t)) w"
  unfolding wp_seq
proof (rule wp_mono [OF wp_conj [OF tasks_start_batch ctx.keeps_wp [OF ctx.keeps_start_batch]]])
  fix x t assume "map tk_call (w_tasks t) = cs \<and> same_ctx w t"
  then show "wp (bnd (run_batch rt en started) (apply_results en)) (\<lambda>_. batch_applied cs (w_ctx w))
     (\<lambda>e t. results_stopped (task_outcomes cs t) (w_ctx w) e (w_ctx t)) t"
    using wp_batch_applied [of t cs rt en started] by (simp add: same_ctx_def)
qed (auto simp: same_ctx_def intro: results_not_begun)

text \<open>The batch, from admitted calls to results.\<close>

lemma wp_run_pending:
  assumes "pending rt cs s u" "calls_recorded s" "map tk_call (w_tasks u) = cs"
  shows "wp (run_batch rt en started)
     (\<lambda>rs t. calls_ok rt t \<and> map fst rs = cs
        \<and> sandbox_count (\<lambda>_. True) t \<le> int (tool_call_count (w_ctx t)) + int (length cs))
     (\<lambda>_ t. calls_ok rt t) u"
proof (rule wp_mono [OF wp_conj [OF wp_run_batch ctx.keeps_wp [OF ctx.keeps_run_batch]]])
  fix rs t
  assume b: "(batch_moves u t \<and> all_done t \<and> rs = batch_results t) \<and> same_ctx u t"
  have "map tk_call (w_tasks t) = cs" using b assms(3) by (simp add: batch_moves_def)
  with b show "calls_ok rt t \<and> map fst rs = cs
        \<and> sandbox_count (\<lambda>_. True) t \<le> int (tool_call_count (w_ctx t)) + int (length cs)"
    using batch_moves_calls_ok [of u t cs rt] batch_moves_count [of u t cs "\<lambda>_. True"] assms
    by (auto simp: batch_results_calls pending_def calls_recorded_def same_ctx_def tool_call_count_def)
next
  fix e t assume "(batch_moves u t \<and> batch_stop e) \<and> same_ctx u t"
  then show "calls_ok rt t"
    using assms batch_moves_calls_ok by (auto simp: pending_def)
qed

lemma wp_apply_pending:
  assumes "calls_ok rt u" "map fst rs = cs"
    "sandbox_count (\<lambda>_. True) u \<le> int (tool_call_count (w_ctx u)) + int (length cs)"
  shows "wp (apply_results en rs) (\<lambda>_ t. calls_ok rt t \<and> calls_recorded t) (\<lambda>_ t. calls_ok rt t) u"
proof (rule wp_mono [OF wp_apply_results])
  fix x t
  assume t: "same_calls u t \<and> w_ctx t = add_results rs (w_ctx u) \<and> (\<forall>(c, r) \<in> set rs. \<exists>out. r = Inr out)"
  then have "tool_call_count (w_ctx t) = tool_call_count (w_ctx u) + length cs"
    using assms(2) by (auto simp: add_results_count)
  with t assms show "calls_ok rt t \<and> calls_recorded t"
    by (auto simp: calls_recorded_def same_calls_def sandbox_count_def intro: same_calls_ok)
qed (use assms in \<open>blast intro: same_calls_ok\<close>)

lemma wp_execute_tool_calls:
  assumes ok: "calls_ok rt s" "calls_recorded s"
  shows "wp (execute_tool_calls rt en started resp d) (\<lambda>_ t. calls_ok rt t \<and> calls_recorded t)
     (\<lambda>_ t. calls_ok rt t) s"
proof -
  let ?cs = "normalized_tool_calls d"
  have start: "wp (start_batch rt en started ?cs steps)
      (\<lambda>_ t. pending rt ?cs s t \<and> map tk_call (w_tasks t) = ?cs) (\<lambda>_ t. calls_ok rt t) u"
    if "pending rt ?cs s u" for steps u
    by (rule wp_mono [OF wp_conj [OF wp_pending_tail [OF pre.keeps_start_batch that] tasks_start_batch]]) auto
  show ?thesis
    unfolding execute_tool_calls_def Let_def wp_bnd wp_seq
    by (intro wp_mono [OF wp_prepare_calls [OF ok]] wp_mono [OF start]
        wp_mono [OF wp_run_pending [OF _ ok(2)]])
       (auto intro: wp_apply_pending)
qed

end
