(* ===== verification/RtApproval.thy ===== *)
theory RtApproval
  imports RtCalls
begin

text \<open>
  The safety of human approval: no call of a tool that needs approval reaches the sandbox unless
  the request of exactly this call of this execution was granted.
\<close>

section \<open>No unapproved call reaches the sandbox\<close>

text \<open>
  The request of exactly this call of this execution exists; and it was granted.
\<close>

definition requested :: "approval_manager \<Rightarrow> string \<Rightarrow> tool_call \<Rightarrow> bool" where
  "requested m eid c \<longleftrightarrow> (\<exists>r. map_of (am_requests m) (approval_id eid c) = Some r
     \<and> ar_execution_id r = eid \<and> ar_call_id r = call_id_of c \<and> ar_tool_name r = tc_name c
     \<and> ar_arguments r = tc_arguments c)"

definition granted :: "approval_manager \<Rightarrow> string \<Rightarrow> tool_call \<Rightarrow> bool" where
  "granted m eid c \<longleftrightarrow> (\<exists>r. map_of (am_requests m) (approval_id eid c) = Some r
     \<and> ar_status r = Approval_APPROVED \<and> ar_execution_id r = eid \<and> ar_call_id r = call_id_of c
     \<and> ar_tool_name r = tc_name c \<and> ar_arguments r = tc_arguments c)"

text \<open>What other tasks may do to the requests.\<close>

definition requests_grow :: "approval_manager \<Rightarrow> approval_manager \<Rightarrow> bool" where
  "requests_grow m m' \<longleftrightarrow> (\<forall>a r. map_of (am_requests m) a = Some r \<longrightarrow>
     (\<exists>r'. map_of (am_requests m') a = Some r' \<and> r'\<lparr>ar_status := Approval_PENDING\<rparr> = r\<lparr>ar_status := Approval_PENDING\<rparr>
        \<and> (ar_status r \<noteq> Approval_PENDING \<longrightarrow> r' = r)))"

lemma apply_approval_op_grow:
  assumes "apply_approval_op op m = Inr (x, m')"
  shows "requests_grow m m'"
proof -
  have step: "approval_step m m'" using assms by (rule approval_step.performed)
  show ?thesis
    unfolding requests_grow_def
  proof (intro allI impI)
    fix a r assume r: "map_of (am_requests m) a = Some r"
    show "\<exists>r'. map_of (am_requests m') a = Some r' \<and> r'\<lparr>ar_status := Approval_PENDING\<rparr> = r\<lparr>ar_status := Approval_PENDING\<rparr>
        \<and> (ar_status r \<noteq> Approval_PENDING \<longrightarrow> r' = r)"
      using request_identity_kept [OF r step] resolved_stays [OF r _ step] by auto
  qed
qed

lemma requests_grow_refl: "requests_grow m m"
  by (simp add: requests_grow_def)

lemma requests_grow_trans: "requests_grow m m' \<Longrightarrow> requests_grow m' m'' \<Longrightarrow> requests_grow m m''"
  unfolding requests_grow_def by metis

lemma granted_grow: "granted m eid c \<Longrightarrow> requests_grow m m' \<Longrightarrow> granted m' eid c"
  unfolding granted_def requests_grow_def by force

lemma requested_grow: "requested m eid c \<Longrightarrow> requests_grow m m' \<Longrightarrow> requested m' eid c"
proof -
  assume "requested m eid c" and g: "requests_grow m m'"
  then obtain r where r: "map_of (am_requests m) (approval_id eid c) = Some r" "ar_execution_id r = eid"
    "ar_call_id r = call_id_of c" "ar_tool_name r = tc_name c" "ar_arguments r = tc_arguments c"
    unfolding requested_def by blast
  with g obtain r' where r': "map_of (am_requests m') (approval_id eid c) = Some r'"
    and eq: "r'\<lparr>ar_status := Approval_PENDING\<rparr> = r\<lparr>ar_status := Approval_PENDING\<rparr>"
    unfolding requests_grow_def by metis
  from eq have "ar_execution_id r' = ar_execution_id r" "ar_call_id r' = ar_call_id r"
    "ar_tool_name r' = ar_tool_name r" "ar_arguments r' = ar_arguments r"
    by (cases r; cases r'; simp)+
  with r r' show ?thesis unfolding requested_def by auto
qed

definition approvals_grow :: "world \<Rightarrow> world \<Rightarrow> bool" where
  "approvals_grow s t \<longleftrightarrow> w_log t = w_log s \<and> ex_id (w_exec t) = ex_id (w_exec s)
     \<and> requests_grow (w_approvals s) (w_approvals t)"

interpretation appr: rt_kept_ctx approvals_grow
  by unfold_locales
     (auto simp: approvals_grow_def requests_grow_refl exec_moves_id apply_approval_op_grow
       intro: requests_grow_trans)

text \<open>The waiters: each waits for a request of the batch, and one that is done saw it granted.\<close>

definition waiters_ok :: "string \<Rightarrow> tool_call list \<Rightarrow> world \<Rightarrow> bool" where
  "waiters_ok eid req w \<longleftrightarrow> (\<forall>c \<in> set req. requested (w_approvals w) eid c)
     \<and> map fst (w_waiters w) = map (approval_id eid) req
     \<and> (\<forall>i < length (w_waiters w). snd (w_waiters w ! i) = WDone \<longrightarrow>
          (\<exists>r. map_of (am_requests (w_approvals w)) (fst (w_waiters w ! i)) = Some r \<and> ar_status r = Approval_APPROVED))"

lemma waiters_ok_all:
  assumes "waiters_ok eid req w" "all_approved w" "c \<in> set req"
  shows "granted (w_approvals w) eid c"
proof -
  have "approval_id eid c \<in> set (map fst (w_waiters w))"
    using assms(1,3) by (simp add: waiters_ok_def)
  then obtain i where i: "i < length (w_waiters w)" "fst (w_waiters w ! i) = approval_id eid c"
    by (auto simp: in_set_conv_nth)
  moreover from i(1) assms(2) have "snd (w_waiters w ! i) = WDone"
    by (fastforce simp: all_approved_def dest: nth_mem)
  ultimately obtain r where r: "map_of (am_requests (w_approvals w)) (approval_id eid c) = Some r"
    "ar_status r = Approval_APPROVED"
    using assms(1) by (auto simp: waiters_ok_def)
  with assms(1,3) show ?thesis
    by (auto simp: waiters_ok_def requested_def granted_def)
qed

lemma waiters_ok_grow:
  "waiters_ok eid req s \<Longrightarrow> w_waiters t = w_waiters s \<Longrightarrow> requests_grow (w_approvals s) (w_approvals t)
     \<Longrightarrow> waiters_ok eid req t"
  unfolding waiters_ok_def
  by (auto intro: requested_grow) (metis approval_status.distinct(1) requests_grow_def)

lemma waiters_ok_same:
  "w_waiters t = w_waiters s \<Longrightarrow> w_approvals t = w_approvals s \<Longrightarrow> waiters_ok eid req t = waiters_ok eid req s"
  by (simp add: waiters_ok_def)

lemma wait_for_resolution_Some:
  "wait_for_resolution aid m = Inr (Some r) \<Longrightarrow> map_of (am_requests m) aid = Some r"
  by (auto simp: wait_for_resolution_def get_request_def rbind_Inr_iff split: if_splits option.splits bool.splits)

lemma after_wait_Inr: "after_wait aid m = Inr r \<Longrightarrow> map_of (am_requests m) aid = Some r"
  by (auto simp: after_wait_def get_request_def split: option.splits)

lemma wp_set_waiter:
  assumes "waiters_ok eid req w"
    "pc = WDone \<Longrightarrow> \<exists>r. map_of (am_requests (w_approvals w)) (fst (w_waiters w ! i)) = Some r
       \<and> ar_status r = Approval_APPROVED"
  shows "wp (set_waiter i pc) (\<lambda>_. waiters_ok eid req) E w"
proof (cases "i < length (w_waiters w)")
  case True
  then show ?thesis using assms
    by (auto simp: set_waiter_def wp_modify waiters_ok_def map_update nth_list_update)
       (metis (no_types) length_map list_update_id nth_map)
next
  case False
  then show ?thesis using assms(1)
    by (auto simp: set_waiter_def wp_modify waiters_ok_def list_update_beyond)
qed

lemma wp_approval_decided:
  assumes "waiters_ok eid req w" "map_of (am_requests (w_approvals w)) (fst (w_waiters w ! i)) = Some r"
  shows "wp (approval_decided i r) (\<lambda>_. waiters_ok eid req) (\<lambda>_ _. True) w"
  unfolding approval_decided_def
  by (cases "ar_status r") (auto simp: wp_throw intro!: wp_set_waiter assms)

definition wait_frame :: "world \<Rightarrow> world \<Rightarrow> bool" where
  "wait_frame s t \<longleftrightarrow> w_waiters t = w_waiters s \<and> w_approvals t = w_approvals s"

interpretation wf: kept wait_frame
  by unfold_locales (auto simp: wait_frame_def)

lemma wait_frame_ops:
  "wf.keeps tick" "wf.keeps (check_cancellation en)" "wf.keeps (check_timeout rt en st)"
  "wf.keeps (remaining_time rt en st)"
proof -
  show t: "wf.keeps tick" by (rule wf.keepsI) (simp add: tick_def wait_frame_def)
  show "wf.keeps (check_cancellation en)"
    unfolding check_cancellation_def
    by (intro wf.keeps_rules wf.keeps_modify t) (simp add: wait_frame_def)
  show "wf.keeps (check_timeout rt en st)" "wf.keeps (remaining_time rt en st)"
    unfolding check_timeout_def remaining_time_def monotonic_def Let_def
    by (intro wf.keeps_rules t)+
qed

lemma wp_approval_turn:
  assumes "waiters_ok eid req w"
  shows "wp (approval_turn rt en started i) (\<lambda>_. waiters_ok eid req) (\<lambda>_ _. True) w"
  unfolding approval_turn_def
proof (rule wf.seq_after [OF wait_frame_ops(2) _ TrueI], rule wf.seq_after [OF wait_frame_ops(3) _ TrueI],
    rule wf.bnd_after [OF wait_frame_ops(4) _ TrueI])
  fix t u v :: world
  assume "wait_frame w t" "wait_frame t u" "wait_frame u v"
  then have ok: "waiters_ok eid req v"
    using assms by (simp add: wait_frame_def waiters_ok_same [of v w])
  show "wp (bnd (gets (\<lambda>w. wait_for_resolution (fst (w_waiters w ! i)) (w_approvals w))) (\<lambda>res.
      bnd (lift_res res) (\<lambda>r. case r of
          None \<Rightarrow> set_waiter i WWaiting
        | Some req \<Rightarrow> approval_decided i req))) (\<lambda>_. waiters_ok eid req) (\<lambda>_ _. True) v"
    using ok
    by (auto simp: wp_bnd wp_gets wp_lift_res split: option.split
        dest: wait_for_resolution_Some intro!: wp_set_waiter wp_approval_decided)
qed

lemma wp_approval_do:
  assumes "waiters_ok eid req w"
  shows "wp (approval_do rt en started mv) (\<lambda>_. waiters_ok eid req) (\<lambda>_ _. True) w"
proof (cases mv)
  case (ApStart i)
  then show ?thesis using assms
    by (simp add: approval_do_def wp_bnd wp_gets wp_guarded wp_approval_turn)
next
  case (ApWake i)
  then show ?thesis using assms
    by (auto simp: approval_do_def wp_bnd wp_gets wp_guarded wp_lift_res
        dest: after_wait_Inr intro!: wp_approval_decided)
next
  case (ApTimeout i)
  then show ?thesis using assms
    by (simp add: approval_do_def wp_bnd wp_gets wp_guarded wp_throw)
next
  case (ApOther op)
  then show ?thesis using assms
    by (cases "apply_approval_op op (w_approvals w)")
       (auto simp: approval_do_def wp_modify intro!: waiters_ok_grow [OF assms] apply_approval_op_grow)
qed

lemma wp_await_approvals:
  assumes "waiters_ok eid req w"
  shows "wp (await_approvals rt en started)
     (\<lambda>_ t. waiters_ok eid req t \<and> all_approved t) (\<lambda>_ _. True) w"
proof -
  have tick: "wp tick (\<lambda>_. waiters_ok eid req) (\<lambda>_ _. True) w"
    using assms by (simp add: wp_tick waiters_ok_same [of "w\<lparr>w_tick := n\<rparr>" w for n])
  have moves: "wp (for_each mvs (approval_do rt en started)) (\<lambda>_. waiters_ok eid req) (\<lambda>_ _. True) u"
    if "waiters_ok eid req u" for mvs and u :: world
    using that by (intro wp_for_each wp_approval_do)
  show ?thesis
    unfolding await_approvals_def wp_bnd wp_seq cancel_token_def
    by (intro wp_mono [OF tick] wp_mono [OF moves]) (auto simp: wp split: option.split waiter_pc.split)
qed

text \<open>The requests of a batch, created before anybody waits.\<close>

definition needing :: "approval_policy \<Rightarrow> tool_call list \<Rightarrow> tool_call list" where
  "needing p cs = filter (\<lambda>c. requires_approval p (tc_name c)) cs"

lemma wp_required_approvals:
  "wp (required_approvals rt en started p cs) (\<lambda>r _. r = needing p cs) (\<lambda>_ _. True) s"
proof (induction cs arbitrary: s)
  case (Cons c cs)
  have "wp (bnd (required_approvals rt en started p cs) (\<lambda>rest.
      ret (if requires_approval p (tc_name c) then c # rest else rest))) (\<lambda>r _. r = needing p (c # cs)) (\<lambda>_ _. True) t" for t
    unfolding wp_bnd by (rule wp_mono [OF Cons.IH]) (simp_all add: wp_ret needing_def)
  then show ?case
    unfolding required_approvals.simps
    by (intro appr.seq_after [OF appr.keeps_check_cancellation] appr.seq_after [OF appr.keeps_check_timeout] TrueI)
qed (simp add: wp_ret needing_def)

lemma create_request_requested:
  "create_request (approval_id eid c) eid (call_id_of c) (tc_name c) (tc_arguments c) m = Inr (r, m')
     \<Longrightarrow> requested m' eid c"
  by (auto simp: create_request_def requested_def Let_def split: if_splits)

lemma wp_create_approval:
  "wp (create_approval en eid c) (\<lambda>_ t. requested (w_approvals t) eid c) (\<lambda>_ _. True) s"
  unfolding create_approval_def
  by (rule appr.seq_after [OF appr.keeps_check_cancellation])
     (auto simp: wp dest: create_request_requested)

lemma wp_create_approvals:
  "wp (for_each cs (create_approval en eid)) (\<lambda>_ t. \<forall>c \<in> set cs. requested (w_approvals t) eid c) (\<lambda>_ _. True) s"
proof (induction cs arbitrary: s)
  case (Cons c cs)
  have "wp (for_each cs (create_approval en eid)) (\<lambda>_ t. \<forall>c \<in> set (c # cs). requested (w_approvals t) eid c) (\<lambda>_ _. True) t"
    if t: "requested (w_approvals t) eid c" for t
    using wp_conj [OF Cons.IH appr.keeps_wp [OF appr.keeps_for_each [OF appr.keeps_create_approval]]]
    by (rule wp_mono) (use t in \<open>auto simp: approvals_grow_def intro: requested_grow\<close>)
  then show ?case
    by (auto simp: wp_seq intro!: wp_mono [OF wp_create_approval])
qed (simp add: wp_ret)

text \<open>What a normal return of \<open>handle_required_approvals\<close> means.\<close>

definition cleared :: "runtime \<Rightarrow> tool_call list \<Rightarrow> world \<Rightarrow> bool" where
  "cleared rt cs w \<longleftrightarrow> (\<forall>p. rt_approval_policy rt = Some p \<longrightarrow>
     (\<forall>c \<in> set cs. requires_approval p (tc_name c) \<longrightarrow> granted (w_approvals w) (ex_id (w_exec w)) c))"

lemma cleared_grow: "cleared rt cs s \<Longrightarrow> approvals_grow s t \<Longrightarrow> cleared rt cs t"
  unfolding cleared_def approvals_grow_def by (auto intro: granted_grow)

definition approval_wait :: "runtime \<Rightarrow> env \<Rightarrow> time \<Rightarrow> string \<Rightarrow> tool_call list \<Rightarrow> string list rt" where
  "approval_wait rt en started eid req =
     seq (modify (\<lambda>w. w\<lparr>w_waiters := map (\<lambda>c. (approval_id eid c, WStart)) req\<rparr>))
     (seq (await_approvals rt en started)
     (seq (check_cancellation en)
     (seq (check_timeout rt en started)
          (ret (remdups (map call_id_of req))))))"

lemma wp_approval_wait:
  assumes "\<forall>c \<in> set req. requested (w_approvals s) eid c"
  shows "wp (approval_wait rt en started eid req)
     (\<lambda>_ t. \<forall>c \<in> set req. granted (w_approvals t) eid c) (\<lambda>_ _. True) s"
proof -
  let ?Q = "\<lambda>t. \<forall>c \<in> set req. granted (w_approvals t) eid c"
  have tail: "wp (seq (check_cancellation en) (seq (check_timeout rt en started)
          (ret (remdups (map call_id_of req))))) (\<lambda>_. ?Q) (\<lambda>_ _. True) t" if "?Q t" for t
    by (rule appr.wp_after, intro appr.keeps_rules appr.keeps_ops)
       (use that in \<open>auto simp: approvals_grow_def intro: granted_grow\<close>)
  have "waiters_ok eid req (s\<lparr>w_waiters := map (\<lambda>c. (approval_id eid c, WStart)) req\<rparr>)"
    using assms by (simp add: waiters_ok_def comp_def)
  from wp_await_approvals [OF this] show ?thesis
    unfolding approval_wait_def wp_seq [of "modify _"] wp_modify wp_seq [of "await_approvals _ _ _"]
    by (rule wp_mono) (auto intro: tail waiters_ok_all)
qed

lemma wp_handle_required_approvals:
  "wp (handle_required_approvals rt en started cs) (\<lambda>_. cleared rt cs) (\<lambda>_ _. True) s"
proof (cases "rt_approval_policy rt")
  case None
  then show ?thesis by (simp add: handle_required_approvals_def wp_ret cleared_def)
next
  case (Some p)
  let ?eid = "ex_id (w_exec s)" and ?req = "needing p cs"
  let ?body = "seq (for_each ?req (create_approval en ?eid)) (seq (go_to en State_WAITING_APPROVAL)
      (approval_wait rt en started ?eid ?req))"
  let ?Q = "\<lambda>t. \<forall>c \<in> set ?req. granted (w_approvals t) ?eid c"
  have body: "wp ?body (\<lambda>_. ?Q) (\<lambda>_ _. True) u" for u
  proof -
    have "wp (seq (go_to en State_WAITING_APPROVAL) (approval_wait rt en started ?eid ?req)) (\<lambda>_. ?Q) (\<lambda>_ _. True) t"
      if "\<forall>c \<in> set ?req. requested (w_approvals t) ?eid c" for t
      by (rule appr.seq_after [OF appr.keeps_go_tos(3)])
         (use that in \<open>auto simp: approvals_grow_def intro!: wp_approval_wait intro: requested_grow\<close>)
    then show ?thesis
      unfolding wp_seq [of "for_each _ _"] by (intro wp_mono [OF wp_create_approvals]) auto
  qed
  have "wp (handle_required_approvals rt en started cs) (\<lambda>_. ?Q) (\<lambda>_ _. True) s"
    unfolding handle_required_approvals_def Some option.case wp_bnd [of "gets _"] wp_gets
      wp_bnd [of "required_approvals _ _ _ _ _"]
    by (rule wp_mono [OF wp_required_approvals])
       (use body in \<open>auto simp: wp_ret approval_wait_def\<close>)
  from wp_conj [OF this appr.keeps_wp [OF appr.keeps_handle_required_approvals]] show ?thesis
    by (rule wp_mono) (auto simp: Some cleared_def needing_def approvals_grow_def)
qed

lemma wp_start_batch_cleared:
  "wp (start_batch rt en started cs d) (\<lambda>_ t. cleared rt cs t \<and> map tk_call (w_tasks t) = cs)
     (\<lambda>_ _. True) s"
proof -
  have rest: "appr.keeps (seq (for_each approved (\<lambda>k. step_do en (step_of d k) (\<lambda>_. step_mark_waiting_approval)))
     (seq (check_cancellation en) (seq (go_to en State_TOOL_EXECUTION)
          (modify (\<lambda>w. w\<lparr>w_tasks := map (make_task d) cs\<rparr>)))))" for approved
    by (intro appr.keeps_rules appr.keeps_ops appr.keeps_modify appr.R_tasks)
  have "wp (start_batch rt en started cs d) (\<lambda>_. cleared rt cs) (\<lambda>_ _. True) s"
    unfolding start_batch_def wp_bnd
    by (rule wp_mono [OF wp_handle_required_approvals])
       (auto intro: appr.wp_after [OF rest] cleared_grow)
  from wp_conj [OF this tasks_start_batch] show ?thesis by simp
qed

section \<open>The invariant of the log\<close>

text \<open>Every sandbox call of a tool that needs approval was granted, as it was made.\<close>

definition approvals_respected :: "runtime \<Rightarrow> world \<Rightarrow> bool" where
  "approvals_respected rt w \<longleftrightarrow> (\<forall>p i n a. rt_approval_policy rt = Some p \<longrightarrow> requires_approval p n
     \<longrightarrow> LogSandbox i n a \<in> set (w_log w) \<longrightarrow>
     (\<exists>r. map_of (am_requests (w_approvals w)) (ex_id (w_exec w) @ '':'' @ i) = Some r
        \<and> ar_status r = Approval_APPROVED \<and> ar_execution_id r = ex_id (w_exec w)
        \<and> ar_tool_name r = n \<and> ar_arguments r = a))"

lemma approvals_respected_grow:
  "approvals_respected rt s \<Longrightarrow> approvals_grow s t \<Longrightarrow> approvals_respected rt t"
  unfolding approvals_respected_def approvals_grow_def requests_grow_def
  by (metis approval_status.distinct(1))

lemma batch_respects:
  assumes "batch_moves s t" "cleared rt (map tk_call (w_tasks s)) s" "approvals_respected rt s"
  shows "approvals_respected rt t"
proof -
  from assms(1) obtain "is" where log: "w_log t = w_log s @ map (\<lambda>i. sandbox_entry (tk_call (w_tasks s ! i))) is"
      "\<forall>i \<in> set is. i < length (w_tasks s)"
    unfolding batch_moves_def by blast
  have same: "w_approvals t = w_approvals s" "ex_id (w_exec t) = ex_id (w_exec s)"
    using assms(1) by (auto simp: batch_moves_def batch_frame_def dest: arg_cong [of _ _ ex_id])
  have "granted (w_approvals s) (ex_id (w_exec s)) (tk_call (w_tasks s ! i))"
    if "i \<in> set is" "rt_approval_policy rt = Some p" "requires_approval p (tc_name (tk_call (w_tasks s ! i)))" for i p
    using assms(2) that log(2) by (auto simp: cleared_def)
  then show ?thesis
    using assms(3) unfolding approvals_respected_def log(1) same
    by (fastforce simp: sandbox_entry_def granted_def approval_id_def)
qed

lemma wp_execute_tool_calls_respects:
  assumes "approvals_respected rt s"
  shows "wp (execute_tool_calls rt en started resp d)
     (\<lambda>_. approvals_respected rt) (\<lambda>_. approvals_respected rt) s"
proof -
  let ?cs = "normalized_tool_calls d" and ?I = "approvals_respected rt"
  have keep: "wp m (\<lambda>_. ?I) (\<lambda>_. ?I) u" if "appr.keeps m" "?I u" for m :: "'x rt" and u
    by (rule appr.wp_after [OF that(1)]) (use that(2) approvals_respected_grow in blast)+
  have start: "wp (start_batch rt en started ?cs steps)
      (\<lambda>_ t. (cleared rt ?cs t \<and> map tk_call (w_tasks t) = ?cs) \<and> ?I t) (\<lambda>_. ?I) u"
    if "?I u" for steps u
    using wp_conj [OF wp_start_batch_cleared keep [OF appr.keeps_start_batch that]] by simp
  have batch: "wp (run_batch rt en started) (\<lambda>_. ?I) (\<lambda>_. ?I) u"
    if "(cleared rt ?cs u \<and> map tk_call (w_tasks u) = ?cs) \<and> ?I u" for u
  proof -
    from that have "cleared rt (map tk_call (w_tasks u)) u" "?I u" by simp_all
    then show ?thesis by (intro wp_mono [OF wp_run_batch]) (auto intro: batch_respects)
  qed
  have prep: "wp (prepare_calls rt en started resp ?cs) (\<lambda>_. ?I) (\<lambda>_. ?I) s"
    unfolding prepare_calls_def count_admissions_def
    by (intro keep [OF _ assms] appr.keeps_rules appr.keeps_ops)
       (auto intro!: appr.keeps_rules appr.keeps_ops appr.keeps_modify
        simp: approvals_grow_def requests_grow_refl split: prod.split)
  show ?thesis
    unfolding execute_tool_calls_def Let_def wp_bnd wp_seq
    by (intro wp_mono [OF prep] wp_mono [OF start] wp_mono [OF batch] keep [OF appr.keeps_apply_results]) auto
qed

end
