(* ===== verification/Runtime.thy ===== *)
theory Runtime
  imports RtApproval
begin

text \<open>
  The life of one execution (\<open>_execute\<close>, \<open>_run_execution\<close>, \<open>_create_execution\<close>,
  \<open>_to_agent_response\<close> in \<^verbatim>\<open>runtime.py\<close>): planning, routing, the reasoning loop, and the handlers
  that turn every outcome into a terminal state, a result, an event and a closed stream.
\<close>

section \<open>The reasoning loop\<close>

text \<open>\<open>SYSTEM_PROMPT\<close> of \<^verbatim>\<open>prompts.py\<close>.\<close>

definition system_prompt :: string where
  "system_prompt = intersperse_str [char_of (10 :: nat)]
     [''You are Agenyx, a reliable AI agent.'', [],
      ''Solve the user'' @ [squote] @ ''s request using the available tools when appropriate.'', [],
      ''Rules:'', [],
      ''1. Use tools when they are useful for solving the request.'',
      ''2. Never invent a tool.'',
      ''3. Never claim a tool was executed when it was not.'',
      ''4. After receiving a tool result, continue reasoning toward the final answer.'',
      ''5. Return a concise final answer when the task is complete.'',
      ''6. Do not expose internal execution details unless requested.'']"

text \<open>A request with the session and the task as \<open>_create_execution\<close> resolves them.\<close>

record run_request =
  rq_intent :: string
  rq_session :: string
  rq_task :: string
  rq_capabilities :: pyval

definition plan_phase :: "env \<Rightarrow> run_request \<Rightarrow> unit rt" where
  "plan_phase en rq =
     seq (check_cancellation en)
     (bnd (start_step en StepType_PLAN (PDict [(''intent'', PStr (rq_intent rq)), (''task'', PStr (rq_task rq)),
             (''session_id'', PStr (rq_session rq)), (''required_capabilities'', rq_capabilities rq)])) (\<lambda>i.
      seq (ctx_do (add_system_message (PStr system_prompt)))
      (seq (ctx_do (add_user_message (PStr (rq_intent rq))))
      (seq (ctx_do (\<lambda>c. Inr (c\<lparr>cx_current_plan := Some (rq_task rq)\<rparr>)))
      (seq (set_step_output i (PDict [(''task'', PStr (rq_task rq)), (''session_id'', PStr (rq_session rq))]))
      (seq (complete_step en i)
           (check_cancellation en)))))))"

definition inference_view :: "runtime \<Rightarrow> pydict list rt" where
  "inference_view rt = gets (\<lambda>w. get_messages_for_inference (the_context_manager rt) (w_ctx w))"

text \<open>\<open>wait_for(router.route(...))\<close> with its handlers, and what is recorded of the route.\<close>

definition route_failed :: "runtime \<Rightarrow> exc \<Rightarrow> (string \<times> string) rt" where
  "route_failed rt e =
     (if isinstance_exc e TimeoutError then
        throw (Exc ExecutionLimitExceeded (''Agent routing exceeded execution timeout: '' @ timeout_text rt))
      else if isinstance_exc e CancelledError then
        seq cancel_token (throw (Exc ExecutionCancelled ''Agent execution was cancelled during routing''))
      else throw e)"

definition ask_router :: "runtime \<Rightarrow> env \<Rightarrow> time \<Rightarrow> (string \<times> string) rt" where
  "ask_router rt en started =
     catch
       (bnd (remaining_time rt en started) (\<lambda>_.
        bnd (inference_view rt) (\<lambda>ms.
        seq (log_it (LogRoute ms))
        (bnd tick (\<lambda>n. lift_res (en_route en n))))))
       (route_failed rt)"

definition route_phase :: "runtime \<Rightarrow> env \<Rightarrow> time \<Rightarrow> string rt" where
  "route_phase rt en started =
     seq (check_timeout rt en started)
     (seq (check_cancellation en)
     (seq (check_timeout rt en started)
     (bnd (ask_router rt en started) (\<lambda>(model, provider).
      seq (check_cancellation en)
      (seq (check_timeout rt en started)
      (seq (set_context_metadata ''model'' (PStr model))
      (seq (set_context_metadata ''provider'' (PStr provider))
           (ret model))))))))"

definition inference_input :: "runtime \<Rightarrow> string \<Rightarrow> int \<Rightarrow> pydict list \<Rightarrow> execution_context \<Rightarrow> pyval" where
  "inference_input rt model k ms c = PDict [(''model'', PStr model),
     (''messages'', PList (map PDict ms)), (''tools'', PList (registry_definitions (rt_tools rt))),
     (''step'', PInt k), (''context_tokens'', PInt (token_count (the_context_manager rt) (Some ms) c)),
     (''remaining_input_tokens'', case remaining_input_tokens (the_context_manager rt) (Some ms) c of
         None \<Rightarrow> PNone | Some r \<Rightarrow> PInt r)]"

definition step_event_data :: "int \<Rightarrow> string \<Rightarrow> pydict" where
  "step_event_data k model = [(''step'', PInt k), (''model'', PStr model)]"

text \<open>The handlers of the inference call: the step fails before the exception goes on.\<close>

definition inference_failed :: "runtime \<Rightarrow> env \<Rightarrow> nat \<Rightarrow> exc \<Rightarrow> pyval rt" where
  "inference_failed rt en i e =
     (if isinstance_exc e TimeoutError then
        (let error = ''Agent inference exceeded execution timeout: '' @ timeout_text rt in
         seq (step_do en i (\<lambda>t. step_mark_failed t error)) (throw (Exc ExecutionLimitExceeded error)))
      else if isinstance_exc e CancelledError then
        (let error = ''Agent execution was cancelled during inference'' in
         seq cancel_token
         (seq (step_do en i (\<lambda>t. step_mark_failed t error)) (throw (Exc ExecutionCancelled error))))
      else if isinstance_exc e PyException then
        seq (step_do en i (\<lambda>t. step_mark_failed t (exc_msg e))) (throw e)
      else throw e)"

definition call_inference :: "runtime \<Rightarrow> env \<Rightarrow> time \<Rightarrow> string \<Rightarrow> int \<Rightarrow> pydict list \<Rightarrow> nat \<Rightarrow> pyval rt" where
  "call_inference rt en started model k ms i =
     catch
       (bnd (remaining_time rt en started) (\<lambda>remaining.
        bnd (monotonic en) (\<lambda>now.
        seq (publish_event INFERENCE_STARTED (step_event_data k model))
        (seq (log_it (LogInfer model ms (registry_definitions (rt_tools rt)) (now + remaining)))
        (bnd tick (\<lambda>n.
        bnd (lift_res (en_infer en n)) (\<lambda>response.
        seq (check_cancellation en)
        (seq (set_step_output i response)
        (seq (complete_step en i)
        (seq (publish_event INFERENCE_COMPLETED (step_event_data k model))
             (ret response)))))))))))
       (inference_failed rt en i)"

text \<open>The step up to the decision of the planner.\<close>

definition infer_phase :: "runtime \<Rightarrow> env \<Rightarrow> time \<Rightarrow> string \<Rightarrow> int \<Rightarrow> (pyval \<times> agent_decision) rt" where
  "infer_phase rt en started model k =
     seq (check_cancellation en)
     (seq (ctx_do (\<lambda>c. Inr (c\<lparr>cx_current_step := k\<rparr>)))
     (seq (lift_res (validate_step (rt_limits rt) k))
     (seq (check_timeout rt en started)
     (bnd (gets (\<lambda>w. ex_state (w_exec w))) (\<lambda>st.
      seq (guarded (st \<noteq> State_INFERENCE) (go_to en State_INFERENCE))
      (bnd (inference_view rt) (\<lambda>ms.
       bnd (gets (\<lambda>w. inference_input rt model k ms (w_ctx w))) (\<lambda>inp.
       bnd (start_step en StepType_INFERENCE inp) (\<lambda>i.
       bnd (call_inference rt en started model k ms i) (\<lambda>response.
       seq (check_timeout rt en started)
       (seq (check_cancellation en)
       (bnd (gets (\<lambda>w. plan (rt_loads rt) (rt_planner_tools rt) (w_ctx w) response)) (\<lambda>d.
        bnd (lift_res d) (\<lambda>decision.
        seq (check_cancellation en) (ret (response, decision))))))))))))))))"

fun decision_type_value :: "decision_type \<Rightarrow> string" where
  "decision_type_value DecisionType_FINAL = ''final''"
| "decision_type_value DecisionType_TOOL_CALL = ''tool_call''"
| "decision_type_value DecisionType_CONTINUE = ''continue''"
| "decision_type_value DecisionType_FAIL = ''fail''"

text \<open>What follows from the decision: \<open>Some\<close> of the final output, or another turn of the loop.\<close>

definition decide :: "runtime \<Rightarrow> env \<Rightarrow> time \<Rightarrow> pyval \<Rightarrow> agent_decision \<Rightarrow> string option rt" where
  "decide rt en started response d = (case ad_type d of
      DecisionType_FINAL \<Rightarrow>
        seq (check_cancellation en)
        (bnd (start_step en StepType_FINAL
               (PDict [(''decision'', PStr (decision_type_value (ad_type d)))])) (\<lambda>i.
         let out = (case ad_content d of None \<Rightarrow> [] | Some s \<Rightarrow> s) in
         seq (set_step_output i (PStr out))
         (seq (complete_step en i)
              (ret (Some out)))))
    | DecisionType_CONTINUE \<Rightarrow> seq (check_cancellation en) (ret None)
    | DecisionType_FAIL \<Rightarrow> throw (Exc RuntimeError (case ad_error d of
          None \<Rightarrow> ''Agent returned a failure decision''
        | Some m \<Rightarrow> (if m = [] then ''Agent returned a failure decision'' else m)))
    | DecisionType_TOOL_CALL \<Rightarrow>
        seq (check_cancellation en)
        (seq (execute_tool_calls rt en started response d)
        (seq (check_cancellation en)
             (ret None))))"

definition reasoning_turn :: "runtime \<Rightarrow> env \<Rightarrow> time \<Rightarrow> string \<Rightarrow> int \<Rightarrow> string option rt" where
  "reasoning_turn rt en started model k =
     bnd (infer_phase rt en started model k) (\<lambda>(response, d). decide rt en started response d)"

primrec reasoning_loop :: "runtime \<Rightarrow> env \<Rightarrow> time \<Rightarrow> string \<Rightarrow> int list \<Rightarrow> string rt" where
  "reasoning_loop rt en started model [] =
     throw (Exc AgentMaxStepsError (''Agent exceeded maximum steps: '' @ int_str (max_steps (rt_limits rt))))"
| "reasoning_loop rt en started model (k # ks) =
     bnd (reasoning_turn rt en started model k) (\<lambda>r. case r of
         Some out \<Rightarrow> ret out
       | None \<Rightarrow> reasoning_loop rt en started model ks)"

definition execute :: "runtime \<Rightarrow> env \<Rightarrow> run_request \<Rightarrow> string rt" where
  "execute rt en rq =
     bnd (monotonic en) (\<lambda>started.
     seq (modify (\<lambda>w. w\<lparr>w_repeated := [], w_counts := []\<rparr>))
     (seq (plan_phase en rq)
     (bnd (route_phase rt en started) (\<lambda>model.
      reasoning_loop rt en started model [1..max_steps (rt_limits rt)]))))"

end
