(* ===== verification/RtRun.thy ===== *)
theory RtRun
  imports Runtime
begin

text \<open>
  One run from creation to its end (\<open>_create_execution\<close>, \<open>_run_execution\<close>, \<open>_to_agent_response\<close>,
  \<open>run\<close>, \<open>submit\<close>, \<open>_run_submitted\<close>, \<open>stream\<close> in \<^verbatim>\<open>runtime.py\<close>), and the registry operations
  (\<open>get_result\<close>, \<open>cancel\<close>, \<open>is_active\<close>, \<open>get_event_stream\<close>).
\<close>

section \<open>Creation\<close>

definition resolve_session :: "string option \<Rightarrow> string \<Rightarrow> string" where
  "resolve_session session eid = (case session of None \<Rightarrow> eid | Some s \<Rightarrow> if s = [] then eid else s)"

definition resolve_task :: "string option \<Rightarrow> string \<Rightarrow> string" where
  "resolve_task task intent = (case task of None \<Rightarrow> intent | Some t \<Rightarrow> t)"

text \<open>
  The registered record with the execution, its context, token and stream; \<open>am\<close> and \<open>st\<close> are the
  approval manager and the idempotency store the executions of the runtime share.
\<close>

definition create_execution ::
  "string \<Rightarrow> clock \<Rightarrow> run_request \<Rightarrow> pydict \<Rightarrow> approval_manager \<Rightarrow> tool_result idem_store \<Rightarrow> nat \<Rightarrow> world" where
  "create_execution eid clk rq meta am st n =
     \<lparr>w_exec = new_execution eid clk [],
      w_ctx = (new_context [])\<lparr>cx_metadata :=
        dset ''task'' (PStr (rq_task rq)) (dset ''session_id'' (PStr (rq_session rq)) meta)\<rparr>,
      w_cancelled = False, w_stream = new_stream, w_stream_ref = True, w_active = True,
      w_result = None, w_approvals = am, w_idem = st, w_repeated = [], w_counts = [],
      w_tasks = [], w_waiters = [], w_log = [], w_tick = n\<rparr>"

section \<open>The public response\<close>

record tool_call_result =
  tcr_call_id :: string
  tcr_name :: string
  tcr_arguments :: pydict
  tcr_result :: string

record agent_response =
  rs_execution_id :: string
  rs_status :: string
  rs_answer :: string
  rs_steps :: int
  rs_tool_calls :: "tool_call_result list"

definition response_tool_call :: "pydict \<Rightarrow> tool_call_result option" where
  "response_tool_call t = (case dget t ''id'' of
      PStr i \<Rightarrow> (case dget t ''name'' of
          PStr n \<Rightarrow> Some \<lparr>tcr_call_id = i, tcr_name = n,
             tcr_arguments = (case dget t ''arguments'' of PDict a \<Rightarrow> a | _ \<Rightarrow> []),
             tcr_result = normalize_tool_output (dget t ''result'')\<rparr>
        | _ \<Rightarrow> None)
    | _ \<Rightarrow> None)"

definition response_status :: "execution_status \<Rightarrow> string" where
  "response_status st = (let s = execution_status_value st in
     if s = ''completed'' then ''success'' else s)"

definition to_agent_response :: "execution_result \<Rightarrow> execution_context \<Rightarrow> agent_response" where
  "to_agent_response r c =
     \<lparr>rs_execution_id = er_execution_id r, rs_status = response_status (er_status r),
      rs_answer = normalize_tool_output (er_output r), rs_steps = cx_current_step c,
      rs_tool_calls = List.map_filter response_tool_call (cx_tool_calls c)\<rparr>"

section \<open>The lifecycle of a run\<close>

text \<open>\<open>record.result = ExecutionResult.from_execution(...)\<close>.\<close>

definition retain_result :: "pyval \<Rightarrow> unit rt" where
  "retain_result out = modify (\<lambda>w. w\<lparr>w_result := Some (from_execution out (w_exec w))\<rparr>)"

definition respond :: "pyval \<Rightarrow> agent_response rt" where
  "respond out = gets (\<lambda>w. to_agent_response (from_execution out (w_exec w)) (w_ctx w))"

text \<open>From the output of the loop to the response.\<close>

definition finish_run :: "runtime \<Rightarrow> env \<Rightarrow> string \<Rightarrow> agent_response rt" where
  "finish_run rt en out =
     seq (check_cancellation en)
     (seq (go_to en State_COMPLETED)
     (seq (persist_execution rt en)
     (seq (retain_result (PStr out))
     (bnd (gets (\<lambda>w. int (length (ex_steps (w_exec w))))) (\<lambda>n.
      seq (publish_event EXECUTION_COMPLETED [(''status'', PStr ''success''), (''steps'', PInt n)])
          (respond (PStr out)))))))"

definition run_body :: "runtime \<Rightarrow> env \<Rightarrow> run_request \<Rightarrow> agent_response rt" where
  "run_body rt en rq =
     seq (check_cancellation en)
     (seq (go_to en State_PLANNING)
     (seq (persist_execution rt en)
     (bnd (execute rt en rq) (finish_run rt en))))"

definition execution_over :: "bool rt" where
  "execution_over = gets (\<lambda>w. state_is_terminal (ex_state (w_exec w)))"

definition cancelled_run :: "runtime \<Rightarrow> env \<Rightarrow> exc \<Rightarrow> agent_response rt" where
  "cancelled_run rt en e =
     seq (ctx_do (add_error (exc_msg e)))
     (bnd execution_over (\<lambda>over.
      seq (guarded (\<not> over) (seq (go_to en State_CANCELLED) (persist_execution rt en)))
      (seq (publish_event EXECUTION_CANCELLED [(''reason'', PStr ''execution_cancelled'')])
      (seq (retain_result PNone)
           (respond PNone)))))"

definition cancelled_task :: "env \<Rightarrow> agent_response rt" where
  "cancelled_task en =
     seq cancel_token
     (seq (ctx_do (add_error ''Agent execution was cancelled''))
     (bnd execution_over (\<lambda>over.
      seq (guarded (\<not> over) (go_to en State_CANCELLED))
      (seq (publish_event EXECUTION_CANCELLED [(''reason'', PStr ''task_cancelled'')])
      (seq (retain_result PNone)
           (respond PNone))))))"

definition failed_run :: "runtime \<Rightarrow> env \<Rightarrow> exc \<Rightarrow> agent_response rt" where
  "failed_run rt en e =
     bnd execution_over (\<lambda>over.
     seq (guarded (\<not> over)
       (seq (exec_do en (\<lambda>clk. mark_failed clk (exc_msg e) (Some (type_name (exc_class e)))))
            (persist_execution rt en)))
     (seq (ctx_do (add_error (exc_msg e)))
     (seq (publish_event EXECUTION_FAILED
             [(''error_type'', PStr (type_name (exc_class e))), (''error'', PStr (exc_msg e))])
     (seq (retain_result PNone)
          (throw e)))))"

definition run_failed :: "runtime \<Rightarrow> env \<Rightarrow> exc \<Rightarrow> agent_response rt" where
  "run_failed rt en e =
     (if isinstance_exc e ExecutionCancelled then cancelled_run rt en e
      else if isinstance_exc e CancelledError then cancelled_task en
      else if isinstance_exc e PyException then failed_run rt en e
      else throw e)"

definition close_run :: "unit rt" where
  "close_run =
     seq (modify (\<lambda>w. w\<lparr>w_stream := (if w_stream_ref w then stream_close (w_stream w) else w_stream w),
                       w_stream_ref := False\<rparr>))
         (modify (\<lambda>w. w\<lparr>w_active := False\<rparr>))"

definition run_execution :: "runtime \<Rightarrow> env \<Rightarrow> run_request \<Rightarrow> agent_response rt" where
  "run_execution rt en rq =
     seq (create_persistent_execution rt en)
     (seq (publish_event EXECUTION_STARTED [(''session_id'', PStr (rq_session rq))])
     (ensure (catch (run_body rt en rq) (run_failed rt en)) close_run))"

text \<open>\<open>run\<close>: the request with its defaults filled in, a new execution for it, and its run.\<close>

definition resolved_request ::
  "string \<Rightarrow> string \<Rightarrow> string option \<Rightarrow> string option \<Rightarrow> pyval \<Rightarrow> run_request" where
  "resolved_request eid intent session task caps =
     \<lparr>rq_intent = intent, rq_session = resolve_session session eid, rq_task = resolve_task task intent,
       rq_capabilities = caps\<rparr>"

definition runtime_run ::
  "runtime \<Rightarrow> env \<Rightarrow> string \<Rightarrow> clock \<Rightarrow> approval_manager \<Rightarrow> tool_result idem_store \<Rightarrow> nat \<Rightarrow> string
     \<Rightarrow> string option \<Rightarrow> string option \<Rightarrow> pyval \<Rightarrow> pydict option \<Rightarrow> (exc + agent_response) \<times> world" where
  "runtime_run rt en eid clk am st n intent session task caps meta =
     (let rq = resolved_request eid intent session task caps in
      run_execution rt en rq
        (create_execution eid clk rq (case meta of None \<Rightarrow> [] | Some d \<Rightarrow> d) am st n))"

text \<open>\<open>_run_submitted\<close>: the detached task swallows what \<open>_run_execution\<close> raises.\<close>

definition run_submitted :: "runtime \<Rightarrow> env \<Rightarrow> run_request \<Rightarrow> unit rt" where
  "run_submitted rt en rq =
     catch (bnd (run_execution rt en rq) (\<lambda>_. ret ()))
       (\<lambda>e. if isinstance_exc e CancelledError \<or> isinstance_exc e PyException then ret () else throw e)"

section \<open>The registry\<close>

text \<open>\<open>_executions\<close>; an execution is in \<open>_active_executions\<close> when its record is active.\<close>

type_synonym registry = "(string \<times> world) list"

definition register_execution :: "world \<Rightarrow> registry \<Rightarrow> registry" where
  "register_execution w reg = dset (ex_id (w_exec w)) w reg"

record submission =
  sb_execution_id :: string
  sb_status :: string

text \<open>\<open>submit\<close> and \<open>stream\<close> register the execution before its task can run.\<close>

definition submit :: "world \<Rightarrow> registry \<Rightarrow> submission \<times> registry" where
  "submit w reg = (\<lparr>sb_execution_id = ex_id (w_exec w), sb_status = ''submitted''\<rparr>, register_execution w reg)"

definition stream_execution :: "world \<Rightarrow> registry \<Rightarrow> event_stream result \<times> registry" where
  "stream_execution w reg =
     (if w_stream_ref w then Inr (w_stream w)
      else raise RuntimeError ''Execution event stream was not created'', register_execution w reg)"

definition is_active :: "string \<Rightarrow> registry \<Rightarrow> bool" where
  "is_active eid reg = (case map_of reg eid of None \<Rightarrow> False | Some w \<Rightarrow> w_active w)"

definition get_result :: "string \<Rightarrow> registry \<Rightarrow> execution_result option" where
  "get_result eid reg = (case map_of reg eid of None \<Rightarrow> None | Some w \<Rightarrow> w_result w)"

definition get_event_stream :: "string \<Rightarrow> registry \<Rightarrow> event_stream option" where
  "get_event_stream eid reg = (case map_of reg eid of
      None \<Rightarrow> None
    | Some w \<Rightarrow> if \<not> w_active w then None
        else if \<not> w_stream_ref w \<or> es_closed (w_stream w) then None else Some (w_stream w))"

definition cancel_execution :: "string \<Rightarrow> registry \<Rightarrow> bool \<times> registry" where
  "cancel_execution eid reg = (case map_of reg eid of
      None \<Rightarrow> (False, reg)
    | Some w \<Rightarrow> if \<not> w_active w then (False, reg)
        else (True, dset eid (w\<lparr>w_cancelled := True\<rparr>) reg))"

text \<open>The task of a registered execution runs to its end.\<close>

definition run_registered :: "runtime \<Rightarrow> env \<Rightarrow> run_request \<Rightarrow> string \<Rightarrow> registry \<Rightarrow> registry" where
  "run_registered rt en rq eid reg = (case map_of reg eid of
      None \<Rightarrow> reg
    | Some w \<Rightarrow> dset eid (snd (run_submitted rt en rq w)) reg)"

end
