(* ===== verification/RtSafety.thy ===== *)
theory RtSafety
  imports RtRun
begin

text \<open>
  What holds of every run of the runtime, whatever its environment does: the lifecycle of the
  execution and its steps, the bounds on inference calls, sandbox calls and messages, the approval
  of what needs it, and how a run ends.
\<close>

section \<open>Relations the whole run respects\<close>

locale rt_kept_tools = rt_kept_batch + rt_kept_ctx +
  assumes R_counts: "R s (s\<lparr>w_repeated := r, w_counts := c\<rparr>)"
begin

lemma keeps_count_admissions [keeps_ops]: "keeps (count_admissions cs)"
  unfolding count_admissions_def by (intro keeps_rules keeps_modify R_counts)

lemma keeps_prepare_calls [keeps_ops]: "keeps (prepare_calls rt en started resp cs)"
  unfolding prepare_calls_def
  by (intro keeps_rules keeps_ops) (auto intro!: keeps_rules keeps_ops split: prod.split)

lemma keeps_execute_tool_calls [keeps_ops]: "keeps (execute_tool_calls rt en started resp d)"
  unfolding execute_tool_calls_def Let_def by (intro keeps_rules keeps_ops)

end

text \<open>Outside the handling of a decision the context changes but for its tool calls.\<close>

locale rt_kept_note = rt_kept +
  assumes R_note: "cx_tool_calls c = cx_tool_calls (w_ctx s) \<Longrightarrow> R s (s\<lparr>w_ctx := c\<rparr>)"
begin

lemma keeps_ctx_note:
  assumes "\<And>c c'. f c = Inr c' \<Longrightarrow> cx_tool_calls c' = cx_tool_calls c"
  shows "keeps (ctx_do f)"
proof (rule keepsI)
  fix s :: world
  show "R s (snd (ctx_do f s))"
    using assms [of "w_ctx s"]
    by (cases "f (w_ctx s)") (auto simp: ctx_do_def bnd_def gets_def lift_res_def modify_def R_refl intro: R_note)
qed

lemma mgr_add_message_calls: "mgr_add_message m c = Inr c' \<Longrightarrow> cx_tool_calls c' = cx_tool_calls c"
  by (auto simp: mgr_add_message_def add_message_def split: pyval.splits if_splits)

lemma keeps_notes [keeps_ops]:
  "keeps (ctx_do (add_system_message m))" "keeps (ctx_do (add_user_message m))"
  "keeps (ctx_do (\<lambda>c. Inr (c\<lparr>cx_current_plan := t\<rparr>)))" "keeps (ctx_do (\<lambda>c. Inr (c\<lparr>cx_current_step := k\<rparr>)))"
  "keeps (ctx_do (add_error e))"
  by (rule keeps_ctx_note; auto simp: add_system_message_def add_user_message_def add_error_def
      split: if_splits dest: mgr_add_message_calls)+

lemma keeps_set_context_metadata [keeps_ops]: "keeps (set_context_metadata k v)"
  unfolding set_context_metadata_def by (rule keeps_modify, rule R_note) simp

lemma keeps_plan_phase [keeps_ops]: "keeps (plan_phase en rq)"
  unfolding plan_phase_def by (intro keeps_rules keeps_ops)

end

text \<open>The inference and routing calls get the bounded view of the messages.\<close>

locale rt_kept_loop = rt_kept_note R for R :: "world \<Rightarrow> world \<Rightarrow> bool" +
  fixes rt :: runtime
  assumes R_infer: "R s (s\<lparr>w_log := w_log s @ [LogInfer m (get_messages_for_inference (the_context_manager rt) c)
      (registry_definitions (rt_tools rt)) d]\<rparr>)"
    and R_route: "R s (s\<lparr>w_log := w_log s @ [LogRoute (get_messages_for_inference (the_context_manager rt) c)]\<rparr>)"
begin

lemma keeps_route_failed [keeps_ops]: "keeps (route_failed rt' e)"
  unfolding route_failed_def by (intro keeps_rules keeps_ops)

lemma keeps_view_bnd:
  assumes "\<And>c. keeps (f (get_messages_for_inference (the_context_manager rt) c))"
  shows "keeps (bnd (inference_view rt) f)"
proof (rule keepsI)
  fix s :: world
  show "R s (snd (bnd (inference_view rt) f s))"
    using keepsD [OF assms [of "w_ctx s"]] by (simp add: inference_view_def bnd_def gets_def)
qed

lemma keeps_log_view:
  "keeps (log_it (LogRoute (get_messages_for_inference (the_context_manager rt) c)))"
  "keeps (log_it (LogInfer m (get_messages_for_inference (the_context_manager rt) c) (registry_definitions (rt_tools rt)) d))"
  unfolding log_it_def by (rule keeps_modify, rule R_route R_infer)+

lemma keeps_ask_router [keeps_ops]: "keeps (ask_router rt en started)"
  unfolding ask_router_def by (intro keeps_rules keeps_ops keeps_view_bnd keeps_log_view)

lemma keeps_route_phase [keeps_ops]: "keeps (route_phase rt en started)"
  unfolding route_phase_def
  by (intro keeps_rules keeps_ops) (auto intro!: keeps_rules keeps_ops split: prod.split)

lemma keeps_inference_failed [keeps_ops]: "keeps (inference_failed rt' en i e)"
  unfolding inference_failed_def Let_def by (intro keeps_rules keeps_ops)

lemma keeps_call_inference:
  "keeps (call_inference rt en started model k (get_messages_for_inference (the_context_manager rt) c) i)"
  unfolding call_inference_def by (intro keeps_rules keeps_ops keeps_log_view)

lemma keeps_infer_phase [keeps_ops]: "keeps (infer_phase rt en started model k)"
  unfolding infer_phase_def
  by (intro keeps_rules keeps_ops keeps_view_bnd keeps_call_inference)

lemma keeps_decide:
  assumes "ad_type d \<noteq> DecisionType_TOOL_CALL"
  shows "keeps (decide rt en started resp d)"
  using assms unfolding decide_def Let_def
  by (cases "ad_type d") (simp_all, (intro keeps_rules keeps_ops)+)

end

text \<open>
  An invariant \<open>P\<close> that the relation preserves, and that the handling of a decision preserves
  (\<open>P'\<close> when it raises), is an invariant of the reasoning loop.
\<close>

locale loop_invariant = rt_kept_loop +
  fixes P P' :: "world \<Rightarrow> bool"
  assumes stable: "R s t \<Longrightarrow> P s \<Longrightarrow> P t"
    and tools: "P s \<Longrightarrow> wp (execute_tool_calls rt en started resp d) (\<lambda>_. P) (\<lambda>_. P') s"
    and weaken: "P s \<Longrightarrow> P' s"
begin

lemma kept_wp: "keeps m \<Longrightarrow> P s \<Longrightarrow> wp m (\<lambda>_. P) (\<lambda>_. P') s"
  by (rule wp_after) (use stable weaken in blast)+

lemma decide_wp:
  assumes "P s"
  shows "wp (decide rt en started resp d) (\<lambda>_. P) (\<lambda>_. P') s"
proof (cases "ad_type d = DecisionType_TOOL_CALL")
  case True
  have chk: "wp (seq (check_cancellation en) (ret x)) (\<lambda>_. P) (\<lambda>_. P') t" if "P t" for t and x :: "string option"
    by (intro kept_wp keeps_rules keeps_ops that)
  show ?thesis
    unfolding decide_def True decision_type.case wp_seq [of "check_cancellation en" "seq _ _"]
      wp_seq [of "execute_tool_calls _ _ _ _ _"]
    by (intro wp_mono [OF kept_wp [OF keeps_check_cancellation assms]] wp_mono [OF tools]) (auto intro: chk)
qed (intro kept_wp keeps_decide assms)

lemma turn_wp: "P s \<Longrightarrow> wp (reasoning_turn rt en started model k) (\<lambda>_. P) (\<lambda>_. P') s"
  unfolding reasoning_turn_def wp_bnd
  by (rule wp_mono [OF kept_wp [OF keeps_infer_phase]]) (auto intro: decide_wp split: prod.split)

lemma loop_wp: "P s \<Longrightarrow> wp (reasoning_loop rt en started model ks) (\<lambda>_. P) (\<lambda>_. P') s"
proof (induction ks arbitrary: s)
  case Nil
  then show ?case by (simp add: wp_throw weaken)
next
  case (Cons k ks)
  show ?case
    unfolding reasoning_loop.simps wp_bnd
    by (rule wp_mono [OF turn_wp [OF Cons.prems]]) (auto intro: Cons.IH simp: wp_ret split: option.split)
qed

lemma execute_wp:
  assumes "\<And>n. P (s\<lparr>w_tick := n, w_repeated := [], w_counts := []\<rparr>)" "\<And>n. P' (s\<lparr>w_tick := n\<rparr>)"
  shows "wp (execute rt en rq) (\<lambda>_. P) (\<lambda>_. P') s"
proof -
  have route: "wp (bnd (route_phase rt en started) (\<lambda>model.
      reasoning_loop rt en started model [1..max_steps (rt_limits rt)])) (\<lambda>_. P) (\<lambda>_. P') t"
    if "P t" for started t
    unfolding wp_bnd by (rule wp_mono [OF kept_wp [OF keeps_route_phase that]]) (auto intro: loop_wp)
  have "wp (seq (plan_phase en rq) (bnd (route_phase rt en started) (\<lambda>model.
      reasoning_loop rt en started model [1..max_steps (rt_limits rt)]))) (\<lambda>_. P) (\<lambda>_. P') t"
    if "P t" for started t
    unfolding wp_seq by (rule wp_mono [OF kept_wp [OF keeps_plan_phase that]]) (auto intro: route)
  then show ?thesis
    using assms by (simp add: execute_def monotonic_def wp)
qed

end

text \<open>A run adds the database, the result, the end of the execution and the end of the stream.\<close>

definition exec_ends :: "execution \<Rightarrow> execution \<Rightarrow> bool" where
  "exec_ends e e' \<longleftrightarrow> (\<exists>clk st. transition_to clk st e = Inr e') \<or> (\<exists>clk m ty. mark_failed clk m ty e = Inr e')"

lemma exec_ends_id: "exec_ends e e' \<Longrightarrow> ex_id e' = ex_id e"
  by (auto simp: exec_ends_def transition_to_Inr mark_failed_def split: if_splits)

locale rt_kept_run = rt_kept_note +
  assumes R_persist: "e \<in> {LogCreate (w_exec s), LogUpdate (w_exec s)}
       \<Longrightarrow> R s (s\<lparr>w_log := w_log s @ [e]\<rparr>)"
    and R_result: "R s (s\<lparr>w_result := r\<rparr>)"
    and R_streams: "R s (s\<lparr>w_stream := x, w_stream_ref := b\<rparr>)"
    and R_active: "R s (s\<lparr>w_active := False\<rparr>)"
    and R_ends: "exec_ends (w_exec s) e' \<Longrightarrow> R s (s\<lparr>w_exec := e'\<rparr>)"
begin

lemma keeps_ends [keeps_ops]:
  "keeps (go_to en State_COMPLETED)" "keeps (go_to en State_CANCELLED)"
  "keeps (exec_do en (\<lambda>clk. mark_failed clk m ty))"
  unfolding go_to_def by (rule keeps_exec_do, rule R_ends, unfold exec_ends_def, blast)+

lemma keeps_publish_any: "keeps (publish_event ty d)"
proof -
  have "R s (s\<lparr>w_stream := x\<rparr>)" for s x
    using R_streams [where s = s and x = x and b = "w_stream_ref s"] by simp
  then show ?thesis
    unfolding publish_event_def by (intro keeps_modify) (auto simp: R_refl split: sum.split)
qed

lemma keeps_persist_log:
  assumes "\<And>e. L e \<in> {LogCreate e, LogUpdate e}"
  shows "keeps (bnd (gets w_exec) (\<lambda>e. log_it (L e)))"
  using assms by (intro keepsI) (auto simp: bnd_def gets_def log_it_def modify_def intro!: R_persist)

lemma keeps_persist [keeps_ops]:
  "keeps (persist_execution rt' en)" "keeps (create_persistent_execution rt' en)"
  unfolding persist_execution_def create_persistent_execution_def
  by (intro keeps_rules keeps_ops keeps_persist_log; simp)+

lemma keeps_retain_result [keeps_ops]: "keeps (retain_result out)"
  unfolding retain_result_def by (rule keeps_modify) (rule R_result)

lemma keeps_respond [keeps_ops]: "keeps (respond out)" "keeps execution_over"
  unfolding respond_def execution_over_def by (rule keeps_gets)+

lemma keeps_run_failed [keeps_ops]: "keeps (run_failed rt' en e)"
  unfolding run_failed_def cancelled_run_def cancelled_task_def failed_run_def
  by (intro keeps_rules keeps_ops keeps_publish_any)

lemma keeps_close_run [keeps_ops]: "keeps close_run"
  unfolding close_run_def by (intro keeps_rules keeps_modify R_streams R_active)

text \<open>What \<open>execute\<close> preserves, the run preserves.\<close>

lemma run_execution_wp:
  assumes stable: "\<And>s t. R s t \<Longrightarrow> P s \<Longrightarrow> P t"
    and stable': "\<And>s t. R s t \<Longrightarrow> P' s \<Longrightarrow> P' t"
    and weaken: "\<And>s. P s \<Longrightarrow> P' s"
    and ex: "\<And>s. P s \<Longrightarrow> wp (execute rt en rq) (\<lambda>_. P') (\<lambda>_. P') s"
    and "P s"
  shows "wp (run_execution rt en rq) (\<lambda>_. P') (\<lambda>_. P') s"
proof -
  have pre: "wp m (\<lambda>_. P) (\<lambda>_. P') t" if "keeps m" "P t" for m :: "unit rt" and t
    by (rule wp_after [OF that(1)]) (use that(2) stable weaken in blast)+
  have post: "wp m (\<lambda>_. P') (\<lambda>_. P') t" if "keeps m" "P' t" for m :: "'x rt" and t
    by (rule wp_after [OF that(1)]) (use that(2) stable' in blast)+
  have "keeps (finish_run rt en out)" for out
    unfolding finish_run_def by (intro keeps_rules keeps_ops keeps_publish_any)
  then have fin: "wp (finish_run rt en out) (\<lambda>_. P') (\<lambda>_. P') t" if "P' t" for out t
    using that by (rule post)
  have ex': "wp (bnd (execute rt en rq) (finish_run rt en)) (\<lambda>_. P') (\<lambda>_. P') t" if "P t" for t
    unfolding wp_bnd [of "execute _ _ _"] by (rule wp_mono [OF ex [OF that]]) (auto intro: fin)
  have body: "wp (run_body rt en rq) (\<lambda>_. P') (\<lambda>_. P') t" if "P t" for t
    unfolding run_body_def wp_seq [of "check_cancellation en" "seq (go_to en State_PLANNING) _"]
      wp_seq [of "go_to en State_PLANNING"] wp_seq [of "persist_execution rt en" "bnd (execute rt en rq) _"]
    by (intro wp_mono [OF pre [OF keeps_check_cancellation that]] wp_mono [OF pre [OF keeps_go_tos(1)]]
        wp_mono [OF pre [OF keeps_persist(1)]] ex')
  have fail: "wp (catch (run_body rt en rq) (run_failed rt en)) (\<lambda>_. P') (\<lambda>_. P') t" if "P t" for t
    unfolding wp_catch by (rule wp_mono [OF body [OF that]]) (auto intro: post keeps_run_failed)
  have tail: "wp (ensure (catch (run_body rt en rq) (run_failed rt en)) close_run) (\<lambda>_. P') (\<lambda>_. P') t" if "P t" for t
    unfolding wp_ensure by (rule wp_mono [OF fail [OF that]]) (auto intro: post keeps_close_run)
  show ?thesis
    unfolding run_execution_def wp_seq
    by (intro wp_mono [OF pre [OF keeps_persist(2) \<open>P s\<close>]] wp_mono [OF pre [OF keeps_publish_any]] tail)
qed

end

section \<open>The lifecycle of the execution and of its steps\<close>

definition step_evolves :: "step \<Rightarrow> step \<Rightarrow> bool" where
  "step_evolves s s' \<longleftrightarrow> step_id s' = step_id s \<and> step_number s' = step_number s
     \<and> step_type s' = step_type s \<and> step_input s' = step_input s
     \<and> step_lc.reaches (step_status s) (step_status s') \<and> (step_inv s \<longrightarrow> step_inv s')"

text \<open>The trace is numbered from one, and every step of it is consistent.\<close>

definition trace_inv :: "step list \<Rightarrow> bool" where
  "trace_inv ss \<longleftrightarrow> (\<forall>i < length ss. step_inv (ss ! i) \<and> step_number (ss ! i) = int i + 1)"

definition evolves :: "execution \<Rightarrow> execution \<Rightarrow> bool" where
  "evolves e e' \<longleftrightarrow> ex_id e' = ex_id e \<and> exec_lc.reaches (ex_state e) (ex_state e')
     \<and> (exec_inv e \<longrightarrow> exec_inv e')
     \<and> (execution_is_terminal e \<longrightarrow> exec_outcome e' = exec_outcome e)
     \<and> length (ex_steps e) \<le> length (ex_steps e')
     \<and> (\<forall>i < length (ex_steps e). step_evolves (ex_steps e ! i) (ex_steps e' ! i))
     \<and> (trace_inv (ex_steps e) \<longrightarrow> trace_inv (ex_steps e'))"

lemma step_evolves_refl: "step_evolves s s"
  by (simp add: step_evolves_def)

lemma step_evolves_trans: "step_evolves s t \<Longrightarrow> step_evolves t u \<Longrightarrow> step_evolves s u"
  unfolding step_evolves_def by (auto intro: step_lc.reaches_trans)

lemma evolves_refl: "evolves e e"
  by (simp add: evolves_def step_evolves_refl)

lemma evolves_trans:
  assumes "evolves a b" "evolves b c"
  shows "evolves a c"
proof -
  have out: "exec_outcome c = exec_outcome a" if "execution_is_terminal a"
  proof -
    have "exec_outcome b = exec_outcome a" using assms(1) that by (simp add: evolves_def)
    moreover from this that have "execution_is_terminal b"
      by (simp add: exec_outcome_def execution_is_terminal_def)
    ultimately show ?thesis using assms(2) by (simp add: evolves_def)
  qed
  have steps: "step_evolves (ex_steps a ! i) (ex_steps c ! i)" if "i < length (ex_steps a)" for i
    using assms that step_evolves_trans unfolding evolves_def by (meson less_le_trans)
  have reach: "exec_lc.reaches (ex_state a) (ex_state c)"
    using assms exec_lc.reaches_trans unfolding evolves_def by blast
  have rest: "ex_id c = ex_id a" "exec_inv a \<longrightarrow> exec_inv c" "trace_inv (ex_steps a) \<longrightarrow> trace_inv (ex_steps c)"
    "length (ex_steps a) \<le> length (ex_steps c)"
    using assms unfolding evolves_def by auto
  from out steps reach rest show ?thesis unfolding evolves_def by blast
qed

lemma nth_update: "j < length xs \<Longrightarrow> xs[i := x] ! j = (if i = j then x else xs ! j)"
  by (cases "i < length xs") (auto simp: nth_list_update)

lemma trace_inv_update:
  assumes "step_evolves (ss ! i) s'"
  shows "trace_inv ss \<Longrightarrow> trace_inv (ss[i := s'])"
  using assms by (auto simp: trace_inv_def nth_update step_evolves_def)

lemma trace_inv_snoc:
  assumes "trace_inv ss" "step_inv s" "step_number s = int (length ss) + 1"
  shows "trace_inv (ss @ [s])"
  using assms by (auto simp: trace_inv_def nth_append less_Suc_eq)

text \<open>Each kind of move evolves the execution.\<close>

lemma evolves_step:
  assumes "step_evolves (ex_steps e ! i) s'"
  shows "evolves e (e\<lparr>ex_steps := (ex_steps e)[i := s']\<rparr>)"
  using assms trace_inv_update [OF assms]
  by (auto simp: evolves_def exec_outcome_def step_evolves_refl nth_update)

lemma evolves_append:
  assumes "step_inv s" "step_number s = int (length (ex_steps e)) + 1"
  shows "evolves e (add_step s e)"
  using assms trace_inv_snoc [OF _ assms]
  by (auto simp: evolves_def exec_outcome_def add_step_def step_evolves_refl nth_append)

lemma step_op_evolves: "apply_step_op op s = Inr s' \<Longrightarrow> step_evolves s s'"
  using apply_step_op_moves [of op s s'] apply_step_op_frame [of op s s'] apply_step_op_inv [of s op s']
  by (auto simp: step_evolves_def intro: step_lc.reaches_step)

lemma step_output_evolves: "step_evolves s (s\<lparr>step_output := v\<rparr>)"
  by (simp add: step_evolves_def step_inv_def step_is_terminal_def step_is_failed_def)

lemma new_step_shape: "new_step sid n ty inp = Inr s \<Longrightarrow> step_inv s \<and> step_number s = n"
  using new_step_inv by (auto simp: new_step_def split: if_splits)

lemma exec_op_frame:
  assumes "apply_exec_op op e = Inr e'" "\<forall>s. op \<noteq> ExecOp_add_step s"
  shows "ex_id e' = ex_id e \<and> ex_steps e' = ex_steps e"
proof (cases op)
  case (ExecOp_complete clk)
  with assms show ?thesis
    by (cases "ex_state e = State_PLANNING")
       (auto simp: mark_completed_PLANNING mark_completed_other transition_to_Inr split: if_splits)
qed (use assms in \<open>auto simp: transition_to_Inr mark_started_def touch_def mark_started_at_def
      mark_failed_def mark_cancelled_def split: if_splits\<close>)

lemma exec_op_evolves:
  assumes "apply_exec_op op e = Inr e'" "\<forall>s. op \<noteq> ExecOp_add_step s"
  shows "evolves e e'"
proof -
  have "exec_after op e = e'" using assms(1) by (simp add: exec_after_def)
  then have "execution_is_terminal e \<Longrightarrow> exec_outcome e' = exec_outcome e"
    using terminal_absorbs [of e op] by simp
  moreover have "exec_lc.reaches (ex_state e) (ex_state e')"
    using apply_exec_op_path [OF assms(1)] exec_lc.reaches_trace [of "ex_state e" "exec_path op e"] by simp
  ultimately show ?thesis
    using exec_op_frame [OF assms] apply_exec_op_inv [OF _ assms(1)]
    by (auto simp: evolves_def step_evolves_refl)
qed

lemma started_evolves: "new_step sid n ty inp = Inr s \<Longrightarrow> step_mark_started t s = Inr s' \<Longrightarrow> step_inv s' \<and> step_number s' = n"
  using step_op_evolves [of "StepOp_start t" s s'] new_step_shape [of sid n ty inp s]
  by (auto simp: step_evolves_def)

lemma transition_evolves: "transition_to clk st e = Inr e' \<Longrightarrow> evolves e e'"
  using exec_op_evolves [of "ExecOp_transition clk st" e e'] by simp

lemma exec_ends_evolves: "exec_ends e e' \<Longrightarrow> evolves e e'"
  using exec_op_evolves [of "ExecOp_fail clk m ty" e e' for clk m ty]
  by (auto simp: exec_ends_def transition_evolves)

lemma exec_moves_evolves: "exec_moves e e' \<Longrightarrow> evolves e e'"
  unfolding exec_moves_def
  by (auto intro: transition_evolves evolves_step step_op_evolves step_output_evolves)
     (auto intro!: evolves_append dest: new_step_shape started_evolves)

definition life :: "world \<Rightarrow> world \<Rightarrow> bool" where
  "life s t \<longleftrightarrow> evolves (w_exec s) (w_exec t)"

interpretation life_tools: rt_kept_tools life
  by unfold_locales (auto simp: life_def evolves_refl intro: evolves_trans exec_moves_evolves)

interpretation life: rt_kept_run life
  by unfold_locales (auto simp: life_def evolves_refl exec_ends_evolves)

interpretation life_loop: rt_kept_loop life rt for rt
  by unfold_locales (auto simp: life_def evolves_refl)

interpretation life_inv: loop_invariant life rt "life s" "life s" for rt s
  by unfold_locales
     (blast intro: life_tools.R_trans life_tools.wp_after [OF life_tools.keeps_execute_tool_calls])+

lemma run_evolves: "wp (run_execution rt en rq) (\<lambda>_. life s) (\<lambda>_. life s) s"
proof (rule life.run_execution_wp [where P = "life s"])
  fix t assume "life s t"
  then show "wp (execute rt en rq) (\<lambda>_. life s) (\<lambda>_. life s) t"
    by (intro life_inv.execute_wp) (auto simp: life_def)
qed (auto intro: life_tools.R_trans life_tools.R_refl)

section \<open>The messages sent out fit the budget\<close>

definition view_fits :: "runtime \<Rightarrow> pydict list \<Rightarrow> bool" where
  "view_fits rt ms \<longleftrightarrow> (\<forall>b. rt_context_budget rt = Some b \<longrightarrow> default_counter ms \<le> budget_available b)"

text \<open>The requests to the inference service carry the registered tools too.\<close>

fun sent_ok :: "runtime \<Rightarrow> log_entry \<Rightarrow> bool" where
  "sent_ok rt (LogInfer m ms ts d) = (view_fits rt ms \<and> ts = registry_definitions (rt_tools rt))"
| "sent_ok rt (LogRoute ms) = view_fits rt ms"
| "sent_ok rt _ = True"

definition views_ok :: "runtime \<Rightarrow> log_entry list \<Rightarrow> bool" where
  "views_ok rt l \<longleftrightarrow> list_all (sent_ok rt) l"

lemma inference_view_fits:
  "runtime_ok rt \<Longrightarrow> view_fits rt (get_messages_for_inference (the_context_manager rt) c)"
  unfolding view_fits_def runtime_ok_def
  by (auto intro!: default_tc.inference_messages_fit simp: the_context_manager_def available_input_tokens_def)

definition keeps_views :: "runtime \<Rightarrow> world \<Rightarrow> world \<Rightarrow> bool" where
  "keeps_views rt s t \<longleftrightarrow> (runtime_ok rt \<longrightarrow> views_ok rt (w_log s) \<longrightarrow> views_ok rt (w_log t))"

lemma views_ok_snoc:
  "views_ok rt (l @ [e]) \<longleftrightarrow> views_ok rt l \<and> sent_ok rt e"
  by (simp add: views_ok_def)

interpretation views_tools: rt_kept_tools "keeps_views rt" for rt
  by unfold_locales (auto simp: keeps_views_def views_ok_snoc)

interpretation views: rt_kept_run "keeps_views rt" for rt
  by unfold_locales (auto simp: keeps_views_def views_ok_snoc)

interpretation views_loop: rt_kept_loop "keeps_views rt" rt for rt
  by unfold_locales (auto simp: keeps_views_def views_ok_snoc inference_view_fits)

interpretation views_inv: loop_invariant "keeps_views rt" rt "keeps_views rt s" "keeps_views rt s" for rt s
  by unfold_locales
     (blast intro: views_tools.R_trans views_tools.wp_after [OF views_tools.keeps_execute_tool_calls])+

lemma run_views: "wp (run_execution rt en rq) (\<lambda>_. keeps_views rt s) (\<lambda>_. keeps_views rt s) s"
proof (rule views.run_execution_wp [where P = "keeps_views rt s"])
  fix t assume "keeps_views rt s t"
  then show "wp (execute rt en rq) (\<lambda>_. keeps_views rt s) (\<lambda>_. keeps_views rt s) t"
    by (intro views_inv.execute_wp) (auto simp: keeps_views_def)
qed (auto intro: views_tools.R_trans views_tools.R_refl)

section \<open>Approved calls\<close>

definition keeps_approved :: "runtime \<Rightarrow> world \<Rightarrow> world \<Rightarrow> bool" where
  "keeps_approved rt s t \<longleftrightarrow> (approvals_respected rt s \<longrightarrow> approvals_respected rt t)"

lemma respected_cong:
  assumes "\<And>i n a. LogSandbox i n a \<in> set (w_log t) \<longleftrightarrow> LogSandbox i n a \<in> set (w_log s)"
    "w_approvals t = w_approvals s" "ex_id (w_exec t) = ex_id (w_exec s)"
  shows "approvals_respected rt t = approvals_respected rt s"
  unfolding approvals_respected_def assms ..

lemma respected_op:
  "apply_approval_op op (w_approvals s) = Inr (r, m) \<Longrightarrow> approvals_respected rt s
     \<Longrightarrow> approvals_respected rt (s\<lparr>w_approvals := m\<rparr>)"
  by (erule approvals_respected_grow) (simp add: approvals_grow_def apply_approval_op_grow)

interpretation approved: rt_kept_run "keeps_approved rt" for rt
  by unfold_locales
     (auto simp: keeps_approved_def exec_moves_id exec_ends_id respected_op cong: respected_cong)

interpretation approved_loop: rt_kept_loop "keeps_approved rt" rt for rt
  by unfold_locales (auto simp: keeps_approved_def cong: respected_cong)

interpretation approved_inv: loop_invariant "keeps_approved rt" rt "approvals_respected rt" "approvals_respected rt" for rt
  by unfold_locales (auto simp: keeps_approved_def wp_execute_tool_calls_respects)

lemma run_respects:
  assumes "approvals_respected rt s"
  shows "wp (run_execution rt en rq) (\<lambda>_. approvals_respected rt) (\<lambda>_. approvals_respected rt) s"
proof (rule approved.run_execution_wp [where P = "approvals_respected rt"])
  fix t assume "approvals_respected rt t"
  then show "wp (execute rt en rq) (\<lambda>_. approvals_respected rt) (\<lambda>_. approvals_respected rt) t"
    by (intro approved_inv.execute_wp) (simp_all cong: respected_cong)
qed (use assms in \<open>auto simp: keeps_approved_def\<close>)

section \<open>The number of calls\<close>

text \<open>The limits, read off the log alone.\<close>

definition calls_bounded :: "runtime \<Rightarrow> world \<Rightarrow> bool" where
  "calls_bounded rt w \<longleftrightarrow> sandbox_count (\<lambda>_. True) w \<le> max_tool_calls (rt_limits rt)
     \<and> (\<forall>n m. map_of (per_tool_limits (rt_limits rt)) n = Some m \<longrightarrow> sandbox_count (\<lambda>k. fst k = n) w \<le> m)
     \<and> (\<forall>k. sandbox_count (\<lambda>j. j = k) w \<le> max_repeated_tool_calls (rt_limits rt))"

lemma calls_ok_bounded: "calls_ok rt w \<Longrightarrow> calls_bounded rt w"
  unfolding calls_ok_def calls_pending_def calls_bounded_def by (auto intro: order_trans)

definition calls_same :: "world \<Rightarrow> world \<Rightarrow> bool" where
  "calls_same s t \<longleftrightarrow> (\<forall>P. sandbox_count P t = sandbox_count P s) \<and> w_counts t = w_counts s
     \<and> w_repeated t = w_repeated s \<and> cx_tool_calls (w_ctx t) = cx_tool_calls (w_ctx s)"

interpretation same: rt_kept_run calls_same
  by unfold_locales (auto simp: calls_same_def sandbox_count_def)

interpretation same_loop: rt_kept_loop calls_same rt for rt
  by unfold_locales (auto simp: calls_same_def sandbox_count_def)

lemma calls_same_cong:
  "calls_same s t \<Longrightarrow> calls_ok rt t = calls_ok rt s"
  "calls_same s t \<Longrightarrow> calls_recorded t = calls_recorded s"
  "calls_same s t \<Longrightarrow> calls_bounded rt t = calls_bounded rt s"
  by (simp_all add: calls_same_def calls_ok_def calls_pending_def calls_recorded_def
      tool_call_count_def calls_bounded_def)

interpretation calls_inv: loop_invariant calls_same rt "\<lambda>w. calls_ok rt w \<and> calls_recorded w" "calls_bounded rt" for rt
proof unfold_locales
  fix s en started resp d
  assume "calls_ok rt s \<and> calls_recorded s"
  then show "wp (execute_tool_calls rt en started resp d) (\<lambda>_ w. calls_ok rt w \<and> calls_recorded w)
      (\<lambda>_. calls_bounded rt) s"
    by (intro wp_mono [OF wp_execute_tool_calls [of rt s]]) (auto intro: calls_ok_bounded)
qed (auto simp: calls_same_cong intro: calls_ok_bounded)

definition no_calls :: "world \<Rightarrow> bool" where
  "no_calls w \<longleftrightarrow> (\<forall>P. sandbox_count P w = 0)"

lemma no_calls_same: "calls_same s t \<Longrightarrow> no_calls s \<Longrightarrow> no_calls t"
  by (simp add: calls_same_def no_calls_def)

lemma no_calls_ok:
  assumes "runtime_ok rt" "no_calls s"
  shows "calls_bounded rt s" "calls_ok rt (s\<lparr>w_tick := n, w_repeated := [], w_counts := []\<rparr>)"
    "calls_recorded (s\<lparr>w_tick := n, w_repeated := [], w_counts := []\<rparr>)"
proof -
  have "m \<ge> 0" if "map_of (per_tool_limits (rt_limits rt)) x = Some m" for x m
    using assms(1) map_of_SomeD [OF that] by (fastforce simp: runtime_ok_def limits_ok_def)
  with assms show "calls_bounded rt s" "calls_ok rt (s\<lparr>w_tick := n, w_repeated := [], w_counts := []\<rparr>)"
    "calls_recorded (s\<lparr>w_tick := n, w_repeated := [], w_counts := []\<rparr>)"
    by (auto simp: runtime_ok_def limits_ok_def no_calls_def calls_bounded_def calls_ok_def
        calls_pending_def calls_recorded_def sandbox_count_def count_of_def)
qed

lemma run_calls:
  assumes "runtime_ok rt" "no_calls s"
  shows "wp (run_execution rt en rq) (\<lambda>_. calls_bounded rt) (\<lambda>_. calls_bounded rt) s"
proof (rule same.run_execution_wp [where P = no_calls])
  fix t assume t: "no_calls t"
  have "no_calls (t\<lparr>w_tick := n\<rparr>)" for n using t by (simp add: no_calls_def sandbox_count_def)
  then have "wp (execute rt en rq) (\<lambda>_ w. calls_ok rt w \<and> calls_recorded w) (\<lambda>_. calls_bounded rt) t"
    by (intro calls_inv.execute_wp) (simp_all add: no_calls_ok [OF assms(1)] t)
  then show "wp (execute rt en rq) (\<lambda>_. calls_bounded rt) (\<lambda>_. calls_bounded rt) t"
    by (rule wp_mono) (auto intro: calls_ok_bounded)
qed (simp_all add: assms(2) no_calls_ok(1) [OF assms(1)] calls_same_cong(3) no_calls_same)

section \<open>The number of inferences\<close>

fun is_inference :: "log_entry \<Rightarrow> bool" where
  "is_inference (LogInfer m ms ts d) = True"
| "is_inference _ = False"

definition inferences :: "world \<Rightarrow> nat" where
  "inferences w = length (filter is_inference (w_log w))"

definition infer_same :: "world \<Rightarrow> world \<Rightarrow> bool" where
  "infer_same s t \<longleftrightarrow> inferences t = inferences s"

interpretation infer_tools: rt_kept_tools infer_same
  by unfold_locales (auto simp: infer_same_def inferences_def)

lemma wp_call_inference_count:
  "wp (call_inference rt en started model k ms i)
     (\<lambda>_ t. inferences t \<le> Suc (inferences s)) (\<lambda>_ t. inferences t \<le> Suc (inferences s)) s"
proof -
  let ?le = "\<lambda>t. inferences t \<le> Suc (inferences s)"
  let ?rest = "bnd tick (\<lambda>n.
        bnd (lift_res (en_infer en n)) (\<lambda>response.
        seq (check_cancellation en)
        (seq (set_step_output i response)
        (seq (complete_step en i)
        (seq (publish_event INFERENCE_COMPLETED (step_event_data k model))
             (ret response))))))"
  have stays: "wp m (\<lambda>_. ?le) (\<lambda>_. ?le) t" if "infer_tools.keeps m" "?le t" for m :: "'x rt" and t
    by (rule infer_tools.wp_after [OF that(1)]) (use that(2) in \<open>simp_all add: infer_same_def\<close>)
  have "infer_tools.keeps ?rest"
    by (intro infer_tools.keeps_rules infer_tools.keeps_ops)
  then have log: "wp (seq (log_it (LogInfer model ms ts d)) ?rest) (\<lambda>_. ?le) (\<lambda>_. ?le) t" if "inferences t = inferences s" for t ts d
    unfolding wp_seq [of "log_it _"] wp_log_it using that by (intro stays) (simp_all add: inferences_def)
  have body: "wp (bnd (remaining_time rt en started) (\<lambda>remaining. bnd (monotonic en) (\<lambda>now.
      seq (publish_event INFERENCE_STARTED (step_event_data k model))
        (seq (log_it (LogInfer model ms (registry_definitions (rt_tools rt)) (now + remaining))) ?rest))))
      (\<lambda>_. ?le) (\<lambda>_. ?le) s"
    by (intro infer_tools.bnd_after [OF infer_tools.keeps_remaining_time]
        infer_tools.bnd_after [OF infer_tools.keeps_monotonic]
        infer_tools.seq_after [OF infer_tools.keeps_publish_events(2)] log) (simp_all add: infer_same_def)
  have "infer_tools.keeps (inference_failed rt en i e)" for e
    unfolding inference_failed_def Let_def by (intro infer_tools.keeps_rules infer_tools.keeps_ops)
  then show ?thesis
    unfolding call_inference_def wp_catch by (intro wp_mono [OF body]) (auto intro: stays)
qed


lemma wp_infer_phase_count:
  "wp (infer_phase rt en started model k)
     (\<lambda>_ t. inferences t \<le> Suc (inferences s)) (\<lambda>_ t. inferences t \<le> Suc (inferences s)) s"
proof -
  let ?le = "\<lambda>t. inferences t \<le> Suc (inferences s)"
  let ?rest = "\<lambda>response. seq (check_timeout rt en started)
       (seq (check_cancellation en)
       (bnd (gets (\<lambda>w. plan (rt_loads rt) (rt_planner_tools rt) (w_ctx w) response)) (\<lambda>d.
        bnd (lift_res d) (\<lambda>decision.
        seq (check_cancellation en) (ret (response, decision))))))"
  have "infer_tools.keeps (?rest response)" for response
    by (intro infer_tools.keeps_rules infer_tools.keeps_ops)
  then have rest: "wp (?rest response) (\<lambda>_. ?le) (\<lambda>_. ?le) t" if "?le t" for response t
    by (rule infer_tools.wp_after) (use that in \<open>simp_all add: infer_same_def\<close>)
  have call: "wp (bnd (call_inference rt en started model k ms i) ?rest) (\<lambda>_. ?le) (\<lambda>_. ?le) t"
    if "inferences t = inferences s" for ms i t
    unfolding wp_bnd [of "call_inference _ _ _ _ _ _ _"]
    by (rule wp_mono [OF wp_call_inference_count]) (auto simp: that intro: rest)
  have view: "infer_tools.keeps (inference_view rt)"
    unfolding inference_view_def by (rule infer_tools.keeps_gets)
  show ?thesis
    unfolding infer_phase_def
    by (intro infer_tools.bnd_after [OF infer_tools.keeps_gets] infer_tools.seq_after [OF infer_tools.keeps_check_cancellation]
        infer_tools.seq_after [OF infer_tools.keeps_ctx_do] infer_tools.seq_after [OF infer_tools.keeps_lift_res]
        infer_tools.seq_after [OF infer_tools.keeps_check_timeout] infer_tools.bnd_after [OF view]
        infer_tools.seq_after [OF infer_tools.keeps_guarded [OF infer_tools.keeps_go_tos(2)]]
        infer_tools.bnd_after [OF infer_tools.keeps_start_step] call)
       (simp_all add: infer_same_def)
qed

lemma infer_keeps_decide: "infer_tools.keeps (decide rt en started resp d)"
  unfolding decide_def Let_def
  by (cases "ad_type d") (simp_all, (intro infer_tools.keeps_rules infer_tools.keeps_ops)+)

lemma wp_turn_count:
  "wp (reasoning_turn rt en started model k)
     (\<lambda>_ t. inferences t \<le> Suc (inferences s)) (\<lambda>_ t. inferences t \<le> Suc (inferences s)) s"
  unfolding reasoning_turn_def wp_bnd
  by (rule wp_mono [OF wp_infer_phase_count])
     (auto split: prod.split intro!: infer_tools.wp_after [OF infer_keeps_decide] simp: infer_same_def)

lemma wp_loop_count:
  "wp (reasoning_loop rt en started model ks)
     (\<lambda>_ t. inferences t \<le> inferences s + length ks) (\<lambda>_ t. inferences t \<le> inferences s + length ks) s"
proof (induction ks arbitrary: s)
  case (Cons k ks)
  have "wp (reasoning_loop rt en started model ks) (\<lambda>_ t. inferences t \<le> inferences s + length (k # ks))
     (\<lambda>_ t. inferences t \<le> inferences s + length (k # ks)) t" if "inferences t \<le> Suc (inferences s)" for t
    by (rule wp_mono [OF Cons.IH]) (use that in simp_all)
  then show ?case
    unfolding reasoning_loop.simps wp_bnd
    by (intro wp_mono [OF wp_turn_count]) (auto simp: wp_ret split: option.split)
qed (simp add: wp_throw)

interpretation infer_run: rt_kept_run infer_same
  by unfold_locales (auto simp: infer_same_def inferences_def)

lemma infer_keeps_route: "infer_tools.keeps (route_phase rt en started)"
proof -
  have "infer_tools.keeps (log_it (LogRoute ms))" for ms
    unfolding log_it_def by (rule infer_tools.keeps_modify) (simp add: infer_same_def inferences_def)
  then have "infer_tools.keeps (ask_router rt en started)"
    unfolding ask_router_def route_failed_def inference_view_def
    by (intro infer_tools.keeps_rules infer_tools.keeps_ops)
  then show ?thesis
    unfolding route_phase_def
    by (intro infer_tools.keeps_rules infer_tools.keeps_ops)
       (auto intro!: infer_tools.keeps_rules infer_tools.keeps_ops infer_run.keeps_set_context_metadata
         split: prod.split)
qed

lemma wp_execute_count:
  "wp (execute rt en rq) (\<lambda>_ t. inferences t \<le> inferences s + nat (max_steps (rt_limits rt)))
     (\<lambda>_ t. inferences t \<le> inferences s + nat (max_steps (rt_limits rt))) s"
proof -
  let ?ks = "[1..max_steps (rt_limits rt)]"
  have "wp (reasoning_loop rt en started model ?ks)
      (\<lambda>_ t. inferences t \<le> inferences s + nat (max_steps (rt_limits rt)))
      (\<lambda>_ t. inferences t \<le> inferences s + nat (max_steps (rt_limits rt))) t"
    if "inferences t = inferences s" for started model t
    by (rule wp_mono [OF wp_loop_count]) (simp_all add: that)
  then show ?thesis
    unfolding execute_def
    by (intro infer_tools.bnd_after [OF infer_tools.keeps_monotonic]
        infer_tools.seq_after [OF infer_tools.keeps_modify [OF infer_tools.R_counts]]
        infer_tools.seq_after [OF infer_run.keeps_plan_phase] infer_tools.bnd_after [OF infer_keeps_route])
       (simp_all add: infer_same_def)
qed

lemma run_inferences:
  "wp (run_execution rt en rq) (\<lambda>_ t. inferences t \<le> inferences s + nat (max_steps (rt_limits rt)))
     (\<lambda>_ t. inferences t \<le> inferences s + nat (max_steps (rt_limits rt))) s"
proof (rule infer_run.run_execution_wp [where P = "infer_same s"])
  fix t assume "infer_same s t"
  then show "wp (execute rt en rq) (\<lambda>_ t. inferences t \<le> inferences s + nat (max_steps (rt_limits rt)))
     (\<lambda>_ t. inferences t \<le> inferences s + nat (max_steps (rt_limits rt))) t"
    by (intro wp_mono [OF wp_execute_count]) (simp_all add: infer_same_def)
qed (auto simp: infer_same_def)

end
