(* ===== verification/RtEnd.thy ===== *)
theory RtEnd
  imports RtSafety
begin

text \<open>
  How a run ends: the events it publishes, the terminal state, the retained result and the response
  agree, and whatever happens the stream is closed and the execution is no longer active.
\<close>

section \<open>While a run is under way\<close>

definition ordinary_event :: "agent_event \<Rightarrow> bool" where
  "ordinary_event ev \<longleftrightarrow> (\<forall>ty. terminal_event ty \<longrightarrow> ev_type ev \<noteq> event_type_value ty)"

text \<open>The stream is open, and since \<open>q\<close> it got only events that do not end the run.\<close>

definition open_at :: "stream_item list \<Rightarrow> world \<Rightarrow> bool" where
  "open_at q w \<longleftrightarrow> w_active w \<and> w_stream_ref w \<and> \<not> es_closed (w_stream w) \<and> ex_id (w_exec w) \<noteq> []
     \<and> (\<exists>evs. es_queue (w_stream w) = q @ map Item evs \<and> (\<forall>ev \<in> set evs. ordinary_event ev))"

definition going :: "world \<Rightarrow> bool" where
  "going w \<longleftrightarrow> \<not> state_is_terminal (ex_state (w_exec w)) \<and> w_result w = None"

definition underway :: "world \<Rightarrow> world \<Rightarrow> bool" where
  "underway s t \<longleftrightarrow> (\<forall>q. open_at q s \<longrightarrow> open_at q t) \<and> (going s \<longrightarrow> going t)"

lemma open_at_cong:
  assumes "w_active t = w_active s" "w_stream_ref t = w_stream_ref s" "w_stream t = w_stream s"
    "ex_id (w_exec t) = ex_id (w_exec s)"
  shows "open_at q t = open_at q s"
  unfolding open_at_def assms ..

lemma open_at_publish:
  assumes "open_at q s" "\<not> terminal_event ty" "ev_type ev = event_type_value ty"
    "stream_publish ev (w_stream s) = Inr x"
  shows "open_at q (s\<lparr>w_stream := x\<rparr>)"
proof -
  obtain evs where evs: "es_queue (w_stream s) = q @ map Item evs" "\<forall>ev \<in> set evs. ordinary_event ev"
    using assms(1) unfolding open_at_def by blast
  have "ordinary_event ev" using assms(2,3) unfolding ordinary_event_def by auto
  then show ?thesis
    using assms evs unfolding open_at_def
    by (auto simp: stream_publish_def intro!: exI [of _ "evs @ [ev]"] split: if_splits)
qed

lemma exec_moves_going: "exec_moves e e' \<Longrightarrow> \<not> state_is_terminal (ex_state e) \<Longrightarrow> \<not> state_is_terminal (ex_state e')"
  unfolding exec_moves_def by (auto simp: transition_to_Inr add_step_def simp del: state_is_terminal.simps)

interpretation under: rt_kept_tools underway
proof unfold_locales
  fix s :: world and e
  assume "exec_moves (w_exec s) e"
  then show "underway s (s\<lparr>w_exec := e\<rparr>)"
    using exec_moves_id [of "w_exec s" e] exec_moves_going [of "w_exec s" e]
    by (auto simp: underway_def going_def simp del: state_is_terminal.simps cong: open_at_cong)
next
  fix s :: world and ty ev x
  assume "\<not> terminal_event ty" "ev_type ev = event_type_value ty" "stream_publish ev (w_stream s) = Inr x"
  then show "underway s (s\<lparr>w_stream := x\<rparr>)"
    using open_at_publish [of _ s ty ev x] by (auto simp: underway_def going_def)
qed (auto simp: underway_def going_def cong: open_at_cong)

interpretation under_loop: rt_kept_loop underway rt for rt
  by unfold_locales (auto simp: underway_def going_def cong: open_at_cong)

interpretation under_inv: loop_invariant underway rt "underway s" "underway s" for rt s
  by unfold_locales
     (blast intro: under.R_trans under.wp_after [OF under.keeps_execute_tool_calls])+

lemma under_execute: "wp (execute rt en rq) (\<lambda>_. underway s) (\<lambda>_. underway s) s"
  by (rule under_inv.execute_wp) (auto simp: underway_def going_def cong: open_at_cong)

lemma under_persist:
  "under.keeps (persist_execution rt en)" "under.keeps (create_persistent_execution rt en)"
proof -
  have log: "under.keeps (log_it e)" for e
    unfolding log_it_def by (rule under.keeps_modify) (auto simp: underway_def going_def cong: open_at_cong)
  show "under.keeps (persist_execution rt en)" "under.keeps (create_persistent_execution rt en)"
    unfolding persist_execution_def create_persistent_execution_def
    by (intro under.keeps_rules under.keeps_ops log)+
qed

section \<open>The end of a run\<close>

text \<open>The last event is published: the state is terminal, and result and response are taken from it.\<close>

definition ended_at :: "stream_item list \<Rightarrow> agent_event_type \<Rightarrow> pyval \<Rightarrow> agent_response \<Rightarrow> world \<Rightarrow> bool" where
  "ended_at q ty out resp w \<longleftrightarrow> w_active w \<and> w_stream_ref w \<and> \<not> es_closed (w_stream w)
     \<and> (\<exists>evs ev. es_queue (w_stream w) = q @ map Item evs @ [Item ev] \<and> (\<forall>ev \<in> set evs. ordinary_event ev)
          \<and> ev_type ev = event_type_value ty \<and> ev_execution_id ev = ex_id (w_exec w))
     \<and> state_is_terminal (ex_state (w_exec w))
     \<and> w_result w = Some (from_execution out (w_exec w))
     \<and> resp = to_agent_response (from_execution out (w_exec w)) (w_ctx w)"

text \<open>Otherwise the stream is at least still there to be closed.\<close>

definition still_open :: "world \<Rightarrow> bool" where
  "still_open w \<longleftrightarrow> w_active w \<and> w_stream_ref w \<and> \<not> es_closed (w_stream w)"

lemma open_at_still: "open_at q w \<Longrightarrow> still_open w"
  by (simp add: open_at_def still_open_def)

lemma wp_publish_last:
  assumes "open_at q w" "state_is_terminal (ex_state (w_exec w))" "terminal_event ty"
  shows "wp (seq (publish_event ty d) (seq (retain_result out) (respond out)))
     (\<lambda>resp. ended_at q ty out resp) E w"
proof -
  let ?ev = "\<lparr>ev_type = event_type_value ty, ev_execution_id = ex_id (w_exec w), ev_data = d\<rparr>"
  have "publish_event ty d w = (Inr (), w\<lparr>w_stream := (w_stream w)\<lparr>es_queue := es_queue (w_stream w) @ [Item ?ev]\<rparr>\<rparr>)"
    using assms(1) by (simp add: publish_event_def modify_def open_at_def new_event_def stream_publish_def)
  then show ?thesis
    using assms by (auto simp: wp_def seq_def bnd_def retain_result_def respond_def modify_def gets_def
        ended_at_def open_at_def simp del: state_is_terminal.simps)
qed

text \<open>The completed run publishes after it has retained the result.\<close>

lemma wp_publish_completed:
  assumes "open_at q w" "state_is_terminal (ex_state (w_exec w))" "terminal_event ty"
    "w_result w = Some (from_execution out (w_exec w))"
  shows "wp (seq (publish_event ty d) (respond out)) (\<lambda>resp. ended_at q ty out resp) E w"
proof -
  let ?ev = "\<lparr>ev_type = event_type_value ty, ev_execution_id = ex_id (w_exec w), ev_data = d\<rparr>"
  have "publish_event ty d w = (Inr (), w\<lparr>w_stream := (w_stream w)\<lparr>es_queue := es_queue (w_stream w) @ [Item ?ev]\<rparr>\<rparr>)"
    using assms(1) by (simp add: publish_event_def modify_def open_at_def new_event_def stream_publish_def)
  then show ?thesis
    using assms by (auto simp: wp_def seq_def bnd_def respond_def modify_def gets_def
        ended_at_def open_at_def simp del: state_is_terminal.simps)
qed

text \<open>A transition, tried on the execution.\<close>

lemma wp_go_to:
  "wp (go_to en st) Q E w =
     (let w' = w\<lparr>w_tick := Suc (w_tick w)\<rparr> in
      case transition_to (en_utc en (w_tick w)) st (w_exec w) of
        Inl e \<Rightarrow> E e w' | Inr e' \<Rightarrow> Q () (w'\<lparr>w_exec := e'\<rparr>))"
  by (simp add: go_to_def exec_do_def wp Let_def split: sum.split)

lemma wp_go_to_open:
  assumes "open_at q w"
  shows "wp (go_to en st) (\<lambda>_ t. open_at q t \<and> ex_state (w_exec t) = st) (\<lambda>_ t. open_at q t) w"
proof -
  have "ex_id e' = ex_id (w_exec w)" "ex_state e' = st"
    if "transition_to clk st (w_exec w) = Inr e'" for clk e'
    using that by (auto simp: transition_to_Inr)
  then show ?thesis
    using assms by (auto simp: wp_go_to Let_def cong: open_at_cong split: sum.split)
qed

lemma wp_persist_open:
  assumes "open_at q w" "ex_state (w_exec w) = st"
  shows "wp (persist_execution rt en) (\<lambda>_ t. open_at q t \<and> ex_state (w_exec t) = st \<and> w_exec t = w_exec w)
     (\<lambda>e t. open_at q t \<and> ex_state (w_exec t) = st \<and> (\<exists>k. en_persist en k = Inl e)) w"
  using assms by (auto simp: persist_execution_def wp cong: open_at_cong)

lemma wp_check_open:
  assumes "open_at q w" "going w"
  shows "wp (check_cancellation en) (\<lambda>_ t. open_at q t \<and> going t) (\<lambda>_ t. open_at q t \<and> going t) w"
  using assms by (auto simp: wp_check_cancellation Let_def going_def cong: open_at_cong)

text \<open>
  An exception ends the body while the run is under way, or it is the one raised by saving the
  completed execution (\<open>runtime.py:647\<close>).
\<close>

definition cut_short :: "stream_item list \<Rightarrow> env \<Rightarrow> exc \<Rightarrow> world \<Rightarrow> bool" where
  "cut_short q en e w \<longleftrightarrow> open_at q w
     \<and> (going w \<or> ex_state (w_exec w) = State_COMPLETED \<and> (\<exists>k. en_persist en k = Inl e))"

lemma wp_go_to_cut:
  assumes "open_at q w" "going w"
  shows "wp (go_to en st) (\<lambda>_ t. open_at q t \<and> ex_state (w_exec t) = st) (cut_short q en) w"
proof -
  have "wp (go_to en st) (\<lambda>_ _. True) (\<lambda>_. going) w"
    using assms(2) by (auto simp: wp_go_to Let_def going_def split: sum.split)
  from wp_conj [OF wp_go_to_open [OF assms(1)] this] show ?thesis
    by (rule wp_mono) (auto simp: cut_short_def)
qed

definition completed_run :: "stream_item list \<Rightarrow> agent_response \<Rightarrow> world \<Rightarrow> bool" where
  "completed_run q resp w \<longleftrightarrow> ex_state (w_exec w) = State_COMPLETED
     \<and> (\<exists>out. ended_at q EXECUTION_COMPLETED (PStr out) resp w)"

lemma wp_finish_run:
  assumes "open_at q w" "going w"
  shows "wp (finish_run rt en out) (completed_run q) (cut_short q en) w"
proof -
  let ?pub = "bnd (gets (\<lambda>w. int (length (ex_steps (w_exec w))))) (\<lambda>n.
       seq (publish_event EXECUTION_COMPLETED [(''status'', PStr ''success''), (''steps'', PInt n)])
           (respond (PStr out)))"
  have pub: "wp (seq (retain_result (PStr out)) ?pub) (completed_run q) (cut_short q en) t"
    if "open_at q t" "ex_state (w_exec t) = State_COMPLETED" for t
  proof -
    let ?t = "t\<lparr>w_result := Some (from_execution (PStr out) (w_exec t))\<rparr>"
    have a: "wp (seq (publish_event EXECUTION_COMPLETED d) (respond (PStr out)))
        (\<lambda>resp. ended_at q EXECUTION_COMPLETED (PStr out) resp) (cut_short q en) ?t" for d
      using that by (intro wp_publish_completed) (auto cong: open_at_cong)
    have b: "wp (seq (publish_event EXECUTION_COMPLETED d) (respond (PStr out)))
        (\<lambda>_ u. w_exec u = w_exec ?t) (cut_short q en) ?t" for d
      by (simp add: publish_event_def respond_def wp split: sum.split)
    have "wp (seq (publish_event EXECUTION_COMPLETED d) (respond (PStr out))) (completed_run q) (cut_short q en) ?t" for d
      by (rule wp_mono [OF wp_conj [OF a b]]) (use that(2) in \<open>auto simp: completed_run_def\<close>)
    then show ?thesis
      unfolding wp_seq [of "retain_result _"] unfolding retain_result_def wp_modify wp_bnd [of "gets _"] wp_gets
      by simp
  qed
  show ?thesis
    unfolding finish_run_def wp_seq [of "check_cancellation en"] wp_seq [of "go_to _ _"]
      wp_seq [of "persist_execution _ _"]
    by (intro wp_mono [OF wp_check_open [OF assms]] wp_mono [OF wp_go_to_cut]
        wp_mono [OF wp_persist_open [OF _ refl]])
       (auto intro: pub simp: cut_short_def)
qed

lemma wp_run_body:
  assumes "open_at q w" "going w"
  shows "wp (run_body rt en rq) (completed_run q) (cut_short q en) w"
proof -
  let ?P = "\<lambda>t. open_at q t \<and> going t"
  have under: "wp m (\<lambda>_. ?P) (cut_short q en) t" if "under.keeps m" "?P t" for m :: "unit rt" and t
    by (rule under.wp_after [OF that(1)]) (use that(2) in \<open>auto simp: underway_def cut_short_def\<close>)
  have ex: "wp (bnd (execute rt en rq) (finish_run rt en)) (completed_run q) (cut_short q en) t" if "?P t" for t
    unfolding wp_bnd
    by (rule wp_mono [OF under_execute]) (use that in \<open>auto simp: underway_def cut_short_def intro: wp_finish_run\<close>)
  show ?thesis
    unfolding run_body_def wp_seq
    by (intro wp_mono [OF under [OF under.keeps_check_cancellation]] wp_mono [OF under [OF under.keeps_go_tos(1)]]
        wp_mono [OF under [OF under_persist(1)]] ex) (use assms in auto)
qed

text \<open>The handlers.  Only the one for failures raises again.\<close>

lemma wp_over: "wp execution_over Q E w = Q (state_is_terminal (ex_state (w_exec w))) w"
  by (simp add: execution_over_def wp_gets)

lemma wp_add_error:
  "m \<noteq> [] \<Longrightarrow> wp (ctx_do (add_error m)) Q E w = Q () (w\<lparr>w_ctx := (w_ctx w)\<lparr>cx_errors := cx_errors (w_ctx w) @ [m]\<rparr>\<rparr>)"
  by (simp add: ctx_do_def wp add_error_def)

text \<open>
  A cancelled run: the event goes with the state \<open>CANCELLED\<close>, unless the cancellation came while the
  completed execution was being saved.
\<close>

definition save_cancelled :: "env \<Rightarrow> bool" where
  "save_cancelled en \<longleftrightarrow> (\<exists>k x. en_persist en k = Inl x
     \<and> (isinstance_exc x ExecutionCancelled \<or> isinstance_exc x CancelledError))"

definition cancelled_at :: "stream_item list \<Rightarrow> env \<Rightarrow> agent_response \<Rightarrow> world \<Rightarrow> bool" where
  "cancelled_at q en resp w \<longleftrightarrow> ended_at q EXECUTION_CANCELLED PNone resp w
     \<and> (ex_state (w_exec w) = State_CANCELLED \<or> ex_state (w_exec w) = State_COMPLETED \<and> save_cancelled en)"

lemma wp_publish_cancelled:
  assumes "open_at q w" "ex_state (w_exec w) = State_CANCELLED \<or> ex_state (w_exec w) = State_COMPLETED \<and> save_cancelled en"
  shows "wp (seq (publish_event EXECUTION_CANCELLED d) (seq (retain_result PNone) (respond PNone)))
     (cancelled_at q en) E w"
proof -
  let ?pub = "seq (publish_event EXECUTION_CANCELLED d) (seq (retain_result PNone) (respond PNone))"
  have "wp ?pub (ended_at q EXECUTION_CANCELLED PNone) E w"
    using assms by (intro wp_publish_last) auto
  moreover have "wp ?pub (\<lambda>_ t. w_exec t = w_exec w) (\<lambda>_ _. True) w"
    by (simp add: publish_event_def retain_result_def respond_def wp split: sum.split)
  ultimately show ?thesis
    by (rule wp_mono [OF wp_conj]) (use assms(2) in \<open>auto simp: cancelled_at_def\<close>)
qed

lemma wp_end_cancelled:
  assumes "open_at q w" "going w \<or> ex_state (w_exec w) = State_COMPLETED \<and> save_cancelled en"
    "\<And>t. open_at q t \<Longrightarrow> ex_state (w_exec t) = State_CANCELLED \<Longrightarrow>
       wp p (\<lambda>_ u. open_at q u \<and> ex_state (w_exec u) = State_CANCELLED) (\<lambda>_. still_open) t"
  shows "wp (bnd execution_over (\<lambda>over. seq (guarded (\<not> over) (seq (go_to en State_CANCELLED) p))
      (seq (publish_event EXECUTION_CANCELLED d) (seq (retain_result PNone) (respond PNone)))))
     (cancelled_at q en) (\<lambda>_. still_open) w"
proof -
  have go: "wp (seq (go_to en State_CANCELLED) p)
      (\<lambda>_ u. open_at q u \<and> ex_state (w_exec u) = State_CANCELLED) (\<lambda>_. still_open) w"
    unfolding wp_seq by (rule wp_mono [OF wp_go_to_open [OF assms(1)]]) (auto intro: assms(3) open_at_still)
  show ?thesis
    unfolding wp_bnd wp_over wp_seq [of "guarded _ _"] wp_guarded
    by (cases "state_is_terminal (ex_state (w_exec w))")
       (use assms(1,2) in \<open>auto simp: going_def simp del: state_is_terminal.simps
          intro: wp_publish_cancelled wp_mono [OF go]\<close>)
qed

lemma wp_cancelled_run:
  assumes "open_at q w" "going w \<or> ex_state (w_exec w) = State_COMPLETED \<and> save_cancelled en" "exc_msg e \<noteq> []"
  shows "wp (cancelled_run rt en e) (cancelled_at q en) (\<lambda>_. still_open) w"
  unfolding cancelled_run_def wp_seq [of "ctx_do _"] wp_add_error [OF assms(3)]
proof (rule wp_end_cancelled)
  fix t assume "open_at q t" "ex_state (w_exec t) = State_CANCELLED"
  from wp_persist_open [OF this]
  show "wp (persist_execution rt en) (\<lambda>_ u. open_at q u \<and> ex_state (w_exec u) = State_CANCELLED) (\<lambda>_. still_open) t"
    by (rule wp_mono) (auto intro: open_at_still)
qed (use assms(1,2) in \<open>auto simp: going_def cong: open_at_cong\<close>)

lemma wp_cancelled_task:
  assumes "open_at q w" "going w \<or> ex_state (w_exec w) = State_COMPLETED \<and> save_cancelled en"
  shows "wp (cancelled_task en) (cancelled_at q en) (\<lambda>_. still_open) w"
proof -
  have *: "seq (go_to en State_CANCELLED) (ret ()) = go_to en State_CANCELLED"
    by (rule ext) (auto simp: seq_def bnd_def ret_def split: prod.split sum.split)
  show ?thesis
    unfolding cancelled_task_def wp_seq [of cancel_token]
    unfolding cancel_token_def wp_modify wp_seq [of "ctx_do _"]
    by (subst wp_add_error, simp, subst * [symmetric], rule wp_end_cancelled)
       (use assms in \<open>auto simp: wp_ret going_def cong: open_at_cong\<close>)
qed

text \<open>The failure handler always raises, and leaves the stream to be closed.\<close>

definition keeps_open :: "world \<Rightarrow> world \<Rightarrow> bool" where
  "keeps_open s t \<longleftrightarrow> (still_open s \<longrightarrow> still_open t)"

interpretation sop: rt_kept_note keeps_open
  by unfold_locales (auto simp: keeps_open_def still_open_def stream_publish_def split: if_splits)

lemma sop_ops:
  "sop.keeps (publish_event ty d)" "sop.keeps (persist_execution rt en)" "sop.keeps (exec_do en f)"
  "sop.keeps (retain_result out)" "sop.keeps execution_over" "sop.keeps (create_persistent_execution rt en)"
proof -
  show "sop.keeps (publish_event ty d)"
    unfolding publish_event_def
    by (rule sop.keeps_modify)
       (auto simp: keeps_open_def still_open_def new_event_def stream_publish_def split: sum.split if_splits)
  have log: "sop.keeps (log_it e)" for e
    unfolding log_it_def by (rule sop.keeps_modify) (simp add: keeps_open_def still_open_def)
  show "sop.keeps (persist_execution rt en)" "sop.keeps (create_persistent_execution rt en)"
    unfolding persist_execution_def create_persistent_execution_def
    by (intro sop.keeps_rules sop.keeps_ops log)+
  show "sop.keeps (exec_do en f)" by (rule sop.keeps_exec_do) (simp add: keeps_open_def still_open_def)
  show "sop.keeps (retain_result out)"
    unfolding retain_result_def by (rule sop.keeps_modify) (simp add: keeps_open_def still_open_def)
  show "sop.keeps execution_over" unfolding execution_over_def by (rule sop.keeps_gets)
qed

lemma wp_failed_run:
  assumes "still_open w"
  shows "wp (failed_run rt en e) (\<lambda>_ _. False) (\<lambda>_. still_open) w"
proof -
  have "sop.keeps (failed_run rt en e)"
    unfolding failed_run_def by (intro sop.keeps_rules sop.keeps_ops sop_ops)
  from sop.keeps_wp [OF this, of w] have "wp (failed_run rt en e) (\<lambda>_. still_open) (\<lambda>_. still_open) w"
    by (rule wp_mono) (use assms in \<open>auto simp: keeps_open_def\<close>)
  moreover have "wp (failed_run rt en e) (\<lambda>_ _. False) (\<lambda>_ _. True) w"
    unfolding failed_run_def wp_bnd wp_seq wp_throw
    by (simp add: wp_over wp_def [of "guarded _ _"] split: prod.split sum.split)
  ultimately show ?thesis by (rule wp_mono [OF wp_conj]) simp_all
qed

lemma wp_run_failed:
  assumes "cut_short q en e w"
  shows "wp (run_failed rt en e) (cancelled_at q en) (\<lambda>_. still_open) w"
proof -
  have op: "open_at q w" using assms by (simp add: cut_short_def)
  have late: "going w \<or> ex_state (w_exec w) = State_COMPLETED \<and> save_cancelled en"
    if "isinstance_exc e ExecutionCancelled \<or> isinstance_exc e CancelledError"
    using assms that by (auto simp: cut_short_def save_cancelled_def)
  have "wp (failed_run rt en e) (cancelled_at q en) (\<lambda>_. still_open) w"
    by (rule wp_mono [OF wp_failed_run [OF open_at_still [OF op]]]) auto
  moreover have "wp (cancelled_run rt en e) (cancelled_at q en) (\<lambda>_. still_open) w"
    if "isinstance_exc e ExecutionCancelled"
  proof (cases "exc_msg e = []")
    case True
    then show ?thesis using open_at_still [OF op]
      by (simp add: cancelled_run_def ctx_do_def add_error_def wp)
  qed (use op late that in \<open>auto intro: wp_cancelled_run\<close>)
  ultimately show ?thesis
    using op open_at_still [OF op] late
    by (auto simp: run_failed_def wp_throw intro: wp_cancelled_task)
qed

section \<open>The whole run\<close>

definition run_closed :: "world \<Rightarrow> bool" where
  "run_closed w \<longleftrightarrow> \<not> w_active w \<and> \<not> w_stream_ref w \<and> es_closed (w_stream w)"

text \<open>
  A run that returned: the stream goes from the start event over ordinary events to one terminal
  event and the end; the event and the state say the same, but for a cancellation that came while the
  completed execution was being saved, and the response and the retained result are the snapshot of
  the execution.
\<close>

definition run_returned :: "env \<Rightarrow> run_request \<Rightarrow> agent_response \<Rightarrow> world \<Rightarrow> bool" where
  "run_returned en rq resp w \<longleftrightarrow> run_closed w
     \<and> (\<exists>evs ev out. es_queue (w_stream w) =
          [Item \<lparr>ev_type = ''execution_started'', ev_execution_id = ex_id (w_exec w),
                 ev_data = [(''session_id'', PStr (rq_session rq))]\<rparr>] @ map Item evs @ [Item ev, CLOSED]
        \<and> (\<forall>x \<in> set evs. ordinary_event x) \<and> ev_execution_id ev = ex_id (w_exec w)
        \<and> (ev_type ev = ''execution_completed'' \<and> ex_state (w_exec w) = State_COMPLETED \<and> out \<noteq> PNone
           \<or> ev_type ev = ''execution_cancelled'' \<and> ex_state (w_exec w) = State_CANCELLED \<and> out = PNone
           \<or> ev_type ev = ''execution_cancelled'' \<and> ex_state (w_exec w) = State_COMPLETED \<and> out = PNone
               \<and> save_cancelled en)
        \<and> w_result w = Some (from_execution out (w_exec w))
        \<and> resp = to_agent_response (from_execution out (w_exec w)) (w_ctx w))"

definition fresh_run :: "world \<Rightarrow> bool" where
  "fresh_run w \<longleftrightarrow> w_active w \<and> w_stream_ref w \<and> w_stream w = new_stream \<and> ex_id (w_exec w) \<noteq> []
     \<and> w_result w = None \<and> ex_state (w_exec w) = State_CREATED"

lemma wp_close_run:
  assumes "still_open w"
  shows "wp close_run (\<lambda>_ t. t = w\<lparr>w_stream := stream_close (w_stream w), w_stream_ref := False, w_active := False\<rparr>) E w"
  using assms by (simp add: close_run_def wp still_open_def)

definition start_queue :: "run_request \<Rightarrow> world \<Rightarrow> stream_item list" where
  "start_queue rq w = [Item \<lparr>ev_type = ''execution_started'', ev_execution_id = ex_id (w_exec w),
                 ev_data = [(''session_id'', PStr (rq_session rq))]\<rparr>]"

lemma ended_closed:
  assumes "completed_run (start_queue rq w) resp w \<or> cancelled_at (start_queue rq w) en resp w"
  shows "run_returned en rq resp (w\<lparr>w_stream := stream_close (w_stream w), w_stream_ref := False, w_active := False\<rparr>)"
proof -
  let ?w = "w\<lparr>w_stream := stream_close (w_stream w), w_stream_ref := False, w_active := False\<rparr>"
  obtain ty out where e: "ended_at (start_queue rq w) ty out resp w"
    and ty: "ty = EXECUTION_COMPLETED \<and> ex_state (w_exec w) = State_COMPLETED \<and> out \<noteq> PNone
      \<or> ty = EXECUTION_CANCELLED \<and> out = PNone
         \<and> (ex_state (w_exec w) = State_CANCELLED \<or> ex_state (w_exec w) = State_COMPLETED \<and> save_cancelled en)"
    using assms by (auto simp: completed_run_def cancelled_at_def)
  from e obtain evs ev where q: "es_queue (w_stream w) = start_queue rq w @ map Item evs @ [Item ev]"
    "\<forall>ev \<in> set evs. ordinary_event ev" "ev_type ev = event_type_value ty" "ev_execution_id ev = ex_id (w_exec w)"
    unfolding ended_at_def by blast
  have "es_queue (w_stream ?w) = start_queue rq w @ map Item evs @ [Item ev, CLOSED]"
    using e q(1) by (simp add: ended_at_def stream_close_def)
  with e ty q show ?thesis
    unfolding run_returned_def start_queue_def ended_at_def
    by (intro conjI exI [of _ evs] exI [of _ ev] exI [of _ out])
       (auto simp: run_closed_def stream_close_def simp del: state_is_terminal.simps)
qed

text \<open>Once the execution is registered in the database, the run cannot be left open.\<close>

lemma wp_run_started:
  assumes "open_at (start_queue rq w) w" "going w"
  shows "wp (ensure (catch (run_body rt en rq) (run_failed rt en)) close_run)
     (\<lambda>resp t. ex_id (w_exec t) = ex_id (w_exec w) \<longrightarrow> run_returned en rq resp t) (\<lambda>_. run_closed) w"
proof -
  let ?q = "start_queue rq w"
  let ?Q = "\<lambda>resp t. completed_run ?q resp t \<or> cancelled_at ?q en resp t"
  have main: "wp (catch (run_body rt en rq) (run_failed rt en)) ?Q (\<lambda>_. still_open) w"
    unfolding wp_catch
    by (rule wp_mono [OF wp_run_body [OF assms]]) (auto intro: wp_mono [OF wp_run_failed])
  have closed: "run_closed (t\<lparr>w_stream := stream_close (w_stream t), w_stream_ref := False, w_active := False\<rparr>)" for t
    by (simp add: run_closed_def stream_close_def)
  show ?thesis
    unfolding wp_ensure
  proof (rule wp_mono [OF main])
    fix resp t assume t: "?Q resp t"
    then have "still_open t" by (auto simp: completed_run_def cancelled_at_def ended_at_def still_open_def)
    moreover have "run_returned en rq resp (t\<lparr>w_stream := stream_close (w_stream t), w_stream_ref := False, w_active := False\<rparr>)"
      if "ex_id (w_exec t) = ex_id (w_exec w)"
      using t that by (intro ended_closed) (simp add: start_queue_def)
    ultimately show "wp close_run (\<lambda>_ t. ex_id (w_exec t) = ex_id (w_exec w) \<longrightarrow> run_returned en rq resp t) (\<lambda>_. run_closed) t"
      by (intro wp_mono [OF wp_close_run]) auto
  next
    fix e t assume "still_open t"
    then show "wp close_run (\<lambda>_. run_closed) (\<lambda>_. run_closed) t"
      by (intro wp_mono [OF wp_close_run]) (auto simp: closed)
  qed
qed

lemma wp_run_execution_ends:
  assumes "fresh_run w"
  shows "wp (run_execution rt en rq) (\<lambda>resp. run_returned en rq resp)
     (\<lambda>e t. run_closed t \<or> (\<exists>n. en_persist en n = Inl e \<and> w_exec t = w_exec w \<and> still_open t)) w"
proof -
  let ?rest = "ensure (catch (run_body rt en rq) (run_failed rt en)) close_run"
  let ?pub = "publish_event EXECUTION_STARTED [(''session_id'', PStr (rq_session rq))]"
  have create: "wp (create_persistent_execution rt en)
      (\<lambda>_ t. fresh_run t \<and> w_exec t = w_exec w) (\<lambda>e t. (\<exists>n. en_persist en n = Inl e) \<and> w_exec t = w_exec w \<and> still_open t) w"
    using assms by (auto simp: create_persistent_execution_def wp fresh_run_def still_open_def new_stream_def)
  have start: "wp ?pub (\<lambda>_ t. open_at (start_queue rq t) t \<and> going t \<and> w_exec t = w_exec u) E u" if "fresh_run u" for E u
    using that
    by (auto simp: publish_event_def wp fresh_run_def new_event_def stream_publish_def new_stream_def
        open_at_def going_def start_queue_def split: sum.split)
  have "wp (run_execution rt en rq) (\<lambda>resp t. ex_id (w_exec t) = ex_id (w_exec w) \<longrightarrow> run_returned en rq resp t)
     (\<lambda>e t. run_closed t \<or> (\<exists>n. en_persist en n = Inl e \<and> w_exec t = w_exec w \<and> still_open t)) w"
    unfolding run_execution_def wp_seq
  proof (rule wp_mono [OF create])
    fix x t assume t: "fresh_run t \<and> w_exec t = w_exec w"
    show "wp ?pub (\<lambda>_. wp ?rest (\<lambda>resp t. ex_id (w_exec t) = ex_id (w_exec w) \<longrightarrow> run_returned en rq resp t)
       (\<lambda>e t. run_closed t \<or> (\<exists>n. en_persist en n = Inl e \<and> w_exec t = w_exec w \<and> still_open t)))
       (\<lambda>e t. run_closed t \<or> (\<exists>n. en_persist en n = Inl e \<and> w_exec t = w_exec w \<and> still_open t)) t"
    proof (rule wp_mono [OF start])
      show "fresh_run t" using t by simp
      fix y u assume "open_at (start_queue rq u) u \<and> going u \<and> w_exec u = w_exec t"
      with t show "wp ?rest (\<lambda>resp t. ex_id (w_exec t) = ex_id (w_exec w) \<longrightarrow> run_returned en rq resp t)
        (\<lambda>e t. run_closed t \<or> (\<exists>n. en_persist en n = Inl e \<and> w_exec t = w_exec w \<and> still_open t)) u"
        by (intro wp_mono [OF wp_run_started]) auto
    qed
  qed auto
  from wp_conj [OF this run_evolves] show ?thesis
    by (rule wp_mono) (auto simp: life_def evolves_def)
qed

section \<open>A run that raises\<close>

text \<open>The failure is recorded: state, error, result and event agree with the exception.\<close>

definition failure_recorded :: "exc \<Rightarrow> world \<Rightarrow> bool" where
  "failure_recorded e w \<longleftrightarrow> ex_state (w_exec w) = State_FAILED \<and> ex_error (w_exec w) = Some (exc_msg e)
     \<and> ex_error_type (w_exec w) = Some (type_name (exc_class e))
     \<and> w_result w = Some (from_execution PNone (w_exec w))
     \<and> (\<exists>items. es_queue (w_stream w) = items @ [Item \<lparr>ev_type = ''execution_failed'', ev_execution_id = ex_id (w_exec w),
          ev_data = [(''error_type'', PStr (type_name (exc_class e))), (''error'', PStr (exc_msg e))]\<rparr>, CLOSED])"

text \<open>An exception without a text: the handlers' own \<open>ValueError\<close> goes on, and nothing is recorded.\<close>

definition failure_lost :: "exc \<Rightarrow> world \<Rightarrow> bool" where
  "failure_lost e w \<longleftrightarrow> e \<in> {Exc ValueError ''Execution failure error cannot be empty'',
       Exc ValueError ''Execution context error cannot be empty''} \<and> going w"

definition persists :: "env \<Rightarrow> bool" where
  "persists en \<longleftrightarrow> (\<forall>n. en_persist en n = Inr ())"

lemma wp_persist_ok:
  assumes "persists en"
  shows "wp (persist_execution rt en) (\<lambda>_ t. t = w\<lparr>w_tick := w_tick t, w_log := w_log t\<rparr>) (\<lambda>_ _. False) w"
    "wp (create_persistent_execution rt en) (\<lambda>_ t. t = w\<lparr>w_tick := w_tick t, w_log := w_log t\<rparr>) (\<lambda>_ _. False) w"
  using assms by (simp_all add: persist_execution_def create_persistent_execution_def wp persists_def)

text \<open>When the database works, the body raises only while the run is under way.\<close>

lemma wp_finish_going:
  assumes "persists en" "open_at q w" "going w"
  shows "wp (finish_run rt en out) (\<lambda>_ _. True) (\<lambda>_ t. open_at q t \<and> going t) w"
proof -
  have go: "wp (go_to en State_COMPLETED) (\<lambda>_ _. True) (\<lambda>_ u. open_at q u \<and> going u) t"
    if "open_at q t \<and> going t" for t
    using that by (auto simp: wp_go_to Let_def going_def split: sum.split cong: open_at_cong)
  have rest: "wp (seq (persist_execution rt en) (seq (retain_result (PStr out))
      (bnd (gets (\<lambda>w. int (length (ex_steps (w_exec w))))) (\<lambda>n.
       seq (publish_event EXECUTION_COMPLETED [(''status'', PStr ''success''), (''steps'', PInt n)])
          (respond (PStr out)))))) (\<lambda>_ _. True) E t" for E t
    unfolding wp_seq [of "persist_execution _ _"]
    by (rule wp_mono [OF wp_persist_ok(1) [OF assms(1)]])
       (auto simp: retain_result_def publish_event_def respond_def wp)
  show ?thesis
    unfolding finish_run_def wp_seq [of "check_cancellation en"] wp_seq [of "go_to _ _"]
    by (intro wp_mono [OF wp_check_open [OF assms(2,3)]] wp_mono [OF go] rest)
qed

lemma wp_body_going:
  assumes "persists en" "open_at q w" "going w"
  shows "wp (run_body rt en rq) (\<lambda>_ _. True) (\<lambda>_ t. open_at q t \<and> going t) w"
proof -
  let ?P = "\<lambda>t. open_at q t \<and> going t"
  have under: "wp m (\<lambda>_. ?P) (\<lambda>_. ?P) t" if "under.keeps m" "?P t" for m :: "unit rt" and t
    by (rule under.wp_after [OF that(1)]) (use that(2) in \<open>auto simp: underway_def\<close>)
  have ex: "wp (bnd (execute rt en rq) (finish_run rt en)) (\<lambda>_ _. True) (\<lambda>_. ?P) t" if "?P t" for t
    unfolding wp_bnd
    by (rule wp_mono [OF under_execute]) (use that in \<open>auto simp: underway_def intro: wp_finish_going [OF assms(1)]\<close>)
  show ?thesis
    unfolding run_body_def wp_seq
    by (intro wp_mono [OF under [OF under.keeps_check_cancellation]] wp_mono [OF under [OF under.keeps_go_tos(1)]]
        wp_mono [OF under [OF under_persist(1)]] ex) (use assms in auto)
qed

lemma mark_failed_going:
  assumes "m \<noteq> []" "\<not> state_is_terminal (ex_state e)"
  shows "mark_failed clk m ty e = Inr (advanced clk State_FAILED (e\<lparr>ex_error := Some m, ex_error_type := ty\<rparr>))"
  using assms by (cases "ex_state e") (auto simp: mark_failed_def transition_to_eq)

lemma wp_exec_do:
  "wp (exec_do en f) Q E w =
     (let w' = w\<lparr>w_tick := Suc (w_tick w)\<rparr> in
      case f (en_utc en (w_tick w)) (w_exec w) of Inl e \<Rightarrow> E e w' | Inr e' \<Rightarrow> Q () (w'\<lparr>w_exec := e'\<rparr>))"
  by (simp add: exec_do_def wp Let_def split: sum.split)

lemma wp_publish_open:
  "open_at q w \<Longrightarrow> wp (publish_event ty d) Q E w =
     Q () (w\<lparr>w_stream := (w_stream w)\<lparr>es_queue := es_queue (w_stream w) @
        [Item \<lparr>ev_type = event_type_value ty, ev_execution_id = ex_id (w_exec w), ev_data = d\<rparr>]\<rparr>\<rparr>)"
  by (simp add: publish_event_def wp open_at_def new_event_def stream_publish_def)

text \<open>Closing the run at the end, for the states the handlers leave.\<close>

abbreviation closing :: "world \<Rightarrow> world" where
  "closing w \<equiv> w\<lparr>w_stream := stream_close (w_stream w), w_stream_ref := False, w_active := False\<rparr>"

lemma wp_failed_going:
  assumes "persists en" "open_at q w" "going w"
  shows "wp (failed_run rt en e) (\<lambda>_ _. False)
     (\<lambda>x t. still_open t \<and> (x = e \<and> failure_recorded e (closing t) \<or> failure_lost x (closing t))) w"
proof (cases "exc_msg e = []")
  case True
  then show ?thesis
    using assms open_at_still [OF assms(2)]
    by (simp add: failed_run_def wp_bnd wp_over wp_seq wp_guarded wp_exec_do mark_failed_def going_def
        failure_lost_def still_open_def)
next
  case False
  let ?e = "advanced (en_utc en (w_tick w)) State_FAILED
      ((w_exec w)\<lparr>ex_error := Some (exc_msg e), ex_error_type := Some (type_name (exc_class e))\<rparr>)"
  let ?w = "w\<lparr>w_tick := Suc (w_tick w), w_exec := ?e\<rparr>"
  let ?rest = "seq (ctx_do (add_error (exc_msg e)))
     (seq (publish_event EXECUTION_FAILED
             [(''error_type'', PStr (type_name (exc_class e))), (''error'', PStr (exc_msg e))])
     (seq (retain_result PNone) (throw e))) :: agent_response rt"
  let ?E = "\<lambda>x t. still_open t \<and> (x = e \<and> failure_recorded e (closing t) \<or> failure_lost x (closing t))"
  have rest: "wp ?rest (\<lambda>_ _. False) ?E t" if "t = ?w\<lparr>w_tick := n, w_log := l\<rparr>" for t n l
  proof -
    note t = that
    let ?u = "t\<lparr>w_ctx := (w_ctx t)\<lparr>cx_errors := cx_errors (w_ctx t) @ [exc_msg e]\<rparr>\<rparr>"
    have op: "open_at q ?u" using assms(2) by (simp add: t open_at_def)
    show ?thesis
      unfolding wp_seq wp_add_error [OF False] wp_publish_open [OF op]
      using op by (simp add: wp_throw wp_modify retain_result_def failure_recorded_def still_open_def
          open_at_def stream_close_def t advanced_def)
  qed
  have mf: "mark_failed clk (exc_msg e) ty (w_exec w) =
      Inr (advanced clk State_FAILED ((w_exec w)\<lparr>ex_error := Some (exc_msg e), ex_error_type := ty\<rparr>))" for clk ty
    using assms(3) False by (intro mark_failed_going) (simp_all add: going_def)
  have "wp (persist_execution rt en) (\<lambda>_. wp ?rest (\<lambda>_ _. False) ?E) ?E ?w"
    by (rule wp_mono [OF wp_persist_ok(1) [OF assms(1)]], erule rest, simp)
  then show ?thesis
    using assms(3)
    by (simp add: failed_run_def wp_bnd wp_over wp_seq [of "guarded _ _"] wp_guarded going_def
        wp_seq [of "exec_do _ _"] wp_exec_do mf del: state_is_terminal.simps)
qed

text \<open>Cancelling a run under way cannot fail while the database works.\<close>

lemma wp_cancel_going:
  assumes "going w" "\<And>t. wp p (\<lambda>_ _. True) (\<lambda>_ _. False) t"
  shows "wp (bnd execution_over (\<lambda>over. seq (guarded (\<not> over) (seq (go_to en State_CANCELLED) p))
      (seq (publish_event EXECUTION_CANCELLED d) (seq (retain_result PNone) (respond PNone)))))
     (\<lambda>_ _. True) (\<lambda>_ _. False) w"
proof -
  have "State_CANCELLED \<in> set (execution_transitions (ex_state (w_exec w)))"
    using assms(1) by (cases "ex_state (w_exec w)") (simp_all add: going_def)
  then have go: "wp (go_to en State_CANCELLED) (\<lambda>_ _. True) (\<lambda>_ _. False) w"
    by (simp add: wp_go_to transition_to_eq Let_def)
  have pub: "wp (seq (publish_event EXECUTION_CANCELLED d) (seq (retain_result PNone) (respond PNone)))
      (\<lambda>_ _. True) (\<lambda>_ _. False) t" for t
    by (simp add: publish_event_def retain_result_def respond_def wp)
  have "wp (seq (go_to en State_CANCELLED) p) (\<lambda>_ _. True) (\<lambda>_ _. False) w"
    unfolding wp_seq by (rule wp_mono [OF go]) (auto intro: assms(2))
  then show ?thesis
    unfolding wp_bnd wp_over wp_seq [of "guarded _ _"] wp_guarded
    by (cases "state_is_terminal (ex_state (w_exec w))")
       (simp_all del: state_is_terminal.simps add: pub, erule wp_mono, simp_all add: pub)
qed

lemma wp_cancelled_going:
  assumes "persists en" "going w" "still_open w"
  shows "wp (cancelled_run rt en e) (\<lambda>_ _. True) (\<lambda>x t. still_open t \<and> failure_lost x (closing t)) w"
    "wp (cancelled_task en) (\<lambda>_ _. True) (\<lambda>_ _. False) w"
proof -
  show "wp (cancelled_run rt en e) (\<lambda>_ _. True) (\<lambda>x t. still_open t \<and> failure_lost x (closing t)) w"
  proof (cases "exc_msg e = []")
    case True
    then show ?thesis using assms
      by (simp add: cancelled_run_def ctx_do_def add_error_def wp failure_lost_def going_def)
  next
    case False
    show ?thesis
      unfolding cancelled_run_def wp_seq [of "ctx_do _"] wp_add_error [OF False]
      by (rule wp_mono [OF wp_cancel_going])
         (use assms in \<open>auto simp: going_def intro: wp_mono [OF wp_persist_ok(1)]\<close>)
  qed
  have *: "seq (go_to en State_CANCELLED) (ret ()) = go_to en State_CANCELLED"
    by (rule ext) (auto simp: seq_def bnd_def ret_def split: prod.split sum.split)
  show "wp (cancelled_task en) (\<lambda>_ _. True) (\<lambda>_ _. False) w"
    unfolding cancelled_task_def wp_seq [of cancel_token]
    unfolding cancel_token_def wp_modify wp_seq [of "ctx_do _"]
    by (subst wp_add_error, simp, subst * [symmetric], rule wp_cancel_going)
       (use assms in \<open>auto simp: wp_ret going_def\<close>)
qed

definition run_raised :: "exc \<Rightarrow> world \<Rightarrow> bool" where
  "run_raised e w \<longleftrightarrow> failure_recorded e w \<or> failure_lost e w
     \<or> exc_class e = PyBaseException \<and> going w"

lemma wp_run_failed_going:
  assumes "persists en" "open_at q w" "going w"
  shows "wp (run_failed rt en e) (\<lambda>_ _. True) (\<lambda>x t. still_open t \<and> run_raised x (closing t)) w"
proof -
  have so: "still_open w" by (rule open_at_still [OF assms(2)])
  note c = wp_cancelled_going [OF assms(1,3) so]
  have f: "wp (failed_run rt en e) (\<lambda>_ _. True) (\<lambda>x t. still_open t \<and> run_raised x (closing t)) w"
    by (rule wp_mono [OF wp_failed_going [OF assms]]) (auto simp: run_raised_def)
  have b: "run_raised e (closing w)" if "\<not> isinstance_exc e PyException" "\<not> isinstance_exc e CancelledError"
    using that assms(3) by (simp add: run_raised_def isinstance_exc_def exc_isa_PyException going_def)
  show ?thesis
    unfolding run_failed_def
    using so b f
    by (auto simp: wp_throw run_raised_def intro: wp_mono [OF c(1)] wp_mono [OF c(2)])
qed

lemma wp_run_raises:
  assumes "fresh_run w" "persists en"
  shows "wp (run_execution rt en rq) (\<lambda>_ _. True) (\<lambda>e t. run_closed t \<and> run_raised e t) w"
proof -
  let ?E = "\<lambda>e t. run_closed t \<and> run_raised e t"
  let ?h = "catch (run_body rt en rq) (run_failed rt en)"
  have handled: "wp ?h (\<lambda>_ _. True) (\<lambda>x t. still_open t \<and> run_raised x (closing t)) t"
    if "open_at q t" "going t" for q t
    unfolding wp_catch
    by (rule wp_mono [OF wp_body_going [OF assms(2) that]]) (auto intro: wp_run_failed_going [OF assms(2)])
  have closed: "wp close_run (\<lambda>_. ?E e) ?E t" if "still_open t \<and> run_raised e (closing t)" for e t
    using that by (intro wp_mono [OF wp_close_run]) (auto simp: run_closed_def stream_close_def)
  have ok: "wp close_run (\<lambda>_ _. True) ?E t" for t
    by (simp add: close_run_def wp)
  have main: "wp (ensure ?h close_run) (\<lambda>_ _. True) ?E t" if "open_at q t" "going t" for q t
    unfolding wp_ensure by (rule wp_mono [OF handled [OF that]]) (use closed ok in auto)
  have start: "wp (publish_event EXECUTION_STARTED d) (\<lambda>_ t. open_at (es_queue (w_stream t)) t \<and> going t) ?E t"
    if "t = w\<lparr>w_tick := n, w_log := l\<rparr>" for d t n l
    using assms(1)
    by (simp add: that publish_event_def wp fresh_run_def new_event_def stream_publish_def new_stream_def
        open_at_def going_def)
  have rest: "wp (seq (publish_event EXECUTION_STARTED d) (ensure ?h close_run)) (\<lambda>_ _. True) ?E t"
    if "t = w\<lparr>w_tick := n, w_log := l\<rparr>" for d t n l
    unfolding wp_seq by (rule wp_mono [OF start [OF that]]) (auto intro: main)
  show ?thesis
    unfolding run_execution_def wp_seq [of "create_persistent_execution _ _"]
    by (rule wp_mono [OF wp_persist_ok(2) [OF assms(2)]], erule rest, simp)
qed

section \<open>A run cancelled before it starts\<close>

definition nothing_sent :: "log_entry list \<Rightarrow> bool" where
  "nothing_sent l \<longleftrightarrow> (\<forall>e \<in> set l. case e of LogCreate _ \<Rightarrow> True | LogUpdate _ \<Rightarrow> True | _ \<Rightarrow> False)"

definition idle_cancelled :: "world \<Rightarrow> bool" where
  "idle_cancelled w \<longleftrightarrow> w_cancelled w \<and> ex_state (w_exec w) = State_CREATED \<and> nothing_sent (w_log w)"

lemma wp_idle_body:
  assumes "idle_cancelled w"
  shows "wp (run_body rt en rq) (\<lambda>_ _. False)
     (\<lambda>e t. e = Exc ExecutionCancelled ''Agent execution was cancelled'' \<and> idle_cancelled t) w"
  unfolding run_body_def wp_seq [of "check_cancellation _"]
  using assms by (simp add: wp_check_cancellation Let_def idle_cancelled_def)

lemma wp_idle_end:
  assumes "persists en" "idle_cancelled w" "e = Exc ExecutionCancelled ''Agent execution was cancelled''"
  shows "wp (run_failed rt en e)
     (\<lambda>resp t. rs_status resp = ''cancelled'' \<and> ex_state (w_exec t) = State_CANCELLED \<and> nothing_sent (w_log t))
     (\<lambda>_ _. False) w"
proof -
  let ?Q = "\<lambda>resp t. rs_status resp = ''cancelled'' \<and> ex_state (w_exec t) = State_CANCELLED \<and> nothing_sent (w_log t)"
  let ?A = "\<lambda>t. ex_state (w_exec t) = State_CANCELLED \<and> ex_status (w_exec t) = Status_CANCELLED \<and> nothing_sent (w_log t)"
  have go: "wp (go_to en State_CANCELLED) (\<lambda>_. ?A) (\<lambda>_ _. False) t" if "idle_cancelled t" for t
    using that by (simp add: wp_go_to transition_to_eq Let_def idle_cancelled_def advanced_def)
  have per: "wp (persist_execution rt en) (\<lambda>_. ?A) (\<lambda>_ _. False) t" if "?A t" for t
    using that assms(1) by (simp add: persist_execution_def wp persists_def nothing_sent_def)
  have pub: "wp (seq (publish_event EXECUTION_CANCELLED d) (seq (retain_result PNone) (respond PNone)))
      ?Q (\<lambda>_ _. False) t" if "?A t" for d t
    using that by (simp add: wp publish_event_def retain_result_def respond_def to_agent_response_def
        from_execution_def response_status_def split: sum.split)
  have stop: "wp (seq (go_to en State_CANCELLED) (persist_execution rt en)) (\<lambda>_. ?A) (\<lambda>_ _. False) t"
    if "idle_cancelled t" for t
    unfolding wp_seq by (rule wp_mono [OF go [OF that]]) (auto intro: per)
  have fin: "wp (bnd execution_over (\<lambda>over.
      seq (guarded (\<not> over) (seq (go_to en State_CANCELLED) (persist_execution rt en)))
      (seq (publish_event EXECUTION_CANCELLED d) (seq (retain_result PNone) (respond PNone))))) ?Q (\<lambda>_ _. False) t"
    if "idle_cancelled t" for d t
  proof -
    have "\<not> state_is_terminal (ex_state (w_exec t))" using that by (simp add: idle_cancelled_def)
    then show ?thesis
      unfolding wp_bnd wp_over wp_seq [of "guarded _ _"] wp_guarded
      by (simp del: state_is_terminal.simps) (rule wp_mono [OF stop [OF that]], auto intro: pub)
  qed
  have msg: "exc_msg e \<noteq> []" "isinstance_exc e ExecutionCancelled" by (simp_all add: assms(3) isinstance_exc_def)
  show ?thesis
    unfolding run_failed_def if_P [OF msg(2)] cancelled_run_def wp_seq [of "ctx_do _"] wp_add_error [OF msg(1)]
    by (rule fin) (use assms(2) in \<open>simp add: idle_cancelled_def\<close>)
qed

lemma wp_cancelled_first:
  assumes "idle_cancelled w" "persists en"
  shows "wp (run_execution rt en rq)
     (\<lambda>resp t. rs_status resp = ''cancelled'' \<and> ex_state (w_exec t) = State_CANCELLED \<and> nothing_sent (w_log t))
     (\<lambda>_ _. False) w"
proof -
  let ?Q = "\<lambda>resp t. rs_status resp = ''cancelled'' \<and> ex_state (w_exec t) = State_CANCELLED \<and> nothing_sent (w_log t)"
  let ?h = "catch (run_body rt en rq) (run_failed rt en)"
  have h: "wp ?h ?Q (\<lambda>_ _. False) t" if "idle_cancelled t" for t
    unfolding wp_catch by (rule wp_mono [OF wp_idle_body [OF that]]) (auto intro: wp_idle_end [OF assms(2)])
  have en: "wp (ensure ?h close_run) ?Q (\<lambda>_ _. False) t" if "idle_cancelled t" for t
    unfolding wp_ensure by (rule wp_mono [OF h [OF that]]) (auto simp: close_run_def wp)
  have pub: "wp (publish_event EXECUTION_STARTED d) (\<lambda>_. idle_cancelled) (\<lambda>_ _. False) t" if "idle_cancelled t" for d t
    using that by (simp add: publish_event_def wp idle_cancelled_def split: sum.split)
  have rest: "wp (seq (publish_event EXECUTION_STARTED d) (ensure ?h close_run)) ?Q (\<lambda>_ _. False) t" if "idle_cancelled t" for d t
    unfolding wp_seq by (rule wp_mono [OF pub [OF that]]) (auto intro: en)
  have "wp (create_persistent_execution rt en) (\<lambda>_. idle_cancelled) (\<lambda>_ _. False) w"
    using assms by (simp add: create_persistent_execution_def wp persists_def idle_cancelled_def nothing_sent_def)
  then show ?thesis
    unfolding run_execution_def wp_seq [of "create_persistent_execution _ _"]
    by (rule wp_mono) (auto intro: rest)
qed

lemma create_execution_fresh:
  assumes "eid \<noteq> []"
  shows "fresh_run (create_execution eid clk rq meta am st n)"
  using assms by (simp add: fresh_run_def create_execution_def new_execution_def)

end
