(* ===== verification/Persistence.thy ===== *)
theory Persistence
  imports ExecDomain EventStream Effects
begin

text \<open>
  Durable records (\<^verbatim>\<open>persistence/models.py\<close>), the mappers between them and the domain objects
  (\<^verbatim>\<open>mappers.py\<close>), the contract of an execution store (\<^verbatim>\<open>store.py\<close>) and the in-memory stores
  (\<^verbatim>\<open>in_memory.py\<close>).

  Identifiers are their text.  A dictionary that is copied is the same list of entries.
\<close>

section \<open>Records\<close>

record step_record =
  sr_step_id :: string
  sr_number :: int
  sr_type :: string
  sr_status :: string
  sr_input :: pyval
  sr_output :: pyval
  sr_error :: "string option"
  sr_started_at :: "time option"
  sr_completed_at :: "time option"

record execution_record =
  xr_execution_id :: string
  xr_state :: string
  xr_status :: string
  xr_metadata :: pydict
  xr_error :: "string option"
  xr_error_type :: "string option"
  xr_created_at :: "time option"
  xr_started_at :: "time option"
  xr_completed_at :: "time option"
  xr_steps :: "step_record list"

record result_record =
  rr_execution_id :: string
  rr_status :: string
  rr_output :: pyval
  rr_error :: "string option"
  rr_error_type :: "string option"
  rr_metadata :: pydict
  rr_created_at :: "time option"
  rr_started_at :: "time option"
  rr_completed_at :: "time option"
  rr_duration_seconds :: "time option"

record event_record =
  er_event_id :: string
  er_of_execution :: string
  er_sequence :: int
  er_type :: string
  er_data :: pydict
  er_recorded_at :: "time option"

text \<open>The checks of \<open>ExecutionEventRecord.__post_init__\<close>.\<close>

definition new_event_record :: "event_record \<Rightarrow> event_record result" where
  "new_event_record r =
     (if er_sequence r < 1 then raise ValueError ''Event sequence must be greater than zero''
      else if er_type r = [] then raise ValueError ''Event type cannot be empty''
      else Inr r)"

section \<open>Mappers\<close>

text \<open>\<open>E(value)\<close> for the enumerations: the member of that value, or \<open>ValueError\<close>.\<close>

definition enum_of :: "string \<Rightarrow> ('a \<Rightarrow> string) \<Rightarrow> 'a list \<Rightarrow> string \<Rightarrow> 'a result" where
  "enum_of cls val members v = (case find (\<lambda>x. val x = v) members of
      Some x \<Rightarrow> Inr x
    | None \<Rightarrow> raise ValueError (repr_str v @ '' is not a valid '' @ cls))"

definition step_type_of :: "string \<Rightarrow> step_type result" where
  "step_type_of = enum_of ''StepType'' step_type_value
     [StepType_PLAN, StepType_INFERENCE, StepType_TOOL_CALL, StepType_TOOL_RESULT,
      StepType_OBSERVATION, StepType_FINAL]"

definition step_status_of :: "string \<Rightarrow> step_status result" where
  "step_status_of = enum_of ''StepStatus'' step_status_value
     [StepStatus_CREATED, StepStatus_WAITING_APPROVAL, StepStatus_RUNNING,
      StepStatus_COMPLETED, StepStatus_FAILED, StepStatus_CANCELLED]"

definition execution_state_of :: "string \<Rightarrow> execution_state result" where
  "execution_state_of = enum_of ''ExecutionState'' execution_state_value
     [State_CREATED, State_PLANNING, State_INFERENCE, State_WAITING_APPROVAL, State_TOOL_EXECUTION,
      State_OBSERVING, State_COMPLETED, State_FAILED, State_CANCELLED]"

definition execution_status_of :: "string \<Rightarrow> execution_status result" where
  "execution_status_of = enum_of ''ExecutionStatus'' execution_status_value
     [Status_CREATED, Status_RUNNING, Status_COMPLETED, Status_FAILED, Status_CANCELLED,
      Status_WAITING_APPROVAL, Status_CRASHED, Status_RECOVERING, Status_REPLAYING]"

definition step_to_record :: "step \<Rightarrow> step_record" where
  "step_to_record s = \<lparr>sr_step_id = step_id s, sr_number = step_number s,
     sr_type = step_type_value (step_type s), sr_status = step_status_value (step_status s),
     sr_input = step_input s, sr_output = step_output s, sr_error = step_error s,
     sr_started_at = step_started_at s, sr_completed_at = step_completed_at s\<rparr>"

text \<open>The constructor of \<open>Step\<close> checks the number.\<close>

definition step_from_record :: "step_record \<Rightarrow> step result" where
  "step_from_record r =
     rbind (step_type_of (sr_type r)) (\<lambda>ty.
     rbind (step_status_of (sr_status r)) (\<lambda>st.
     if sr_number r < 1 then raise ValueError ''Step number must be greater than zero''
     else Inr \<lparr>step_id = sr_step_id r, step_number = sr_number r, step_type = ty, step_status = st,
            step_input = sr_input r, step_output = sr_output r, step_error = sr_error r,
            step_started_at = sr_started_at r, step_completed_at = sr_completed_at r\<rparr>))"

fun steps_from_records :: "step_record list \<Rightarrow> step list result" where
  "steps_from_records [] = Inr []"
| "steps_from_records (r # rs) =
     rbind (step_from_record r) (\<lambda>s. rbind (steps_from_records rs) (\<lambda>ss. Inr (s # ss)))"

definition execution_to_record :: "execution \<Rightarrow> execution_record" where
  "execution_to_record e = \<lparr>xr_execution_id = ex_id e, xr_state = execution_state_value (ex_state e),
     xr_status = execution_status_value (ex_status e), xr_metadata = ex_metadata e,
     xr_error = ex_error e, xr_error_type = ex_error_type e, xr_created_at = Some (ex_created_at e),
     xr_started_at = ex_started_at e, xr_completed_at = ex_completed_at e,
     xr_steps = map step_to_record (ex_steps e)\<rparr>"

text \<open>\<open>updated_at\<close> is not part of the record: the restored execution gets the time of its construction.\<close>

definition execution_from_record :: "time \<Rightarrow> execution_record \<Rightarrow> execution result" where
  "execution_from_record now r = (case xr_created_at r of
      None \<Rightarrow> raise ValueError ''Persisted execution is missing created_at''
    | Some created \<Rightarrow>
       rbind (execution_state_of (xr_state r)) (\<lambda>st.
       rbind (execution_status_of (xr_status r)) (\<lambda>status.
       rbind (steps_from_records (xr_steps r)) (\<lambda>steps.
       Inr \<lparr>ex_id = xr_execution_id r, ex_status = status, ex_created_at = created,
         ex_started_at = xr_started_at r, ex_updated_at = now, ex_completed_at = xr_completed_at r,
         ex_metadata = xr_metadata r, ex_error = xr_error r, ex_error_type = xr_error_type r,
         ex_steps = steps, ex_state = st\<rparr>))))"

definition result_to_record :: "execution_result \<Rightarrow> result_record" where
  "result_to_record r = \<lparr>rr_execution_id = er_execution_id r,
     rr_status = execution_status_value (er_status r), rr_output = er_output r,
     rr_error = er_error r, rr_error_type = er_error_type r, rr_metadata = er_metadata r,
     rr_created_at = er_created_at r, rr_started_at = er_started_at r,
     rr_completed_at = er_completed_at r, rr_duration_seconds = er_duration_seconds r\<rparr>"

definition result_from_record :: "result_record \<Rightarrow> execution_result result" where
  "result_from_record r = rbind (execution_status_of (rr_status r)) (\<lambda>status.
     Inr \<lparr>er_execution_id = rr_execution_id r, er_status = status, er_output = rr_output r,
       er_error = rr_error r, er_error_type = rr_error_type r, er_metadata = rr_metadata r,
       er_created_at = rr_created_at r, er_started_at = rr_started_at r,
       er_completed_at = rr_completed_at r, er_duration_seconds = rr_duration_seconds r\<rparr>)"

text \<open>
  \<open>parse\<close> is \<open>UUID(text)\<close>.  The identifier and the time default to a fresh UUID and the current time.
\<close>

definition event_to_record ::
  "(string \<Rightarrow> string result) \<Rightarrow> agent_event \<Rightarrow> int \<Rightarrow> string \<Rightarrow> time \<Rightarrow> event_record result" where
  "event_to_record parse ev seqno uuid now = rbind (parse (ev_execution_id ev)) (\<lambda>eid.
     new_event_record \<lparr>er_event_id = uuid, er_of_execution = eid, er_sequence = seqno,
       er_type = ev_type ev, er_data = ev_data ev, er_recorded_at = Some now\<rparr>)"

section \<open>Round trips\<close>

lemma step_type_round [simp]: "step_type_of (step_type_value t) = Inr t"
  by (cases t) (simp_all add: step_type_of_def enum_of_def)

lemma step_status_round [simp]: "step_status_of (step_status_value t) = Inr t"
  by (cases t) (simp_all add: step_status_of_def enum_of_def)

lemma execution_state_round [simp]: "execution_state_of (execution_state_value t) = Inr t"
  by (cases t) (simp_all add: execution_state_of_def enum_of_def)

lemma execution_status_round [simp]: "execution_status_of (execution_status_value t) = Inr t"
  by (cases t) (simp_all add: execution_status_of_def enum_of_def)

lemma enum_of_value: "enum_of c val ms v = Inr x \<Longrightarrow> val x = v"
  by (auto simp: enum_of_def find_Some_iff split: option.splits)

lemma step_from_to_record: "1 \<le> step_number s \<Longrightarrow> step_from_record (step_to_record s) = Inr s"
  by (simp add: step_from_record_def step_to_record_def)

lemma step_to_from_record: "step_from_record r = Inr s \<Longrightarrow> step_to_record s = r"
  by (auto simp: step_from_record_def step_to_record_def step_type_of_def step_status_of_def
      dest!: enum_of_value split: if_splits)

lemma steps_from_to_records:
  "list_all (\<lambda>s. 1 \<le> step_number s) ss \<Longrightarrow> steps_from_records (map step_to_record ss) = Inr ss"
  by (induction ss) (simp_all add: step_from_to_record)

lemma steps_to_from_records: "steps_from_records rs = Inr ss \<Longrightarrow> map step_to_record ss = rs"
  by (induction rs arbitrary: ss) (auto simp: step_to_from_record)

text \<open>Storing and loading an execution loses nothing but the time of its last update.\<close>

lemma execution_from_to_record:
  "list_all (\<lambda>s. 1 \<le> step_number s) (ex_steps e) \<Longrightarrow>
     execution_from_record now (execution_to_record e) = Inr (e\<lparr>ex_updated_at := now\<rparr>)"
  by (simp add: execution_from_record_def execution_to_record_def steps_from_to_records)

text \<open>A record that loads is the record of what was loaded.\<close>

lemma execution_to_from_record:
  "execution_from_record now r = Inr e \<Longrightarrow> execution_to_record e = r"
  by (auto simp: execution_from_record_def execution_to_record_def execution_state_of_def
      execution_status_of_def steps_to_from_records dest!: enum_of_value split: option.splits)

lemma result_from_to_record: "result_from_record (result_to_record r) = Inr r"
  by (simp add: result_from_record_def result_to_record_def)

lemma result_to_from_record: "result_from_record rec = Inr r \<Longrightarrow> result_to_record r = rec"
  by (auto simp: result_from_record_def result_to_record_def execution_status_of_def
      dest!: enum_of_value)

end
