(* ===== verification/Stores.thy ===== *)
theory Stores
  imports Persistence
begin

text \<open>
  The contracts of the stores (\<^verbatim>\<open>persistence/store.py\<close>) as locales, what their clients may rely on,
  and the in-memory stores (\<^verbatim>\<open>in_memory.py\<close>) that satisfy them.
\<close>

section \<open>The contract of an execution store\<close>

datatype store_op = Store_create execution_record | Store_update execution_record

fun stored_record :: "store_op \<Rightarrow> execution_record" where
  "stored_record (Store_create r) = r"
| "stored_record (Store_update r) = r"

text \<open>
  \<open>wf\<close> is the consistency of the store, \<open>storable\<close> the records it keeps faithfully, \<open>norm\<close> the form in
  which it gives them back.
\<close>

locale execution_store =
  fixes create :: "execution_record \<Rightarrow> ('s, unit) act"
    and update :: "execution_record \<Rightarrow> ('s, unit) act"
    and get :: "string \<Rightarrow> 's \<Rightarrow> execution_record option"
    and wf :: "'s \<Rightarrow> bool"
    and storable :: "execution_record \<Rightarrow> bool"
    and norm :: "execution_record \<Rightarrow> execution_record"
  assumes create_ok: "wf s \<Longrightarrow> storable r \<Longrightarrow> create r s = (Inr u, s') \<Longrightarrow>
      get (xr_execution_id r) s = None
      \<and> (\<forall>i. get i s' = (if i = xr_execution_id r then Some (norm r) else get i s)) \<and> wf s'"
    and create_failed: "wf s \<Longrightarrow> storable r \<Longrightarrow> create r s = (Inl x, s') \<Longrightarrow> (\<forall>i. get i s' = get i s) \<and> wf s'"
    and create_twice: "wf s \<Longrightarrow> get (xr_execution_id r) s \<noteq> None \<Longrightarrow>
      \<exists>msg. fst (create r s) = raise ValueError msg"
    and update_ok: "wf s \<Longrightarrow> storable r \<Longrightarrow> update r s = (Inr u, s') \<Longrightarrow>
      get (xr_execution_id r) s \<noteq> None
      \<and> (\<forall>i. get i s' = (if i = xr_execution_id r then Some (norm r) else get i s)) \<and> wf s'"
    and update_failed: "wf s \<Longrightarrow> storable r \<Longrightarrow> update r s = (Inl x, s') \<Longrightarrow> (\<forall>i. get i s' = get i s) \<and> wf s'"
    and update_missing: "wf s \<Longrightarrow> get (xr_execution_id r) s = None \<Longrightarrow>
      \<exists>msg. fst (update r s) = raise ValueError msg"
begin

fun apply_op :: "store_op \<Rightarrow> ('s, unit) act" where
  "apply_op (Store_create r) = create r"
| "apply_op (Store_update r) = update r"

fun apply_ops :: "store_op list \<Rightarrow> 's \<Rightarrow> 's" where
  "apply_ops [] s = s"
| "apply_ops (op # ops) s = apply_ops ops (snd (apply_op op s))"

text \<open>The record of the last write of \<open>i\<close> that did not fail, \<open>acc\<close> if there is none.\<close>

fun last_saved :: "string \<Rightarrow> store_op list \<Rightarrow> 's \<Rightarrow> execution_record option \<Rightarrow> execution_record option" where
  "last_saved i [] s acc = acc"
| "last_saved i (op # ops) s acc = last_saved i ops (snd (apply_op op s))
     (if xr_execution_id (stored_record op) = i \<and> isl (fst (apply_op op s)) = False
      then Some (norm (stored_record op)) else acc)"

lemma apply_op_get:
  assumes "wf s" "storable (stored_record op)"
  shows "wf (snd (apply_op op s)) \<and> get i (snd (apply_op op s)) =
    (if xr_execution_id (stored_record op) = i \<and> isl (fst (apply_op op s)) = False
     then Some (norm (stored_record op)) else get i s)"
proof (cases op)
  case (Store_create r)
  obtain res s' where eq: "create r s = (res, s')" by fastforce
  show ?thesis
    using create_ok [of s r _ s'] create_failed [of s r _ s'] assms eq Store_create
    by (cases res) auto
next
  case (Store_update r)
  obtain res s' where eq: "update r s = (res, s')" by fastforce
  show ?thesis
    using update_ok [of s r _ s'] update_failed [of s r _ s'] assms eq Store_update
    by (cases res) auto
qed

text \<open>A read returns the last successful write.\<close>

lemma read_last_write:
  assumes "wf s" "list_all (storable \<circ> stored_record) ops"
  shows "get i (apply_ops ops s) = last_saved i ops s (get i s)"
  using assms
proof (induction ops arbitrary: s)
  case (Cons op ops)
  then have "wf (snd (apply_op op s))" "get i (snd (apply_op op s)) =
      (if xr_execution_id (stored_record op) = i \<and> isl (fst (apply_op op s)) = False
       then Some (norm (stored_record op)) else get i s)"
    using apply_op_get [of s op i] by simp_all
  with Cons show ?case by simp
qed simp

text \<open>An execution that is stored stays stored, and can be stored only once.\<close>

lemma stored_stays:
  assumes "wf s" "list_all (storable \<circ> stored_record) ops" "get i s \<noteq> None"
  shows "get i (apply_ops ops s) \<noteq> None"
  using assms
proof (induction ops arbitrary: s)
  case (Cons op ops)
  then have "wf (snd (apply_op op s))" "get i (snd (apply_op op s)) \<noteq> None"
    using apply_op_get [of s op i] by auto
  with Cons show ?case by simp
qed simp

end

section \<open>The contract of an event store\<close>

text \<open>
  \<open>history i s\<close> are the events of \<open>i\<close> in order.  A client reads them from a sequence number on.
\<close>

locale event_log =
  fixes append :: "event_record \<Rightarrow> ('s, unit) act"
    and read_from :: "string \<Rightarrow> int \<Rightarrow> 's \<Rightarrow> event_record list result"
    and history :: "string \<Rightarrow> 's \<Rightarrow> event_record list"
    and wf :: "'s \<Rightarrow> bool"
  assumes history_sorted: "wf s \<Longrightarrow> sorted_wrt (\<lambda>a b. er_sequence a < er_sequence b) (history i s)"
    and history_positive: "wf s \<Longrightarrow> list_all (\<lambda>a. 1 \<le> er_sequence a) (history i s)"
    and read_ok: "wf s \<Longrightarrow> 0 \<le> k \<Longrightarrow> read_from i k s = Inr (filter (\<lambda>a. k < er_sequence a) (history i s))"
    and append_ok: "wf s \<Longrightarrow> 1 \<le> er_sequence ev \<Longrightarrow> append ev s = (Inr u, s') \<Longrightarrow> wf s'
      \<and> (\<forall>i. set (history i s') = set (history i s) \<union> (if i = er_of_execution ev then {ev} else {}))"
    and append_failed: "wf s \<Longrightarrow> 1 \<le> er_sequence ev \<Longrightarrow> append ev s = (Inl x, s') \<Longrightarrow>
      wf s' \<and> (\<forall>i. history i s' = history i s)"
begin

lemma split_history:
  assumes "sorted_wrt (\<lambda>a b. er_sequence a < er_sequence b) h"
  shows "filter (\<lambda>a. er_sequence a \<le> k) h @ filter (\<lambda>a. k < er_sequence a) h = h"
  using assms
proof (induction h)
  case (Cons a h)
  show ?case
  proof (cases "er_sequence a \<le> k")
    case False
    then have "filter (\<lambda>a. er_sequence a \<le> k) h = []" "filter (\<lambda>a. k < er_sequence a) h = h"
      using Cons.prems by (auto simp: filter_empty_conv filter_id_conv)
    with False show ?thesis by simp
  qed (use Cons in simp)
qed simp

text \<open>
  A client that has read up to \<open>k\<close> and reads from \<open>k\<close> on gets exactly what it has not seen.
\<close>

lemma resume:
  assumes "wf s" "0 \<le> k"
  shows "\<exists>seen new. read_from i 0 s = Inr (seen @ new) \<and> read_from i k s = Inr new
    \<and> list_all (\<lambda>a. er_sequence a \<le> k) seen"
proof -
  let ?h = "history i s"
  have "filter (\<lambda>a. 0 < er_sequence a) ?h = ?h"
    using history_positive [OF assms(1), of i] by (auto simp: filter_id_conv list_all_iff)
  then have "read_from i 0 s = Inr (filter (\<lambda>a. er_sequence a \<le> k) ?h @ filter (\<lambda>a. k < er_sequence a) ?h)"
    using read_ok [OF assms(1)] split_history [OF history_sorted [OF assms(1)]] by simp
  then show ?thesis
    using read_ok [OF assms] by (intro exI conjI) (auto simp: list_all_iff)
qed

text \<open>An event is appended at most once under one number: its number is then taken.\<close>

lemma append_once:
  assumes "wf s" "1 \<le> er_sequence ev" "append ev s = (Inr u, s')"
    and "ev' \<in> set (history (er_of_execution ev) s')" "er_sequence ev' = er_sequence ev"
  shows "ev' = ev"
proof -
  have "wf s'" "ev \<in> set (history (er_of_execution ev) s')"
    using append_ok [OF assms(1-3)] by auto
  moreover have "distinct (map er_sequence h)" if "sorted_wrt (\<lambda>a b. er_sequence a < er_sequence b) h" for h
    using that by (induction h) auto
  ultimately show ?thesis
    using history_sorted [of s'] assms(4,5) by (metis inj_on_def distinct_map)
qed

end

section \<open>The in-memory stores\<close>

type_synonym execution_table = "(string \<times> execution_record) list"

definition mem_create :: "execution_record \<Rightarrow> (execution_table, unit) act" where
  "mem_create r s = (if map_of s (xr_execution_id r) \<noteq> None then
       (raise ValueError (''Execution already exists: '' @ xr_execution_id r), s)
     else (Inr (), dset (xr_execution_id r) r s))"

definition mem_get :: "string \<Rightarrow> execution_table \<Rightarrow> execution_record option" where
  "mem_get i s = map_of s i"

definition mem_update :: "execution_record \<Rightarrow> (execution_table, unit) act" where
  "mem_update r s = (if map_of s (xr_execution_id r) = None then
       (raise ValueError (''Execution does not exist: '' @ xr_execution_id r), s)
     else (Inr (), dset (xr_execution_id r) r s))"

interpretation mem_executions:
  execution_store mem_create mem_update mem_get "\<lambda>_. True" "\<lambda>_. True" "\<lambda>r. r"
  by unfold_locales (auto simp: mem_create_def mem_update_def mem_get_def split: if_splits)

type_synonym result_table = "(string \<times> result_record) list"

definition mem_save_result :: "result_record \<Rightarrow> result_table \<Rightarrow> result_table" where
  "mem_save_result r s = dset (rr_execution_id r) r s"

definition mem_get_result :: "string \<Rightarrow> result_table \<Rightarrow> result_record option" where
  "mem_get_result i s = map_of s i"

text \<open>Saving a result again changes nothing.\<close>

lemma mem_save_idempotent:
  "mem_get_result i (mem_save_result r (mem_save_result r s)) = mem_get_result i (mem_save_result r s)"
  by (simp add: mem_get_result_def mem_save_result_def)

type_synonym event_table = "(string \<times> event_record list) list"

definition mem_events :: "string \<Rightarrow> event_table \<Rightarrow> event_record list" where
  "mem_events i s = (case map_of s i of None \<Rightarrow> [] | Some es \<Rightarrow> es)"

definition last_sequence :: "event_record list \<Rightarrow> int" where
  "last_sequence es = (if es = [] then 0 else er_sequence (last es))"

text \<open>\<open>setdefault(execution_id, [])\<close>, then \<open>append\<close>.\<close>

definition mem_push :: "event_record \<Rightarrow> event_table \<Rightarrow> event_table" where
  "mem_push ev s = dset (er_of_execution ev) (mem_events (er_of_execution ev) s @ [ev]) s"

definition mem_append :: "event_record \<Rightarrow> (event_table, unit) act" where
  "mem_append ev s = (let i = er_of_execution ev in
     if mem_events i s \<noteq> [] \<and> er_sequence ev \<le> er_sequence (last (mem_events i s)) then
       (raise ValueError ''Event sequence must be greater than the last persisted sequence'', s)
     else (Inr (), mem_push ev s))"

text \<open>The events of a batch by execution, each group in the order of the batch.\<close>

fun group_events :: "event_record list \<Rightarrow> event_table \<Rightarrow> event_table" where
  "group_events [] g = g"
| "group_events (ev # evs) g = group_events evs (mem_push ev g)"

fun check_increasing :: "int \<Rightarrow> event_record list \<Rightarrow> unit result" where
  "check_increasing previous [] = Inr ()"
| "check_increasing previous (ev # evs) =
     (if er_sequence ev \<le> previous then
        raise ValueError ''Event sequence must be strictly increasing within a batch''
      else check_increasing (er_sequence ev) evs)"

fun check_groups :: "event_table \<Rightarrow> event_table \<Rightarrow> unit result" where
  "check_groups s [] = Inr ()"
| "check_groups s ((i, batch) # gs) =
     rbind (check_increasing (last_sequence (mem_events i s)) batch) (\<lambda>_. check_groups s gs)"

definition mem_append_many :: "event_record list \<Rightarrow> (event_table, unit) act" where
  "mem_append_many evs s = (if evs = [] then (Inr (), s)
     else case check_groups s (group_events evs []) of
         Inl x \<Rightarrow> (Inl x, s)
       | Inr _ \<Rightarrow> (Inr (), foldl (\<lambda>s ev. mem_push ev s) s evs))"

definition mem_list :: "string \<Rightarrow> int \<Rightarrow> event_table \<Rightarrow> event_record list result" where
  "mem_list i after s = (if after < 0 then raise ValueError ''after_sequence cannot be negative''
     else Inr (filter (\<lambda>ev. after < er_sequence ev) (mem_events i s)))"

definition increasing :: "event_record list \<Rightarrow> bool" where
  "increasing es \<longleftrightarrow> sorted_wrt (\<lambda>a b. er_sequence a < er_sequence b) es
     \<and> list_all (\<lambda>a. 1 \<le> er_sequence a) es"

definition mem_wf :: "event_table \<Rightarrow> bool" where
  "mem_wf s \<longleftrightarrow> (\<forall>i. increasing (mem_events i s))"

lemma mem_events_push:
  "mem_events i (mem_push ev s) = mem_events i s @ (if i = er_of_execution ev then [ev] else [])"
  by (simp add: mem_push_def mem_events_def)

lemma increasing_last: "increasing es \<Longrightarrow> e \<in> set es \<Longrightarrow> er_sequence e \<le> er_sequence (last es)"
  by (induction es) (auto simp: increasing_def less_imp_le)

lemma increasing_snoc:
  "increasing es \<Longrightarrow> last_sequence es < er_sequence ev \<Longrightarrow> 1 \<le> er_sequence ev \<Longrightarrow> increasing (es @ [ev])"
  using increasing_last [of es]
  by (fastforce simp: increasing_def sorted_wrt_append last_sequence_def split: if_splits)

interpretation mem_log: event_log mem_append mem_list mem_events mem_wf
proof unfold_locales
  fix s ev u s'
  assume wf: "mem_wf s" and pos: "1 \<le> er_sequence ev" and eq: "mem_append ev s = (Inr u, s')"
  then have s': "s' = mem_push ev s" and new: "last_sequence (mem_events (er_of_execution ev) s) < er_sequence ev"
    using pos by (auto simp: mem_append_def last_sequence_def Let_def split: if_splits)
  show "mem_wf s' \<and> (\<forall>i. set (mem_events i s') =
      set (mem_events i s) \<union> (if i = er_of_execution ev then {ev} else {}))"
    using wf increasing_snoc [OF _ new pos] by (auto simp: mem_wf_def s' mem_events_push)
next
  fix s ev x s'
  assume "mem_wf s" "mem_append ev s = (Inl x, s')"
  then show "mem_wf s' \<and> (\<forall>i. mem_events i s' = mem_events i s)"
    by (auto simp: mem_append_def Let_def split: if_splits)
qed (auto simp: mem_wf_def increasing_def mem_list_def)

text \<open>A batch is stored as a whole, each execution's events in the order of the batch, or not at all.\<close>

lemma mem_events_group:
  "mem_events i (group_events evs g) = mem_events i g @ filter (\<lambda>ev. er_of_execution ev = i) evs"
  by (induction evs g rule: group_events.induct) (auto simp: mem_events_push)

lemma mem_events_pushes:
  "mem_events i (foldl (\<lambda>s ev. mem_push ev s) s evs) =
     mem_events i s @ filter (\<lambda>ev. er_of_execution ev = i) evs"
  by (induction evs arbitrary: s) (auto simp: mem_events_push)

lemma group_events_distinct: "distinct (map fst g) \<Longrightarrow> distinct (map fst (group_events evs g))"
  by (induction evs g rule: group_events.induct) (auto simp: mem_push_def distinct_dset)

lemma check_increasing_iff:
  "check_increasing p es = Inr () \<longleftrightarrow>
     sorted_wrt (\<lambda>a b. er_sequence a < er_sequence b) es \<and> list_all (\<lambda>e. p < er_sequence e) es"
  by (induction p es rule: check_increasing.induct) (auto simp: list_all_iff)

lemma check_groups_iff:
  "check_groups s gs = Inr () \<longleftrightarrow>
     (\<forall>(i, batch) \<in> set gs. check_increasing (last_sequence (mem_events i s)) batch = Inr ())"
  by (induction s gs rule: check_groups.induct) auto

lemma mem_append_many_ok:
  assumes "mem_append_many evs s = (Inr u, s')"
  shows "mem_events i s' = mem_events i s @ filter (\<lambda>ev. er_of_execution ev = i) evs"
  using assms by (auto simp: mem_append_many_def mem_events_pushes split: if_splits sum.splits)

lemma mem_append_many_wf:
  assumes "mem_append_many evs s = (Inr u, s')" "mem_wf s" "list_all (\<lambda>ev. 1 \<le> er_sequence ev) evs"
  shows "mem_wf s'"
proof (cases "evs = []")
  case False
  let ?g = "group_events evs []"
  have ok: "check_groups s ?g = Inr ()"
    using assms(1) False by (auto simp: mem_append_many_def split: sum.splits)
  have "increasing (mem_events i s')" for i
  proof -
    let ?b = "filter (\<lambda>ev. er_of_execution ev = i) evs"
    have b: "mem_events i ?g = ?b" by (simp add: mem_events_group) (simp add: mem_events_def)
    have "check_increasing (last_sequence (mem_events i s)) ?b = Inr ()"
    proof (cases "map_of ?g i")
      case (Some es)
      then have "es = ?b" "(i, es) \<in> set ?g" using b by (auto simp: mem_events_def dest: map_of_SomeD)
      with ok show ?thesis by (auto simp: check_groups_iff)
    qed (use b in \<open>simp add: mem_events_def\<close>)
    then have "sorted_wrt (\<lambda>a b. er_sequence a < er_sequence b) ?b"
        "list_all (\<lambda>e. last_sequence (mem_events i s) < er_sequence e) ?b"
      by (simp_all add: check_increasing_iff)
    moreover have inc: "increasing (mem_events i s)" using assms(2) by (simp add: mem_wf_def)
    ultimately show ?thesis
      using assms(3) increasing_last [OF inc]
      by (fastforce simp: mem_append_many_ok [OF assms(1)] increasing_def sorted_wrt_append
          list_all_iff last_sequence_def split: if_splits)
  qed
  then show ?thesis by (simp add: mem_wf_def)
qed (use assms in \<open>simp add: mem_append_many_def\<close>)

end
