(* ===== verification/Postgres.thy ===== *)
theory Postgres
  imports Stores
begin

text \<open>
  The PostgreSQL stores (\<^verbatim>\<open>persistence/postgres.py\<close>) over the rows of the tables, the persistence
  service with its transactions and its event sequences (\<^verbatim>\<open>persistence/service.py\<close>), and their
  refinement of the contracts of \<^verbatim>\<open>store.py\<close>.

  The database may refuse the changes at a flush and at a commit: \<open>pe_flush\<close> and \<open>pe_commit\<close> give the
  exception, if any, at the \<open>n\<close>-th such point.  An exception inside a transaction rolls it back.
\<close>

section \<open>Tables\<close>

record execution_row =
  xw_execution_id :: string
  xw_state :: string
  xw_status :: string
  xw_metadata :: pydict
  xw_error :: "string option"
  xw_error_type :: "string option"
  xw_created_at :: "time option"
  xw_started_at :: "time option"
  xw_completed_at :: "time option"

record database =
  db_executions :: "execution_row list"
  db_steps :: "(string \<times> step_record) list"
  db_results :: "result_record list"
  db_events :: "event_record list"

record pg_env =
  pe_flush :: "nat \<Rightarrow> exc option"
  pe_commit :: "nat \<Rightarrow> exc option"
  pe_parse_uuid :: "string \<Rightarrow> string result"
  pe_uuid :: "nat \<Rightarrow> string"
  pe_now :: "nat \<Rightarrow> time"

text \<open>The service's state besides the database: the event sequences it allocates from.\<close>

record service =
  sv_db :: database
  sv_tick :: nat
  sv_sequences :: "(string \<times> int) list"

definition new_service :: "database \<Rightarrow> service" where
  "new_service db = \<lparr>sv_db = db, sv_tick = 0, sv_sequences = []\<rparr>"

type_synonym 'a sv_act = "(service, 'a) act"

definition on_db :: "(database \<Rightarrow> database) \<Rightarrow> unit sv_act" where
  "on_db f = modify (\<lambda>s. s\<lparr>sv_db := f (sv_db s)\<rparr>)"

definition sv_tick_next :: "nat sv_act" where
  "sv_tick_next s = (Inr (sv_tick s), s\<lparr>sv_tick := sv_tick s + 1\<rparr>)"

definition flush :: "pg_env \<Rightarrow> unit sv_act" where
  "flush e = bnd sv_tick_next (\<lambda>n. case pe_flush e n of Some x \<Rightarrow> throw x | None \<Rightarrow> ret ())"

text \<open>\<open>async with session.begin()\<close>: roll back on an exception, else commit.\<close>

definition in_transaction :: "pg_env \<Rightarrow> 'a sv_act \<Rightarrow> 'a sv_act" where
  "in_transaction e m s = (case m s of
      (Inl x, s') \<Rightarrow> (Inl x, s'\<lparr>sv_db := sv_db s\<rparr>)
    | (Inr a, s') \<Rightarrow> (case pe_commit e (sv_tick s') of
        Some x \<Rightarrow> (Inl x, s'\<lparr>sv_db := sv_db s, sv_tick := sv_tick s' + 1\<rparr>)
      | None \<Rightarrow> (Inr a, s'\<lparr>sv_tick := sv_tick s' + 1\<rparr>)))"

section \<open>The execution store\<close>

definition to_row :: "execution_record \<Rightarrow> execution_row" where
  "to_row r = \<lparr>xw_execution_id = xr_execution_id r, xw_state = xr_state r, xw_status = xr_status r,
     xw_metadata = xr_metadata r, xw_error = xr_error r, xw_error_type = xr_error_type r,
     xw_created_at = xr_created_at r, xw_started_at = xr_started_at r,
     xw_completed_at = xr_completed_at r\<rparr>"

definition of_row :: "execution_row \<Rightarrow> step_record list \<Rightarrow> execution_record" where
  "of_row w steps = \<lparr>xr_execution_id = xw_execution_id w, xr_state = xw_state w,
     xr_status = xw_status w, xr_metadata = xw_metadata w, xr_error = xw_error w,
     xr_error_type = xw_error_type w, xr_created_at = xw_created_at w,
     xr_started_at = xw_started_at w, xr_completed_at = xw_completed_at w, xr_steps = steps\<rparr>"

definition find_row :: "string \<Rightarrow> database \<Rightarrow> execution_row option" where
  "find_row i db = find (\<lambda>w. xw_execution_id w = i) (db_executions db)"

text \<open>The steps of an execution in the order of the table.\<close>

definition steps_of :: "string \<Rightarrow> database \<Rightarrow> step_record list" where
  "steps_of i db = map snd (filter (\<lambda>(j, st). j = i) (db_steps db))"

definition pg_get :: "string \<Rightarrow> database \<Rightarrow> execution_record option" where
  "pg_get i db = (case find_row i db of
      None \<Rightarrow> None
    | Some w \<Rightarrow> Some (of_row w (sort_key sr_number (steps_of i db))))"

definition pg_create :: "pg_env \<Rightarrow> execution_record \<Rightarrow> unit sv_act" where
  "pg_create e r = bnd (gets (\<lambda>s. pg_get (xr_execution_id r) (sv_db s))) (\<lambda>existing.
     if existing \<noteq> None then throw (Exc ValueError (''Execution already exists: '' @ xr_execution_id r))
     else seq (on_db (\<lambda>db. db\<lparr>db_executions := db_executions db @ [to_row r],
            db_steps := db_steps db @ map (Pair (xr_execution_id r)) (xr_steps r)\<rparr>))
       (flush e))"

text \<open>
  A step whose identifier is among the existing ones of the execution is updated in place, another is
  added; rows whose identifier does not come in are deleted.
\<close>

definition put_step ::
  "string \<Rightarrow> string set \<Rightarrow> (string \<times> step_record) list \<Rightarrow> step_record \<Rightarrow> (string \<times> step_record) list" where
  "put_step i existing rows st =
     (if sr_step_id st \<in> existing
      then map (\<lambda>(j, old). if j = i \<and> sr_step_id old = sr_step_id st then (j, st) else (j, old)) rows
      else rows @ [(i, st)])"

definition sync_steps ::
  "string \<Rightarrow> step_record list \<Rightarrow> (string \<times> step_record) list \<Rightarrow> (string \<times> step_record) list" where
  "sync_steps i steps rows = (let existing = sr_step_id ` snd ` set (filter (\<lambda>(j, st). j = i) rows) in
     filter (\<lambda>(j, st). j \<noteq> i \<or> sr_step_id st \<in> sr_step_id ` set steps)
       (foldl (put_step i existing) rows steps))"

definition pg_update :: "pg_env \<Rightarrow> execution_record \<Rightarrow> unit sv_act" where
  "pg_update e r = bnd (gets (\<lambda>s. find_row (xr_execution_id r) (sv_db s))) (\<lambda>row.
     if row = None then throw (Exc ValueError (''Execution does not exist: '' @ xr_execution_id r))
     else seq (on_db (\<lambda>db. db\<lparr>
            db_executions := map (\<lambda>w. if xw_execution_id w = xr_execution_id r then to_row r else w)
              (db_executions db),
            db_steps := sync_steps (xr_execution_id r) (xr_steps r) (db_steps db)\<rparr>))
       (flush e))"

section \<open>Results and events\<close>

definition find_result :: "string \<Rightarrow> database \<Rightarrow> result_record option" where
  "find_result i db = find (\<lambda>r. rr_execution_id r = i) (db_results db)"

definition pg_save_result :: "pg_env \<Rightarrow> result_record \<Rightarrow> unit sv_act" where
  "pg_save_result e r = seq (on_db (\<lambda>db. case find_result (rr_execution_id r) db of
        None \<Rightarrow> db\<lparr>db_results := db_results db @ [r]\<rparr>
      | Some _ \<Rightarrow> db\<lparr>db_results := map (\<lambda>old. if rr_execution_id old = rr_execution_id r then r else old)
           (db_results db)\<rparr>))
     (flush e)"

definition events_of :: "string \<Rightarrow> database \<Rightarrow> event_record list" where
  "events_of i db = sort_key er_sequence (filter (\<lambda>ev. er_of_execution ev = i) (db_events db))"

definition pg_append :: "pg_env \<Rightarrow> event_record \<Rightarrow> unit sv_act" where
  "pg_append e ev = bnd (gets (\<lambda>s. find (\<lambda>x. er_of_execution x = er_of_execution ev
        \<and> er_sequence x = er_sequence ev) (db_events (sv_db s)))) (\<lambda>existing.
     if existing \<noteq> None then throw (Exc ValueError (''Execution event sequence already exists: ''
          @ er_of_execution ev @ '':'' @ int_str (er_sequence ev)))
     else seq (on_db (\<lambda>db. db\<lparr>db_events := db_events db @ [ev]\<rparr>)) (flush e))"

fun check_contiguous :: "string \<Rightarrow> int \<Rightarrow> event_record list \<Rightarrow> unit result" where
  "check_contiguous i expected [] = Inr ()"
| "check_contiguous i expected (ev # evs) =
     (if er_sequence ev \<noteq> expected then
        raise ValueError (''Event sequences must be contiguous for execution '' @ i @ '': expected ''
          @ int_str expected @ '', got '' @ int_str (er_sequence ev))
      else check_contiguous i (expected + 1) evs)"

text \<open>The groups in order, each sorted and checked against what is stored.\<close>

fun validate_batches :: "database \<Rightarrow> event_table \<Rightarrow> event_table result" where
  "validate_batches db [] = Inr []"
| "validate_batches db ((i, batch) # gs) = (let b = sort_key er_sequence batch in
     rbind (check_contiguous i (last_sequence (events_of i db) + 1) b) (\<lambda>_.
     rbind (validate_batches db gs) (\<lambda>vs. Inr ((i, b) # vs))))"

definition pg_append_many :: "pg_env \<Rightarrow> event_record list \<Rightarrow> unit sv_act" where
  "pg_append_many e evs = (if evs = [] then ret ()
     else bnd (gets (\<lambda>s. validate_batches (sv_db s) (group_events evs []))) (\<lambda>v. case v of
         Inl x \<Rightarrow> throw x
       | Inr vs \<Rightarrow> seq (on_db (\<lambda>db. db\<lparr>db_events := db_events db @ concat (map snd vs)\<rparr>)) (flush e)))"

definition pg_list :: "string \<Rightarrow> int \<Rightarrow> database \<Rightarrow> event_record list result" where
  "pg_list i after db = (if after < 0 then raise ValueError ''after_sequence cannot be negative''
     else Inr (filter (\<lambda>ev. after < er_sequence ev) (events_of i db)))"

section \<open>The service\<close>

definition sv_create_execution :: "pg_env \<Rightarrow> execution \<Rightarrow> unit sv_act" where
  "sv_create_execution e ex = in_transaction e (pg_create e (execution_to_record ex))"

definition sv_update_execution :: "pg_env \<Rightarrow> execution \<Rightarrow> unit sv_act" where
  "sv_update_execution e ex = in_transaction e (pg_update e (execution_to_record ex))"

definition sv_save_result :: "pg_env \<Rightarrow> execution_result \<Rightarrow> unit sv_act" where
  "sv_save_result e r = in_transaction e (pg_save_result e (result_to_record r))"

definition set_sequence :: "string \<Rightarrow> int \<Rightarrow> unit sv_act" where
  "set_sequence i n = modify (\<lambda>s. s\<lparr>sv_sequences := dset i n (sv_sequences s)\<rparr>)"

text \<open>
  The sequence of an execution is read from the database once and then counted up.  It is set inside
  the transaction, before the commit.
\<close>

definition sv_append_event :: "pg_env \<Rightarrow> agent_event \<Rightarrow> unit sv_act" where
  "sv_append_event e ev = bnd (lift_res (pe_parse_uuid e (ev_execution_id ev))) (\<lambda>i.
     in_transaction e (
       bnd (gets (\<lambda>s. (map_of (sv_sequences s) i, last_sequence (events_of i (sv_db s))))) (\<lambda>(known, last).
       seq (guarded (known = None) (set_sequence i last))
       (bnd (gets (\<lambda>s. the (map_of (sv_sequences s) i) + 1)) (\<lambda>n.
       bnd sv_tick_next (\<lambda>k.
       bnd (lift_res (event_to_record (pe_parse_uuid e) ev n (pe_uuid e k) (pe_now e k))) (\<lambda>r.
       seq (pg_append e r) (set_sequence i n))))))))"

definition sv_close_execution :: "string \<Rightarrow> unit sv_act" where
  "sv_close_execution i = modify (\<lambda>s. s\<lparr>sv_sequences := AList.delete i (sv_sequences s)\<rparr>)"

section \<open>Transactions\<close>

lemma transaction_rolled_back: "in_transaction e m s = (Inl x, s') \<Longrightarrow> sv_db s' = sv_db s"
  by (auto simp: in_transaction_def split: prod.splits sum.splits option.splits)

lemma transaction_committed:
  "in_transaction e m s = (Inr a, s') \<Longrightarrow>
     \<exists>t. m s = (Inr a, t) \<and> sv_db s' = sv_db t \<and> sv_sequences s' = sv_sequences t"
  by (auto simp: in_transaction_def split: prod.splits sum.splits option.splits)

lemma transaction_raises: "m s = (Inl x, t) \<Longrightarrow> fst (in_transaction e m s) = Inl x"
  by (simp add: in_transaction_def)

lemma on_db_flush: "seq (on_db f) (flush e) s = (Inr u, t) \<Longrightarrow> sv_db t = f (sv_db s) \<and> sv_sequences t = sv_sequences s"
  by (auto simp: seq_def bnd_def on_db_def modify_def flush_def sv_tick_next_def ret_def throw_def
      split: option.splits)

section \<open>The execution store refines its contract\<close>

definition db_wf :: "database \<Rightarrow> bool" where
  "db_wf db \<longleftrightarrow> distinct (map xw_execution_id (db_executions db))
     \<and> (\<forall>i. distinct (map sr_step_id (steps_of i db)) \<and> (find_row i db = None \<longrightarrow> steps_of i db = []))"

definition pg_storable :: "execution_record \<Rightarrow> bool" where
  "pg_storable r \<longleftrightarrow> distinct (map sr_step_id (xr_steps r)) \<and> distinct (map sr_number (xr_steps r))"

definition pg_norm :: "execution_record \<Rightarrow> execution_record" where
  "pg_norm r = r\<lparr>xr_steps := sort_key sr_number (xr_steps r)\<rparr>"

lemma of_to_row [simp]: "of_row (to_row r) steps = r\<lparr>xr_steps := steps\<rparr>"
  by (simp add: of_row_def to_row_def)

lemma to_row_id [simp]: "xw_execution_id (to_row r) = xr_execution_id r"
  by (simp add: to_row_def)

text \<open>The rows of one execution under an update, as a list of records.\<close>

definition put_record :: "string set \<Rightarrow> step_record list \<Rightarrow> step_record \<Rightarrow> step_record list" where
  "put_record existing xs st = (if sr_step_id st \<in> existing
     then map (\<lambda>old. if sr_step_id old = sr_step_id st then st else old) xs else xs @ [st])"

abbreviation rows_of :: "string \<Rightarrow> (string \<times> step_record) list \<Rightarrow> step_record list" where
  "rows_of i rows \<equiv> map snd (filter (\<lambda>(j, st). j = i) rows)"

lemma rows_of_map:
  "rows_of i (map (\<lambda>(j, old). if j = i \<and> P old then (j, st) else (j, old)) rows) =
     map (\<lambda>old. if P old then st else old) (rows_of i rows)"
  "i' \<noteq> i \<Longrightarrow> rows_of i' (map (\<lambda>(j, old). if j = i \<and> P old then (j, st) else (j, old)) rows) = rows_of i' rows"
  by (induction rows) (auto split: if_splits)

lemma rows_of_put:
  "rows_of i (put_step i ex rows st) = put_record ex (rows_of i rows) st"
  "i' \<noteq> i \<Longrightarrow> rows_of i' (put_step i ex rows st) = rows_of i' rows"
  by (simp_all add: put_step_def put_record_def rows_of_map)

lemma rows_of_puts:
  "rows_of i (foldl (put_step i ex) rows sts) = foldl (put_record ex) (rows_of i rows) sts"
  "i' \<noteq> i \<Longrightarrow> rows_of i' (foldl (put_step i ex) rows sts) = rows_of i' rows"
  by (induction sts arbitrary: rows) (simp_all add: rows_of_put)

text \<open>After the records \<open>sts\<close> are put, those among the rows with their identifiers are exactly they.\<close>

lemma put_records:
  assumes "distinct (map sr_step_id xs)" "distinct (map sr_step_id sts)"
    "ex = sr_step_id ` set xs"
  shows "distinct (map sr_step_id (foldl (put_record ex) xs sts))
    \<and> sr_step_id ` set (foldl (put_record ex) xs sts) = ex \<union> sr_step_id ` set sts
    \<and> {x \<in> set (foldl (put_record ex) xs sts). sr_step_id x \<in> sr_step_id ` set sts} = set sts"
  using assms
proof (induction sts rule: rev_induct)
  case (snoc st sts)
  let ?ys = "foldl (put_record ex) xs sts"
  have ih: "distinct (map sr_step_id ?ys)" "sr_step_id ` set ?ys = ex \<union> sr_step_id ` set sts"
      "{x \<in> set ?ys. sr_step_id x \<in> sr_step_id ` set sts} = set sts"
    using snoc by simp_all
  have new: "sr_step_id st \<notin> sr_step_id ` set sts" using snoc.prems(2) by auto
  show ?case
  proof (cases "sr_step_id st \<in> ex")
    case True
    let ?zs = "map (\<lambda>old. if sr_step_id old = sr_step_id st then st else old) ?ys"
    have ids: "map sr_step_id ?zs = map sr_step_id ?ys" by (simp add: comp_def)
    have "sr_step_id st \<in> sr_step_id ` set ?ys" using True ih(2) by simp
    then have mem: "st \<in> set ?zs" by (force simp: image_iff)
    have "{x \<in> set ?zs. sr_step_id x \<in> sr_step_id ` set (sts @ [st])} = set (sts @ [st])"
    proof (intro set_eqI iffI)
      fix x assume "x \<in> {x \<in> set ?zs. sr_step_id x \<in> sr_step_id ` set (sts @ [st])}"
      then obtain y where y: "y \<in> set ?ys" "x = (if sr_step_id y = sr_step_id st then st else y)"
          "sr_step_id x \<in> sr_step_id ` set (sts @ [st])" by auto
      then show "x \<in> set (sts @ [st])" using ih(3) by (auto split: if_splits)
    next
      fix x assume x: "x \<in> set (sts @ [st])"
      have "x \<in> set ?ys" "sr_step_id x \<noteq> sr_step_id st" if "x \<in> set sts"
        using that ih(3) new by (blast, metis imageI)
      then have "x = st \<or> x \<in> set ?ys \<and> sr_step_id x \<noteq> sr_step_id st"
        using x by auto
      with x mem show "x \<in> {x \<in> set ?zs. sr_step_id x \<in> sr_step_id ` set (sts @ [st])}"
        by (force simp: image_iff)
    qed
    moreover have "sr_step_id ` set ?zs = sr_step_id ` set ?ys"
      by (simp only: set_map [symmetric] ids)
    moreover have "foldl (put_record ex) xs (sts @ [st]) = ?zs"
      using True by (simp add: put_record_def)
    moreover have "distinct (map sr_step_id ?zs)" using ih(1) by (simp only: ids)
    moreover have "ex \<union> sr_step_id ` set sts = ex \<union> sr_step_id ` set (sts @ [st])"
      using True by auto
    ultimately show ?thesis using ih(2) by (simp only:)
  next
    case False
    then have "sr_step_id st \<notin> sr_step_id ` set ?ys" using ih(2) new by simp
    moreover have "foldl (put_record ex) xs (sts @ [st]) = ?ys @ [st]"
      using False by (simp add: put_record_def [of ex ?ys st])
    moreover have "{x \<in> set (?ys @ [st]). sr_step_id x \<in> sr_step_id ` set (sts @ [st])} = set (sts @ [st])"
    proof -
      have "\<forall>x \<in> set ?ys. sr_step_id x \<noteq> sr_step_id st"
        using \<open>sr_step_id st \<notin> sr_step_id ` set ?ys\<close> by (metis imageI)
      with ih(3) show ?thesis by auto
    qed
    ultimately show ?thesis using ih(1,2) by (simp only:) auto
  qed
qed auto

lemma sync_steps_rows:
  assumes "distinct (map sr_step_id (rows_of i rows))" "distinct (map sr_step_id sts)"
  shows "set (rows_of i (sync_steps i sts rows)) = set sts
    \<and> distinct (map sr_step_id (rows_of i (sync_steps i sts rows)))"
    "i' \<noteq> i \<Longrightarrow> rows_of i' (sync_steps i sts rows) = rows_of i' rows"
proof -
  let ?ex = "sr_step_id ` snd ` set (filter (\<lambda>(j, st). j = i) rows)"
  have filt: "rows_of k (filter (\<lambda>(j, st). j \<noteq> i \<or> P st) r) =
      (if k = i then filter P (rows_of i r) else rows_of k r)" for k P r
    by (induction r) auto
  have p: "distinct (map sr_step_id (foldl (put_record ?ex) (rows_of i rows) sts))"
      "{x \<in> set (foldl (put_record ?ex) (rows_of i rows) sts). sr_step_id x \<in> sr_step_id ` set sts} = set sts"
    using put_records [OF assms, of ?ex] by (simp_all add: image_image)
  show "set (rows_of i (sync_steps i sts rows)) = set sts
    \<and> distinct (map sr_step_id (rows_of i (sync_steps i sts rows)))"
    unfolding sync_steps_def Let_def filt rows_of_puts
    using p by (simp add: distinct_map_filter)
  show "i' \<noteq> i \<Longrightarrow> rows_of i' (sync_steps i sts rows) = rows_of i' rows"
    unfolding sync_steps_def Let_def filt rows_of_puts by (simp add: rows_of_puts)
qed

lemma sort_key_set_eq:
  fixes f :: "'a \<Rightarrow> 'k::linorder"
  assumes "distinct xs" "distinct ys" "set xs = set ys" "inj_on f (set ys)"
  shows "sort_key f xs = sort_key f ys"
  by (rule map_sorted_distinct_set_unique [of f]) (use assms in \<open>auto simp: distinct_map\<close>)

lemma rows_eq_steps_of: "rows_of i (db_steps db) = steps_of i db"
  by (simp add: steps_of_def)

lemma find_append_single: "find P (xs @ [x]) = (case find P xs of Some y \<Rightarrow> Some y | None \<Rightarrow> if P x then Some x else None)"
  by (induction xs) auto

lemma find_map_replace:
  "find (\<lambda>w. f w = j) (map (\<lambda>w. if f w = f r then r else w) xs) =
     (if j = f r then map_option (\<lambda>_. r) (find (\<lambda>w. f w = j) xs) else find (\<lambda>w. f w = j) xs)"
  by (induction xs) auto

lemma create_refines:
  assumes "db_wf db" "pg_storable r" "pg_get (xr_execution_id r) db = None"
    and db': "db' = db\<lparr>db_executions := db_executions db @ [to_row r],
            db_steps := db_steps db @ map (Pair (xr_execution_id r)) (xr_steps r)\<rparr>"
  shows "db_wf db' \<and> (\<forall>i. pg_get i db' = (if i = xr_execution_id r then Some (pg_norm r) else pg_get i db))"
proof -
  let ?i = "xr_execution_id r"
  have none: "find_row ?i db = None" using assms(3) by (auto simp: pg_get_def split: option.splits)
  then have empty: "steps_of ?i db = []" using assms(1) by (simp add: db_wf_def)
  have rows: "find_row j db' = (if j = ?i then Some (to_row r) else find_row j db)" for j
    using none by (auto simp: db' find_row_def find_append_single split: option.splits)
  have pairs: "filter (\<lambda>(j, st). j = k) (map (Pair ?i) sts) = (if k = ?i then map (Pair ?i) sts else [])" for k sts
    by (induction sts) auto
  have steps: "steps_of j db' = (if j = ?i then xr_steps r else steps_of j db)" for j
    using empty by (auto simp: db' steps_of_def pairs comp_def)
  have "?i \<notin> xw_execution_id ` set (db_executions db)"
    using none by (auto simp: find_row_def find_None_iff)
  then have "db_wf db'"
    using assms(1,2) rows steps by (auto simp: db_wf_def pg_storable_def) (auto simp: db')
  then show ?thesis
    using rows steps by (simp add: pg_get_def pg_norm_def cong: option.case_cong)
qed

lemma update_refines:
  assumes "db_wf db" "pg_storable r" "find_row (xr_execution_id r) db \<noteq> None"
    and db': "db' = db\<lparr>
            db_executions := map (\<lambda>w. if xw_execution_id w = xr_execution_id r then to_row r else w)
              (db_executions db),
            db_steps := sync_steps (xr_execution_id r) (xr_steps r) (db_steps db)\<rparr>"
  shows "db_wf db' \<and> (\<forall>i. pg_get i db' = (if i = xr_execution_id r then Some (pg_norm r) else pg_get i db))"
proof -
  let ?i = "xr_execution_id r"
  have rows: "find_row j db' = (if j = ?i then Some (to_row r) else find_row j db)" for j
    using assms(3) find_map_replace [of xw_execution_id j "to_row r" "db_executions db"]
    by (auto simp: db' find_row_def)
  have d: "distinct (map sr_step_id (rows_of ?i (db_steps db)))" "distinct (map sr_step_id (xr_steps r))"
    using assms(1,2) by (auto simp: db_wf_def pg_storable_def rows_eq_steps_of)
  have steps: "set (steps_of ?i db') = set (xr_steps r)" "distinct (map sr_step_id (steps_of ?i db'))"
      "j \<noteq> ?i \<Longrightarrow> steps_of j db' = steps_of j db" for j
    using sync_steps_rows [OF d] by (simp_all add: db' steps_of_def)
  have "map xw_execution_id (db_executions db') = map xw_execution_id (db_executions db)"
    by (simp add: db' comp_def)
  then have wf: "db_wf db'"
    unfolding db_wf_def using assms(1) steps(2,3) rows by (metis db_wf_def option.distinct(1))
  have "sort_key sr_number (steps_of ?i db') = sort_key sr_number (xr_steps r)"
    by (rule sort_key_set_eq) (use steps assms(2) in \<open>auto simp: pg_storable_def distinct_map\<close>)
  then show ?thesis
    using wf rows steps(3) assms(3) by (simp add: pg_get_def pg_norm_def cong: option.case_cong)
qed

lemma pg_create_Inr:
  "pg_create e r s = (Inr u, t) \<Longrightarrow> pg_get (xr_execution_id r) (sv_db s) = None
    \<and> sv_db t = (sv_db s)\<lparr>db_executions := db_executions (sv_db s) @ [to_row r],
        db_steps := db_steps (sv_db s) @ map (Pair (xr_execution_id r)) (xr_steps r)\<rparr>"
  by (auto simp: pg_create_def bnd_def gets_def throw_def split: if_splits dest!: on_db_flush)

lemma pg_update_Inr:
  "pg_update e r s = (Inr u, t) \<Longrightarrow> find_row (xr_execution_id r) (sv_db s) \<noteq> None
    \<and> sv_db t = (sv_db s)\<lparr>
        db_executions := map (\<lambda>w. if xw_execution_id w = xr_execution_id r then to_row r else w)
          (db_executions (sv_db s)),
        db_steps := sync_steps (xr_execution_id r) (xr_steps r) (db_steps (sv_db s))\<rparr>"
  by (auto simp: pg_update_def bnd_def gets_def throw_def split: if_splits dest!: on_db_flush)

interpretation pg_executions: execution_store
  "\<lambda>r. in_transaction e (pg_create e r)" "\<lambda>r. in_transaction e (pg_update e r)"
  "\<lambda>i s. pg_get i (sv_db s)" "\<lambda>s. db_wf (sv_db s)" pg_storable pg_norm for e
proof unfold_locales
  fix s s' :: service and r :: execution_record and u
  assume a: "db_wf (sv_db s)" "pg_storable r" "in_transaction e (pg_create e r) s = (Inr u, s')"
  obtain t where t: "pg_create e r s = (Inr u, t)" "sv_db s' = sv_db t"
    using transaction_committed [OF a(3)] by blast
  show "pg_get (xr_execution_id r) (sv_db s) = None \<and> (\<forall>i. pg_get i (sv_db s') =
      (if i = xr_execution_id r then Some (pg_norm r) else pg_get i (sv_db s))) \<and> db_wf (sv_db s')"
    using pg_create_Inr [OF t(1)] create_refines [OF a(1,2), of "sv_db s'"] t(2) by simp
next
  fix s s' :: service and r :: execution_record and u
  assume a: "db_wf (sv_db s)" "pg_storable r" "in_transaction e (pg_update e r) s = (Inr u, s')"
  obtain t where t: "pg_update e r s = (Inr u, t)" "sv_db s' = sv_db t"
    using transaction_committed [OF a(3)] by blast
  have "find_row (xr_execution_id r) (sv_db s) \<noteq> None" using pg_update_Inr [OF t(1)] by simp
  moreover from this have "pg_get (xr_execution_id r) (sv_db s) \<noteq> None"
    by (auto simp: pg_get_def)
  ultimately show "pg_get (xr_execution_id r) (sv_db s) \<noteq> None \<and> (\<forall>i. pg_get i (sv_db s') =
      (if i = xr_execution_id r then Some (pg_norm r) else pg_get i (sv_db s))) \<and> db_wf (sv_db s')"
    using pg_update_Inr [OF t(1)] update_refines [OF a(1,2), of "sv_db s'"] t(2) by simp
next
  fix s :: service and r :: execution_record
  assume a: "db_wf (sv_db s)" "pg_get (xr_execution_id r) (sv_db s) \<noteq> None"
  then show "\<exists>msg. fst (in_transaction e (pg_create e r) s) = raise ValueError msg"
    by (simp add: pg_create_def bnd_def gets_def throw_def in_transaction_def)
next
  fix s :: service and r :: execution_record
  assume a: "db_wf (sv_db s)" "pg_get (xr_execution_id r) (sv_db s) = None"
  then have "find_row (xr_execution_id r) (sv_db s) = None" by (simp add: pg_get_def split: option.splits)
  then show "\<exists>msg. fst (in_transaction e (pg_update e r) s) = raise ValueError msg"
    by (simp add: pg_update_def bnd_def gets_def throw_def in_transaction_def)
qed (auto dest: transaction_rolled_back)

section \<open>The event store refines its contract\<close>

definition ev_wf :: "database \<Rightarrow> bool" where
  "ev_wf db \<longleftrightarrow> (\<forall>i. distinct (map er_sequence (filter (\<lambda>ev. er_of_execution ev = i) (db_events db))))
     \<and> list_all (\<lambda>ev. 1 \<le> er_sequence ev) (db_events db)"

lemma set_events_of [simp]: "set (events_of i db) = {ev \<in> set (db_events db). er_of_execution ev = i}"
  by (simp add: events_of_def)

lemma distinct_events_of: "ev_wf db \<Longrightarrow> distinct (map er_sequence (events_of i db))"
  by (simp add: ev_wf_def events_of_def distinct_map)

lemma sorted_events: "sorted (map er_sequence (events_of i db))"
  by (simp add: events_of_def)

lemma sorted_events_of: "ev_wf db \<Longrightarrow> sorted_wrt (\<lambda>a b. er_sequence a < er_sequence b) (events_of i db)"
  using distinct_events_of [of db i] strict_sorted_iff [of "map er_sequence (events_of i db)"]
    sorted_events [of i db] by (simp add: sorted_wrt_map)

lemma ev_wf_append:
  assumes "ev_wf db" "1 \<le> er_sequence ev"
    "find (\<lambda>x. er_of_execution x = er_of_execution ev \<and> er_sequence x = er_sequence ev) (db_events db) = None"
  shows "ev_wf (db\<lparr>db_events := db_events db @ [ev]\<rparr>)"
  using assms by (auto simp: ev_wf_def find_None_iff)

lemma pg_append_Inr:
  "pg_append e ev s = (Inr u, t) \<Longrightarrow>
     find (\<lambda>x. er_of_execution x = er_of_execution ev \<and> er_sequence x = er_sequence ev) (db_events (sv_db s)) = None
     \<and> sv_db t = (sv_db s)\<lparr>db_events := db_events (sv_db s) @ [ev]\<rparr> \<and> sv_sequences t = sv_sequences s"
  by (auto simp: pg_append_def bnd_def gets_def throw_def split: if_splits dest!: on_db_flush)

interpretation pg_log: event_log "\<lambda>ev. in_transaction e (pg_append e ev)" "\<lambda>i k s. pg_list i k (sv_db s)"
  "\<lambda>i s. events_of i (sv_db s)" "\<lambda>s. ev_wf (sv_db s)" for e
proof unfold_locales
  fix s s' :: service and ev :: event_record and u
  assume a: "ev_wf (sv_db s)" "1 \<le> er_sequence ev" "in_transaction e (pg_append e ev) s = (Inr u, s')"
  obtain t where t: "pg_append e ev s = (Inr u, t)" "sv_db s' = sv_db t"
    using transaction_committed [OF a(3)] by blast
  show "ev_wf (sv_db s') \<and> (\<forall>i. set (events_of i (sv_db s')) =
      set (events_of i (sv_db s)) \<union> (if i = er_of_execution ev then {ev} else {}))"
    using pg_append_Inr [OF t(1)] ev_wf_append [OF a(1,2)] t(2) by auto
next
  fix s :: service and i
  assume "ev_wf (sv_db s)"
  then show "list_all (\<lambda>a. 1 \<le> er_sequence a) (events_of i (sv_db s))"
    by (simp add: ev_wf_def list_all_iff)
qed (auto simp: sorted_events_of pg_list_def dest: transaction_rolled_back)

section \<open>Contiguous event sequences\<close>

definition contiguous :: "event_record list \<Rightarrow> bool" where
  "contiguous es \<longleftrightarrow> map er_sequence es = [1..int (length es)]"

lemma contiguous_last: "contiguous es \<Longrightarrow> last_sequence es = int (length es)"
proof (cases "es = []")
  case False
  assume "contiguous es"
  then have "last (map er_sequence es) = last [1..int (length es)]" by (simp add: contiguous_def)
  moreover have "last [1..int (length es)] = int (length es)"
    using False by (cases "length es") (simp_all add: upto_rec2)
  ultimately show ?thesis using False by (simp add: last_sequence_def last_map)
qed (simp add: last_sequence_def)

lemma contiguous_snoc: "contiguous es \<Longrightarrow> er_sequence ev = int (length es) + 1 \<Longrightarrow> contiguous (es @ [ev])"
  by (simp add: contiguous_def upto_rec2)

lemma events_of_append:
  assumes "ev_wf (db\<lparr>db_events := db_events db @ [ev]\<rparr>)" "ev_wf db"
    "\<forall>x \<in> set (events_of (er_of_execution ev) db). er_sequence x < er_sequence ev"
  shows "events_of i (db\<lparr>db_events := db_events db @ [ev]\<rparr>) =
    events_of i db @ (if i = er_of_execution ev then [ev] else [])"
proof (cases "i = er_of_execution ev")
  case True
  let ?db = "db\<lparr>db_events := db_events db @ [ev]\<rparr>"
  have "events_of i ?db = events_of i db @ [ev]"
  proof (rule map_sorted_distinct_set_unique)
    show "inj_on er_sequence (set (events_of i ?db) \<union> set (events_of i db @ [ev]))"
      using distinct_events_of [OF assms(1), of i] True by (auto simp: distinct_map inj_on_def)
    show "sorted (map er_sequence (events_of i db @ [ev]))"
      using sorted_events [of i db] assms(3) True by (auto simp: sorted_append less_imp_le)
    show "distinct (map er_sequence (events_of i db @ [ev]))"
      using distinct_events_of [OF assms(2)] assms(3) True by auto
    show "distinct (map er_sequence (events_of i ?db))"
      by (rule distinct_events_of [OF assms(1)])
    show "sorted (map er_sequence (events_of i ?db))"
      by (rule sorted_events)
    show "set (events_of i ?db) = set (events_of i db @ [ev])"
      using True by auto
  qed
  with True show ?thesis by simp
next
  case False
  then show ?thesis by (simp add: events_of_def)
qed

text \<open>The consistency of the service: contiguous events, and sequences that agree with them.\<close>

definition sv_inv :: "service \<Rightarrow> bool" where
  "sv_inv s \<longleftrightarrow> ev_wf (sv_db s) \<and> (\<forall>i. contiguous (events_of i (sv_db s))
     \<and> (\<forall>n. map_of (sv_sequences s) i = Some n \<longrightarrow> n = int (length (events_of i (sv_db s)))))"

lemma new_service_inv: "db_events db = [] \<Longrightarrow> sv_inv (new_service db)"
  by (simp add: sv_inv_def new_service_def ev_wf_def events_of_def contiguous_def)

text \<open>What an append does, committed or not.\<close>

definition append_body :: "pg_env \<Rightarrow> agent_event \<Rightarrow> string \<Rightarrow> unit sv_act" where
  "append_body e ev i =
       bnd (gets (\<lambda>s. (map_of (sv_sequences s) i, last_sequence (events_of i (sv_db s))))) (\<lambda>(known, last).
       seq (guarded (known = None) (set_sequence i last))
       (bnd (gets (\<lambda>s. the (map_of (sv_sequences s) i) + 1)) (\<lambda>n.
       bnd sv_tick_next (\<lambda>k.
       bnd (lift_res (event_to_record (pe_parse_uuid e) ev n (pe_uuid e k) (pe_now e k))) (\<lambda>r.
       seq (pg_append e r) (set_sequence i n))))))"

lemma append_unfold:
  "sv_append_event e ev = bnd (lift_res (pe_parse_uuid e (ev_execution_id ev)))
     (\<lambda>i. in_transaction e (append_body e ev i))"
  by (simp add: sv_append_event_def append_body_def)

lemma wp_set_sequence [wp]:
  "wp (set_sequence i n) Q E s = Q () (s\<lparr>sv_sequences := dset i n (sv_sequences s)\<rparr>)"
  by (simp add: set_sequence_def wp)

lemma wp_sv_tick_next [wp]: "wp sv_tick_next Q E s = Q (sv_tick s) (s\<lparr>sv_tick := sv_tick s + 1\<rparr>)"
  by (simp add: sv_tick_next_def wp_def)

lemma wp_pg_append:
  assumes "\<And>t. sv_db t = (sv_db s)\<lparr>db_events := db_events (sv_db s) @ [ev]\<rparr> \<Longrightarrow>
      sv_sequences t = sv_sequences s \<Longrightarrow>
      find (\<lambda>x. er_of_execution x = er_of_execution ev \<and> er_sequence x = er_sequence ev) (db_events (sv_db s)) = None \<Longrightarrow> Q () t"
    and "\<And>x t. sv_sequences t = sv_sequences s \<Longrightarrow> E x t"
  shows "wp (pg_append e ev) Q E s"
  using assms
  by (auto simp: wp_def pg_append_def bnd_def gets_def throw_def seq_def on_db_def modify_def flush_def
      sv_tick_next_def ret_def split: option.splits)

text \<open>The number of the next event: what the service has noted, or what the database says.\<close>

definition next_sequence :: "string \<Rightarrow> service \<Rightarrow> int" where
  "next_sequence i s = (case map_of (sv_sequences s) i of
      Some n \<Rightarrow> n | None \<Rightarrow> last_sequence (events_of i (sv_db s))) + 1"

definition agrees :: "string \<Rightarrow> service \<Rightarrow> service \<Rightarrow> bool" where
  "agrees i s t \<longleftrightarrow> (\<forall>j. j \<noteq> i \<longrightarrow> map_of (sv_sequences t) j = map_of (sv_sequences s) j)"

definition next_record :: "pg_env \<Rightarrow> agent_event \<Rightarrow> string \<Rightarrow> service \<Rightarrow> event_record" where
  "next_record e ev i s = \<lparr>er_event_id = pe_uuid e (sv_tick s), er_of_execution = i,
     er_sequence = next_sequence i s, er_type = ev_type ev, er_data = ev_data ev,
     er_recorded_at = Some (pe_now e (sv_tick s))\<rparr>"

lemma append_body_spec:
  assumes "pe_parse_uuid e (ev_execution_id ev) = Inr i"
  shows "wp (append_body e ev i)
    (\<lambda>_ t. sv_db t = (sv_db s)\<lparr>db_events := db_events (sv_db s) @ [next_record e ev i s]\<rparr>
       \<and> 1 \<le> next_sequence i s
       \<and> find (\<lambda>x. er_of_execution x = i \<and> er_sequence x = next_sequence i s) (db_events (sv_db s)) = None
       \<and> map_of (sv_sequences t) i = Some (next_sequence i s) \<and> agrees i s t)
    (\<lambda>_ t. map_of (sv_sequences t) i = Some (next_sequence i s - 1) \<and> agrees i s t) s"
  using assms
  by (cases "map_of (sv_sequences s) i")
     (auto simp: append_body_def wp event_to_record_def new_event_record_def next_sequence_def agrees_def
        next_record_def split: if_splits intro!: wp_pg_append)

text \<open>
  The outcomes of an append: stored under the next number, or not stored.  An append refused at the
  commit has already moved the service's number on.
\<close>

lemma append_event_cases:
  assumes "pe_parse_uuid e (ev_execution_id ev) = Inr i" "sv_append_event e ev s = (r, t)"
  shows "r = Inr () \<and> sv_db t = (sv_db s)\<lparr>db_events := db_events (sv_db s) @ [next_record e ev i s]\<rparr>
      \<and> 1 \<le> next_sequence i s
      \<and> find (\<lambda>x. er_of_execution x = i \<and> er_sequence x = next_sequence i s) (db_events (sv_db s)) = None
      \<and> map_of (sv_sequences t) i = Some (next_sequence i s) \<and> agrees i s t
    \<or> (\<exists>x. r = Inl x) \<and> sv_db t = sv_db s \<and> agrees i s t
      \<and> (map_of (sv_sequences t) i = Some (next_sequence i s - 1)
         \<or> map_of (sv_sequences t) i = Some (next_sequence i s) \<and> (\<exists>n x. pe_commit e n = Some x))"
proof -
  have eq: "in_transaction e (append_body e ev i) s = (r, t)"
    using assms by (simp add: append_unfold bnd_def lift_res_def)
  obtain r1 t1 where b: "append_body e ev i s = (r1, t1)" by fastforce
  have spec: "wp (append_body e ev i)
    (\<lambda>_ t. sv_db t = (sv_db s)\<lparr>db_events := db_events (sv_db s) @ [next_record e ev i s]\<rparr>
       \<and> 1 \<le> next_sequence i s
       \<and> find (\<lambda>x. er_of_execution x = i \<and> er_sequence x = next_sequence i s) (db_events (sv_db s)) = None
       \<and> map_of (sv_sequences t) i = Some (next_sequence i s) \<and> agrees i s t)
    (\<lambda>_ t. map_of (sv_sequences t) i = Some (next_sequence i s - 1) \<and> agrees i s t) s"
    by (rule append_body_spec [OF assms(1)])
  show ?thesis
  proof (cases r1)
    case (Inl x)
    with spec b eq show ?thesis by (auto simp: wp_def in_transaction_def agrees_def)
  next
    case (Inr u)
    with spec b eq show ?thesis
      by (auto simp: wp_def in_transaction_def agrees_def split: option.splits)
  qed
qed

lemma sv_inv_next: "sv_inv s \<Longrightarrow> next_sequence i s = int (length (events_of i (sv_db s))) + 1"
  by (auto simp: sv_inv_def next_sequence_def contiguous_last split: option.splits)

lemma next_record_simps [simp]:
  "er_of_execution (next_record e ev i s) = i" "er_sequence (next_record e ev i s) = next_sequence i s"
  by (simp_all add: next_record_def)

lemma append_event_inv:
  assumes "sv_inv s" "\<And>n. pe_commit e n = None" "sv_append_event e ev s = (r, t)"
  shows "sv_inv t \<and> (\<forall>i. events_of i (sv_db t) = events_of i (sv_db s) @
      (if pe_parse_uuid e (ev_execution_id ev) = Inr i \<and> r = Inr () then [next_record e ev i s] else []))"
proof (cases "pe_parse_uuid e (ev_execution_id ev)")
  case (Inl x)
  with assms show ?thesis by (auto simp: append_unfold bnd_def lift_res_def)
next
  case (Inr i)
  let ?rec = "next_record e ev i s"
  note cs = append_event_cases [OF Inr assms(3)]
  have len: "next_sequence i s = int (length (events_of i (sv_db s))) + 1"
    by (rule sv_inv_next [OF assms(1)])
  show ?thesis
  proof (cases r)
    case (Inl x)
    with cs assms(2) have t: "sv_db t = sv_db s" "map_of (sv_sequences t) i = Some (next_sequence i s - 1)"
        "agrees i s t" by auto
    have "map_of (sv_sequences t) j = Some n \<Longrightarrow> n = int (length (events_of j (sv_db s)))" for j n
      using t(2,3) len assms(1) by (cases "j = i") (auto simp: agrees_def sv_inv_def)
    with t(1) assms(1) Inl show ?thesis by (simp add: sv_inv_def)
  next
    case r: (Inr u)
    with cs have t: "sv_db t = (sv_db s)\<lparr>db_events := db_events (sv_db s) @ [?rec]\<rparr>"
        "1 \<le> next_sequence i s"
        "find (\<lambda>x. er_of_execution x = i \<and> er_sequence x = next_sequence i s) (db_events (sv_db s)) = None"
        "map_of (sv_sequences t) i = Some (next_sequence i s)" "agrees i s t" by auto
    have wf0: "ev_wf (sv_db s)" and con: "contiguous (events_of j (sv_db s))" for j
      using assms(1) by (auto simp: sv_inv_def)
    have wf: "ev_wf (sv_db t)"
      unfolding t(1) by (rule ev_wf_append [OF wf0]) (use t(2,3) in simp_all)
    have below: "\<forall>x \<in> set (events_of i (sv_db s)). er_sequence x < next_sequence i s"
    proof
      fix x assume "x \<in> set (events_of i (sv_db s))"
      then have "er_sequence x \<in> set (map er_sequence (events_of i (sv_db s)))" by simp
      then have "er_sequence x \<in> set [1..int (length (events_of i (sv_db s)))]"
        using con [of i] by (simp only: contiguous_def)
      then show "er_sequence x < next_sequence i s" using len by simp
    qed
    have ev: "events_of j (sv_db t) = events_of j (sv_db s) @ (if j = i then [?rec] else [])" for j
      unfolding t(1)
      using events_of_append [of "sv_db s" ?rec j] wf wf0 below unfolding t(1) by simp
    have "contiguous (events_of j (sv_db t))" for j
      using con [of j] contiguous_snoc [of "events_of i (sv_db s)" ?rec] len by (auto simp: ev)
    moreover have "map_of (sv_sequences t) j = Some n \<Longrightarrow> n = int (length (events_of j (sv_db t)))" for j n
      using t(4,5) len assms(1) by (cases "j = i") (auto simp: agrees_def sv_inv_def ev)
    ultimately show ?thesis using wf ev Inr r by (auto simp: sv_inv_def)
  qed
qed

section \<open>Any use of the service\<close>

datatype sv_op =
    Sv_create execution
  | Sv_update execution
  | Sv_append agent_event
  | Sv_result execution_result
  | Sv_close string

fun sv_apply :: "pg_env \<Rightarrow> sv_op \<Rightarrow> unit sv_act" where
  "sv_apply e (Sv_create ex) = sv_create_execution e ex"
| "sv_apply e (Sv_update ex) = sv_update_execution e ex"
| "sv_apply e (Sv_append ev) = sv_append_event e ev"
| "sv_apply e (Sv_result r) = sv_save_result e r"
| "sv_apply e (Sv_close i) = sv_close_execution i"

fun sv_run :: "pg_env \<Rightarrow> sv_op list \<Rightarrow> service \<Rightarrow> service" where
  "sv_run e [] s = s"
| "sv_run e (op # ops) s = sv_run e ops (snd (sv_apply e op s))"

text \<open>The snapshots and results do not touch the events.\<close>

definition same_events :: "service \<Rightarrow> service \<Rightarrow> bool" where
  "same_events s t \<longleftrightarrow> db_events (sv_db t) = db_events (sv_db s) \<and> sv_sequences t = sv_sequences s"

interpretation no_events: kept same_events
  by unfold_locales (simp_all add: same_events_def)

lemma no_events_flush: "no_events.keeps (flush e)"
  by (auto simp: flush_def sv_tick_next_def no_events.keeps_def bnd_def ret_def throw_def same_events_def
      split: option.splits)

lemma no_events_transaction: "no_events.keeps m \<Longrightarrow> no_events.keeps (in_transaction e m)"
  by (auto simp: no_events.keeps_def in_transaction_def same_events_def
      split: prod.splits sum.splits option.splits) (metis snd_conv)+

lemma no_events_snapshots:
  "no_events.keeps (sv_create_execution e ex)" "no_events.keeps (sv_update_execution e ex)"
  "no_events.keeps (sv_save_result e r)"
  by (auto simp: sv_create_execution_def sv_update_execution_def sv_save_result_def pg_create_def
      pg_update_def pg_save_result_def on_db_def same_events_def split: option.splits
      intro!: no_events_transaction no_events.keeps_rules no_events.keeps_modify no_events_flush)

lemma same_events_inv: "same_events s t \<Longrightarrow> sv_inv s \<Longrightarrow> sv_inv t"
  by (simp add: same_events_def sv_inv_def ev_wf_def events_of_def)

lemma sv_apply_inv:
  assumes "sv_inv s" "\<And>n. pe_commit e n = None"
  shows "sv_inv (snd (sv_apply e op s))"
proof (cases op)
  case (Sv_append ev)
  then show ?thesis
    using append_event_inv [OF assms, of ev] by (cases "sv_append_event e ev s") auto
next
  case (Sv_close i)
  then show ?thesis
    using assms(1) by (auto simp: sv_close_execution_def modify_def sv_inv_def delete_conv')
next
  case (Sv_create ex)
  then show ?thesis
    using same_events_inv [OF no_events.keepsD [OF no_events_snapshots(1)] assms(1)] by simp
next
  case (Sv_update ex)
  then show ?thesis
    using same_events_inv [OF no_events.keepsD [OF no_events_snapshots(2)] assms(1)] by simp
next
  case (Sv_result r)
  then show ?thesis
    using same_events_inv [OF no_events.keepsD [OF no_events_snapshots(3)] assms(1)] by simp
qed

lemma sv_run_inv:
  assumes "sv_inv s" "\<And>n. pe_commit e n = None"
  shows "sv_inv (sv_run e ops s)"
  using assms(1) by (induction ops arbitrary: s) (simp_all add: sv_apply_inv assms(2))

text \<open>Stored events are never changed or removed.\<close>

lemma sv_apply_events:
  assumes "sv_inv s" "\<And>n. pe_commit e n = None"
  shows "\<exists>new. events_of i (sv_db (snd (sv_apply e op s))) = events_of i (sv_db s) @ new"
proof (cases op)
  case (Sv_append ev)
  then show ?thesis
    using append_event_inv [OF assms, of ev] by (cases "sv_append_event e ev s") auto
next
  case (Sv_close i)
  then show ?thesis by (simp add: sv_close_execution_def modify_def)
next
  case (Sv_create ex)
  then show ?thesis using no_events_snapshots(1) [of e ex] no_events.keepsD
    by (fastforce simp: same_events_def events_of_def)
next
  case (Sv_update ex)
  then show ?thesis using no_events_snapshots(2) [of e ex] no_events.keepsD
    by (fastforce simp: same_events_def events_of_def)
next
  case (Sv_result r)
  then show ?thesis using no_events_snapshots(3) [of e r] no_events.keepsD
    by (fastforce simp: same_events_def events_of_def)
qed

lemma sv_run_events:
  assumes "sv_inv s" "\<And>n. pe_commit e n = None"
  shows "\<exists>new. events_of i (sv_db (sv_run e ops s)) = events_of i (sv_db s) @ new"
  using assms(1)
proof (induction ops arbitrary: s)
  case (Cons op ops)
  obtain new1 where "events_of i (sv_db (snd (sv_apply e op s))) = events_of i (sv_db s) @ new1"
    using sv_apply_events [OF Cons.prems assms(2)] by blast
  moreover obtain new2 where "events_of i (sv_db (sv_run e (op # ops) s)) =
      events_of i (sv_db (snd (sv_apply e op s))) @ new2"
    using Cons.IH [OF sv_apply_inv [OF Cons.prems assms(2)]] by auto
  ultimately show ?case by simp
qed simp

text \<open>
  After a refused commit the number is lost: the next event of the execution leaves a gap.
\<close>

lemma refused_commit_gap:
  assumes "sv_inv s" "pe_parse_uuid e (ev_execution_id ev) = Inr i"
    "sv_db s' = sv_db s" "map_of (sv_sequences s') i = Some (next_sequence i s)"
    "sv_append_event e ev s' = (Inr (), t)"
  shows "\<not> contiguous (events_of i (sv_db t))"
proof
  assume con: "contiguous (events_of i (sv_db t))"
  let ?rec = "next_record e ev i s'"
  have t: "sv_db t = (sv_db s)\<lparr>db_events := db_events (sv_db s) @ [?rec]\<rparr>"
    using append_event_cases [OF assms(2,5)] assms(3) by auto
  have n: "next_sequence i s' = int (length (events_of i (sv_db s))) + 2"
    using assms(4) sv_inv_next [OF assms(1)] by (simp add: next_sequence_def)
  have "length (events_of i (sv_db t)) = Suc (length (events_of i (sv_db s)))"
    by (simp add: t events_of_def)
  moreover have "?rec \<in> set (events_of i (sv_db t))" by (simp add: t)
  then have "er_sequence ?rec \<in> set (map er_sequence (events_of i (sv_db t)))"
    unfolding set_map by (rule imageI)
  then have "er_sequence ?rec \<in> set [1..int (length (events_of i (sv_db t)))]"
    using con by (simp only: contiguous_def)
  ultimately show False using n by simp
qed

lemma refused_then_gap:
  assumes "sv_inv s" "pe_parse_uuid e (ev_execution_id ev) = Inr i"
    "append_body e ev i s = (Inr (), s0)" "pe_commit e (sv_tick s0) = Some x"
    "sv_append_event e ev s = (r, s1)" "sv_append_event e ev s1 = (Inr (), t)"
  shows "r = Inl x \<and> sv_db s1 = sv_db s \<and> \<not> contiguous (events_of i (sv_db t))"
proof -
  have s1: "r = Inl x" "s1 = s0\<lparr>sv_db := sv_db s, sv_tick := sv_tick s0 + 1\<rparr>"
    using assms(2-5) by (auto simp: append_unfold bnd_def lift_res_def in_transaction_def)
  have "map_of (sv_sequences s1) i = Some (next_sequence i s)"
    using append_body_spec [OF assms(2), of s] assms(3) s1(2) by (simp add: wp_def)
  with refused_commit_gap [OF assms(1,2) _ _ assms(6)] s1 show ?thesis by simp
qed

text \<open>Reading the events from a number on.\<close>

lemma resume_contiguous:
  assumes "sv_inv s" "0 \<le> k"
  shows "case (pg_list i 0 (sv_db s), pg_list i k (sv_db s)) of
      (Inr everything, Inr rest) \<Rightarrow> drop (nat k) everything = rest
        \<and> map er_sequence rest = [k + 1..int (length everything)]
    | _ \<Rightarrow> False"
proof -
  let ?h = "events_of i (sv_db s)"
  have wf: "ev_wf (sv_db s)" and con: "map er_sequence ?h = [1..int (length ?h)]"
    using assms(1) by (auto simp: sv_inv_def contiguous_def)
  obtain seen new where r: "pg_list i 0 (sv_db s) = Inr (seen @ new)" "pg_list i k (sv_db s) = Inr new"
      "list_all (\<lambda>a. er_sequence a \<le> k) seen"
    using pg_log.resume [OF wf assms(2), of i] by blast
  have "filter (\<lambda>a. 0 < er_sequence a) ?h = ?h"
    using pg_log.history_positive [OF wf, of i] by (fastforce simp: list_all_iff filter_id_conv)
  then have h: "seen @ new = ?h" using r(1) by (simp add: pg_list_def)
  have new: "new = filter (\<lambda>a. k < er_sequence a) ?h"
    using r(2) assms(2) by (simp add: pg_list_def)
  have upto: "filter (\<lambda>x. k < x) [1..n] = [k + 1..n]" for n
  proof (cases "1 \<le> k \<and> k \<le> n")
    case True
    then have "[1..n] = [1..k] @ [k + 1..n]" by (simp add: upto_split2)
    then show ?thesis by (simp add: filter_empty_conv filter_id_conv)
  next
    case False
    with assms(2) consider "k = 0" | "n < k" by linarith
    then show ?thesis by cases (auto simp: filter_empty_conv filter_id_conv)
  qed
  have seq: "map er_sequence new = [k + 1..int (length ?h)]"
    using upto [of "int (length ?h)"] unfolding new con [symmetric] by (simp add: filter_map comp_def)
  have "length new = nat (int (length ?h) - k)"
    using arg_cong [OF seq, of length] by simp
  moreover have "length seen + length new = length ?h" using h by (metis length_append)
  ultimately have "nat k = length seen \<or> new = [] \<and> length seen \<le> nat k"
    using assms(2) by (cases "k \<le> int (length ?h)") auto
  then have "drop (nat k) (seen @ new) = new" by auto
  with r seq h show ?thesis by simp
qed

text \<open>A client that has read up to number \<open>k\<close> gets exactly the events it has not seen.\<close>

lemma events_resume_after_sequence:
  assumes "db_events db = []" "\<And>n. pe_commit e n = None" "0 \<le> k"
  shows "(let d = sv_db (sv_run e ops (new_service db)) in
    case (pg_list i 0 d, pg_list i k d) of
      (Inr everything, Inr rest) \<Rightarrow> drop (nat k) everything = rest \<and> map er_sequence rest = [k + 1..int (length everything)]
    | _ \<Rightarrow> False)"
  using resume_contiguous [OF sv_run_inv [OF new_service_inv [OF assms(1)] assms(2)] assms(3)]
  by (simp add: Let_def)

section \<open>The two execution stores\<close>

text \<open>
  On a database that refuses nothing, the PostgreSQL store answers every sequence of writes as the
  in-memory store does and then holds the same records, with their steps in the order of their numbers.
\<close>

definition works :: "pg_env \<Rightarrow> bool" where
  "works e \<longleftrightarrow> (\<forall>n. pe_flush e n = None \<and> pe_commit e n = None)"

fun mem_write :: "store_op \<Rightarrow> (execution_table, unit) act" where
  "mem_write (Store_create r) = mem_create r"
| "mem_write (Store_update r) = mem_update r"

fun pg_write :: "pg_env \<Rightarrow> store_op \<Rightarrow> unit sv_act" where
  "pg_write e (Store_create r) = in_transaction e (pg_create e r)"
| "pg_write e (Store_update r) = in_transaction e (pg_update e r)"

text \<open>The answers to a sequence of operations, and the state after it.\<close>

fun all_writes :: "('op \<Rightarrow> ('s, unit) act) \<Rightarrow> 'op list \<Rightarrow> 's \<Rightarrow> unit result list \<times> 's" where
  "all_writes f [] s = ([], s)"
| "all_writes f (op # ops) s = (case f op s of (r, t) \<Rightarrow> (case all_writes f ops t of (rs, u) \<Rightarrow> (r # rs, u)))"

definition same_records :: "execution_table \<Rightarrow> service \<Rightarrow> bool" where
  "same_records m s \<longleftrightarrow> db_wf (sv_db s) \<and> (\<forall>i. pg_get i (sv_db s) = map_option pg_norm (mem_get i m))"

lemma pg_get_find_row: "pg_get i db = None \<longleftrightarrow> find_row i db = None"
  by (simp add: pg_get_def split: option.splits)

lemma pg_write_works:
  assumes "works e"
  shows "fst (pg_write e op s) = (case op of
      Store_create r \<Rightarrow> (if pg_get (xr_execution_id r) (sv_db s) \<noteq> None
        then raise ValueError (''Execution already exists: '' @ xr_execution_id r) else Inr ())
    | Store_update r \<Rightarrow> (if pg_get (xr_execution_id r) (sv_db s) = None
        then raise ValueError (''Execution does not exist: '' @ xr_execution_id r) else Inr ()))"
  using assms pg_get_find_row [of "xr_execution_id (stored_record op)" "sv_db s"]
  by (cases op) (simp_all add: works_def in_transaction_def pg_create_def pg_update_def bnd_def seq_def
      gets_def throw_def ret_def on_db_def modify_def flush_def sv_tick_next_def del: not_None_eq)

lemma write_same_records:
  assumes "works e" "same_records m s" "pg_storable (stored_record op)"
  shows "fst (pg_write e op s) = fst (mem_write op m) \<and> same_records (snd (mem_write op m)) (snd (pg_write e op s))"
proof -
  have wf: "db_wf (sv_db s)" and get: "pg_get i (sv_db s) = map_option pg_norm (mem_get i m)" for i
    using assms(2) by (auto simp: same_records_def)
  have ans: "fst (pg_write e op s) = fst (mem_write op m)"
    unfolding pg_write_works [OF assms(1)]
    by (cases op) (simp_all add: get mem_create_def mem_update_def mem_get_def)
  obtain r t where pg: "pg_write e op s = (r, t)" by fastforce
  have "same_records (snd (mem_write op m)) t"
  proof (cases r)
    case (Inl x)
    then have "sv_db t = sv_db s" using pg by (cases op) (auto dest: transaction_rolled_back)
    moreover have "snd (mem_write op m) = m"
      using ans pg Inl by (cases op) (auto simp: mem_create_def mem_update_def split: if_splits)
    ultimately show ?thesis using assms(2) by (simp add: same_records_def)
  next
    case (Inr u)
    have "(\<forall>i. pg_get i (sv_db t) = (if i = xr_execution_id (stored_record op)
        then Some (pg_norm (stored_record op)) else pg_get i (sv_db s))) \<and> db_wf (sv_db t)"
      using pg Inr assms(3) pg_executions.create_ok [OF wf] pg_executions.update_ok [OF wf]
      by (cases op) auto
    moreover have "mem_get i (snd (mem_write op m)) = (if i = xr_execution_id (stored_record op)
        then Some (stored_record op) else mem_get i m)" for i
      using ans pg Inr by (cases op) (auto simp: mem_create_def mem_update_def mem_get_def split: if_splits)
    ultimately show ?thesis by (simp add: same_records_def get)
  qed
  with ans pg show ?thesis by simp
qed

lemma writes_same_records:
  assumes "works e" "same_records m s" "list_all (pg_storable \<circ> stored_record) ops"
  shows "fst (all_writes (pg_write e) ops s) = fst (all_writes mem_write ops m)
    \<and> same_records (snd (all_writes mem_write ops m)) (snd (all_writes (pg_write e) ops s))"
  using assms(2,3)
proof (induction ops arbitrary: m s)
  case (Cons op ops)
  then show ?case
    using write_same_records [OF assms(1) Cons.prems(1), of op]
    by (auto simp: split_beta)
qed simp

text \<open>An execution that was stored is loaded as it was, but for the time of its last update.\<close>

lemma saved_is_loaded:
  assumes "sv_update_execution e ex s = (Inr (), t)" "db_wf (sv_db s)"
    "distinct (map step_id (ex_steps ex))" "map step_number (ex_steps ex) = [1..int (length (ex_steps ex))]"
  shows "\<exists>r. pg_get (ex_id ex) (sv_db t) = Some r
    \<and> execution_from_record now r = Inr (ex\<lparr>ex_updated_at := now\<rparr>)"
proof -
  let ?r = "execution_to_record ex"
  have ids: "map sr_step_id (xr_steps ?r) = map step_id (ex_steps ex)"
    by (simp add: execution_to_record_def step_to_record_def comp_def)
  have nums: "map sr_number (xr_steps ?r) = map step_number (ex_steps ex)"
    by (simp add: execution_to_record_def step_to_record_def comp_def)
  have "pg_storable ?r" unfolding pg_storable_def ids nums using assms(3,4) by simp
  then have "pg_get (ex_id ex) (sv_db t) = Some (pg_norm ?r)"
    using pg_executions.update_ok [OF assms(2)] assms(1)
    by (auto simp: sv_update_execution_def execution_to_record_def)
  moreover have "sort_key sr_number (xr_steps ?r) = xr_steps ?r"
    by (rule sort_key_id_if_sorted) (simp add: nums assms(4))
  then have "pg_norm ?r = ?r" by (simp add: pg_norm_def)
  moreover have "list_all (\<lambda>s. 1 \<le> step_number s) (ex_steps ex)"
  proof -
    have "list_all (\<lambda>n. 1 \<le> n) (map step_number (ex_steps ex))"
      unfolding assms(4) by (simp add: list_all_iff)
    then show ?thesis by (simp add: list_all_iff)
  qed
  ultimately show ?thesis using execution_from_to_record by simp
qed

end
