(* ===== verification/Durability.thy ===== *)
theory Durability
  imports RtEnd Postgres
begin

text \<open>
  The runtime with the persistence service: which saves a run issues, in which order, and what the
  database holds after it.  While a run is under way its row says that it was created or is planning,
  without steps; the last save, if there is one, is the finished execution.
\<close>

section \<open>The saves of a run\<close>

text \<open>The calls of the service a run made, oldest first.\<close>

fun saved_by :: "log_entry \<Rightarrow> sv_op option" where
  "saved_by (LogCreate e) = Some (Sv_create e)"
| "saved_by (LogUpdate e) = Some (Sv_update e)"
| "saved_by _ = None"

definition saves :: "world \<Rightarrow> sv_op list" where
  "saves w = List.map_filter saved_by (w_log w)"

lemma saves_simps [simp]:
  "saves (w\<lparr>w_exec := e\<rparr>) = saves w" "saves (w\<lparr>w_ctx := c\<rparr>) = saves w" "saves (w\<lparr>w_cancelled := b\<rparr>) = saves w"
  "saves (w\<lparr>w_stream := x\<rparr>) = saves w" "saves (w\<lparr>w_stream_ref := b\<rparr>) = saves w" "saves (w\<lparr>w_active := b\<rparr>) = saves w"
  "saves (w\<lparr>w_result := r\<rparr>) = saves w" "saves (w\<lparr>w_approvals := m\<rparr>) = saves w" "saves (w\<lparr>w_idem := st\<rparr>) = saves w"
  "saves (w\<lparr>w_repeated := rp\<rparr>) = saves w" "saves (w\<lparr>w_counts := cs\<rparr>) = saves w" "saves (w\<lparr>w_tasks := ts\<rparr>) = saves w"
  "saves (w\<lparr>w_waiters := ws\<rparr>) = saves w" "saves (w\<lparr>w_tick := n\<rparr>) = saves w"
  by (simp_all add: saves_def)

lemma saves_log [simp]:
  "saves (w\<lparr>w_log := w_log w @ [e]\<rparr>) = saves w @ (case saved_by e of None \<Rightarrow> [] | Some op \<Rightarrow> [op])"
  by (simp add: saves_def map_filter_def split: option.split)

text \<open>Planning, reasoning and tool calls save nothing.\<close>

definition same_saves :: "world \<Rightarrow> world \<Rightarrow> bool" where
  "same_saves s t \<longleftrightarrow> saves t = saves s \<and> ex_id (w_exec t) = ex_id (w_exec s)"

interpretation unsaved: rt_kept_tools same_saves
  by unfold_locales (simp_all add: same_saves_def exec_moves_id)

interpretation unsaved_loop: rt_kept_loop same_saves rt for rt
  by unfold_locales (simp_all add: same_saves_def)

interpretation unsaved_inv: loop_invariant same_saves rt "same_saves s" "same_saves s" for rt s
  by unfold_locales
     (blast intro: unsaved.R_trans unsaved.wp_after [OF unsaved.keeps_execute_tool_calls])+

lemma execute_saves: "wp (execute rt en rq) (\<lambda>_. same_saves s) (\<lambda>_. same_saves s) s"
  by (rule unsaved_inv.execute_wp) (simp_all add: same_saves_def)

text \<open>What a run has saved before its end.\<close>

definition unfinished_snapshot :: "string \<Rightarrow> execution \<Rightarrow> bool" where
  "unfinished_snapshot i e \<longleftrightarrow> ex_id e = i \<and> ex_steps e = [] \<and> \<not> state_is_terminal (ex_state e)"

definition begun :: "string \<Rightarrow> sv_op list \<Rightarrow> bool" where
  "begun i ops \<longleftrightarrow> (\<exists>e es. ops = Sv_create e # map Sv_update es \<and> (\<forall>x \<in> set (e # es). unfinished_snapshot i x))"

lemma begun_snoc: "begun i ops \<Longrightarrow> unfinished_snapshot i e \<Longrightarrow> begun i (ops @ [Sv_update e])"
  unfolding begun_def by (elim exE conjE) (rule_tac x = ea in exI, rule_tac x = "es @ [e]" in exI, simp)

text \<open>A cancellation of the task itself is told by the reason its event carries.\<close>

definition task_was_cancelled :: "world \<Rightarrow> bool" where
  "task_was_cancelled w \<longleftrightarrow> list_ex (\<lambda>it. case it of
       Item ev \<Rightarrow> ev_type ev = event_type_value EXECUTION_CANCELLED
         \<and> ev_data ev = [(''reason'', PStr ''task_cancelled'')]
     | CLOSED \<Rightarrow> False) (es_queue (w_stream w))"

definition durable :: "world \<Rightarrow> bool" where
  "durable w \<longleftrightarrow> (if state_is_terminal (ex_state (w_exec w)) \<and> \<not> task_was_cancelled w
     then \<exists>ops. saves w = ops @ [Sv_update (w_exec w)] \<and> begun (ex_id (w_exec w)) ops
     else begun (ex_id (w_exec w)) (saves w))"

text \<open>A run under way whose stream, like \<open>q\<close>, tells of no cancellation.\<close>

definition calm :: "stream_item list \<Rightarrow> bool" where
  "calm q \<longleftrightarrow> (\<forall>ev. Item ev \<in> set q \<longrightarrow> ev_type ev \<noteq> event_type_value EXECUTION_CANCELLED)"

definition midway :: "stream_item list \<Rightarrow> world \<Rightarrow> bool" where
  "midway q w \<longleftrightarrow> open_at q w \<and> going w \<and> calm q \<and> begun (ex_id (w_exec w)) (saves w)"

lemma open_calm:
  assumes "open_at q w" "calm q"
  shows "calm (es_queue (w_stream w))"
  using assms unfolding open_at_def calm_def ordinary_event_def by (auto 0 3)

lemma calm_uncancelled: "calm (es_queue (w_stream w)) \<Longrightarrow> \<not> task_was_cancelled w"
  by (auto simp: task_was_cancelled_def calm_def list_ex_iff split: stream_item.splits)

lemma midway_durable:
  assumes "midway q w"
  shows "still_open w \<and> durable w"
  using assms open_at_still by (auto simp: midway_def going_def durable_def simp del: state_is_terminal.simps)

lemma wp_persist_saves:
  assumes "persists en" "rt_persistence rt"
  shows "wp (persist_execution rt en) Q E w =
      Q () (w\<lparr>w_tick := Suc (w_tick w), w_log := w_log w @ [LogUpdate (w_exec w)]\<rparr>)"
    "wp (create_persistent_execution rt en) Q E w =
      Q () (w\<lparr>w_tick := Suc (w_tick w), w_log := w_log w @ [LogCreate (w_exec w)]\<rparr>)"
  using assms by (simp_all add: persist_execution_def create_persistent_execution_def wp persists_def)

lemma advanced_simps [simp]:
  "ex_id (advanced clk st e) = ex_id e" "ex_state (advanced clk st e) = st" "ex_steps (advanced clk st e) = ex_steps e"
  by (simp_all add: advanced_def)

section \<open>The end of a run\<close>

text \<open>The state is terminal and not yet saved; it is saved, and the event follows.\<close>

definition ending :: "stream_item list \<Rightarrow> world \<Rightarrow> bool" where
  "ending q w \<longleftrightarrow> open_at q w \<and> calm q \<and> state_is_terminal (ex_state (w_exec w)) \<and> begun (ex_id (w_exec w)) (saves w)"

definition recorded :: "stream_item list \<Rightarrow> world \<Rightarrow> bool" where
  "recorded q w \<longleftrightarrow> open_at q w \<and> calm q \<and> state_is_terminal (ex_state (w_exec w))
     \<and> (\<exists>ops. saves w = ops @ [Sv_update (w_exec w)] \<and> begun (ex_id (w_exec w)) ops)"

lemma wp_save_ending:
  assumes "persists en" "rt_persistence rt" "ending q w"
  shows "wp (persist_execution rt en) (\<lambda>_. recorded q) (\<lambda>_ _. False) w"
proof -
  let ?t = "w\<lparr>w_tick := Suc (w_tick w), w_log := w_log w @ [LogUpdate (w_exec w)]\<rparr>"
  have "saves ?t = saves w @ [Sv_update (w_exec ?t)]" using saves_log [of "w\<lparr>w_tick := Suc (w_tick w)\<rparr>"] by simp
  then show ?thesis
    using assms(3) unfolding wp_persist_saves [OF assms(1,2)]
    by (auto simp: ending_def recorded_def simp del: state_is_terminal.simps cong: open_at_cong)
qed

lemma midway_ends:
  assumes "midway q w" "ex_id e = ex_id (w_exec w)" "state_is_terminal (ex_state e)"
  shows "ending q (w\<lparr>w_tick := n, w_exec := e\<rparr>)"
  using assms unfolding midway_def ending_def
  by (simp del: state_is_terminal.simps cong: open_at_cong)

text \<open>Any last event but that of a cancelled task leaves the run on record.\<close>

lemma wp_publish_recorded:
  assumes "recorded q w" "(ty, d) \<noteq> (EXECUTION_CANCELLED, [(''reason'', PStr ''task_cancelled'')])"
  shows "wp (publish_event ty d) (\<lambda>_ t. still_open t \<and> durable t) E w"
proof -
  have op: "open_at q w" using assms(1) by (simp add: recorded_def)
  let ?u = "w\<lparr>w_stream := (w_stream w)\<lparr>es_queue := es_queue (w_stream w) @
        [Item \<lparr>ev_type = event_type_value ty, ev_execution_id = ex_id (w_exec w), ev_data = d\<rparr>]\<rparr>\<rparr>"
  have "\<not> task_was_cancelled w"
    using calm_uncancelled [OF open_calm [of q w]] assms(1) by (simp add: recorded_def)
  moreover have "event_type_value ty = event_type_value EXECUTION_CANCELLED \<longleftrightarrow> ty = EXECUTION_CANCELLED"
    by (cases ty) simp_all
  ultimately have "\<not> task_was_cancelled ?u"
    using assms(2) by (simp add: task_was_cancelled_def del: event_type_value.simps)
  moreover have "\<exists>ops. saves ?u = ops @ [Sv_update (w_exec ?u)] \<and> begun (ex_id (w_exec ?u)) ops"
    using assms(1) by (simp add: recorded_def)
  ultimately have "durable ?u"
    using assms(1) by (simp add: durable_def recorded_def del: state_is_terminal.simps)
  then show ?thesis
    unfolding wp_publish_open [OF op] using open_at_still [OF op] by (simp add: still_open_def)
qed

lemma durable_rest:
  "still_open w \<and> durable w \<Longrightarrow> wp (retain_result out) (\<lambda>_ t. still_open t \<and> durable t) E w"
  "still_open w \<and> durable w \<Longrightarrow> wp (respond out) (\<lambda>_ t. still_open t \<and> durable t) E w"
  by (simp_all add: retain_result_def respond_def wp still_open_def durable_def task_was_cancelled_def
     del: state_is_terminal.simps)

lemma durable_answer:
  "still_open w \<and> durable w \<Longrightarrow> wp (seq (retain_result out) (respond out)) (\<lambda>_ t. still_open t \<and> durable t) E w"
  unfolding wp_seq by (rule wp_mono [OF durable_rest(1) [where E = E]]) (simp_all add: durable_rest)

lemma recorded_rest:
  "recorded q w \<Longrightarrow> wp (retain_result out) (\<lambda>_. recorded q) E w"
  "recorded q w \<Longrightarrow> m \<noteq> [] \<Longrightarrow> wp (ctx_do (add_error m)) (\<lambda>_. recorded q) E w"
  by (simp_all add: retain_result_def wp wp_add_error recorded_def del: state_is_terminal.simps
     cong: open_at_cong)

text \<open>The three ends of a run.\<close>

lemma wp_finish_saved:
  assumes "persists en" "rt_persistence rt" "midway q w"
  shows "wp (finish_run rt en out) (\<lambda>_ t. still_open t \<and> durable t) (\<lambda>_. midway q) w"
proof -
  have chk: "wp (check_cancellation en) (\<lambda>_. midway q) (\<lambda>_. midway q) w"
    using assms(3) by (simp add: wp_check_cancellation Let_def midway_def going_def cong: open_at_cong)
  have go: "wp (go_to en State_COMPLETED) (\<lambda>_. ending q) (\<lambda>_. midway q) t" if "midway q t" for t
  proof -
    have "midway q (t\<lparr>w_tick := n\<rparr>)" for n
      using that by (simp add: midway_def going_def cong: open_at_cong)
    then show ?thesis
      using midway_ends [OF that] by (auto simp: wp_go_to Let_def transition_to_Inr split: sum.split)
  qed
  have last: "wp (seq (retain_result (PStr out))
      (bnd (gets (\<lambda>w. int (length (ex_steps (w_exec w))))) (\<lambda>n.
       seq (publish_event EXECUTION_COMPLETED [(''status'', PStr ''success''), (''steps'', PInt n)])
          (respond (PStr out))))) (\<lambda>_ t. still_open t \<and> durable t) E t" if "recorded q t" for E t
    unfolding wp_seq wp_bnd wp_gets
    by (intro wp_mono [OF recorded_rest(1) [OF that, where E = "\<lambda>_ _. False"]]
        wp_mono [OF wp_publish_recorded [where E = "\<lambda>_ _. False"]] durable_rest) simp_all
  have rest: "wp (seq (persist_execution rt en) (seq (retain_result (PStr out))
      (bnd (gets (\<lambda>w. int (length (ex_steps (w_exec w))))) (\<lambda>n.
       seq (publish_event EXECUTION_COMPLETED [(''status'', PStr ''success''), (''steps'', PInt n)])
          (respond (PStr out)))))) (\<lambda>_ t. still_open t \<and> durable t) E t" if "ending q t" for E t
    unfolding wp_seq [of "persist_execution _ _"]
    by (rule wp_mono [OF wp_save_ending [OF assms(1,2) that]]) (simp_all add: last)
  show ?thesis
    unfolding finish_run_def wp_seq [of "check_cancellation en"] wp_seq [of "go_to _ _"]
    by (intro wp_mono [OF chk] wp_mono [OF go] rest)
qed

lemma wp_stop:
  assumes "midway q w" "st \<in> {State_CANCELLED, State_FAILED}"
  shows "wp (go_to en st) Q E w =
     Q () (w\<lparr>w_tick := Suc (w_tick w), w_exec := advanced (en_utc en (w_tick w)) st (w_exec w)\<rparr>)"
proof -
  have "st \<in> set (execution_transitions (ex_state (w_exec w)))"
    using assms by (cases "ex_state (w_exec w)") (auto simp: midway_def going_def)
  then show ?thesis by (simp add: wp_go_to transition_to_eq Let_def)
qed

lemma wp_cancelled_saved:
  assumes "persists en" "rt_persistence rt" "midway q w"
  shows "wp (cancelled_run rt en e) (\<lambda>_ t. still_open t \<and> durable t) (\<lambda>_ t. still_open t \<and> durable t) w"
proof (cases "exc_msg e = []")
  case True
  then show ?thesis
    using midway_durable [OF assms(3)] by (simp add: cancelled_run_def ctx_do_def add_error_def wp)
next
  case False
  let ?w = "w\<lparr>w_ctx := (w_ctx w)\<lparr>cx_errors := cx_errors (w_ctx w) @ [exc_msg e]\<rparr>\<rparr>"
  have mid: "midway q ?w"
    using assms(3) by (simp add: midway_def going_def cong: open_at_cong)
  then have going: "\<not> state_is_terminal (ex_state (w_exec ?w))" by (simp add: midway_def going_def)
  have over: "ending q (?w\<lparr>w_tick := Suc (w_tick ?w), w_exec := advanced clk State_CANCELLED (w_exec ?w)\<rparr>)" for clk
    by (rule midway_ends [OF mid]) simp_all
  show ?thesis
    unfolding cancelled_run_def wp_seq [of "ctx_do _"] wp_add_error [OF False]
      wp_bnd wp_over wp_seq [of "guarded _ _"] wp_guarded wp_seq wp_stop [OF mid insertI1]
    using going
    by (simp del: state_is_terminal.simps)
       (intro wp_mono [OF wp_save_ending [OF assms(1,2), where q = q]] over [simplified]
         wp_mono [OF wp_publish_recorded [where E = "\<lambda>_ _. False"]]
         wp_mono [OF durable_rest(1) [where E = "\<lambda>_ _. False"]] durable_rest(2); simp)
qed

lemma wp_task_cancelled_saved:
  assumes "midway q w"
  shows "wp (cancelled_task en) (\<lambda>_ t. still_open t \<and> durable t) (\<lambda>_ _. False) w"
proof -
  let ?w = "w\<lparr>w_cancelled := True, w_ctx := (w_ctx w)\<lparr>cx_errors := cx_errors (w_ctx w) @ [''Agent execution was cancelled'']\<rparr>\<rparr>"
  have mid: "midway q ?w"
    using assms by (simp add: midway_def going_def cong: open_at_cong)
  then have going: "\<not> state_is_terminal (ex_state (w_exec ?w))" by (simp add: midway_def going_def)
  have ev: "wp (publish_event EXECUTION_CANCELLED [(''reason'', PStr ''task_cancelled'')])
      (\<lambda>_ u. still_open u \<and> durable u) E t" if "ending q t" for t E
  proof -
    have op: "open_at q t" using that by (simp add: ending_def)
    then show ?thesis
      unfolding wp_publish_open [OF op] using that open_at_still [OF op]
      by (simp add: still_open_def durable_def ending_def task_was_cancelled_def)
  qed
  have over: "ending q (?w\<lparr>w_tick := Suc (w_tick ?w), w_exec := advanced clk State_CANCELLED (w_exec ?w)\<rparr>)" for clk
    by (rule midway_ends [OF mid]) simp_all
  have add: "''Agent execution was cancelled'' \<noteq> []" by simp
  show ?thesis
    unfolding cancelled_task_def cancel_token_def wp_seq [of "modify _"] wp_modify wp_seq [of "ctx_do _"]
      wp_add_error [OF add] wp_bnd wp_over wp_seq [of "guarded _ _"] wp_guarded
    using going
    by (simp del: state_is_terminal.simps add: wp_stop [OF mid [simplified]] wp_seq)
       (intro over [simplified] wp_mono [OF ev] durable_answer; simp)
qed

lemma wp_failed_saved:
  assumes "persists en" "rt_persistence rt" "midway q w"
  shows "wp (failed_run rt en e) (\<lambda>_ _. False) (\<lambda>_ t. still_open t \<and> durable t) w"
proof (cases "exc_msg e = []")
  case True
  have "midway q (w\<lparr>w_tick := Suc (w_tick w)\<rparr>)"
    using assms(3) by (simp add: midway_def going_def cong: open_at_cong)
  from midway_durable [OF this] have "still_open (w\<lparr>w_tick := Suc (w_tick w)\<rparr>)" "durable (w\<lparr>w_tick := Suc (w_tick w)\<rparr>)"
    by simp_all
  with True assms(3) show ?thesis
    by (simp add: failed_run_def wp_bnd wp_over wp_seq wp_guarded wp_exec_do mark_failed_def midway_def going_def)
next
  case False
  let ?e = "advanced (en_utc en (w_tick w)) State_FAILED
      ((w_exec w)\<lparr>ex_error := Some (exc_msg e), ex_error_type := Some (type_name (exc_class e))\<rparr>)"
  have going: "\<not> state_is_terminal (ex_state (w_exec w))"
    using assms(3) by (simp add: midway_def going_def)
  have over: "ending q (w\<lparr>w_tick := Suc (w_tick w), w_exec := ?e\<rparr>)"
    by (rule midway_ends [OF assms(3)]) simp_all
  have ev: "(EXECUTION_FAILED, d) \<noteq> (EXECUTION_CANCELLED, [(''reason'', PStr ''task_cancelled'')])" for d by simp
  have rest: "wp (seq (ctx_do (add_error (exc_msg e)))
     (seq (publish_event EXECUTION_FAILED d) (seq (retain_result PNone) (throw e))))
       (\<lambda>_ _. False) (\<lambda>_ t. still_open t \<and> durable t) t" if "recorded q t" for t d
    unfolding wp_seq
    by (intro wp_mono [OF recorded_rest(2) [OF that False, where E = "\<lambda>_ _. False"]]
        wp_mono [OF wp_publish_recorded [OF _ ev, where E = "\<lambda>_ _. False"]]
        wp_mono [OF durable_rest(1) [where E = "\<lambda>_ _. False"]]) (simp_all add: wp_throw)
  show ?thesis
    unfolding failed_run_def wp_bnd wp_over wp_seq [of "guarded _ _"] wp_guarded wp_seq [of "exec_do _ _"] wp_exec_do
    using going
    by (simp del: state_is_terminal.simps add: mark_failed_going [OF False going])
       (intro wp_mono [OF wp_save_ending [OF assms(1,2) over]] rest; simp)
qed

lemma wp_run_failed_saved:
  assumes "persists en" "rt_persistence rt" "midway q w"
  shows "wp (run_failed rt en e) (\<lambda>_ t. still_open t \<and> durable t) (\<lambda>_ t. still_open t \<and> durable t) w"
proof -
  note c = wp_cancelled_saved [OF assms] wp_task_cancelled_saved [OF assms(3)] wp_failed_saved [OF assms]
  show ?thesis
    unfolding run_failed_def
    using midway_durable [OF assms(3)]
    by (auto simp: wp_throw intro: c(1) wp_mono [OF c(2)] wp_mono [OF c(3)])
qed

section \<open>The whole run\<close>

lemma wp_body_saved:
  assumes "persists en" "rt_persistence rt" "midway q w" "ex_steps (w_exec w) = []"
  shows "wp (run_body rt en rq) (\<lambda>_ t. still_open t \<and> durable t) (\<lambda>_. midway q) w"
proof -
  let ?M = "\<lambda>t. midway q t \<and> ex_steps (w_exec t) = []"
  have chk: "wp (check_cancellation en) (\<lambda>_. ?M) (\<lambda>_. midway q) w"
    using assms(3,4) by (simp add: wp_check_cancellation Let_def midway_def going_def cong: open_at_cong)
  have go: "wp (go_to en State_PLANNING) (\<lambda>_. ?M) (\<lambda>_. midway q) t" if "?M t" for t
    using that
    by (auto simp: wp_go_to Let_def transition_to_eq midway_def going_def cong: open_at_cong split: sum.split)
  have sav: "wp (persist_execution rt en) (\<lambda>_. midway q) (\<lambda>_. midway q) t" if "?M t" for t
  proof -
    let ?t = "t\<lparr>w_tick := Suc (w_tick t), w_log := w_log t @ [LogUpdate (w_exec t)]\<rparr>"
    have "saves ?t = saves t @ [Sv_update (w_exec t)]" using saves_log [of "t\<lparr>w_tick := Suc (w_tick t)\<rparr>"] by simp
    moreover have "unfinished_snapshot (ex_id (w_exec t)) (w_exec t)"
      using that by (simp add: unfinished_snapshot_def midway_def going_def)
    ultimately show ?thesis
      using that unfolding wp_persist_saves [OF assms(1,2)]
      by (simp add: midway_def going_def begun_snoc cong: open_at_cong)
  qed
  have ex: "wp (execute rt en rq) (\<lambda>_. midway q) (\<lambda>_. midway q) t" if "midway q t" for t
    by (rule wp_mono [OF wp_conj [OF under_execute execute_saves]])
       (use that in \<open>auto simp: underway_def midway_def same_saves_def\<close>)
  show ?thesis
    unfolding run_body_def wp_seq wp_bnd
    by (intro wp_mono [OF chk] wp_mono [OF go] wp_mono [OF sav] wp_mono [OF ex] wp_finish_saved [OF assms(1,2)])
qed

lemma wp_run_saved:
  assumes "persists en" "rt_persistence rt" "fresh_run w" "ex_steps (w_exec w) = []" "w_log w = []"
  shows "wp (run_execution rt en rq) (\<lambda>_. durable) (\<lambda>_. durable) w"
proof -
  let ?h = "catch (run_body rt en rq) (run_failed rt en)" and ?D = "\<lambda>t. still_open t \<and> durable t"
  let ?q = "start_queue rq w"
  let ?w = "w\<lparr>w_tick := Suc (w_tick w), w_log := w_log w @ [LogCreate (w_exec w)]\<rparr>"
  let ?u = "?w\<lparr>w_stream := (w_stream w)\<lparr>es_queue := ?q\<rparr>\<rparr>"
  have "saves w = []" using assms(5) by (simp add: saves_def map_filter_def)
  then have "saves ?w = [Sv_create (w_exec w)]" using saves_log [of "w\<lparr>w_tick := Suc (w_tick w)\<rparr>"] by simp
  then have "begun (ex_id (w_exec w)) (saves ?u)"
    using assms(3,4) by (auto simp: begun_def unfinished_snapshot_def fresh_run_def)
  moreover have "open_at ?q ?u" "calm ?q" "going ?u"
    using assms(3) by (auto simp: open_at_def fresh_run_def new_stream_def start_queue_def calm_def going_def)
  ultimately have mid: "midway ?q ?u" by (simp add: midway_def)
  have pub: "publish_event EXECUTION_STARTED [(''session_id'', PStr (rq_session rq))] ?w = (Inr (), ?u)"
    using assms(3) by (simp add: publish_event_def modify_def fresh_run_def new_event_def stream_publish_def
        new_stream_def start_queue_def)
  have h: "wp ?h (\<lambda>_. ?D) (\<lambda>_. ?D) ?u"
    unfolding wp_catch
    by (rule wp_mono [OF wp_body_saved [OF assms(1,2) mid]])
       (use assms(4) in \<open>auto intro: wp_run_failed_saved [OF assms(1,2)]\<close>)
  have close: "wp close_run (\<lambda>_. durable) (\<lambda>_. durable) t" if "?D t" for t
    using that
    by (intro wp_mono [OF wp_close_run])
       (auto simp: durable_def task_was_cancelled_def stream_close_def simp del: state_is_terminal.simps)
  have "wp (ensure ?h close_run) (\<lambda>_. durable) (\<lambda>_. durable) ?u"
    unfolding wp_ensure by (rule wp_mono [OF h]) (auto intro: close)
  then show ?thesis
    unfolding run_execution_def wp_seq wp_persist_saves [OF assms(1,2)]
    using pub by (simp add: wp_def)
qed

section \<open>What the database holds afterwards\<close>

text \<open>The row of an execution without step rows; \<open>holds i e s\<close>: the database restores \<open>e\<close>.\<close>

definition no_steps :: "string \<Rightarrow> service \<Rightarrow> bool" where
  "no_steps i s \<longleftrightarrow> find_row i (sv_db s) \<noteq> None \<and> steps_of i (sv_db s) = []"

lemma sync_new_steps:
  assumes "rows_of i rows = []"
  shows "rows_of i (sync_steps i sts rows) = sts"
proof -
  have none: "filter (\<lambda>(j, st). j = i) rows = []" using assms by simp
  have put: "foldl (put_step i {}) rs xs = rs @ map (Pair i) xs" for rs xs
    by (induction xs arbitrary: rs) (simp_all add: put_step_def)
  have old: "filter (\<lambda>(j, st). j = i) (filter (\<lambda>(j, st). j \<noteq> i \<or> P st) rows) = []" for P
    using none by (auto simp: filter_empty_conv)
  have new: "filter (\<lambda>(j, st). j = i) (filter (\<lambda>(j, st). j \<noteq> i \<or> sr_step_id st \<in> sr_step_id ` set sts)
      (map (Pair i) xs)) = map (Pair i) xs" if "set xs \<subseteq> set sts" for xs
    using that by (induction xs) auto
  have "filter (\<lambda>(j, st). j = i) (sync_steps i sts rows) = map (Pair i) sts"
    unfolding sync_steps_def Let_def none by (simp only: set_simps image_empty put filter_append old new [OF subset_refl] append_Nil)
  then show ?thesis by (simp add: comp_def)
qed

lemma save_created:
  assumes "works pe" "find_row (ex_id e) (sv_db s) = None" "steps_of (ex_id e) (sv_db s) = []" "ex_steps e = []"
  shows "fst (sv_create_execution pe e s) = Inr () \<and> no_steps (ex_id e) (snd (sv_create_execution pe e s))
    \<and> pg_get (ex_id e) (sv_db (snd (sv_create_execution pe e s))) = Some (execution_to_record e)"
  using assms
  by (simp add: sv_create_execution_def works_def in_transaction_def pg_create_def pg_get_def bnd_def seq_def
      gets_def throw_def ret_def on_db_def modify_def flush_def sv_tick_next_def no_steps_def
      execution_to_record_def find_row_def steps_of_def find_append_single)

lemma save_updated:
  assumes "works pe" "no_steps (ex_id e) s"
  shows "fst (sv_update_execution pe e s) = Inr ()
    \<and> find_row (ex_id e) (sv_db (snd (sv_update_execution pe e s))) \<noteq> None
    \<and> steps_of (ex_id e) (sv_db (snd (sv_update_execution pe e s))) = map step_to_record (ex_steps e)
    \<and> pg_get (ex_id e) (sv_db (snd (sv_update_execution pe e s))) = Some (pg_norm (execution_to_record e))"
proof -
  let ?r = "execution_to_record e"
  let ?db = "(sv_db s)\<lparr>db_executions := map (\<lambda>w. if xw_execution_id w = ex_id e then to_row ?r else w)
       (db_executions (sv_db s)), db_steps := sync_steps (ex_id e) (xr_steps ?r) (db_steps (sv_db s))\<rparr>"
  have r: "xr_execution_id ?r = ex_id e" "xr_steps ?r = map step_to_record (ex_steps e)"
    by (simp_all add: execution_to_record_def)
  have run: "fst (sv_update_execution pe e s) = Inr ()" "sv_db (snd (sv_update_execution pe e s)) = ?db"
    using assms
    by (auto simp: sv_update_execution_def works_def in_transaction_def pg_update_def bnd_def seq_def r
      gets_def throw_def ret_def on_db_def modify_def flush_def sv_tick_next_def no_steps_def)
  have row: "find_row (ex_id e) ?db = Some (to_row ?r)"
    using assms(2) find_map_replace [of xw_execution_id "ex_id e" "to_row ?r" "db_executions (sv_db s)"]
    by (auto simp: no_steps_def find_row_def r)
  have steps: "steps_of (ex_id e) ?db = xr_steps ?r"
    using assms(2) sync_new_steps [of "ex_id e" "db_steps (sv_db s)" "xr_steps ?r"]
    by (simp add: no_steps_def steps_of_def)
  show ?thesis
    using run row steps r by (simp add: pg_get_def pg_norm_def)
qed

lemma updates_without_steps:
  assumes "works pe" "no_steps i s" "\<forall>x \<in> set es. unfinished_snapshot i x"
    "pg_get i (sv_db s) = Some (execution_to_record e)"
    "all_writes (sv_apply pe) (map Sv_update es) s = (answers, t)"
  shows "list_all (\<lambda>a. a = Inr ()) answers \<and> no_steps i t
    \<and> pg_get i (sv_db t) = Some (execution_to_record (last (e # es)))"
  using assms(2-5)
proof (induction es arbitrary: e s answers)
  case (Cons x es)
  let ?u = "snd (sv_update_execution pe x s)"
  have x: "ex_id x = i" "ex_steps x = []" using Cons.prems(2) by (simp_all add: unfinished_snapshot_def)
  have u: "fst (sv_update_execution pe x s) = Inr ()" "no_steps i ?u"
      "pg_get i (sv_db ?u) = Some (execution_to_record x)"
    using save_updated [OF assms(1), of x s] Cons.prems(1) x
    by (simp_all add: no_steps_def pg_norm_def execution_to_record_def)
  obtain as where as: "all_writes (sv_apply pe) (map Sv_update es) ?u = (as, t)" "answers = Inr () # as"
    using Cons.prems(4) u(1) by (auto split: prod.splits) 
  show ?case
    using Cons.IH [OF u(2) _ u(3) as(1)] Cons.prems(2) as(2) by simp
qed simp

lemma all_writes_append:
  "all_writes f (xs @ ys) s = (case all_writes f xs s of (as, t) \<Rightarrow> case all_writes f ys t of (bs, u) \<Rightarrow> (as @ bs, u))"
  by (induction xs arbitrary: s) (simp_all split: prod.split)

lemma begun_writes:
  assumes "works pe" "find_row i (sv_db s) = None" "steps_of i (sv_db s) = []" "begun i ops"
    "all_writes (sv_apply pe) ops s = (answers, t)"
  shows "list_all (\<lambda>a. a = Inr ()) answers \<and> no_steps i t
    \<and> (\<exists>e. unfinished_snapshot i e \<and> pg_get i (sv_db t) = Some (execution_to_record e))"
proof -
  obtain e es where ops: "ops = Sv_create e # map Sv_update es" "\<forall>x \<in> set (e # es). unfinished_snapshot i x"
    using assms(4) unfolding begun_def by blast
  let ?u = "snd (sv_create_execution pe e s)"
  have e: "ex_id e = i" "ex_steps e = []" using ops(2) by (simp_all add: unfinished_snapshot_def)
  note c = save_created [OF assms(1), of e s, unfolded e, OF assms(2,3) refl]
  obtain as where as: "all_writes (sv_apply pe) (map Sv_update es) ?u = (as, t)" "answers = Inr () # as"
    using assms(5) c by (auto simp: ops(1) split: prod.splits)
  have "list_all (\<lambda>a. a = Inr ()) as \<and> no_steps i t
    \<and> pg_get i (sv_db t) = Some (execution_to_record (last (e # es)))"
    by (rule updates_without_steps [OF assms(1) _ _ _ as(1)]) (use c ops(2) in auto)
  moreover have "unfinished_snapshot i (last (e # es))" using ops(2) last_in_set by blast
  ultimately show ?thesis using as(2) by auto
qed

text \<open>Loading what a durable run left behind.\<close>

lemma trace_numbers: "trace_inv ss \<Longrightarrow> map step_number ss = [1..int (length ss)]"
  by (auto simp: trace_inv_def intro!: nth_equalityI)

lemma durable_loaded:
  assumes "works pe" "durable w" "ex_id (w_exec w) = i" "find_row i (sv_db s) = None" "steps_of i (sv_db s) = []"
    "map step_number (ex_steps (w_exec w)) = [1..int (length (ex_steps (w_exec w)))]"
    "all_writes (sv_apply pe) (saves w) s = (answers, t)"
  shows "list_all (\<lambda>a. a = Inr ()) answers \<and> (\<exists>rec ex. pg_get i (sv_db t) = Some rec
    \<and> execution_from_record now rec = Inr ex
    \<and> (if state_is_terminal (ex_state (w_exec w)) \<and> \<not> task_was_cancelled w then ex = (w_exec w)\<lparr>ex_updated_at := now\<rparr>
       else \<not> state_is_terminal (ex_state ex)))"
proof (cases "state_is_terminal (ex_state (w_exec w)) \<and> \<not> task_was_cancelled w")
  case False
  then have "begun i (saves w)" using assms(2,3) by (auto simp: durable_def)
  from begun_writes [OF assms(1,4,5) this assms(7)] obtain e where
    e: "list_all (\<lambda>a. a = Inr ()) answers" "unfinished_snapshot i e" "pg_get i (sv_db t) = Some (execution_to_record e)"
    by blast
  have "execution_from_record now (execution_to_record e) = Inr (e\<lparr>ex_updated_at := now\<rparr>)"
    using e(2) by (intro execution_from_to_record) (simp add: unfinished_snapshot_def)
  with e False show ?thesis by (auto simp: unfinished_snapshot_def simp del: state_is_terminal.simps)
next
  case True
  let ?e = "w_exec w"
  obtain ops where ops: "saves w = ops @ [Sv_update ?e]" "begun i ops"
    using True assms(2,3) by (auto simp: durable_def)
  obtain as u where u: "all_writes (sv_apply pe) ops s = (as, u)" by fastforce
  from begun_writes [OF assms(1,4,5) ops(2) u] have b: "list_all (\<lambda>a. a = Inr ()) as" "no_steps (ex_id ?e) u"
    by (simp_all add: assms(3))
  note upd = save_updated [OF assms(1) b(2)]
  have t: "t = snd (sv_update_execution pe ?e u)" "answers = as @ [Inr ()]"
    using assms(7) upd by (auto simp: ops(1) all_writes_append u split: prod.splits)
  have pos: "list_all (\<lambda>s. 1 \<le> step_number s) (ex_steps ?e)"
  proof -
    have "list_all (\<lambda>n. 1 \<le> n) (map step_number (ex_steps ?e))"
      unfolding assms(6) by (simp add: list_all_iff)
    then show ?thesis by (simp add: list_all_iff)
  qed
  have "map sr_number (xr_steps (execution_to_record ?e)) = map step_number (ex_steps ?e)"
    by (simp add: execution_to_record_def step_to_record_def comp_def)
  then have "sort_key sr_number (xr_steps (execution_to_record ?e)) = xr_steps (execution_to_record ?e)"
    by (intro sort_key_id_if_sorted) (simp add: assms(6))
  then have "pg_norm (execution_to_record ?e) = execution_to_record ?e" by (simp add: pg_norm_def)
  with upd t b True assms(3) execution_from_to_record [OF pos] show ?thesis by auto
qed

end
