(* ===== verification/Demo.thy ===== *)
theory Demo
  imports Durability
begin

text \<open>
  A concrete runtime, environment and request: one tool that needs approval, a model that asks for
  it once and then answers.  The examples of the properties are stated for them.
\<close>

definition calculator_tool :: tool where
  "calculator_tool = \<lparr>tl_name = ''calculator'', tl_description = ''adds'', tl_input_schema = [],
     tl_execute = (\<lambda>_. Inr (PStr ''4''))\<rparr>"

definition demo_runtime :: runtime where
  "demo_runtime = \<lparr>rt_limits = default_limits, rt_tools = [(''calculator'', calculator_tool)],
     rt_planner_tools = [(''calculator'', calculator_tool)],
     rt_loads = (\<lambda>_. Inr (PDict [(''expression'', PStr ''2+2'')])), rt_sha = (\<lambda>s. s),
     rt_context_budget = Some \<lparr>max_context_tokens = 2000, reserved_output_tokens = 100\<rparr>,
     rt_approval_policy = Some (approval_from_tools [''calculator'']), rt_persistence = True,
     rt_executor = \<lparr>te_registry = [(''calculator'', calculator_tool)], te_idempotent = True, te_authorization = None\<rparr>\<rparr>"

definition tool_reply :: pyval where
  "tool_reply = PDict [(''choices'', PList [PDict [(''message'', PDict [(''role'', PStr ''assistant''),
     (''content'', PNone), (''tool_calls'', PList [PDict [(''id'', PStr ''c1''),
        (''function'', PDict [(''name'', PStr ''calculator''), (''arguments'', PStr ''{}'')])]])])]])]"

definition final_reply :: pyval where
  "final_reply = PDict [(''choices'', PList [PDict [(''message'', PDict [(''role'', PStr ''assistant''),
     (''content'', PStr ''four'')])]])]"

definition demo_env :: env where
  "demo_env = \<lparr>en_mono = (\<lambda>_. 0), en_utc = (\<lambda>n i. of_nat (n + i)), en_uuid = nat_str, en_cancel = (\<lambda>_. False),
     en_persist = (\<lambda>_. Inr ()), en_route = (\<lambda>_. Inr (''m'', ''p'')),
     en_infer = (\<lambda>n. Inr (if n < 40 then tool_reply else final_reply)),
     en_approvals = (\<lambda>_. [ApStart 0, ApOther (ApprovalOp_approve ''e1:c1''), ApWake 0]),
     en_batch = (\<lambda>_. [BatchStart 0,
        BatchReply 0 (SbResponse (Some (PDict [(''ok'', PBool True), (''result'', PStr ''4'')])))]),
     en_task_cancelled = (\<lambda>_. False)\<rparr>"

definition demo_request :: run_request where
  "demo_request = \<lparr>rq_intent = ''add two and two'', rq_session = ''s'', rq_task = ''add'', rq_capabilities = PNone\<rparr>"

definition demo_start :: world where
  "demo_start = create_execution ''e1'' (\<lambda>_. 0) demo_request [] new_approval_manager new_idem_store 0"

text \<open>One task queued, for the statements about a batch.\<close>

definition demo_call :: tool_call where
  "demo_call = \<lparr>tc_name = ''calculator'', tc_arguments = [(''expression'', PStr ''2+2'')], tc_call_id = Some ''c1''\<rparr>"

definition demo_batch :: world where
  "demo_batch = demo_start\<lparr>w_tasks := [make_task [(''c1'', 0)] demo_call]\<rparr>"

lemma demo_runtime_constructed:
  "new_runtime demo_runtime (Some 2000) 100 (Some (rt_executor demo_runtime)) False = Inr demo_runtime"
  by (simp add: new_runtime_def demo_runtime_def check_def new_limits_iff [THEN iffD2] default_limits_ok new_budget_def)
     (simp add: default_limits_def)

lemma demo_runtime_ok: "runtime_ok demo_runtime"
  using demo_runtime_constructed by (rule new_runtime_ok)

lemma demo_persists: "persists demo_env"
  by (simp add: persists_def demo_env_def)

text \<open>A run whose router is down: it fails after the planning step, and its end is saved.\<close>

definition down_runtime :: runtime where
  "down_runtime = demo_runtime\<lparr>rt_context_budget := None\<rparr>"

definition router_down :: env where
  "router_down = demo_env\<lparr>en_route := \<lambda>_. Inl (Exc RuntimeError ''down'')\<rparr>"

definition down_end :: world where
  "down_end = snd (run_execution down_runtime router_down demo_request demo_start)"

definition outcome_of :: "world \<Rightarrow> execution_state \<times> bool \<times> nat" where
  "outcome_of w = (ex_state (w_exec w), task_was_cancelled w, length (ex_steps (w_exec w)))"

lemma down_end_failed: "outcome_of down_end = (State_FAILED, False, 1)"
  by code_simp

lemma down_run_raises:
  "fst (run_execution down_runtime router_down demo_request demo_start) = Inl (Exc RuntimeError ''down'')"
  by code_simp

lemma router_down_persists: "persists router_down" "rt_persistence down_runtime"
  by (simp_all add: persists_def router_down_def down_runtime_def demo_env_def demo_runtime_def)

text \<open>A created execution is ready to run.\<close>

lemma create_execution_empty:
  "no_calls (create_execution eid clk rq meta am st n)" "w_log (create_execution eid clk rq meta am st n) = []"
  by (simp_all add: no_calls_def sandbox_count_def create_execution_def)

end
