(* ===== verification/ToolCalls.thy ===== *)
theory ToolCalls
  imports ToolExec
begin

text \<open>
  All calls of one tool executor (\<^verbatim>\<open>tools/executor.py\<close>), interleaved: a call begins, up to its sandbox
  request, and ends with the output of the sandbox or an exception, and other calls, of any tools and with
  any keys, begin and end between the two.  What becomes of the key of a call: settled by its end, or, when
  it was cancelled, held by nobody and never given back.
\<close>

section \<open>The calls of an executor\<close>

text \<open>A call that began in the sandbox runs, under its number, until it ends.\<close>

datatype call_event =
    Call_begins nat string "string option" "execution_context option" time
  | Call_ends nat time "string result"

record calls =
  cs_store :: "tool_result idem_store"
  cs_running :: "nat \<Rightarrow> (string \<times> string option) option"

definition idle_calls :: calls where
  "idle_calls = \<lparr>cs_store = new_idem_store, cs_running = (\<lambda>_. None)\<rparr>"

fun call_step :: "tool_executor \<Rightarrow> call_event \<Rightarrow> calls \<Rightarrow> calls" where
  "call_step te (Call_begins i name key ctx dur) c =
     (if cs_running c i \<noteq> None then c
      else case tool_exec_begin te name key ctx dur (cs_store c) of (r, st) \<Rightarrow>
        (if r = Inr ExecSandbox then \<lparr>cs_store = st, cs_running = (cs_running c)(i \<mapsto> (name, key))\<rparr>
         else c\<lparr>cs_store := st\<rparr>))"
| "call_step te (Call_ends i dur out) c = (case cs_running c i of
      None \<Rightarrow> c
    | Some (name, key) \<Rightarrow> \<lparr>cs_store = snd (tool_exec_finish te name key dur out (cs_store c)),
        cs_running = (cs_running c)(i := None)\<rparr>)"

definition calls_after :: "tool_executor \<Rightarrow> call_event list \<Rightarrow> calls \<Rightarrow> calls" where
  "calls_after te evs c = fold (call_step te) evs c"

lemma calls_after_simps [simp]:
  "calls_after te [] c = c" "calls_after te (x # evs) c = calls_after te evs (call_step te x c)"
  "calls_after te (evs @ evs') c = calls_after te evs' (calls_after te evs c)"
  by (simp_all add: calls_after_def)

text \<open>A call the executor does not refuse.\<close>

definition permitted :: "tool_executor \<Rightarrow> string \<Rightarrow> execution_context option \<Rightarrow> time \<Rightarrow> bool" where
  "permitted te name ctx dur \<longleftrightarrow>
     discovery_failure te name dur = None \<and> authorization_failure te name ctx dur = None"

lemma permitted_begin:
  "permitted te name ctx dur \<Longrightarrow> tool_exec_begin te name key ctx dur st = idempotency_check (idem_active te key) st"
  by (simp add: tool_exec_begin_def permitted_def)

section \<open>The events of the store\<close>

text \<open>
  A claimed key has no record and an event of its own that is not set; the events of different keys differ.
\<close>

definition event_of :: "'r idem_store \<Rightarrow> string \<Rightarrow> nat option" where
  "event_of s k = map_of (im_events s) k"

definition store_inv :: "'r idem_store \<Rightarrow> bool" where
  "store_inv s \<longleftrightarrow> (\<forall>k ev. event_of s k = Some ev \<longrightarrow> ev < im_next s)
     \<and> (\<forall>ev \<in> set (im_set s). ev < im_next s)
     \<and> (\<forall>k j ev. event_of s k = Some ev \<longrightarrow> event_of s j = Some ev \<longrightarrow> k = j)
     \<and> (\<forall>k. idem_held s k \<longrightarrow> idem_get s k = None \<and> (\<exists>ev. event_of s k = Some ev \<and> ev \<notin> set (im_set s)))"

lemmas store_defs = store_inv_def event_of_def idem_held_def idem_get_def

lemma new_store_inv: "store_inv new_idem_store"
  by (simp add: store_defs new_idem_store_def)

lemma claim_store_inv:
  assumes "store_inv s"
  shows "store_inv (snd (idem_claim k s))"
proof (cases "fst (idem_claim k s)")
  case True
  then have c: "snd (idem_claim k s) = s\<lparr>im_claimed := k # im_claimed s,
      im_events := dset k (im_next s) (im_events s), im_next := im_next s + 1\<rparr>" "idem_get s k = None"
    by (auto simp: idem_claim_def idem_get_def split: if_splits)
  have old: "event_of s j \<noteq> Some (im_next s)" "im_next s \<notin> set (im_set s)" for j
    using assms by (auto simp: store_inv_def)
  show ?thesis
    using assms c(2) old unfolding c(1) store_defs by (auto simp: less_Suc_eq)
next
  case False
  then have "snd (idem_claim k s) = s" by (auto simp: idem_claim_def split: if_splits)
  then show ?thesis using assms by simp
qed

lemma same_events [simp]:
  "event_of (idem_put k r s) = event_of s" "event_of (idem_release k s) = event_of s"
  by (simp_all add: fun_eq_iff event_of_def idem_put_def idem_release_def)

text \<open>Both ways to give a key back set its event and no other one.\<close>

lemma given_back:
  assumes "event_of s k = Some ev"
  shows "im_set (idem_put k r s) = ev # im_set s" "im_set (idem_release k s) = ev # im_set s"
    "im_next (idem_put k r s) = im_next s" "im_next (idem_release k s) = im_next s"
  using assms by (simp_all add: fun_eq_iff event_of_def idem_put_def idem_release_def set_idem_event_def)

lemma other_event:
  assumes "store_inv s" "event_of s k = Some ev" "idem_held s j" "j \<noteq> k"
  shows "\<exists>e. event_of s j = Some e \<and> e \<noteq> ev \<and> e \<notin> set (im_set s)"
proof -
  obtain e where e: "event_of s j = Some e" "e \<notin> set (im_set s)" using assms by (auto simp: store_inv_def)
  moreover have "e \<noteq> ev" using assms e(1) unfolding store_inv_def by metis
  ultimately show ?thesis by blast
qed

lemma put_store_inv:
  assumes "store_inv s" "idem_held s k"
  shows "store_inv (idem_put k r s)"
proof -
  obtain ev where ev: "event_of s k = Some ev" using assms by (auto simp: store_inv_def)
  show ?thesis
    using assms(1) ev unfolding store_inv_def given_back [OF ev] mem_idem.put_get mem_idem.put_held
    by (auto intro: other_event [OF assms(1) ev])
qed

lemma release_store_inv:
  assumes "store_inv s" "idem_held s k"
  shows "store_inv (idem_release k s)"
proof -
  obtain ev where ev: "event_of s k = Some ev" using assms by (auto simp: store_inv_def)
  show ?thesis
    using assms(1) ev unfolding store_inv_def given_back [OF ev] mem_idem.release_get mem_idem.release_held
    by (auto intro: other_event [OF assms(1) ev])
qed

section \<open>Held keys\<close>

text \<open>\<open>owns\<close>: the running call \<open>i\<close> goes through the store with the key \<open>k\<close>.\<close>

definition owns :: "tool_executor \<Rightarrow> calls \<Rightarrow> nat \<Rightarrow> string \<Rightarrow> bool" where
  "owns te c i k \<longleftrightarrow> (case cs_running c i of None \<Rightarrow> False | Some (name, key) \<Rightarrow> idem_active te key = Some k)"

definition calls_inv :: "tool_executor \<Rightarrow> calls \<Rightarrow> bool" where
  "calls_inv te c \<longleftrightarrow> store_inv (cs_store c) \<and> (\<forall>i k. owns te c i k \<longrightarrow> idem_held (cs_store c) k)
     \<and> (\<forall>i j k. owns te c i k \<longrightarrow> owns te c j k \<longrightarrow> i = j)"

text \<open>What the beginning of a call does to the store.\<close>

lemma begin_store:
  assumes "tool_exec_begin te name key ctx dur st = (r, st')"
  shows "(r = Inr ExecSandbox \<and> idem_active te key = None \<and> st' = st)
    \<or> (\<exists>k. r = Inr ExecSandbox \<and> idem_active te key = Some k \<and> idem_claim k st = (True, st'))
    \<or> (r \<noteq> Inr ExecSandbox \<and> st' = st)"
proof (cases "idem_active te key")
  case None
  then show ?thesis using assms by (auto simp: tool_exec_begin_def idempotency_check_def split: option.splits)
next
  case (Some k)
  have refused: "snd (idem_claim k st) = st" if "\<not> fst (idem_claim k st)"
    using that by (auto simp: idem_claim_def split: if_splits)
  show ?thesis
    using assms Some refused
    by (auto simp: tool_exec_begin_def idempotency_check_def split: option.splits prod.splits if_splits
        sum.splits idem_wait.splits)
qed

text \<open>What its end does.\<close>

lemma finish_store:
  "snd (tool_exec_finish te name key dur out st) = (case idem_active te key of
      None \<Rightarrow> st
    | Some k \<Rightarrow> (case out of
        Inr t \<Rightarrow> idem_put k \<lparr>tr_success = True, tr_output = PStr t, tr_error = None,
            tr_metadata = [(''tool_name'', PStr name)], tr_duration_seconds = Some dur\<rparr> st
      | Inl x \<Rightarrow> (if isinstance_exc x PyException then idem_release k st else st)))"
  by (simp add: tool_exec_finish_def Let_def split: sum.split option.split)

lemma owns_begun:
  assumes "cs_running c i = None"
  shows "owns te \<lparr>cs_store = st, cs_running = (cs_running c)(i \<mapsto> (name, key))\<rparr> j k
    \<longleftrightarrow> (if j = i then idem_active te key = Some k else owns te c j k)"
  by (simp add: owns_def)

lemma owns_ended:
  "owns te \<lparr>cs_store = st, cs_running = (cs_running c)(i := None)\<rparr> j k \<longleftrightarrow> j \<noteq> i \<and> owns te c j k"
  by (simp add: owns_def)

lemma owns_store [simp]: "owns te (c\<lparr>cs_store := st\<rparr>) = owns te c"
  by (simp add: owns_def fun_eq_iff)

lemma claim_inv_step:
  assumes inv: "calls_inv te c" and new: "cs_running c i = None" and active: "idem_active te key = Some k"
    and claim: "idem_claim k (cs_store c) = (True, st)"
  shows "calls_inv te \<lparr>cs_store = st, cs_running = (cs_running c)(i \<mapsto> (name, key))\<rparr>"
proof -
  have st: "st = snd (idem_claim k (cs_store c))" using claim by simp
  have free: "\<not> idem_held (cs_store c) k" "idem_get (cs_store c) k = None"
    using claim mem_idem.claim_granted [of k "cs_store c"] by simp_all
  have "store_inv st" unfolding st by (rule claim_store_inv) (use inv in \<open>simp add: calls_inv_def\<close>)
  moreover have held: "idem_held st j \<longleftrightarrow> idem_held (cs_store c) j \<or> j = k" for j
    unfolding st by (simp add: mem_idem.claim_held free)
  ultimately show ?thesis
    using inv free(1) active unfolding calls_inv_def owns_begun [of c i te, OF new] by auto
qed

lemma end_inv_step:
  assumes inv: "calls_inv te c" and run: "cs_running c i = Some (name, key)"
  shows "calls_inv te \<lparr>cs_store = snd (tool_exec_finish te name key dur out (cs_store c)),
    cs_running = (cs_running c)(i := None)\<rparr>"
proof (cases "idem_active te key")
  case None
  then show ?thesis using inv by (auto simp: calls_inv_def owns_ended finish_store)
next
  case (Some k)
  then have own: "owns te c i k" using run by (simp add: owns_def)
  have st: "store_inv (cs_store c)" "idem_held (cs_store c) k"
    using inv own by (auto simp: calls_inv_def)
  have others: "owns te c j k' \<Longrightarrow> j \<noteq> i \<Longrightarrow> k' \<noteq> k \<and> idem_held (cs_store c) k'" for j k'
    using inv own by (auto simp: calls_inv_def)
  have unique: "\<forall>j j' k. j \<noteq> i \<and> owns te c j k \<longrightarrow> j' \<noteq> i \<and> owns te c j' k \<longrightarrow> j = j'"
    using inv by (auto simp: calls_inv_def)
  show ?thesis
    unfolding calls_inv_def owns_ended
    using st others unique
    by (auto simp: finish_store Some mem_idem.put_held mem_idem.release_held
        intro: put_store_inv release_store_inv split: sum.split)
qed

lemma call_step_inv: "calls_inv te c \<Longrightarrow> calls_inv te (call_step te x c)"
proof (cases x)
  case (Call_begins i name key ctx dur)
  assume inv: "calls_inv te c"
  obtain r st where b: "tool_exec_begin te name key ctx dur (cs_store c) = (r, st)" by fastforce
  show ?thesis
  proof (cases "cs_running c i = None")
    case True
    from begin_store [OF b] show ?thesis
    proof (elim disjE exE conjE)
      assume "r = Inr ExecSandbox" "idem_active te key = None" "st = cs_store c"
      then show ?thesis
        using inv b True unfolding Call_begins by (auto simp: calls_inv_def owns_begun)
    next
      fix k assume "r = Inr ExecSandbox" "idem_active te key = Some k" "idem_claim k (cs_store c) = (True, st)"
      then show ?thesis
        using b True claim_inv_step [OF inv True] unfolding Call_begins by simp
    next
      assume "r \<noteq> Inr ExecSandbox" "st = cs_store c"
      then show ?thesis using inv b True unfolding Call_begins by simp
    qed
  next
    case False
    with inv show ?thesis unfolding Call_begins by simp
  qed
next
  case (Call_ends i dur out)
  assume "calls_inv te c"
  then show ?thesis
    using end_inv_step [of te c i] unfolding Call_ends by (simp split: option.split prod.split)
qed

lemma idle_calls_inv: "calls_inv te idle_calls"
  by (simp add: calls_inv_def idle_calls_def owns_def new_store_inv)

lemma calls_after_inv: "calls_inv te c \<Longrightarrow> calls_inv te (calls_after te evs c)"
  by (induction evs arbitrary: c) (simp_all add: call_step_inv)

section \<open>What stays\<close>

lemma owned_key:
  assumes "calls_inv te c" "owns te c i k"
  shows "idem_held (cs_store c) k" "idem_get (cs_store c) k = None"
    "\<exists>ev. event_of (cs_store c) k = Some ev \<and> ev \<notin> set (im_set (cs_store c))"
  using assms by (auto simp: calls_inv_def store_inv_def)

text \<open>A step of the store, seen from a key no running call owns.\<close>

definition unowned :: "tool_executor \<Rightarrow> calls \<Rightarrow> string \<Rightarrow> bool" where
  "unowned te c k \<longleftrightarrow> (\<forall>i. \<not> owns te c i k)"

text \<open>A claim without an owner stays as it is; a record is never replaced; a set event stays set.\<close>

definition orphaned :: "tool_executor \<Rightarrow> string \<Rightarrow> nat \<Rightarrow> calls \<Rightarrow> bool" where
  "orphaned te k ev c \<longleftrightarrow> calls_inv te c \<and> idem_held (cs_store c) k \<and> unowned te c k
     \<and> event_of (cs_store c) k = Some ev"

definition key_answered :: "tool_executor \<Rightarrow> string \<Rightarrow> tool_result \<Rightarrow> nat \<Rightarrow> calls \<Rightarrow> bool" where
  "key_answered te k r ev c \<longleftrightarrow> calls_inv te c \<and> idem_get (cs_store c) k = Some r \<and> ev \<in> set (im_set (cs_store c))"

lemma claim_event:
  "j \<noteq> k \<Longrightarrow> event_of (snd (idem_claim j s)) k = event_of s k" "im_set (snd (idem_claim j s)) = im_set s"
  by (simp_all add: idem_claim_def event_of_def)

lemma set_event_keeps: "ev \<in> set (im_set s) \<Longrightarrow> ev \<in> set (im_set (idem_put k r s))"
  "ev \<in> set (im_set s) \<Longrightarrow> ev \<in> set (im_set (idem_release k s))"
  by (simp_all add: idem_put_def idem_release_def set_idem_event_def split: option.split)

lemma calls_self: "\<lparr>cs_store = cs_store c, cs_running = cs_running c\<rparr> = c"
  by (cases c) simp

text \<open>The steps that change the store: a granted claim, and the end of a call that owns its key.\<close>

lemma call_step_cases:
  assumes same: "\<And>run. (\<And>k. unowned te c k \<Longrightarrow> unowned te \<lparr>cs_store = cs_store c, cs_running = run\<rparr> k) \<Longrightarrow>
      P \<lparr>cs_store = cs_store c, cs_running = run\<rparr>"
    and claimed: "\<And>j run. fst (idem_claim j (cs_store c)) \<Longrightarrow>
      (\<And>k. k \<noteq> j \<Longrightarrow> unowned te c k \<Longrightarrow> unowned te \<lparr>cs_store = snd (idem_claim j (cs_store c)), cs_running = run\<rparr> k) \<Longrightarrow>
      P \<lparr>cs_store = snd (idem_claim j (cs_store c)), cs_running = run\<rparr>"
    and put: "\<And>i j r run. owns te c i j \<Longrightarrow>
      (\<And>k. unowned te c k \<Longrightarrow> unowned te \<lparr>cs_store = idem_put j r (cs_store c), cs_running = run\<rparr> k) \<Longrightarrow>
      P \<lparr>cs_store = idem_put j r (cs_store c), cs_running = run\<rparr>"
    and release: "\<And>i j run. owns te c i j \<Longrightarrow>
      (\<And>k. unowned te c k \<Longrightarrow> unowned te \<lparr>cs_store = idem_release j (cs_store c), cs_running = run\<rparr> k) \<Longrightarrow>
      P \<lparr>cs_store = idem_release j (cs_store c), cs_running = run\<rparr>"
  shows "P (call_step te x c)"
proof (cases x)
  case (Call_begins i name key ctx dur)
  have P: "P c" using same [of "cs_running c"] by (simp add: calls_self)
  obtain r st where b: "tool_exec_begin te name key ctx dur (cs_store c) = (r, st)" by fastforce
  show ?thesis
  proof (cases "cs_running c i = None \<and> r = Inr ExecSandbox")
    case True
    let ?c = "\<lparr>cs_store = st, cs_running = (cs_running c)(i \<mapsto> (name, key))\<rparr>"
    have "P ?c"
    proof (cases "idem_active te key")
      case None
      then have "st = cs_store c" using begin_store [OF b] by auto
      moreover have "unowned te c k \<Longrightarrow> unowned te ?c k" for k
        using None True by (simp add: unowned_def owns_begun)
      ultimately show ?thesis using same by simp
    next
      case (Some j)
      then have st: "fst (idem_claim j (cs_store c))" "st = snd (idem_claim j (cs_store c))"
        using begin_store [OF b] True by auto
      have "k \<noteq> j \<Longrightarrow> unowned te c k \<Longrightarrow> unowned te ?c k" for k
        using Some True by (simp add: unowned_def owns_begun)
      then show ?thesis using claimed [OF st(1)] unfolding st(2) by blast
    qed
    then show ?thesis using b True unfolding Call_begins by simp
  next
    case False
    then show ?thesis using b begin_store [OF b] P unfolding Call_begins by auto
  qed
next
  case (Call_ends i dur out)
  show ?thesis
  proof (cases "cs_running c i")
    case None
    then show ?thesis using same [of "cs_running c"] unfolding Call_ends by (simp add: calls_self)
  next
    case (Some call)
    obtain name key where call: "call = (name, key)" by fastforce
    have un: "unowned te c k \<Longrightarrow> unowned te \<lparr>cs_store = st, cs_running = (cs_running c)(i := None)\<rparr> k" for k st
      by (simp add: unowned_def owns_ended)
    have step: "call_step te x c = \<lparr>cs_store = snd (tool_exec_finish te name key dur out (cs_store c)),
        cs_running = (cs_running c)(i := None)\<rparr>"
      using Some unfolding Call_ends call by simp
    show ?thesis
    proof (cases "idem_active te key")
      case None
      then show ?thesis using same [OF un] unfolding step finish_store by simp
    next
      case active: (Some k)
      then have "owns te c i k" using Some call by (simp add: owns_def)
      then show ?thesis
        using same [OF un] put [OF _ un] release [OF _ un] unfolding step finish_store
        by (simp add: active split: sum.split)
    qed
  qed
qed

lemma orphaned_step: "orphaned te k ev c \<Longrightarrow> orphaned te k ev (call_step te x c)"
proof -
  assume o: "orphaned te k ev c"
  have inv: "calls_inv te (call_step te x c)" using o by (simp add: orphaned_def call_step_inv)
  have k: "idem_held (cs_store c) k" "unowned te c k" "event_of (cs_store c) k = Some ev"
    using o by (auto simp: orphaned_def)
  have other: "j \<noteq> k" if "owns te c i j" for i j
    using k(2) that by (auto simp: unowned_def)
  let ?P = "\<lambda>c. idem_held (cs_store c) k \<and> unowned te c k \<and> event_of (cs_store c) k = Some ev"
  have "?P (call_step te x c)"
  proof (rule call_step_cases [where te = te and c = c])
    fix j run
    assume g: "fst (idem_claim j (cs_store c))"
      and u: "\<And>k. k \<noteq> j \<Longrightarrow> unowned te c k \<Longrightarrow> unowned te \<lparr>cs_store = snd (idem_claim j (cs_store c)), cs_running = run\<rparr> k"
    have "j \<noteq> k" using g k(1) by (auto simp: mem_idem.claim_granted)
    then show "?P \<lparr>cs_store = snd (idem_claim j (cs_store c)), cs_running = run\<rparr>"
      using u [of k] k by (simp add: mem_idem.claim_held claim_event)
  qed (use k other in \<open>auto simp: mem_idem.put_held mem_idem.release_held\<close>)
  with inv show ?thesis by (simp add: orphaned_def)
qed

lemma key_answered_step: "key_answered te k r ev c \<Longrightarrow> key_answered te k r ev (call_step te x c)"
proof -
  assume a: "key_answered te k r ev c"
  have inv: "calls_inv te (call_step te x c)" using a by (simp add: key_answered_def call_step_inv)
  have k: "idem_get (cs_store c) k = Some r" "ev \<in> set (im_set (cs_store c))" using a by (auto simp: key_answered_def)
  have other: "j \<noteq> k" if "owns te c i j" for i j
    using owned_key(2) [OF _ that] a by (auto simp: key_answered_def)
  let ?P = "\<lambda>c. idem_get (cs_store c) k = Some r \<and> ev \<in> set (im_set (cs_store c))"
  have "?P (call_step te x c)"
    by (rule call_step_cases [where te = te and c = c])
       (use k other in \<open>auto simp: mem_idem.claim_get mem_idem.put_get mem_idem.release_get claim_event set_event_keeps\<close>)
  with inv show ?thesis by (simp add: key_answered_def)
qed

lemma orphaned_after: "orphaned te k ev c \<Longrightarrow> orphaned te k ev (calls_after te evs c)"
  by (induction evs arbitrary: c) (simp_all add: orphaned_step)

lemma key_answered_after: "key_answered te k r ev c \<Longrightarrow> key_answered te k r ev (calls_after te evs c)"
  by (induction evs arbitrary: c) (simp_all add: key_answered_step)

section \<open>What a later call meets\<close>

lemma orphaned_blocks:
  assumes "orphaned te k ev c"
  shows "idem_get (cs_store c) k = None" "ev \<notin> set (im_set (cs_store c))"
    "permitted te name ctx dur \<Longrightarrow> idem_active te key = Some k \<Longrightarrow>
       tool_exec_begin te name key ctx dur (cs_store c) = (Inr (ExecWait ev), cs_store c)"
proof -
  show none: "idem_get (cs_store c) k = None" and "ev \<notin> set (im_set (cs_store c))"
    using assms by (auto simp: orphaned_def calls_inv_def store_inv_def)
  have "idem_claim k (cs_store c) = (False, cs_store c)"
    using assms by (simp add: orphaned_def idem_claim_def idem_held_def)
  then show "permitted te name ctx dur \<Longrightarrow> idem_active te key = Some k \<Longrightarrow>
       tool_exec_begin te name key ctx dur (cs_store c) = (Inr (ExecWait ev), cs_store c)"
    using none assms
    by (simp add: permitted_begin idempotency_check_def idem_wait_begin_def orphaned_def event_of_def idem_get_def)
qed

lemma key_answered_answers:
  assumes "key_answered te k r ev c"
  shows "tool_exec_waited (Some k) (cs_store c) = Inr r"
    "permitted te name ctx dur \<Longrightarrow> idem_active te key = Some k \<Longrightarrow>
       tool_exec_begin te name key ctx dur (cs_store c) = (Inr (ExecDone r), cs_store c)"
  using assms
  by (simp_all add: key_answered_def tool_exec_waited_def idem_wait_end_def idem_get_def permitted_begin
      idempotency_check_def)

section \<open>How a call ends\<close>

lemma cancelled_end:
  assumes "calls_inv te c" "owns te c i k" "\<not> isinstance_exc x PyException"
  shows "\<exists>ev. orphaned te k ev (call_step te (Call_ends i dur (Inl x)) c)"
proof -
  obtain ev where ev: "event_of (cs_store c) k = Some ev" using owned_key(3) [OF assms(1,2)] by blast
  obtain name key where run: "cs_running c i = Some (name, key)" "idem_active te key = Some k"
    using assms(2) by (auto simp: owns_def split: option.splits)
  have step: "call_step te (Call_ends i dur (Inl x)) c = \<lparr>cs_store = cs_store c, cs_running = (cs_running c)(i := None)\<rparr>"
    using run assms(3) by (simp add: finish_store)
  have "unowned te \<lparr>cs_store = cs_store c, cs_running = (cs_running c)(i := None)\<rparr> k"
    using assms(1,2) by (auto simp: unowned_def owns_ended calls_inv_def)
  then show ?thesis
    using call_step_inv [OF assms(1), of "Call_ends i dur (Inl x)"] owned_key(1) [OF assms(1,2)] ev
    unfolding orphaned_def step by simp
qed

lemma successful_end:
  assumes "calls_inv te c" "cs_running c i = Some (name, key)" "idem_active te key = Some k"
  shows "\<exists>r ev. fst (tool_exec_finish te name key dur (Inr out) (cs_store c)) = Inr r \<and> tr_success r \<and> tr_output r = PStr out
    \<and> event_of (cs_store c) k = Some ev \<and> key_answered te k r ev (call_step te (Call_ends i dur (Inr out)) c)"
proof -
  have own: "owns te c i k" using assms by (simp add: owns_def)
  obtain ev where ev: "event_of (cs_store c) k = Some ev" using owned_key(3) [OF assms(1) own] by blast
  show ?thesis
    using call_step_inv [OF assms(1), of "Call_ends i dur (Inr out)"] ev assms(2,3)
    by (simp add: key_answered_def tool_exec_finish_def Let_def mem_idem.put_get given_back)
qed

text \<open>Any exception but a cancellation is a failure result, and gives the key back.\<close>

lemma failed_end:
  assumes "calls_inv te c" "cs_running c i = Some (name, key)" "idem_active te key = Some k" "isinstance_exc x PyException"
  shows "fst (tool_exec_finish te name key dur (Inl x) (cs_store c))
      = Inr (failure_result (exc_msg x) (type_name (exc_class x)) name dur)"
    "\<exists>ev. event_of (cs_store c) k = Some ev \<and> ev \<in> set (im_set (cs_store (call_step te (Call_ends i dur (Inl x)) c)))"
    "idem_get (cs_store (call_step te (Call_ends i dur (Inl x)) c)) k = None"
    "permitted te name' ctx dur' \<Longrightarrow> idem_active te key' = Some k \<Longrightarrow>
       fst (tool_exec_begin te name' key' ctx dur' (cs_store (call_step te (Call_ends i dur (Inl x)) c))) = Inr ExecSandbox"
proof -
  have own: "owns te c i k" using assms by (simp add: owns_def)
  obtain ev where ev: "event_of (cs_store c) k = Some ev" using owned_key(3) [OF assms(1) own] by blast
  have st: "cs_store (call_step te (Call_ends i dur (Inl x)) c) = idem_release k (cs_store c)"
    using assms(2-4) by (simp add: finish_store)
  show "fst (tool_exec_finish te name key dur (Inl x) (cs_store c))
      = Inr (failure_result (exc_msg x) (type_name (exc_class x)) name dur)"
    using assms(4) by (simp add: tool_exec_finish_def)
  show "\<exists>ev. event_of (cs_store c) k = Some ev \<and> ev \<in> set (im_set (cs_store (call_step te (Call_ends i dur (Inl x)) c)))"
    unfolding st using ev by (simp add: given_back)
  show none: "idem_get (cs_store (call_step te (Call_ends i dur (Inl x)) c)) k = None"
    unfolding st by (simp add: mem_idem.release_get owned_key(2) [OF assms(1) own])
  have "fst (idem_claim k (idem_release k (cs_store c)))"
    using none unfolding st by (simp add: mem_idem.claim_granted mem_idem.release_held)
  then show "permitted te name' ctx dur' \<Longrightarrow> idem_active te key' = Some k \<Longrightarrow>
       fst (tool_exec_begin te name' key' ctx dur' (cs_store (call_step te (Call_ends i dur (Inl x)) c))) = Inr ExecSandbox"
    using none unfolding st by (auto simp: permitted_begin idempotency_check_def split: prod.split)
qed

end
