(* ===== verification/Retry.thy ===== *)
theory Retry
  imports PyValue
begin

text \<open>
  Retry decisions and back-off (\<^verbatim>\<open>retry_policy.py\<close>), and the interface \<open>capped_backoff\<close> of a delay
  that doubles up to a cap, which the worker and the inference gateway's HTTP client satisfy too.
\<close>

section \<open>Delays that double up to a cap\<close>

text \<open>\<open>delay n\<close> is the wait after \<open>n\<close> earlier failures.\<close>

locale capped_backoff =
  fixes delay :: "nat \<Rightarrow> 'a::linordered_idom"
    and base cap :: 'a
  assumes base_nonneg: "0 \<le> base"
    and cap_nonneg: "0 \<le> cap"
    and first: "delay 0 = min base cap"
    and double: "delay (Suc n) = min (2 * delay n) cap"
begin

lemma closed_form: "delay n = min (base * 2 ^ n) cap"
proof (induction n)
  case (Suc n)
  show ?case
  proof (cases "base * 2 ^ n \<le> cap")
    case False
    then have "cap \<le> 2 * cap" "cap \<le> base * 2 ^ Suc n"
      using cap_nonneg by (simp_all add: algebra_simps)
    with False Suc show ?thesis by (simp add: double min_def)
  qed (simp add: double Suc mult_ac)
qed (simp add: first)

lemma bounds: "0 \<le> delay n \<and> delay n \<le> cap"
  using base_nonneg cap_nonneg by (simp add: closed_form)

lemma grows: "m \<le> n \<Longrightarrow> delay m \<le> delay n"
proof -
  assume "m \<le> n"
  then have "(2 :: 'a) ^ m \<le> 2 ^ n" by (intro power_increasing) simp_all
  then have "base * 2 ^ m \<le> base * 2 ^ n"
    using base_nonneg by (rule mult_left_mono)
  then show ?thesis unfolding closed_form by (rule min.mono) simp
qed

lemma stays_capped: "cap \<le> base * 2 ^ m \<Longrightarrow> m \<le> n \<Longrightarrow> delay n = cap"
  using grows [of m n] bounds [of n] closed_form [of m] by (simp add: min_def split: if_splits)

text \<open>All the waits of a retry loop together.\<close>

lemma total_bound: "(\<Sum>i<n. delay i) \<le> of_nat n * cap"
  using sum_bounded_above [of "{..<n}" delay cap] bounds by simp

end

section \<open>The retry policy\<close>

record retry_policy =
  rp_max_attempts :: int
  rp_base_delay :: time
  rp_max_delay :: time
  rp_jitter :: bool

definition new_retry_policy :: "retry_policy \<Rightarrow> retry_policy result" where
  "new_retry_policy p =
     (if rp_max_attempts p \<le> 0 then raise ValueError ''max_attempts must be greater than zero''
      else if rp_base_delay p < 0 then
        raise ValueError ''base_delay must be greater than or equal to zero''
      else if rp_max_delay p < 0 then
        raise ValueError ''max_delay must be greater than or equal to zero''
      else if rp_max_delay p < rp_base_delay p then
        raise ValueError ''max_delay must be greater than or equal to base_delay''
      else Inr p)"

definition should_retry :: "retry_policy \<Rightarrow> exc \<Rightarrow> int \<Rightarrow> bool result" where
  "should_retry p err attempt =
     (if attempt < 1 then raise ValueError ''attempt must be greater than or equal to one''
      else if rp_max_attempts p \<le> attempt then Inr False
      else if isinstance_exc err ExecutionCancelled \<or> isinstance_exc err ExecutionLimitExceeded
        then Inr False
      else Inr (isinstance_exc err LLMConnectionError \<or> isinstance_exc err LLMTimeoutError
                \<or> isinstance_exc err ToolExecutionError))"

text \<open>\<open>random.uniform(a, b)\<close> for the draw \<open>u\<close> of \<open>random.random()\<close>.\<close>

definition random_uniform :: "time \<Rightarrow> time \<Rightarrow> time \<Rightarrow> time" where
  "random_uniform u a b = a + (b - a) * u"

definition capped_delay :: "retry_policy \<Rightarrow> int \<Rightarrow> time" where
  "capped_delay p attempt = min (rp_base_delay p * 2 ^ nat (attempt - 1)) (rp_max_delay p)"

definition get_delay :: "retry_policy \<Rightarrow> time \<Rightarrow> int \<Rightarrow> time result" where
  "get_delay p u attempt =
     (if attempt < 1 then raise ValueError ''attempt must be greater than or equal to one''
      else if \<not> rp_jitter p then Inr (capped_delay p attempt)
      else Inr (random_uniform u 0 (capped_delay p attempt)))"

definition policy_ok :: "retry_policy \<Rightarrow> bool" where
  "policy_ok p \<longleftrightarrow> 0 < rp_max_attempts p \<and> 0 \<le> rp_base_delay p \<and> rp_base_delay p \<le> rp_max_delay p"

lemma new_retry_policy_iff: "new_retry_policy p = Inr q \<longleftrightarrow> q = p \<and> policy_ok p"
  by (auto simp: new_retry_policy_def policy_ok_def)

text \<open>
  The laws for any capped doubling written the way the three clients write it, and their
  instance at the policy.
\<close>

lemma capped_backoff_doubling:
  fixes base cap :: "'a::linordered_idom"
  assumes "0 \<le> base" "0 \<le> cap"
  shows "capped_backoff (\<lambda>n. min (base * 2 ^ n) cap) base cap"
proof
  fix n :: nat
  show "min (base * 2 ^ Suc n) cap = min (2 * min (base * 2 ^ n) cap) cap"
  proof (cases "base * 2 ^ n \<le> cap")
    case False
    then have "cap \<le> 2 * cap" "cap \<le> base * 2 ^ Suc n"
      using assms by (simp_all add: algebra_simps)
    with False show ?thesis by (simp add: min_def)
  qed (simp add: mult_ac)
qed (use assms in simp_all)

lemma policy_backoff:
  assumes "policy_ok p"
  shows "capped_backoff (\<lambda>n. capped_delay p (int n + 1)) (rp_base_delay p) (rp_max_delay p)"
  using capped_backoff_doubling [of "rp_base_delay p" "rp_max_delay p"] assms
  by (simp add: policy_ok_def capped_delay_def)

definition default_policy :: retry_policy where
  "default_policy = \<lparr>rp_max_attempts = 3, rp_base_delay = 1 / 5, rp_max_delay = 2, rp_jitter = True\<rparr>"

interpretation default_backoff:
  capped_backoff "\<lambda>n. capped_delay default_policy (int n + 1)" "1 / 5" 2
  using policy_backoff [of default_policy] by (simp add: policy_ok_def default_policy_def)

text \<open>A delay lies between zero and the cap, with and without jitter.\<close>

lemma get_delay_bounds:
  assumes "policy_ok p" "1 \<le> attempt" "0 \<le> u" "u \<le> 1"
  shows "\<exists>d. get_delay p u attempt = Inr d \<and> 0 \<le> d \<and> d \<le> rp_max_delay p"
proof -
  have c: "0 \<le> capped_delay p attempt" "capped_delay p attempt \<le> rp_max_delay p"
    using assms capped_backoff.bounds [OF policy_backoff [OF assms(1)], of "nat (attempt - 1)"]
    by simp_all
  then have "capped_delay p attempt * u \<le> capped_delay p attempt"
    using assms by (simp add: mult_left_le)
  with c assms show ?thesis
    by (auto simp: get_delay_def random_uniform_def)
qed

text \<open>A retry is granted only before the last attempt.\<close>

lemma should_retry_True:
  "should_retry p e a = Inr True \<Longrightarrow> 1 \<le> a \<and> a < rp_max_attempts p"
  by (auto simp: should_retry_def split: if_splits)

text \<open>Cancellation and exhausted limits are never retried.\<close>

lemma no_retry_after_cancel:
  "1 \<le> a \<Longrightarrow> isinstance_exc e ExecutionCancelled \<or> isinstance_exc e ExecutionLimitExceeded
     \<Longrightarrow> should_retry p e a = Inr False"
  by (auto simp: should_retry_def)

end
