(* ===== verification/Backend.thy ===== *)
theory Backend
  imports PyValue Effects Retry
begin

text \<open>
  The HTTP backend of an inference provider (\<^verbatim>\<open>inference/app/backend.py\<close>): construction, the
  retry loop of a chat completion with its error handlers and metrics, the streaming call, the
  health check.  The HTTP client is the environment: it answers the \<open>n\<close>-th POST, the \<open>n\<close>-th stream
  and the \<open>n\<close>-th GET of the process, and the clock, the jitter and the cancellation of sleeps are
  read at a common counter.
\<close>

section \<open>The HTTP world\<close>

text \<open>
  \<open>hr_json\<close> is what \<open>response.json()\<close> returns, \<open>None\<close> when it raises \<open>ValueError\<close>;
  \<open>hr_error_text\<close> is the text of the exception \<open>raise_for_status\<close> makes of the response.
\<close>

record http_reply =
  hr_status :: int
  hr_json :: "pyval option"
  hr_error_text :: string

text \<open>
  A body travels as text.  \<open>wire\<close> is what the other side reads of a body that is rendered: the same value,
  or nothing when the value has no JSON text (a float that is not a number).
\<close>

definition faithful_wire :: "(pyval \<Rightarrow> pyval option) \<Rightarrow> bool" where
  "faithful_wire wire \<longleftrightarrow> (\<forall>v. wire v = Some v \<or> wire v = None)"

datatype http_outcome = Replied http_reply | Failed exc

record http_request =
  rq_url :: string
  rq_headers :: "(string \<times> string) list"
  rq_json :: pydict

record http_stream =
  st_opened :: http_outcome
  st_chunks :: "string list"
  st_ended :: "exc option"

record http_env =
  he_post :: "nat \<Rightarrow> http_outcome"
  he_stream :: "nat \<Rightarrow> http_stream"
  he_get :: "nat \<Rightarrow> http_outcome"
  he_aclose :: "nat \<Rightarrow> exc option"
  he_perf :: "nat \<Rightarrow> time"
  he_now :: "nat \<Rightarrow> time"
  he_uniform :: "nat \<Rightarrow> time"
  he_sleep_cancelled :: "nat \<Rightarrow> bool"

text \<open>The increments and observations on the provider metrics, in order.\<close>

datatype provider_metric =
    M_duration string string time
  | M_requests string string string
  | M_retries string string string
  | M_errors string string string

record http_world =
  hw_tick :: nat
  hw_posts :: "http_request list"
  hw_streams :: "http_request list"
  hw_gets :: "(string \<times> (string \<times> string) list) list"
  hw_yielded :: "string list"
  hw_sleeps :: "time list"
  hw_metrics :: "provider_metric list"
  hw_closed :: "string set"

definition new_http_world :: http_world where
  "new_http_world = \<lparr>hw_tick = 0, hw_posts = [], hw_streams = [], hw_gets = [], hw_yielded = [],
     hw_sleeps = [], hw_metrics = [], hw_closed = {}\<rparr>"

type_synonym ('x, 'a) http_act = "('x http_world_scheme, 'a) act"

definition read_env :: "(nat \<Rightarrow> 'a) \<Rightarrow> ('x, 'a) http_act" where
  "read_env f w = (Inr (f (hw_tick w)), w\<lparr>hw_tick := hw_tick w + 1\<rparr>)"

definition metric :: "provider_metric \<Rightarrow> ('x, unit) http_act" where
  "metric m = modify (\<lambda>w. w\<lparr>hw_metrics := hw_metrics w @ [m]\<rparr>)"

text \<open>\<open>await self._client.post(...)\<close>.\<close>

definition http_post :: "http_env \<Rightarrow> http_request \<Rightarrow> ('x, http_reply) http_act" where
  "http_post e rq w = (let w' = w\<lparr>hw_posts := hw_posts w @ [rq]\<rparr> in
     (case he_post e (length (hw_posts w)) of Replied r \<Rightarrow> (Inr r, w') | Failed x \<Rightarrow> (Inl x, w')))"

text \<open>\<open>await asyncio.sleep(d)\<close>.\<close>

definition http_sleep :: "http_env \<Rightarrow> time \<Rightarrow> ('x, unit) http_act" where
  "http_sleep e d = seq (modify (\<lambda>w. w\<lparr>hw_sleeps := hw_sleeps w @ [d]\<rparr>))
     (bnd (read_env (he_sleep_cancelled e)) (\<lambda>c. if c then throw (Exc CancelledError []) else ret ()))"

section \<open>Construction\<close>

record backend =
  be_provider :: string
  be_base_url :: string
  be_api_key :: "string option"
  be_timeout :: time
  be_max_retries :: int
  be_connect_timeout :: time
  be_max_connections :: int
  be_max_keepalive :: int

definition new_backend ::
  "string \<Rightarrow> string \<Rightarrow> string option \<Rightarrow> time \<Rightarrow> int \<Rightarrow> int \<Rightarrow> int \<Rightarrow> backend result" where
  "new_backend provider base_url api_key timeout max_retries max_connections max_keepalive =
     (if provider = [] then raise ValueError ''provider_name must not be empty''
      else if base_url = [] then raise ValueError ''base_url must not be empty''
      else if timeout \<le> 0 then raise ValueError ''timeout must be greater than zero''
      else if max_retries < 0 then raise ValueError ''max_retries must be >= 0''
      else if max_connections \<le> 0 then raise ValueError ''max_connections must be greater than zero''
      else if max_keepalive \<le> 0 then
        raise ValueError ''max_keepalive_connections must be greater than zero''
      else Inr \<lparr>be_provider = provider, be_base_url = rstrip_slash base_url, be_api_key = api_key,
             be_timeout = timeout, be_max_retries = max_retries,
             be_connect_timeout = min timeout 10, be_max_connections = max_connections,
             be_max_keepalive = max_keepalive\<rparr>)"

definition backend_headers :: "backend \<Rightarrow> (string \<times> string) list" where
  "backend_headers b =
     [(''Content-Type'', ''application/json''), (''Accept'', ''application/json'')]
     @ (case be_api_key b of
          Some k \<Rightarrow> (if k \<noteq> [] then [(''Authorization'', ''Bearer '' @ k)] else [])
        | None \<Rightarrow> [])"

definition payload_model :: "pydict \<Rightarrow> string" where
  "payload_model payload = py_str (dget_or payload ''model'' (PStr ''unknown''))"

section \<open>The retry loop\<close>

definition retryable_status :: "int \<Rightarrow> bool" where
  "retryable_status s \<longleftrightarrow> s \<in> {500, 502, 503, 504}"

text \<open>\<open>raise_for_status\<close> accepts the 2xx replies.\<close>

definition raise_for_status :: "http_reply \<Rightarrow> unit result" where
  "raise_for_status r =
     (if 200 \<le> hr_status r \<and> hr_status r \<le> 299 then Inr ()
      else raise HttpStatusError (hr_error_text r))"

definition http_reason :: "int \<Rightarrow> string" where
  "http_reason s = ''http_'' @ int_str s"

definition backoff_delay :: "nat \<Rightarrow> time" where
  "backoff_delay n = min (1 / 2 * 2 ^ n) 10"

definition backoff :: "http_env \<Rightarrow> nat \<Rightarrow> ('x, unit) http_act" where
  "backoff e n = bnd (read_env (\<lambda>i. random_uniform (he_uniform e i) 0 (1 / 4)))
     (\<lambda>jitter. http_sleep e (backoff_delay n + jitter))"

definition observe_duration :: "http_env \<Rightarrow> backend \<Rightarrow> string \<Rightarrow> time \<Rightarrow> ('x, unit) http_act" where
  "observe_duration e b model started =
     bnd (read_env (he_perf e)) (\<lambda>t. metric (M_duration (be_provider b) model (t - started)))"

text \<open>
  One pass of the loop is an action returning \<open>Some data\<close> for \<open>return data\<close> and \<open>None\<close> for
  \<open>continue\<close>.  First the reply with a status to retry.
\<close>

definition on_retryable :: "http_env \<Rightarrow> backend \<Rightarrow> string \<Rightarrow> nat \<Rightarrow> http_reply \<Rightarrow> ('x, bool) http_act" where
  "on_retryable e b model n r =
     seq (metric (M_requests (be_provider b) model ''retryable_error''))
     (if int n < be_max_retries b then
        seq (metric (M_retries (be_provider b) model (http_reason (hr_status r))))
        (seq (backoff e n) (ret True))
      else
        seq (metric (M_errors (be_provider b) model (http_reason (hr_status r))))
        (seq (lift_res (raise_for_status r)) (ret False)))"

definition read_data :: "backend \<Rightarrow> string \<Rightarrow> http_reply \<Rightarrow> ('x, pydict) http_act" where
  "read_data b model r =
     seq (if 400 \<le> hr_status r \<and> hr_status r < 500
          then seq (metric (M_requests (be_provider b) model ''client_error''))
                   (lift_res (raise_for_status r))
          else ret ())
     (seq (lift_res (raise_for_status r))
     (case hr_json r of
        None \<Rightarrow> seq (metric (M_errors (be_provider b) model ''invalid_json''))
                    (throw (Exc RuntimeError ''Inference provider returned invalid JSON''))
      | Some (PDict d) \<Rightarrow> seq (metric (M_requests (be_provider b) model ''success'')) (ret d)
      | Some _ \<Rightarrow> seq (metric (M_errors (be_provider b) model ''invalid_response''))
                    (throw (Exc RuntimeError ''Inference provider returned a non-object response''))))"

definition try_post ::
  "http_env \<Rightarrow> backend \<Rightarrow> pydict \<Rightarrow> string \<Rightarrow> nat \<Rightarrow> time \<Rightarrow> ('x, pydict option) http_act" where
  "try_post e b payload model n started =
     bnd (http_post e \<lparr>rq_url = be_base_url b @ ''/chat/completions'', rq_headers = backend_headers b,
            rq_json = payload\<rparr>) (\<lambda>r.
     seq (observe_duration e b model started)
     (bnd (if retryable_status (hr_status r) then on_retryable e b model n r else ret False)
     (\<lambda>again. if again then ret None else bnd (read_data b model r) (\<lambda>d. ret (Some d)))))"

text \<open>The handlers for time-outs and for other request errors differ in one label.\<close>

definition on_request_error ::
  "http_env \<Rightarrow> backend \<Rightarrow> string \<Rightarrow> nat \<Rightarrow> time \<Rightarrow> string \<Rightarrow> exc \<Rightarrow> ('x, pydict option) http_act" where
  "on_request_error e b model n started label x =
     seq (observe_duration e b model started)
     (seq (metric (M_errors (be_provider b) model label))
     (if int n < be_max_retries b then
        seq (metric (M_retries (be_provider b) model label)) (seq (backoff e n) (ret None))
      else
        seq (metric (M_requests (be_provider b) model ''error'')) (throw x)))"

definition on_other_error :: "backend \<Rightarrow> string \<Rightarrow> string \<Rightarrow> exc \<Rightarrow> ('x, 'a) http_act" where
  "on_other_error b model label x =
     seq (metric (M_errors (be_provider b) model label))
     (seq (metric (M_requests (be_provider b) model ''error'')) (throw x))"

definition post_handlers ::
  "http_env \<Rightarrow> backend \<Rightarrow> string \<Rightarrow> nat \<Rightarrow> time \<Rightarrow> exc \<Rightarrow> ('x, pydict option) http_act" where
  "post_handlers e b model n started x =
     (if isinstance_exc x HttpTimeoutException then on_request_error e b model n started ''timeout'' x
      else if isinstance_exc x HttpRequestError then
        on_request_error e b model n started ''network_error'' x
      else if isinstance_exc x HttpStatusError then on_other_error b model ''http_error'' x
      else if isinstance_exc x PyException then
        on_other_error b model (type_name (exc_class x)) x
      else throw x)"

definition post_attempt :: "http_env \<Rightarrow> backend \<Rightarrow> pydict \<Rightarrow> string \<Rightarrow> nat \<Rightarrow> ('x, pydict option) http_act" where
  "post_attempt e b payload model n = bnd (read_env (he_perf e)) (\<lambda>started.
     catch (try_post e b payload model n started) (post_handlers e b model n started))"

text \<open>\<open>for attempt in range(self.max_retries + 1)\<close>, over the attempts that are left.\<close>

primrec post_attempts ::
  "http_env \<Rightarrow> backend \<Rightarrow> pydict \<Rightarrow> string \<Rightarrow> nat list \<Rightarrow> ('x, pydict) http_act" where
  "post_attempts e b payload model [] =
     throw (Exc RuntimeError ''Inference request failed after all retries'')"
| "post_attempts e b payload model (n # ns) = bnd (post_attempt e b payload model n) (\<lambda>r.
     case r of Some data \<Rightarrow> ret data | None \<Rightarrow> post_attempts e b payload model ns)"

definition backend_chat :: "http_env \<Rightarrow> backend \<Rightarrow> pyval \<Rightarrow> ('x, pydict) http_act" where
  "backend_chat e b payload = (case payload of
      PDict d \<Rightarrow> post_attempts e b d (payload_model d) [0..<nat (be_max_retries b + 1)]
    | _ \<Rightarrow> throw (Exc TypeError ''payload must be a dictionary''))"

section \<open>Streaming and health\<close>

text \<open>
  The streaming call is a generator: \<open>hw_yielded\<close> collects what it yields before it ends.  A reply
  whose status is an error raises before the first chunk.
\<close>

definition stream_body :: "http_env \<Rightarrow> backend \<Rightarrow> pydict \<Rightarrow> ('x, unit) http_act" where
  "stream_body e b payload =
     bnd (\<lambda>w. (Inr (he_stream e (length (hw_streams w))), w\<lparr>hw_streams := hw_streams w @
            [\<lparr>rq_url = ''/chat/completions'',
              rq_headers = dset ''Accept'' ''text/event-stream'' (backend_headers b),
              rq_json = payload\<rparr>]\<rparr>)) (\<lambda>st.
     bnd (lift_res (case st_opened st of Replied r \<Rightarrow> raise_for_status r | Failed x \<Rightarrow> Inl x)) (\<lambda>_.
     seq (for_each (st_chunks st) (\<lambda>c. guarded (c \<noteq> [])
            (modify (\<lambda>w. w\<lparr>hw_yielded := hw_yielded w @ [c]\<rparr>))))
     (lift_res (case st_ended st of None \<Rightarrow> Inr () | Some x \<Rightarrow> Inl x))))"

definition stream_handlers ::
  "http_env \<Rightarrow> backend \<Rightarrow> string \<Rightarrow> time \<Rightarrow> (exc \<Rightarrow> string) \<Rightarrow> exc \<Rightarrow> ('x, unit) http_act" where
  "stream_handlers e b model started status_of x =
     (if \<not> isinstance_exc x PyException then throw x
      else seq (observe_duration e b model started)
        (on_other_error b model
           (if isinstance_exc x HttpTimeoutException then ''timeout''
            else if isinstance_exc x HttpStatusError then status_of x
            else if isinstance_exc x HttpRequestError then ''network_error''
            else type_name (exc_class x)) x))"

text \<open>\<open>status_of\<close> is \<open>http_\<close> with the status code of the response the exception carries.\<close>

definition backend_stream ::
  "http_env \<Rightarrow> backend \<Rightarrow> (exc \<Rightarrow> string) \<Rightarrow> pyval \<Rightarrow> ('x, unit) http_act" where
  "backend_stream e b status_of payload = (case payload of
      PDict d \<Rightarrow> bnd (read_env (he_perf e)) (\<lambda>started.
        catch (seq (stream_body e b d)
                (seq (observe_duration e b (payload_model d) started)
                  (metric (M_requests (be_provider b) (payload_model d) ''success''))))
          (stream_handlers e b (payload_model d) started status_of))
    | _ \<Rightarrow> throw (Exc TypeError ''payload must be a dictionary''))"

definition backend_health :: "http_env \<Rightarrow> backend \<Rightarrow> ('x, bool) http_act" where
  "backend_health e b =
     catch (\<lambda>w. (case he_get e (length (hw_gets w)) of
                Replied r \<Rightarrow> Inr (200 \<le> hr_status r \<and> hr_status r \<le> 299)
              | Failed x \<Rightarrow> Inl x, w\<lparr>hw_gets := hw_gets w @ [(''/models'', backend_headers b)]\<rparr>))
       (\<lambda>x. if isinstance_exc x PyException then ret False else throw x)"

text \<open>\<open>close\<close>: the clients that are closed are known by their provider.\<close>

definition backend_close :: "http_env \<Rightarrow> backend \<Rightarrow> ('x, unit) http_act" where
  "backend_close e b = bnd (gets (\<lambda>w. be_provider b \<in> hw_closed w)) (\<lambda>closed.
     guarded (\<not> closed) (bnd (read_env (he_aclose e)) (\<lambda>r. case r of
         Some x \<Rightarrow> throw x
       | None \<Rightarrow> modify (\<lambda>w. w\<lparr>hw_closed := insert (be_provider b) (hw_closed w)\<rparr>))))"

section \<open>What a chat completion returns\<close>

text \<open>
  The reference: the result of one outcome, the outcomes that are tried again, and the outcome that
  decides a call of at most \<open>k\<close> retries.
\<close>

definition reply_result :: "http_reply \<Rightarrow> pydict result" where
  "reply_result r = rbind (raise_for_status r) (\<lambda>_. case hr_json r of
      None \<Rightarrow> raise RuntimeError ''Inference provider returned invalid JSON''
    | Some (PDict d) \<Rightarrow> Inr d
    | Some _ \<Rightarrow> raise RuntimeError ''Inference provider returned a non-object response'')"

fun outcome_result :: "http_outcome \<Rightarrow> pydict result" where
  "outcome_result (Replied r) = reply_result r"
| "outcome_result (Failed x) = Inl x"

fun try_again :: "http_outcome \<Rightarrow> bool" where
  "try_again (Replied r) = retryable_status (hr_status r)"
| "try_again (Failed x) = isinstance_exc x HttpRequestError"

primrec decisive :: "(nat \<Rightarrow> http_outcome) \<Rightarrow> nat \<Rightarrow> nat \<Rightarrow> nat" where
  "decisive f i 0 = i"
| "decisive f i (Suc k) = (if try_again (f i) then decisive f (Suc i) k else i)"

lemma decisive_bounds: "i \<le> decisive f i k \<and> decisive f i k \<le> i + k"
proof (induction k arbitrary: i)
  case (Suc k)
  show ?case using Suc.IH [of "Suc i"] by auto
qed simp

text \<open>Every outcome before the decisive one is tried again, and only the last may be retryable.\<close>

lemma decisive_before: "i \<le> j \<Longrightarrow> j < decisive f i k \<Longrightarrow> try_again (f j)"
proof (induction k arbitrary: i)
  case (Suc k)
  then show ?case using Suc.IH [of "Suc i"] by (cases "i = j") (auto split: if_splits)
qed simp

lemma decisive_final: "try_again (f (decisive f i k)) \<Longrightarrow> decisive f i k = i + k"
proof (induction k arbitrary: i)
  case (Suc k)
  then show ?case using Suc.IH [of "Suc i"] by (auto split: if_splits)
qed simp

definition chat_request :: "backend \<Rightarrow> pydict \<Rightarrow> http_request" where
  "chat_request b d = \<lparr>rq_url = be_base_url b @ ''/chat/completions'', rq_headers = backend_headers b,
     rq_json = d\<rparr>"

definition slept :: "http_env \<Rightarrow> nat \<Rightarrow> 'x http_world_scheme \<Rightarrow> 'x http_world_scheme \<Rightarrow> bool" where
  "slept e n w w' \<longleftrightarrow> (\<exists>i. hw_sleeps w' =
     hw_sleeps w @ [backoff_delay n + random_uniform (he_uniform e i) 0 (1 / 4)])"

lemma wp_metric [wp]: "wp (metric m) Q E w = Q () (w\<lparr>hw_metrics := hw_metrics w @ [m]\<rparr>)"
  by (simp add: metric_def wp)

lemma wp_read_env [wp]:
  "wp (read_env f) Q E w = Q (f (hw_tick w)) (w\<lparr>hw_tick := hw_tick w + 1\<rparr>)"
  by (simp add: read_env_def wp_def)

lemma wp_http_post [wp]:
  "wp (http_post e rq) Q E w = (let w' = w\<lparr>hw_posts := hw_posts w @ [rq]\<rparr> in
     (case he_post e (length (hw_posts w)) of Replied r \<Rightarrow> Q r w' | Failed x \<Rightarrow> E x w'))"
  by (simp add: http_post_def wp_def Let_def split: http_outcome.splits)

lemma wp_observe [wp]:
  "wp (observe_duration e b model s) Q E w = Q () (w\<lparr>hw_tick := hw_tick w + 1,
     hw_metrics := hw_metrics w @ [M_duration (be_provider b) model (he_perf e (hw_tick w) - s)]\<rparr>)"
  by (simp add: observe_duration_def wp)

lemma wp_backoff [wp]:
  "wp (backoff e n) Q E w = (let w' = w\<lparr>hw_sleeps := hw_sleeps w @
       [backoff_delay n + random_uniform (he_uniform e (hw_tick w)) 0 (1 / 4)],
       hw_tick := hw_tick w + 2\<rparr> in
     if he_sleep_cancelled e (hw_tick w + 1) then E (Exc CancelledError []) w' else Q () w')"
  by (simp add: backoff_def http_sleep_def wp Let_def)

lemma wp_if [wp]: "wp (if c then m else n) Q E w = (if c then wp m Q E w else wp n Q E w)"
  by simp

text \<open>What a pass does with the outcome of its POST.\<close>

definition pass_post ::
  "http_env \<Rightarrow> backend \<Rightarrow> nat \<Rightarrow> http_outcome \<Rightarrow> 'x http_world_scheme
     \<Rightarrow> pydict option result \<Rightarrow> 'x http_world_scheme \<Rightarrow> bool" where
  "pass_post e b n out w r w' =
     (if try_again out \<and> int n < be_max_retries b
      then slept e n w w' \<and> (r = Inr None
             \<or> r = raise CancelledError [] \<and> (\<exists>i. he_sleep_cancelled e i))
      else hw_sleeps w' = hw_sleeps w \<and> rbind (outcome_result out) (\<lambda>d. Inr (Some d)) = r)"

lemma retryable_error: "retryable_status (hr_status r) \<Longrightarrow>
    raise_for_status r = raise HttpStatusError (hr_error_text r)"
  by (auto simp: retryable_status_def raise_for_status_def)

lemma post_attempt_spec:
  assumes "he_post e (length (hw_posts w)) = out"
  shows "wp (post_attempt e b d model n)
     (\<lambda>r w'. hw_posts w' = hw_posts w @ [chat_request b d] \<and> pass_post e b n out w (Inr r) w')
     (\<lambda>x w'. hw_posts w' = hw_posts w @ [chat_request b d] \<and> pass_post e b n out w (Inl x) w') w"
proof (cases out)
  case (Failed x)
  with assms show ?thesis
    by (auto simp: post_attempt_def try_post_def post_handlers_def on_request_error_def
        on_other_error_def wp Let_def chat_request_def pass_post_def slept_def isinstance_exc_def)
next
  case (Replied r)
  show ?thesis
  proof (cases "retryable_status (hr_status r)")
    case True
    with Replied assms show ?thesis
      by (auto simp: post_attempt_def try_post_def post_handlers_def on_retryable_def
        on_other_error_def wp Let_def chat_request_def pass_post_def slept_def isinstance_exc_def
        retryable_error reply_result_def exc_isa_PyException)
  next
    case False
    with Replied assms show ?thesis
      by (auto simp: post_attempt_def try_post_def post_handlers_def read_data_def
        on_other_error_def wp Let_def chat_request_def pass_post_def slept_def isinstance_exc_def
        raise_for_status_def reply_result_def exc_isa_PyException split: option.splits pyval.splits)
  qed
qed

text \<open>The sleeps of a call, the \<open>n\<close>-th pass first.\<close>

primrec delays_ok :: "http_env \<Rightarrow> nat \<Rightarrow> time list \<Rightarrow> bool" where
  "delays_ok e n [] = True"
| "delays_ok e n (x # xs) \<longleftrightarrow>
     (\<exists>t. x = backoff_delay n + random_uniform (he_uniform e t) 0 (1 / 4)) \<and> delays_ok e (Suc n) xs"

definition chat_ran ::
  "http_env \<Rightarrow> http_request \<Rightarrow> nat \<Rightarrow> nat \<Rightarrow> 'x http_world_scheme \<Rightarrow> pydict result
     \<Rightarrow> 'x http_world_scheme \<Rightarrow> bool" where
  "chat_ran e rq n k w r w' = (let i = length (hw_posts w); z = decisive (he_post e) i k in
     \<exists>j ds. j \<le> z - i \<and> hw_posts w' = hw_posts w @ replicate (Suc j) rq
       \<and> hw_sleeps w' = hw_sleeps w @ ds \<and> delays_ok e n ds \<and> length ds \<le> k
       \<and> (i + j = z \<and> r = outcome_result (he_post e z) \<and> length ds = j
          \<or> r = raise CancelledError [] \<and> (\<exists>t. he_sleep_cancelled e t) \<and> length ds = Suc j))"

lemma chat_ran_step:
  assumes "try_again (he_post e (length (hw_posts w)))" "slept e n w v"
    "hw_posts v = hw_posts w @ [rq]" "chat_ran e rq (Suc n) k v r w'"
  shows "chat_ran e rq n (Suc k) w r w'"
proof -
  let ?i = "length (hw_posts w)"
  let ?z = "decisive (he_post e) (Suc ?i) k"
  obtain j ds where d: "j \<le> ?z - Suc ?i" "hw_posts w' = hw_posts v @ replicate (Suc j) rq"
      "hw_sleeps w' = hw_sleeps v @ ds" "delays_ok e (Suc n) ds" "length ds \<le> k"
      "Suc ?i + j = ?z \<and> r = outcome_result (he_post e ?z) \<and> length ds = j
       \<or> r = raise CancelledError [] \<and> (\<exists>t. he_sleep_cancelled e t) \<and> length ds = Suc j"
    using assms(3,4) by (auto simp: chat_ran_def Let_def)
  obtain t where t: "hw_sleeps v = hw_sleeps w @
      [backoff_delay n + random_uniform (he_uniform e t) 0 (1 / 4)]"
    using assms(2) by (auto simp: slept_def)
  have "?z \<ge> Suc ?i" using decisive_bounds by blast
  then show ?thesis
    unfolding chat_ran_def Let_def
    using d t assms(1,3)
    by (intro exI [of _ "Suc j"]
        exI [of _ "(backoff_delay n + random_uniform (he_uniform e t) 0 (1 / 4)) # ds"]) auto
qed

lemma post_attempts_ran:
  assumes "be_max_retries b = int (n + k)"
  shows "wp (post_attempts e b d model [n..<Suc (n + k)])
    (\<lambda>data. chat_ran e (chat_request b d) n k w (Inr data))
    (\<lambda>x. chat_ran e (chat_request b d) n k w (Inl x)) w"
  using assms
proof (induction k arbitrary: n w)
  case 0
  have "post_attempts e b d model [n..<Suc (n + 0)] = bnd (post_attempt e b d model n) (\<lambda>r.
      case r of Some data \<Rightarrow> ret data
      | None \<Rightarrow> throw (Exc RuntimeError ''Inference request failed after all retries''))"
    by (simp cong: option.case_cong)
  then show ?case
    unfolding wp_bnd
    by (auto intro!: wp_mono [OF post_attempt_spec [OF refl]] split: option.splits
        simp: wp pass_post_def chat_ran_def 0 rbind_Inl_iff Let_def)
next
  case (Suc k)
  have split: "[n..<Suc (n + Suc k)] = n # [Suc n..<Suc (Suc n + k)]"
    by (simp add: upt_rec)
  let ?o = "he_post e (length (hw_posts w))"
  let ?rq = "chat_request b d"
  show ?case
    unfolding split post_attempts.simps wp_bnd
  proof (rule wp_mono [OF post_attempt_spec [OF refl]])
    fix r v assume v: "hw_posts v = hw_posts w @ [?rq] \<and> pass_post e b n ?o w (Inr r) v"
    show "wp (case r of None \<Rightarrow> post_attempts e b d model [Suc n..<Suc (Suc n + k)]
            | Some data \<Rightarrow> ret data)
        (\<lambda>data. chat_ran e ?rq n (Suc k) w (Inr data)) (\<lambda>x. chat_ran e ?rq n (Suc k) w (Inl x)) v"
    proof (cases "try_again ?o")
      case True
      with v Suc.prems have s: "slept e n w v" "r = None" by (auto simp: pass_post_def)
      have "wp (post_attempts e b d model [Suc n..<Suc (Suc n + k)])
          (\<lambda>data. chat_ran e ?rq (Suc n) k v (Inr data)) (\<lambda>x. chat_ran e ?rq (Suc n) k v (Inl x)) v"
        using Suc.IH [of "Suc n" v] Suc.prems by simp
      then show ?thesis
        unfolding s(2) option.case
        by (rule wp_mono) (use True s v chat_ran_step in blast)+
    next
      case False
      with v show ?thesis
        by (auto simp: pass_post_def wp chat_ran_def Let_def split: option.splits)
    qed
  next
    fix x v assume v: "hw_posts v = hw_posts w @ [?rq] \<and> pass_post e b n ?o w (Inl x) v"
    show "chat_ran e ?rq n (Suc k) w (Inl x) v"
    proof (cases "try_again ?o")
      case True
      with v Suc.prems obtain t where "hw_sleeps v = hw_sleeps w @
          [backoff_delay n + random_uniform (he_uniform e t) 0 (1 / 4)]"
        "x = Exc CancelledError []" "\<exists>i. he_sleep_cancelled e i"
        by (auto simp: pass_post_def slept_def)
      with v show ?thesis
        unfolding chat_ran_def Let_def
        by (intro exI [of _ 0]
            exI [of _ "[backoff_delay n + random_uniform (he_uniform e t) 0 (1 / 4)]"]) auto
    next
      case False
      with v show ?thesis
        by (auto simp: pass_post_def chat_ran_def Let_def rbind_Inl_iff)
    qed
  qed
qed

lemma backend_chat_ran:
  assumes "0 \<le> be_max_retries b"
  shows "wp (backend_chat e b (PDict d))
    (\<lambda>data. chat_ran e (chat_request b d) 0 (nat (be_max_retries b)) w (Inr data))
    (\<lambda>x. chat_ran e (chat_request b d) 0 (nat (be_max_retries b)) w (Inl x)) w"
proof -
  have "be_max_retries b = int (0 + nat (be_max_retries b))"
      "nat (be_max_retries b + 1) = Suc (0 + nat (be_max_retries b))"
    using assms by simp_all
  then show ?thesis
    unfolding backend_chat_def pyval.case using post_attempts_ran by metis
qed

lemma backend_chat_result:
  assumes "0 \<le> be_max_retries b"
  shows "chat_ran e (chat_request b d) 0 (nat (be_max_retries b)) w
    (fst (backend_chat e b (PDict d) w)) (snd (backend_chat e b (PDict d) w))"
  using backend_chat_ran [OF assms, of e d w]
  by (auto simp: wp_def split: prod.splits sum.splits)

lemma new_backend_retries: "new_backend p u k t r c a = Inr b \<Longrightarrow> 0 \<le> be_max_retries b \<and> be_provider b = p"
  by (auto simp: new_backend_def split: if_splits)

text \<open>The waits double from half a second up to ten, with at most a quarter of a second on top.\<close>

interpretation backend_backoff: capped_backoff backoff_delay "1 / 2" 10
  using capped_backoff_doubling [of "1 / 2 :: time" 10] by (simp add: backoff_delay_def [abs_def])

lemma delays_bounded:
  assumes "\<And>t. 0 \<le> he_uniform e t \<and> he_uniform e t \<le> 1"
  shows "delays_ok e n ds \<Longrightarrow> \<forall>x \<in> set ds. 1 / 2 \<le> x \<and> x \<le> 10 + 1 / 4"
proof (induction ds arbitrary: n)
  case (Cons x ds)
  obtain t where x: "x = backoff_delay n + he_uniform e t / 4" and ds: "delays_ok e (Suc n) ds"
    using Cons.prems by (auto simp: random_uniform_def)
  have "1 / 2 \<le> backoff_delay n" "backoff_delay n \<le> 10"
    by (simp_all add: backoff_delay_def)
  then have "1 / 2 \<le> x \<and> x \<le> 10 + 1 / 4"
    using assms [of t] unfolding x by linarith
  with Cons.IH [OF ds] show ?case by simp
qed simp

text \<open>A client error is counted twice: by the branch that sees it and by the handler of its exception.\<close>

lemma client_error_metrics:
  assumes "he_post e (length (hw_posts w)) = Replied r" "400 \<le> hr_status r" "hr_status r < 500"
    "0 \<le> be_max_retries b"
  shows "\<exists>t. hw_metrics (snd (backend_chat e b (PDict d) w)) = hw_metrics w @
    [M_duration (be_provider b) (payload_model d) t,
     M_requests (be_provider b) (payload_model d) ''client_error'',
     M_errors (be_provider b) (payload_model d) ''http_error'',
     M_requests (be_provider b) (payload_model d) ''error'']"
proof -
  have split: "[0..<nat (be_max_retries b + 1)] = 0 # [1..<nat (be_max_retries b + 1)]"
    using assms(4) by (simp add: upt_rec)
  show ?thesis
    using assms unfolding backend_chat_def pyval.case split post_attempts.simps
    by (simp add: post_attempt_def try_post_def post_handlers_def read_data_def on_other_error_def
        retryable_status_def raise_for_status_def isinstance_exc_def observe_duration_def
        bnd_def seq_def catch_def read_env_def http_post_def metric_def modify_def lift_res_def
        ret_def throw_def Let_def)
qed

end
