(* ===== verification/Registries.thy ===== *)
theory Registries
  imports Planner Backend
begin

text \<open>
  The registries and the admission of the inference gateway: providers (\<^verbatim>\<open>providers/\<close>), models
  (\<^verbatim>\<open>models/\<close>), the concurrency limiter (\<^verbatim>\<open>concurrency.py\<close>) and the tenants' models
  (\<^verbatim>\<open>tenancy/authorizer.py\<close>), with the contract the three registries by name share.
\<close>

section \<open>Registries by name\<close>

text \<open>Registering one object after the other; the first failure stops.\<close>

primrec register_all :: "('a \<Rightarrow> 'r \<Rightarrow> 'r result) \<Rightarrow> 'a list \<Rightarrow> 'r \<Rightarrow> 'r result" where
  "register_all f [] r = Inr r"
| "register_all f (x # xs) r = rbind (f x r) (register_all f xs)"

locale named_registry =
  fixes add :: "'a \<Rightarrow> 'r \<Rightarrow> 'r result"
    and lookup :: "'r \<Rightarrow> string \<Rightarrow> 'a option"
    and name_of :: "'a \<Rightarrow> string"
    and admissible :: "'a \<Rightarrow> bool"
  assumes add_succeeds: "(\<exists>r'. add x r = Inr r') \<longleftrightarrow> admissible x \<and> lookup r (name_of x) = None"
    and add_lookup: "add x r = Inr r' \<Longrightarrow> lookup r' = (lookup r)(name_of x \<mapsto> x)"
    and add_error: "add x r = Inl e \<Longrightarrow> exc_class e = ValueError"
begin

definition names_ok :: "'r \<Rightarrow> bool" where
  "names_ok r \<longleftrightarrow> (\<forall>n x. lookup r n = Some x \<longrightarrow> name_of x = n)"

lemma add_names_ok: "names_ok r \<Longrightarrow> add x r = Inr r' \<Longrightarrow> names_ok r'"
  using add_lookup by (fastforce simp: names_ok_def split: if_splits)

text \<open>An object registered first is never replaced.\<close>

lemma add_keeps: "add x r = Inr r' \<Longrightarrow> lookup r n = Some y \<Longrightarrow> lookup r' n = Some y"
  using add_succeeds [of x r] add_lookup [of x r r'] by auto

lemma register_all_succeeds:
  "(\<exists>r'. register_all add xs r = Inr r') \<longleftrightarrow>
     list_all admissible xs \<and> distinct (map name_of xs) \<and> (\<forall>x \<in> set xs. lookup r (name_of x) = None)"
proof (induction xs arbitrary: r)
  case (Cons x xs)
  show ?case
  proof (cases "add x r")
    case (Inl e)
    with add_succeeds [of x r] show ?thesis by auto
  next
    case (Inr r')
    then have "admissible x" "lookup r (name_of x) = None" "lookup r' = (lookup r)(name_of x \<mapsto> x)"
      using add_succeeds [of x r] add_lookup by auto
    with Inr Cons.IH [of r'] show ?thesis by (auto simp: image_iff)
  qed
qed simp

lemma register_all_lookup:
  "register_all add xs r = Inr r' \<Longrightarrow>
     lookup r' = lookup r ++ map_of (map (\<lambda>x. (name_of x, x)) xs)"
proof (induction xs arbitrary: r)
  case (Cons x xs)
  then obtain r1 where r1: "add x r = Inr r1" "register_all add xs r1 = Inr r'" by auto
  have "distinct (map name_of (x # xs))"
    using Cons.prems register_all_succeeds [of "x # xs" r] by blast
  then have "name_of x \<notin> dom (map_of (map (\<lambda>x. (name_of x, x)) xs))"
    by (auto dest!: map_of_SomeD)
  then show ?case
    using Cons.IH [OF r1(2)] add_lookup [OF r1(1)]
    by (auto simp: map_add_def dom_def fun_eq_iff split: option.splits)
qed simp

lemma register_all_error: "register_all add xs r = Inl e \<Longrightarrow> exc_class e = ValueError"
  by (induction xs arbitrary: r) (auto simp: rbind_Inl_iff add_error)

end

interpretation tools: named_registry register map_of tl_name "\<lambda>_. True"
  by unfold_locales (auto simp: register_def split: if_splits)

section \<open>Providers\<close>

record provider =
  pr_name :: string
  pr_backend :: backend

definition new_provider ::
  "string \<Rightarrow> string \<Rightarrow> string \<Rightarrow> time \<Rightarrow> int \<Rightarrow> int \<Rightarrow> int \<Rightarrow> provider result" where
  "new_provider name base_url api_key timeout max_connections max_keepalive max_retries =
     (if py_strip name = [] then raise ValueError ''provider_name must not be empty''
      else rbind (new_backend (py_strip name) base_url (Some api_key) timeout max_retries
                    max_connections max_keepalive)
        (\<lambda>b. Inr \<lparr>pr_name = py_strip name, pr_backend = b\<rparr>))"

definition provider_chat :: "http_env \<Rightarrow> provider \<Rightarrow> pydict \<Rightarrow> ('x, pydict) http_act" where
  "provider_chat e p payload = (case dget payload ''model'' of
      PStr m \<Rightarrow> (if py_strip m = [] then
          throw (Exc ValueError ''Chat completion payload must contain a non-empty 'model' field'')
        else backend_chat e (pr_backend p) (PDict payload))
    | _ \<Rightarrow> throw (Exc ValueError ''Chat completion payload must contain a non-empty 'model' field''))"

definition provider_health :: "http_env \<Rightarrow> provider \<Rightarrow> ('x, bool) http_act" where
  "provider_health e p = backend_health e (pr_backend p)"

definition provider_close :: "http_env \<Rightarrow> provider \<Rightarrow> ('x, unit) http_act" where
  "provider_close e p = backend_close e (pr_backend p)"

type_synonym provider_registry = "(string \<times> provider) list"

definition add_provider :: "provider \<Rightarrow> provider_registry \<Rightarrow> provider_registry result" where
  "add_provider p reg =
     (if map_of reg (pr_name p) \<noteq> None then
        raise ValueError (''Provider already registered: '' @ pr_name p)
      else Inr (dset (pr_name p) p reg))"

definition provider_names :: "provider_registry \<Rightarrow> string list" where
  "provider_names reg = sort (map fst reg)"

definition get_provider :: "provider_registry \<Rightarrow> string \<Rightarrow> provider result" where
  "get_provider reg name = (case map_of reg name of
      Some p \<Rightarrow> Inr p
    | None \<Rightarrow> (let available = intersperse_str '', '' (provider_names reg) in
        raise KeyError (repr_str (''Unknown provider '' @ quoted name
          @ ''. Available providers: '' @ (if available = [] then ''none'' else available)))))"

text \<open>The providers are asked one after the other; a failing check counts as unhealthy.\<close>

primrec providers_health ::
  "http_env \<Rightarrow> provider_registry \<Rightarrow> ('x, (string \<times> bool) list) http_act" where
  "providers_health e [] = ret []"
| "providers_health e (np # reg) =
     bnd (catch (provider_health e (snd np))
            (\<lambda>x. if isinstance_exc x PyException then ret False else throw x))
       (\<lambda>h. bnd (providers_health e reg) (\<lambda>hs. ret ((fst np, h) # hs)))"

definition providers_close :: "http_env \<Rightarrow> provider_registry \<Rightarrow> ('x, unit) http_act" where
  "providers_close e reg = for_each reg (\<lambda>(n, p). catch (provider_close e p)
     (\<lambda>x. if isinstance_exc x PyException then ret () else throw x))"

interpretation gateway_providers: named_registry add_provider map_of pr_name "\<lambda>_. True"
  by unfold_locales (auto simp: add_provider_def split: if_splits)

lemma provider_names_set [simp]: "set (provider_names reg) = fst ` set reg"
  by (simp add: provider_names_def)

lemma get_provider_Inr [simp]: "get_provider reg n = Inr p \<longleftrightarrow> map_of reg n = Some p"
  by (simp add: get_provider_def Let_def split: option.splits)

section \<open>Models\<close>

record model_definition =
  md_id :: string
  md_provider :: string
  md_object :: string
  md_owned_by :: string
  md_capabilities :: "string set"
  md_context_window :: "int option"
  md_enabled :: bool

definition new_model :: "string \<Rightarrow> string \<Rightarrow> model_definition" where
  "new_model m p = \<lparr>md_id = m, md_provider = p, md_object = ''model'', md_owned_by = ''agenyx'',
     md_capabilities = {}, md_context_window = None, md_enabled = True\<rparr>"

type_synonym model_registry = "(string \<times> model_definition) list"

definition add_model :: "model_definition \<Rightarrow> model_registry \<Rightarrow> model_registry result" where
  "add_model m reg =
     (if py_strip (md_id m) = [] then raise ValueError ''model_id must not be empty''
      else if py_strip (md_provider m) = [] then raise ValueError ''provider_name must not be empty''
      else if map_of reg (md_id m) \<noteq> None then
        raise ValueError (''Model already registered: '' @ md_id m)
      else Inr (dset (md_id m) m reg))"

definition not_registered :: "string \<Rightarrow> 'a result" where
  "not_registered m = raise KeyError (repr_str (''Model is not registered: '' @ m))"

definition get_model :: "model_registry \<Rightarrow> string \<Rightarrow> model_definition result" where
  "get_model reg m =
     (if m = [] then raise KeyError (repr_str ''model_id must not be empty'')
      else case map_of reg m of Some d \<Rightarrow> Inr d | None \<Rightarrow> not_registered m)"

definition list_models :: "model_registry \<Rightarrow> model_definition list" where
  "list_models reg = map snd reg"

definition model_exists :: "model_registry \<Rightarrow> string \<Rightarrow> bool" where
  "model_exists reg m \<longleftrightarrow> map_of reg m \<noteq> None"

definition remove_model :: "string \<Rightarrow> model_registry \<Rightarrow> model_registry result" where
  "remove_model m reg =
     (if map_of reg m = None then not_registered m else Inr (AList.delete m reg))"

definition clear_models :: "model_registry \<Rightarrow> model_registry" where
  "clear_models reg = []"

definition count_models :: "model_registry \<Rightarrow> nat" where
  "count_models reg = length reg"

definition model_admissible :: "model_definition \<Rightarrow> bool" where
  "model_admissible m \<longleftrightarrow> py_strip (md_id m) \<noteq> [] \<and> py_strip (md_provider m) \<noteq> []"

interpretation gateway_models: named_registry add_model map_of md_id model_admissible
  by unfold_locales (auto simp: add_model_def model_admissible_def split: if_splits)

lemma remove_model_lookup:
  "remove_model m reg = Inr reg' \<Longrightarrow> map_of reg' = (map_of reg)(m := None)"
  by (auto simp: remove_model_def not_registered_def delete_conv' split: if_splits)

text \<open>A removed model can be registered again, and is the model found then.\<close>

lemma remove_then_add:
  assumes "remove_model (md_id m) reg = Inr reg'" "model_admissible m"
  shows "\<exists>reg''. add_model m reg' = Inr reg'' \<and> map_of reg'' = (map_of reg)(md_id m \<mapsto> m)"
  using assms remove_model_lookup [OF assms(1)] gateway_models.add_succeeds [of m reg']
    gateway_models.add_lookup [of m reg'] by fastforce

section \<open>Admission\<close>

record limiter =
  cl_max :: int
  cl_active :: int

definition new_limiter :: "int \<Rightarrow> limiter result" where
  "new_limiter n = (if n < 1 then raise ValueError ''max_concurrency must be at least 1''
     else Inr \<lparr>cl_max = n, cl_active = 0\<rparr>)"

definition try_acquire :: "limiter \<Rightarrow> bool \<times> limiter" where
  "try_acquire l = (if cl_max l \<le> cl_active l then (False, l)
     else (True, l\<lparr>cl_active := cl_active l + 1\<rparr>))"

definition release_slot :: "limiter \<Rightarrow> limiter result" where
  "release_slot l =
     (if cl_active l \<le> 0 then raise RuntimeError ''Cannot release an unacquired concurrency slot''
      else Inr (l\<lparr>cl_active := cl_active l - 1\<rparr>))"

section \<open>Requests that share the limiter\<close>

text \<open>
  The requests in progress take and return the slots in any order.  A request returns the slot it
  took, in its \<open>finally\<close> block.
\<close>

inductive slot_step :: "limiter \<times> nat set \<Rightarrow> limiter \<times> nat set \<Rightarrow> bool" where
  admitted: "try_acquire l = (True, l') \<Longrightarrow> i \<notin> R \<Longrightarrow> slot_step (l, R) (l', insert i R)"
| refused: "try_acquire l = (False, l') \<Longrightarrow> slot_step (l, R) (l', R)"
| finished: "i \<in> R \<Longrightarrow> release_slot l = Inr l' \<Longrightarrow> slot_step (l, R) (l', R - {i})"

inductive_cases slot_stepE: "slot_step (l, R) (l', R')"

definition slots_inv :: "int \<Rightarrow> limiter \<times> nat set \<Rightarrow> bool" where
  "slots_inv n s = (case s of (l, R) \<Rightarrow> finite R \<and> cl_active l = int (card R) \<and> cl_max l = n
     \<and> cl_active l \<le> n)"

lemma card_removed: "finite R \<Longrightarrow> i \<in> R \<Longrightarrow> int (card (R - {i})) = int (card R) - 1"
  by (metis card.remove of_nat_Suc add_diff_cancel_left')

lemma slot_step_inv: "slot_step s s' \<Longrightarrow> slots_inv n s \<Longrightarrow> slots_inv n s'"
  by (induction rule: slot_step.induct)
     (auto simp: slots_inv_def try_acquire_def release_slot_def card_removed simp del: card_Diff_insert
        split: if_splits)

lemma slots_reachable:
  assumes "new_limiter n = Inr l0" "slot_step\<^sup>*\<^sup>* (l0, {}) s"
  shows "slots_inv n s"
  using assms(2)
proof (induction rule: rtranclp_induct)
  case base
  then show ?case using assms(1) by (auto simp: new_limiter_def slots_inv_def split: if_splits)
qed (rule slot_step_inv)

text \<open>A request in progress can always return its slot.\<close>

lemma slot_returned:
  "slots_inv n (l, R) \<Longrightarrow> i \<in> R \<Longrightarrow> \<exists>l'. release_slot l = Inr l' \<and> slots_inv n (l', R - {i})"
  by (auto simp: slots_inv_def release_slot_def card_removed simp del: card_Diff_insert)

definition tenant_allowed :: "(string \<times> string set) list \<Rightarrow> string \<Rightarrow> string \<Rightarrow> bool" where
  "tenant_allowed tm tenant m = (case map_of tm tenant of None \<Rightarrow> False | Some ms \<Rightarrow> m \<in> ms)"

text \<open>With any number of requests taking and returning slots in any order, at most
  \<open>max_concurrency\<close> are in progress, the counter is their number, and each can return its slot.\<close>

lemma admission_is_bounded:
  assumes "new_limiter n = Inr l0" "slot_step\<^sup>*\<^sup>* (l0, {}) (l, R)"
  shows "int (card R) \<le> n \<and> cl_active l = int (card R)
    \<and> list_all (\<lambda>i. \<exists>l'. release_slot l = Inr l') (sorted_list_of_set R)
    \<and> fst (try_acquire l) = (int (card R) < n)"
proof -
  have inv: "slots_inv n (l, R)" using assms by (rule slots_reachable)
  then show ?thesis
    using slot_returned [OF inv] by (auto simp: slots_inv_def list_all_iff try_acquire_def)
qed

end
