(* ===== verification/Reliability.thy ===== *)
theory Reliability
  imports PyValue Effects
begin

text \<open>
  Provider reliability in the inference gateway (\<^verbatim>\<open>reliability/state.py\<close>,
  \<^verbatim>\<open>reliability/manager.py\<close>): the health record of each provider, the circuit breaker with
  its single half-open probe, and the gauges exported for each provider.  The second half relates
  the manager to an abstract circuit breaker.

  Every operation runs under the manager's lock, so each is one step.  The argument \<open>now\<close> is what
  \<open>datetime.now\<close> returns during the call.
\<close>

section \<open>State\<close>

datatype provider_status = HEALTHY | DEGRADED | UNHEALTHY

fun provider_status_value :: "provider_status \<Rightarrow> string" where
  "provider_status_value HEALTHY = ''healthy''"
| "provider_status_value DEGRADED = ''degraded''"
| "provider_status_value UNHEALTHY = ''unhealthy''"

datatype circuit_state = CLOSED | OPEN | HALF_OPEN

fun circuit_state_value :: "circuit_state \<Rightarrow> string" where
  "circuit_state_value CLOSED = ''closed''"
| "circuit_state_value OPEN = ''open''"
| "circuit_state_value HALF_OPEN = ''half_open''"

record provider_state =
  ph_name :: string
  ph_status :: provider_status
  ph_circuit :: circuit_state
  ph_consecutive :: int
  ph_failures :: int
  ph_successes :: int
  ph_last_failure_at :: "time option"
  ph_last_success_at :: "time option"
  ph_opened_at :: "time option"
  ph_half_opened_at :: "time option"

definition new_provider_state :: "string \<Rightarrow> provider_state" where
  "new_provider_state p = \<lparr>ph_name = p, ph_status = HEALTHY, ph_circuit = CLOSED,
     ph_consecutive = 0, ph_failures = 0, ph_successes = 0, ph_last_failure_at = None,
     ph_last_success_at = None, ph_opened_at = None, ph_half_opened_at = None\<rparr>"

text \<open>The five gauges of one provider.\<close>

record provider_gauges =
  pg_circuit :: int
  pg_health :: int
  pg_consecutive :: int
  pg_failures :: int
  pg_successes :: int

record reliability =
  rm_degraded :: int
  rm_unhealthy :: int
  rm_recovery :: time
  rm_states :: "(string \<times> provider_state) list"
  rm_probes :: "string set"
  rm_gauges :: "(string \<times> provider_gauges) list"

fun circuit_gauge :: "circuit_state \<Rightarrow> int" where
  "circuit_gauge CLOSED = 0"
| "circuit_gauge OPEN = 1"
| "circuit_gauge HALF_OPEN = 2"

fun health_gauge :: "provider_status \<Rightarrow> int" where
  "health_gauge UNHEALTHY = 0"
| "health_gauge DEGRADED = 1"
| "health_gauge HEALTHY = 2"

definition gauges_of :: "provider_state \<Rightarrow> provider_gauges" where
  "gauges_of st = \<lparr>pg_circuit = circuit_gauge (ph_circuit st), pg_health = health_gauge (ph_status st),
     pg_consecutive = ph_consecutive st, pg_failures = ph_failures st, pg_successes = ph_successes st\<rparr>"

text \<open>The order of the gauge values is the order of health.\<close>

instantiation provider_status :: linorder
begin

definition less_eq_provider_status :: "provider_status \<Rightarrow> provider_status \<Rightarrow> bool" where
  "less_eq_provider_status a b \<longleftrightarrow> health_gauge a \<le> health_gauge b"

definition less_provider_status :: "provider_status \<Rightarrow> provider_status \<Rightarrow> bool" where
  "less_provider_status a b \<longleftrightarrow> health_gauge a < health_gauge b"

instance
proof
  fix a b :: provider_status
  show "a \<le> b \<Longrightarrow> b \<le> a \<Longrightarrow> a = b"
    by (cases a; cases b) (simp_all add: less_eq_provider_status_def)
qed (auto simp: less_eq_provider_status_def less_provider_status_def)

end

lemma status_le_HEALTHY [simp]: "st \<le> HEALTHY"
  by (cases st) (simp_all add: less_eq_provider_status_def)

lemma UNHEALTHY_le_status [simp]: "UNHEALTHY \<le> st"
  by (cases st) (simp_all add: less_eq_provider_status_def)

section \<open>Operations\<close>

definition new_reliability :: "int \<Rightarrow> int \<Rightarrow> time \<Rightarrow> reliability result" where
  "new_reliability degraded unhealthy recovery =
     (if degraded < 1 then raise ValueError ''degraded_failure_threshold must be >= 1''
      else if unhealthy < degraded then
        raise ValueError ''unhealthy_failure_threshold must be >= degraded_failure_threshold''
      else if recovery \<le> 0 then raise ValueError ''recovery_timeout_seconds must be > 0''
      else Inr \<lparr>rm_degraded = degraded, rm_unhealthy = unhealthy, rm_recovery = recovery,
             rm_states = [], rm_probes = {}, rm_gauges = []\<rparr>)"

definition update_metrics :: "provider_state \<Rightarrow> reliability \<Rightarrow> reliability" where
  "update_metrics st m = m\<lparr>rm_gauges := dset (ph_name st) (gauges_of st) (rm_gauges m)\<rparr>"

text \<open>The entry of \<open>_states\<close> is the object the operation assigns the fields of.\<close>

definition set_state :: "string \<Rightarrow> provider_state \<Rightarrow> reliability \<Rightarrow> reliability" where
  "set_state p st m = m\<lparr>rm_states := dset p st (rm_states m)\<rparr>"

definition register_provider :: "string \<Rightarrow> (reliability, unit) act" where
  "register_provider p m =
     (if p = [] \<or> py_strip p = [] then
        (raise ValueError ''provider_name must be a non-empty string'', m)
      else if map_of (rm_states m) p \<noteq> None then
        (raise ValueError (''Provider already registered: '' @ p), m)
      else (Inr (), update_metrics (new_provider_state p) (set_state p (new_provider_state p) m)))"

definition get_state :: "string \<Rightarrow> reliability \<Rightarrow> provider_state result" where
  "get_state p m = (case map_of (rm_states m) p of
      None \<Rightarrow> raise KeyError (repr_str (''Provider is not registered: '' @ p))
    | Some st \<Rightarrow> Inr st)"

definition copy_state :: "provider_state \<Rightarrow> provider_state" where
  "copy_state st = \<lparr>ph_name = ph_name st, ph_status = ph_status st, ph_circuit = ph_circuit st,
     ph_consecutive = ph_consecutive st, ph_failures = ph_failures st,
     ph_successes = ph_successes st, ph_last_failure_at = ph_last_failure_at st,
     ph_last_success_at = ph_last_success_at st, ph_opened_at = ph_opened_at st,
     ph_half_opened_at = ph_half_opened_at st\<rparr>"

definition get_provider_state :: "string \<Rightarrow> reliability \<Rightarrow> provider_state result" where
  "get_provider_state p m = rbind (get_state p m) (\<lambda>st. Inr (copy_state st))"

definition list_states :: "reliability \<Rightarrow> provider_state list" where
  "list_states m = map (\<lambda>(p, st). copy_state st) (rm_states m)"

text \<open>\<open>self.recovery_timeout\<close> has passed since the circuit opened.\<close>

definition recovery_due :: "reliability \<Rightarrow> provider_state \<Rightarrow> time \<Rightarrow> bool" where
  "recovery_due m st now = (case ph_opened_at st of None \<Rightarrow> False | Some t \<Rightarrow> rm_recovery m \<le> now - t)"

definition take_probe :: "string \<Rightarrow> reliability \<Rightarrow> bool result \<times> reliability" where
  "take_probe p m = (if p \<in> rm_probes m then (Inr False, m)
     else (Inr True, m\<lparr>rm_probes := insert p (rm_probes m)\<rparr>))"

definition half_open :: "provider_state \<Rightarrow> time \<Rightarrow> provider_state" where
  "half_open st now = st\<lparr>ph_circuit := HALF_OPEN, ph_half_opened_at := Some now\<rparr>"

definition allow_request :: "string \<Rightarrow> time \<Rightarrow> (reliability, bool) act" where
  "allow_request p now m = (case get_state p m of
      Inl e \<Rightarrow> (Inl e, m)
    | Inr st \<Rightarrow> (case ph_circuit st of
          CLOSED \<Rightarrow> (Inr True, m)
        | OPEN \<Rightarrow>
            (if recovery_due m st now then
               take_probe p (update_metrics (half_open st now) (set_state p (half_open st now) m))
             else (Inr False, m))
        | HALF_OPEN \<Rightarrow> take_probe p m))"

definition is_available :: "string \<Rightarrow> time \<Rightarrow> (reliability, bool) act" where
  "is_available p now = allow_request p now"

definition succeed :: "provider_state \<Rightarrow> time \<Rightarrow> provider_state" where
  "succeed st now = st\<lparr>ph_successes := ph_successes st + 1, ph_consecutive := 0,
     ph_last_success_at := Some now, ph_status := HEALTHY, ph_circuit := CLOSED,
     ph_opened_at := None, ph_half_opened_at := None\<rparr>"

definition drop_probe :: "string \<Rightarrow> reliability \<Rightarrow> reliability" where
  "drop_probe p m = m\<lparr>rm_probes := rm_probes m - {p}\<rparr>"

definition record_success :: "string \<Rightarrow> time \<Rightarrow> (reliability, unit) act" where
  "record_success p now m = (case get_state p m of
      Inl e \<Rightarrow> (Inl e, m)
    | Inr st \<Rightarrow>
       (Inr (), update_metrics (succeed st now) (drop_probe p (set_state p (succeed st now) m))))"

definition count_failure :: "provider_state \<Rightarrow> time \<Rightarrow> provider_state" where
  "count_failure st now = st\<lparr>ph_failures := ph_failures st + 1,
     ph_consecutive := ph_consecutive st + 1, ph_last_failure_at := Some now\<rparr>"

definition open_circuit :: "provider_state \<Rightarrow> time \<Rightarrow> provider_state" where
  "open_circuit st now = st\<lparr>ph_circuit := OPEN, ph_opened_at := Some now,
     ph_half_opened_at := None, ph_status := UNHEALTHY\<rparr>"

definition fail_state :: "reliability \<Rightarrow> provider_state \<Rightarrow> time \<Rightarrow> provider_state" where
  "fail_state m st0 now = (let st = count_failure st0 now in
     if ph_circuit st = HALF_OPEN then open_circuit st now
     else if rm_unhealthy m \<le> ph_consecutive st then open_circuit st now
     else if rm_degraded m \<le> ph_consecutive st then st\<lparr>ph_status := DEGRADED\<rparr>
     else st)"

definition record_failure :: "string \<Rightarrow> time \<Rightarrow> (reliability, unit) act" where
  "record_failure p now m = (case get_state p m of
      Inl e \<Rightarrow> (Inl e, m)
    | Inr st \<Rightarrow>
       (Inr (), update_metrics (fail_state m st now) (drop_probe p (set_state p (fail_state m st now) m))))"

text \<open>The operations of all callers, in the order in which they get the lock.\<close>

datatype rel_op =
    Rel_register string
  | Rel_allow string time
  | Rel_success string time
  | Rel_failure string time

fun rel_apply :: "rel_op \<Rightarrow> reliability \<Rightarrow> reliability" where
  "rel_apply (Rel_register p) m = snd (register_provider p m)"
| "rel_apply (Rel_allow p now) m = snd (allow_request p now m)"
| "rel_apply (Rel_success p now) m = snd (record_success p now m)"
| "rel_apply (Rel_failure p now) m = snd (record_failure p now m)"

fun rel_applies :: "rel_op list \<Rightarrow> reliability \<Rightarrow> reliability" where
  "rel_applies [] m = m"
| "rel_applies (op # ops) m = rel_applies ops (rel_apply op m)"

section \<open>The invariant\<close>

text \<open>
  The status and the circuit of a provider are functions of its count of consecutive failures, the
  time stamps are those of the state it is in, and the gauges show the state.  The set of probes is
  exactly the set of half-open providers.
\<close>

definition status_for :: "reliability \<Rightarrow> int \<Rightarrow> provider_status" where
  "status_for m n = (if rm_unhealthy m \<le> n then UNHEALTHY
     else if rm_degraded m \<le> n then DEGRADED else HEALTHY)"

definition state_ok :: "reliability \<Rightarrow> string \<Rightarrow> provider_state \<Rightarrow> bool" where
  "state_ok m p st \<longleftrightarrow> ph_name st = p \<and> 0 \<le> ph_consecutive st
     \<and> ph_consecutive st \<le> ph_failures st \<and> 0 \<le> ph_successes st
     \<and> ph_status st = status_for m (ph_consecutive st)
     \<and> (ph_circuit st = CLOSED \<longleftrightarrow> ph_consecutive st < rm_unhealthy m)
     \<and> (ph_opened_at st = None \<longleftrightarrow> ph_circuit st = CLOSED)
     \<and> (ph_half_opened_at st \<noteq> None \<longleftrightarrow> ph_circuit st = HALF_OPEN)"

definition provider_ok :: "reliability \<Rightarrow> string \<Rightarrow> bool" where
  "provider_ok m p = (case map_of (rm_states m) p of
      None \<Rightarrow> p \<notin> rm_probes m
    | Some st \<Rightarrow> state_ok m p st \<and> (p \<in> rm_probes m \<longleftrightarrow> ph_circuit st = HALF_OPEN)
        \<and> map_of (rm_gauges m) p = Some (gauges_of st))"

definition rel_inv :: "reliability \<Rightarrow> bool" where
  "rel_inv m \<longleftrightarrow> 1 \<le> rm_degraded m \<and> rm_degraded m \<le> rm_unhealthy m \<and> 0 < rm_recovery m
     \<and> distinct (map fst (rm_states m)) \<and> (\<forall>p. provider_ok m p)"

lemma new_reliability_inv: "new_reliability d u r = Inr m \<Longrightarrow> rel_inv m"
  by (auto simp: new_reliability_def rel_inv_def provider_ok_def split: if_splits)

lemma inv_provider: "rel_inv m \<Longrightarrow> provider_ok m p"
  by (simp add: rel_inv_def)

lemma get_state_Inr: "get_state p m = Inr st \<longleftrightarrow> map_of (rm_states m) p = Some st"
  by (simp add: get_state_def split: option.splits)

lemma get_state_ok: "rel_inv m \<Longrightarrow> get_state p m = Inr st \<Longrightarrow> state_ok m p st"
  using inv_provider [of m p] by (simp add: get_state_Inr provider_ok_def)

text \<open>What every branch that changes a provider does, and why it keeps the invariant.\<close>

definition replaced :: "string \<Rightarrow> provider_state \<Rightarrow> string set \<Rightarrow> reliability \<Rightarrow> reliability" where
  "replaced p st ps m = m\<lparr>rm_states := dset p st (rm_states m), rm_probes := ps,
     rm_gauges := dset p (gauges_of st) (rm_gauges m)\<rparr>"

lemma replaced_inv:
  assumes "rel_inv m" "state_ok m p st" "p \<in> ps \<longleftrightarrow> ph_circuit st = HALF_OPEN"
    and "ps - {p} = rm_probes m - {p}"
  shows "rel_inv (replaced p st ps m)"
proof -
  have frame: "q \<in> ps \<longleftrightarrow> q \<in> rm_probes m" if "q \<noteq> p" for q
    using assms(4) that by blast
  have same: "state_ok (replaced p st ps m) = state_ok m"
    by (intro ext) (simp add: state_ok_def status_for_def replaced_def)
  have "provider_ok (replaced p st ps m) q" for q
    unfolding provider_ok_def same
    using assms(2,3) frame [of q] inv_provider [OF assms(1), of q]
    by (cases "q = p") (simp_all add: replaced_def provider_ok_def cong: option.case_cong)
  then show ?thesis
    using assms(1) by (simp add: rel_inv_def replaced_def distinct_dset)
qed

lemma new_provider_state_circuit [simp]: "ph_circuit (new_provider_state p) = CLOSED"
  by (simp add: new_provider_state_def)

lemma state_ok_new: "rel_inv m \<Longrightarrow> state_ok m p (new_provider_state p)"
  by (simp add: rel_inv_def state_ok_def new_provider_state_def status_for_def)

lemma half_open_circuit [simp]: "ph_circuit (half_open st now) = HALF_OPEN"
  by (simp add: half_open_def)

lemma state_ok_half_open:
  "state_ok m p st \<Longrightarrow> ph_circuit st = OPEN \<Longrightarrow> state_ok m p (half_open st now)"
  by (auto simp: state_ok_def half_open_def)

lemma succeed_circuit [simp]: "ph_circuit (succeed st now) = CLOSED"
  by (simp add: succeed_def)

lemma state_ok_succeed: "rel_inv m \<Longrightarrow> state_ok m p st \<Longrightarrow> state_ok m p (succeed st now)"
  by (simp add: rel_inv_def state_ok_def succeed_def status_for_def)

lemma state_ok_fail: "rel_inv m \<Longrightarrow> state_ok m p st \<Longrightarrow> state_ok m p (fail_state m st now)"
  by (auto simp: rel_inv_def state_ok_def fail_state_def count_failure_def open_circuit_def
      status_for_def Let_def)

text \<open>Each operation either changes nothing or replaces one provider's state.\<close>

lemma register_refused:
  "py_strip p = [] \<or> map_of (rm_states m) p \<noteq> None \<Longrightarrow>
     snd (register_provider p m) = m \<and> (\<exists>msg. fst (register_provider p m) = raise ValueError msg)"
  by (auto simp: register_provider_def)

lemma register_replaced:
  "py_strip p \<noteq> [] \<Longrightarrow> map_of (rm_states m) p = None \<Longrightarrow>
     register_provider p m = (Inr (), replaced p (new_provider_state p) (rm_probes m) m)"
  by (auto simp: register_provider_def replaced_def update_metrics_def set_state_def
      new_provider_state_def)

lemma success_replaced:
  "get_state p m = Inr st \<Longrightarrow> state_ok m p st \<Longrightarrow>
     record_success p now m = (Inr (), replaced p (succeed st now) (rm_probes m - {p}) m)"
  by (simp add: record_success_def replaced_def update_metrics_def set_state_def drop_probe_def
      state_ok_def succeed_def)

lemma fail_state_name [simp]: "ph_name (fail_state m st now) = ph_name st"
  by (simp add: fail_state_def Let_def open_circuit_def count_failure_def)

lemma failure_replaced:
  "get_state p m = Inr st \<Longrightarrow> state_ok m p st \<Longrightarrow>
     record_failure p now m = (Inr (), replaced p (fail_state m st now) (rm_probes m - {p}) m)"
  by (simp add: record_failure_def replaced_def update_metrics_def set_state_def drop_probe_def
      state_ok_def)

lemma probe_iff:
  "rel_inv m \<Longrightarrow> get_state p m = Inr st \<Longrightarrow> p \<in> rm_probes m \<longleftrightarrow> ph_circuit st = HALF_OPEN"
  using inv_provider [of m p] by (simp add: get_state_Inr provider_ok_def)

text \<open>
  On a consistent manager the branch that grants a probe in the half-open state is never taken,
  nor the one that finds a probe on an open circuit.
\<close>

lemma allow_cases:
  assumes "rel_inv m" "get_state p m = Inr st"
  shows "allow_request p now m = (case ph_circuit st of
      CLOSED \<Rightarrow> (Inr True, m)
    | OPEN \<Rightarrow> (if recovery_due m st now
        then (Inr True, replaced p (half_open st now) (insert p (rm_probes m)) m)
        else (Inr False, m))
    | HALF_OPEN \<Rightarrow> (Inr False, m))"
  using probe_iff [OF assms] get_state_ok [OF assms] assms(2)
  by (auto simp: allow_request_def take_probe_def replaced_def update_metrics_def set_state_def
      half_open_def state_ok_def split: circuit_state.splits)

lemma rel_apply_inv: "rel_inv m \<Longrightarrow> rel_inv (rel_apply op m)"
proof (cases op)
  case (Rel_register p)
  assume inv: "rel_inv m"
  show ?thesis
  proof (cases "py_strip p = [] \<or> map_of (rm_states m) p \<noteq> None")
    case False
    then have "p \<notin> rm_probes m"
      using inv_provider [OF inv, of p] by (simp add: provider_ok_def)
    with False inv show ?thesis
      by (auto simp: Rel_register register_replaced intro!: replaced_inv state_ok_new)
  qed (use inv Rel_register register_refused [of p m] in simp)
next
  case (Rel_allow p now)
  assume inv: "rel_inv m"
  show ?thesis
  proof (cases "get_state p m")
    case (Inl e)
    with inv Rel_allow show ?thesis by (simp add: allow_request_def)
  next
    case (Inr st)
    have "rel_inv (replaced p (half_open st now) (insert p (rm_probes m)) m)" if "ph_circuit st = OPEN"
      using that by (auto intro!: replaced_inv inv state_ok_half_open get_state_ok [OF inv Inr])
    with inv Rel_allow allow_cases [OF inv Inr] show ?thesis
      by (auto split: circuit_state.splits)
  qed
next
  case (Rel_success p now)
  assume inv: "rel_inv m"
  show ?thesis
  proof (cases "get_state p m")
    case (Inr st)
    have "rel_inv (replaced p (succeed st now) (rm_probes m - {p}) m)"
      by (auto intro!: replaced_inv inv state_ok_succeed get_state_ok [OF inv Inr])
    with success_replaced [OF Inr get_state_ok [OF inv Inr]] Rel_success show ?thesis by simp
  qed (use inv Rel_success in \<open>simp add: record_success_def\<close>)
next
  case (Rel_failure p now)
  assume inv: "rel_inv m"
  show ?thesis
  proof (cases "get_state p m")
    case (Inr st)
    have "ph_circuit (fail_state m st now) \<noteq> HALF_OPEN"
      by (simp add: fail_state_def open_circuit_def count_failure_def Let_def)
    then have "rel_inv (replaced p (fail_state m st now) (rm_probes m - {p}) m)"
      by (auto intro!: replaced_inv inv state_ok_fail get_state_ok [OF inv Inr])
    with failure_replaced [OF Inr get_state_ok [OF inv Inr]] Rel_failure show ?thesis by simp
  qed (use inv Rel_failure in \<open>simp add: record_failure_def\<close>)
qed

lemma rel_applies_inv: "rel_inv m \<Longrightarrow> rel_inv (rel_applies ops m)"
  by (induction ops arbitrary: m) (simp_all add: rel_apply_inv)

section \<open>The abstract circuit breaker\<close>

text \<open>
  The contract of one provider's breaker, without names, totals, statuses or gauges: closed with a
  count of consecutive failures, open since a time, or waiting for the outcome of the one probe.
\<close>

datatype breaker = Br_closed int | Br_open time | Br_probing

fun br_allow :: "time \<Rightarrow> time \<Rightarrow> breaker \<Rightarrow> bool \<times> breaker" where
  "br_allow recovery now (Br_closed n) = (True, Br_closed n)"
| "br_allow recovery now (Br_open t) =
     (if recovery \<le> now - t then (True, Br_probing) else (False, Br_open t))"
| "br_allow recovery now Br_probing = (False, Br_probing)"

fun br_success :: "breaker \<Rightarrow> breaker" where
  "br_success b = Br_closed 0"

fun br_failure :: "int \<Rightarrow> time \<Rightarrow> breaker \<Rightarrow> breaker" where
  "br_failure limit now (Br_closed n) = (if limit \<le> n + 1 then Br_open now else Br_closed (n + 1))"
| "br_failure limit now _ = Br_open now"

definition abs_state :: "provider_state \<Rightarrow> breaker" where
  "abs_state st = (case ph_circuit st of CLOSED \<Rightarrow> Br_closed (ph_consecutive st)
     | OPEN \<Rightarrow> (case ph_opened_at st of Some t \<Rightarrow> Br_open t | None \<Rightarrow> Br_probing)
     | HALF_OPEN \<Rightarrow> Br_probing)"

definition abs_breaker :: "reliability \<Rightarrow> string \<Rightarrow> breaker option" where
  "abs_breaker m p = map_option abs_state (map_of (rm_states m) p)"

text \<open>What one operation of the manager does to the breaker of \<open>p\<close>.\<close>

fun br_apply :: "reliability \<Rightarrow> string \<Rightarrow> rel_op \<Rightarrow> breaker option \<Rightarrow> breaker option" where
  "br_apply m p (Rel_register q) b =
     (if q = p \<and> b = None \<and> py_strip q \<noteq> [] then Some (Br_closed 0) else b)"
| "br_apply m p (Rel_allow q now) b =
     (if q = p then map_option (snd \<circ> br_allow (rm_recovery m) now) b else b)"
| "br_apply m p (Rel_success q now) b = (if q = p then map_option br_success b else b)"
| "br_apply m p (Rel_failure q now) b =
     (if q = p then map_option (br_failure (rm_unhealthy m) now) b else b)"

lemma abs_replaced:
  "abs_breaker (replaced p st ps m) q = (if q = p then Some (abs_state st) else abs_breaker m q)"
  by (simp add: abs_breaker_def replaced_def)

lemma abs_get: "get_state p m = Inr st \<Longrightarrow> abs_breaker m p = Some (abs_state st)"
  by (simp add: get_state_Inr abs_breaker_def)

lemma abs_missing: "get_state p m = Inl e \<Longrightarrow> abs_breaker m p = None"
  by (simp add: get_state_def abs_breaker_def split: option.splits)

lemma abs_new [simp]: "abs_state (new_provider_state p) = Br_closed 0"
  by (simp add: abs_state_def new_provider_state_def)

lemma abs_half_open [simp]: "abs_state (half_open st now) = Br_probing"
  by (simp add: abs_state_def half_open_def)

lemma abs_succeed [simp]: "abs_state (succeed st now) = Br_closed 0"
  by (simp add: abs_state_def succeed_def)

lemma abs_fail:
  "state_ok m p st \<Longrightarrow> abs_state (fail_state m st now) = br_failure (rm_unhealthy m) now (abs_state st)"
  by (auto simp: abs_state_def fail_state_def count_failure_def open_circuit_def state_ok_def Let_def
      split: circuit_state.splits option.splits)

text \<open>The answer and the next state of \<open>allow_request\<close> are those of the abstract breaker.\<close>

lemma allow_refines:
  assumes "rel_inv m" "abs_breaker m p = Some b" "allow_request p now m = (r, m')"
  shows "r = Inr (fst (br_allow (rm_recovery m) now b))
    \<and> abs_breaker m' p = Some (snd (br_allow (rm_recovery m) now b))"
proof -
  obtain st where st: "get_state p m = Inr st" and b: "b = abs_state st"
    using assms(2) by (auto simp: abs_breaker_def get_state_Inr)
  have "ph_opened_at st \<noteq> None" if "ph_circuit st = OPEN"
    using get_state_ok [OF assms(1) st] that by (simp add: state_ok_def)
  then show ?thesis
    using allow_cases [OF assms(1) st] assms(3) abs_get [OF st] b
    by (auto simp: abs_state_def recovery_due_def abs_replaced half_open_def
        split: circuit_state.splits if_splits)
qed

lemma rel_apply_refines:
  assumes "rel_inv m"
  shows "abs_breaker (rel_apply op m) p = br_apply m p op (abs_breaker m p)"
proof (cases op)
  case (Rel_register q)
  show ?thesis
  proof (cases "py_strip q = [] \<or> map_of (rm_states m) q \<noteq> None")
    case True
    then show ?thesis
      using Rel_register register_refused [of q m] by (auto simp: abs_breaker_def)
  next
    case False
    then have "abs_breaker m q = None" by (simp add: abs_breaker_def)
    with False show ?thesis by (auto simp: Rel_register register_replaced abs_replaced)
  qed
next
  case (Rel_allow q now)
  show ?thesis
  proof (cases "get_state q m")
    case (Inl e)
    with Rel_allow abs_missing [OF Inl] show ?thesis by (auto simp: allow_request_def)
  next
    case (Inr st)
    obtain r m' where eq: "allow_request q now m = (r, m')" by fastforce
    have "abs_breaker m' p = abs_breaker m p" if "q \<noteq> p"
      using eq that allow_cases [OF assms Inr] by (auto simp: abs_replaced split: circuit_state.splits if_splits)
    with allow_refines [OF assms abs_get [OF Inr] eq] eq Rel_allow abs_get [OF Inr] show ?thesis
      by (cases "q = p") simp_all
  qed
next
  case (Rel_success q now)
  show ?thesis
  proof (cases "get_state q m")
    case (Inr st)
    with success_replaced [OF Inr get_state_ok [OF assms Inr]] Rel_success abs_get [OF Inr]
    show ?thesis by (auto simp: abs_replaced)
  qed (use Rel_success abs_missing [of q m] in \<open>auto simp: record_success_def\<close>)
next
  case (Rel_failure q now)
  show ?thesis
  proof (cases "get_state q m")
    case (Inr st)
    with failure_replaced [OF Inr get_state_ok [OF assms Inr]] Rel_failure abs_get [OF Inr]
      abs_fail [OF get_state_ok [OF assms Inr]]
    show ?thesis by (auto simp: abs_replaced)
  qed (use Rel_failure abs_missing [of q m] in \<open>auto simp: record_failure_def\<close>)
qed

lemma rel_apply_config [simp]:
  "rm_recovery (rel_apply op m) = rm_recovery m \<and> rm_unhealthy (rel_apply op m) = rm_unhealthy m
     \<and> rm_degraded (rel_apply op m) = rm_degraded m"
  by (cases op) (auto simp: register_provider_def allow_request_def record_success_def
      record_failure_def take_probe_def update_metrics_def set_state_def drop_probe_def
      split: sum.splits circuit_state.splits)

text \<open>Along any sequence of operations, the manager carries one such breaker for each provider.\<close>

lemma br_apply_config:
  "rm_recovery m' = rm_recovery m \<Longrightarrow> rm_unhealthy m' = rm_unhealthy m \<Longrightarrow> br_apply m' p op b = br_apply m p op b"
  by (cases op) simp_all

lemma rel_applies_refines:
  "rel_inv m \<Longrightarrow> abs_breaker (rel_applies ops m) p = fold (br_apply m p) ops (abs_breaker m p)"
proof (induction ops arbitrary: m)
  case (Cons op ops)
  have "abs_breaker (rel_applies ops (rel_apply op m)) p
      = fold (br_apply (rel_apply op m) p) ops (br_apply m p op (abs_breaker m p))"
    using Cons.IH [OF rel_apply_inv [OF Cons.prems]] rel_apply_refines [OF Cons.prems] by simp
  moreover have "br_apply (rel_apply op m) p = br_apply m p"
    by (intro ext br_apply_config) simp_all
  ultimately show ?case by simp
qed simp

section \<open>Requests while a circuit is open\<close>

text \<open>The times at which a request to \<open>p\<close> is allowed along a sequence of operations.\<close>

fun granted_at :: "string \<Rightarrow> rel_op list \<Rightarrow> reliability \<Rightarrow> time list" where
  "granted_at p [] m = []"
| "granted_at p (Rel_allow q now # ops) m =
     (if q = p \<and> fst (allow_request q now m) = Inr True then [now] else [])
       @ granted_at p ops (rel_apply (Rel_allow q now) m)"
| "granted_at p (op # ops) m = granted_at p ops (rel_apply op m)"

fun settles :: "string \<Rightarrow> rel_op \<Rightarrow> bool" where
  "settles p (Rel_success q now) = (q = p)"
| "settles p (Rel_failure q now) = (q = p)"
| "settles p _ = False"

lemma probing_refuses:
  assumes "rel_inv m" "abs_breaker m p = Some Br_probing" "list_all (\<lambda>op. \<not> settles p op) ops"
  shows "granted_at p ops m = []"
  using assms
proof (induction p ops m rule: granted_at.induct)
  case (2 p q now ops m)
  obtain r m' where eq: "allow_request q now m = (r, m')" by fastforce
  have "abs_breaker m' p = Some Br_probing"
    using rel_apply_refines [OF "2.prems"(1), of "Rel_allow q now" p] "2.prems"(2) eq
    by (cases "q = p") simp_all
  moreover have "rel_inv m'"
    using rel_apply_inv [OF "2.prems"(1), of "Rel_allow q now"] eq by simp
  moreover have "q = p \<Longrightarrow> r \<noteq> Inr True"
    using allow_refines [OF "2.prems"(1,2), of now r m'] eq by simp
  ultimately show ?case using "2.IH" "2.prems"(3) eq by simp
qed (use rel_apply_inv rel_apply_refines in \<open>auto simp del: rel_apply.simps\<close>)

lemma open_grants:
  assumes "rel_inv m" "abs_breaker m p = Some (Br_open t)" "list_all (\<lambda>op. \<not> settles p op) ops"
  shows "granted_at p ops m = []
    \<or> (\<exists>x. granted_at p ops m = [x] \<and> t + rm_recovery m \<le> x)"
  using assms
proof (induction p ops m rule: granted_at.induct)
  case (2 p q now ops m)
  obtain r m' where eq: "allow_request q now m = (r, m')" by fastforce
  have inv: "rel_inv m'"
    using rel_apply_inv [OF "2.prems"(1), of "Rel_allow q now"] eq by simp
  have rec: "rm_recovery m' = rm_recovery m"
    using rel_apply_config [of "Rel_allow q now" m] eq by simp
  show ?case
  proof (cases "q = p \<and> rm_recovery m \<le> now - t")
    case True
    then have "r = Inr True" "abs_breaker m' p = Some Br_probing"
      using allow_refines [OF "2.prems"(1,2), of now r m'] eq by simp_all
    with True eq probing_refuses [OF inv] "2.prems"(3) show ?thesis by simp
  next
    case False
    have b: "abs_breaker m' p = Some (Br_open t)"
      using rel_apply_refines [OF "2.prems"(1), of "Rel_allow q now" p] "2.prems"(2) eq False by auto
    have "q = p \<Longrightarrow> r = Inr False"
      using allow_refines [OF "2.prems"(1,2), of now r m'] eq False by simp
    with b inv rec eq "2.IH" "2.prems"(3) show ?thesis by auto
  qed
qed (use rel_apply_inv rel_apply_refines in \<open>auto simp del: rel_apply.simps\<close>)

lemma rel_applies_config:
  "rm_recovery (rel_applies ops m) = rm_recovery m \<and> rm_unhealthy (rel_applies ops m) = rm_unhealthy m"
  by (induction ops arbitrary: m) simp_all

text \<open>The failures that open a circuit.\<close>

lemma failure_opens:
  assumes "rel_inv m" "get_state p m = Inr st"
    "rm_unhealthy m \<le> ph_consecutive st + 1 \<or> ph_circuit st = HALF_OPEN"
  shows "abs_breaker (rel_apply (Rel_failure p now) m) p = Some (Br_open now)"
  using rel_apply_refines [OF assms(1), of "Rel_failure p now" p] abs_get [OF assms(2)] assms(3)
  by (cases "ph_circuit st") (auto simp: abs_state_def split: option.splits)

end
