(* ===== verification/Failover.thy ===== *)
theory Failover
  imports Registries Reliability
begin

text \<open>
  Model-aware failover (\<^verbatim>\<open>failover/manager.py\<close>): construction with the validation of the routes,
  and the loop over the providers of a model.  The loop is written over the three operations it
  calls on the reliability manager (a \<open>gate\<close>); \<open>provider_gate\<close> states what it relies on.
\<close>

section \<open>The manager\<close>

record failover =
  fo_registry :: provider_registry
  fo_routes :: "(string \<times> string list) list"
  fo_max_attempts :: int

fun validate_route_providers :: "provider_registry \<Rightarrow> string \<Rightarrow> string list \<Rightarrow> unit result" where
  "validate_route_providers reg m [] = Inr ()"
| "validate_route_providers reg m (p # ps) =
     (if p \<notin> set (provider_names reg) then
        raise ValueError (''Model '' @ quoted m @ '' references unregistered provider ''
          @ quoted p)
      else validate_route_providers reg m ps)"

fun validate_routes :: "provider_registry \<Rightarrow> (string \<times> string list) list \<Rightarrow> unit result" where
  "validate_routes reg [] = Inr ()"
| "validate_routes reg ((m, ps) # routes) =
     (if py_strip m = [] then raise ValueError ''model_routes contains an empty model ID''
      else if ps = [] then
        raise ValueError (''Model '' @ quoted m @ '' has no providers'')
      else rbind (validate_route_providers reg m ps) (\<lambda>_. validate_routes reg routes))"

definition new_failover ::
  "provider_registry \<Rightarrow> (string \<times> string list) list \<Rightarrow> int \<Rightarrow> failover result" where
  "new_failover reg routes max_attempts =
     (if routes = [] then raise ValueError ''model_routes must contain at least one model''
      else if max_attempts < 1 then raise ValueError ''max_attempts must be >= 1''
      else rbind (validate_routes reg routes)
        (\<lambda>_. Inr \<lparr>fo_registry = reg, fo_routes = routes, fo_max_attempts = max_attempts\<rparr>))"

definition providers_for_model :: "failover \<Rightarrow> string \<Rightarrow> string list result" where
  "providers_for_model fo m = (case map_of (fo_routes fo) m of
      Some ps \<Rightarrow> Inr ps
    | None \<Rightarrow> raise KeyError (repr_str
        (''No failover route configured for model '' @ quoted m)))"

record failover_attempt =
  fa_provider :: string
  fa_success :: bool
  fa_error :: "string option"

record failover_result =
  fr_response :: pydict
  fr_provider :: string
  fr_attempts :: "failover_attempt list"

record 's gate =
  gt_allow :: "string \<Rightarrow> ('s, bool) act"
  gt_success :: "string \<Rightarrow> ('s, unit) act"
  gt_failure :: "string \<Rightarrow> ('s, unit) act"

definition all_failed :: "string \<Rightarrow> exc option \<Rightarrow> exc" where
  "all_failed m last_error = (case last_error of
      Some _ \<Rightarrow> Exc RuntimeError (''All failover providers failed for model '' @ quoted m)
    | None \<Rightarrow> Exc RuntimeError
        (''No failover providers are currently available for model '' @ quoted m))"

text \<open>\<open>await provider.chat_completion(payload)\<close> under \<open>except Exception\<close>.\<close>

definition attempt_call :: "('s, 'a) act \<Rightarrow> ('s, exc + 'a) act" where
  "attempt_call call = catch (bnd call (\<lambda>d. ret (Inr d)))
     (\<lambda>x. if isinstance_exc x PyException then ret (Inl x) else throw x)"

text \<open>The loop over the providers that are left, with its three variables.\<close>

primrec failover_loop ::
  "'s gate \<Rightarrow> (provider \<Rightarrow> pydict \<Rightarrow> ('s, pydict) act) \<Rightarrow> failover \<Rightarrow> string \<Rightarrow> pydict \<Rightarrow> string list
     \<Rightarrow> failover_attempt list \<Rightarrow> int \<Rightarrow> exc option \<Rightarrow> ('s, failover_result) act" where
  "failover_loop g chat fo m payload [] attempts attempted last_error =
     throw (all_failed m last_error)"
| "failover_loop g chat fo m payload (name # names) attempts attempted last_error =
     (if fo_max_attempts fo \<le> attempted then throw (all_failed m last_error)
      else bnd (lift_res (get_provider (fo_registry fo) name)) (\<lambda>p.
        bnd (gt_allow g (pr_name p)) (\<lambda>allowed.
        if \<not> allowed then
          failover_loop g chat fo m payload names
            (attempts @ [\<lparr>fa_provider = pr_name p, fa_success = False,
                           fa_error = Some ''Provider circuit is open''\<rparr>]) attempted last_error
        else bnd (attempt_call (chat p payload)) (\<lambda>r. case r of
            Inl x \<Rightarrow> seq (gt_failure g (pr_name p))
              (failover_loop g chat fo m payload names
                (attempts @ [\<lparr>fa_provider = pr_name p, fa_success = False, fa_error = Some (exc_msg x)\<rparr>])
                (attempted + 1) (Some x))
          | Inr d \<Rightarrow> seq (gt_success g (pr_name p))
              (ret \<lparr>fr_response = d, fr_provider = pr_name p, fr_attempts = attempts @
                 [\<lparr>fa_provider = pr_name p, fa_success = True, fa_error = None\<rparr>]\<rparr>)))))"

definition no_model_text :: string where
  "no_model_text = ''Inference payload must contain a non-empty string '' @ quoted ''model''"

definition failover_chat ::
  "'s gate \<Rightarrow> (provider \<Rightarrow> pydict \<Rightarrow> ('s, pydict) act) \<Rightarrow> failover \<Rightarrow> pydict
     \<Rightarrow> ('s, failover_result) act" where
  "failover_chat g chat fo payload = (case dget payload ''model'' of
      PStr m \<Rightarrow> (if m = [] then
          throw (Exc ValueError no_model_text)
        else bnd (lift_res (providers_for_model fo m)) (\<lambda>names.
          failover_loop g chat fo m payload names [] 0 None))
    | _ \<Rightarrow> throw (Exc ValueError no_model_text))"

section \<open>Construction\<close>

definition routes_ok :: "failover \<Rightarrow> bool" where
  "routes_ok fo \<longleftrightarrow> 1 \<le> fo_max_attempts fo \<and> fo_routes fo \<noteq> []
     \<and> (\<forall>(m, ps) \<in> set (fo_routes fo). py_strip m \<noteq> [] \<and> ps \<noteq> []
          \<and> set ps \<subseteq> fst ` set (fo_registry fo))"

lemma validate_route_providers_iff:
  "validate_route_providers reg m ps = Inr () \<longleftrightarrow> set ps \<subseteq> fst ` set reg"
  by (induction ps) auto

lemma validate_routes_iff:
  "validate_routes reg routes = Inr () \<longleftrightarrow>
     (\<forall>(m, ps) \<in> set routes. py_strip m \<noteq> [] \<and> ps \<noteq> [] \<and> set ps \<subseteq> fst ` set reg)"
  by (induction reg routes rule: validate_routes.induct) (auto simp: validate_route_providers_iff)

lemma new_failover_iff:
  "new_failover reg routes k = Inr fo \<longleftrightarrow>
     fo = \<lparr>fo_registry = reg, fo_routes = routes, fo_max_attempts = k\<rparr> \<and> routes_ok fo"
  by (cases "routes = []"; cases "k < 1")
     (auto simp: new_failover_def routes_ok_def validate_routes_iff simp del: split_paired_All
        cong: conj_cong simp del: subset_iff)

lemma route_registered:
  assumes "routes_ok fo" "providers_for_model fo m = Inr names" "name \<in> set names"
  shows "\<exists>p. map_of (fo_registry fo) name = Some p"
proof -
  have "(m, names) \<in> set (fo_routes fo)"
    using assms(2) by (auto simp: providers_for_model_def split: option.splits dest: map_of_SomeD)
  with assms(1,3) have "name \<in> fst ` set (fo_registry fo)"
    by (auto simp: routes_ok_def)
  then show ?thesis by (auto simp: map_of_eq_None_iff [symmetric] dest!: not_None_eq [THEN iffD1])
      (metis map_of_eq_None_iff not_None_eq image_eqI fst_conv)
qed

section \<open>The course of a failover\<close>

text \<open>
  A request goes along the route.  \<open>allowed p b\<close>, \<open>worked p\<close> and \<open>failed p\<close> say what a question for
  admission answered with \<open>b\<close>, and the record of an outcome, do to the state; \<open>failed_attempts\<close> relates
  the attempts that gave no response to the states before and after them, and counts the calls: a
  provider was refused and not called, or it was admitted, its call raised, and its failure, and no
  other outcome, was recorded.
\<close>

inductive failed_attempts ::
  "(string \<Rightarrow> bool \<Rightarrow> 's \<Rightarrow> 's \<Rightarrow> bool) \<Rightarrow> (string \<Rightarrow> 's \<Rightarrow> 's \<Rightarrow> bool) \<Rightarrow> (provider \<Rightarrow> pydict \<Rightarrow> ('s, pydict) act)
     \<Rightarrow> failover \<Rightarrow> pydict \<Rightarrow> failover_attempt list \<Rightarrow> nat \<Rightarrow> 's \<Rightarrow> 's \<Rightarrow> bool"
  for allowed failed chat fo payload
where
  no_attempt: "failed_attempts allowed failed chat fo payload [] 0 s s"
| refused_attempt: "allowed n False s u \<Longrightarrow> failed_attempts allowed failed chat fo payload as k u t
     \<Longrightarrow> failed_attempts allowed failed chat fo payload
           (\<lparr>fa_provider = n, fa_success = False, fa_error = Some ''Provider circuit is open''\<rparr> # as) k s t"
| failed_attempt: "allowed n True s s1 \<Longrightarrow> get_provider (fo_registry fo) n = Inr p \<Longrightarrow> chat p payload s1 = (Inl x, s2)
     \<Longrightarrow> isinstance_exc x PyException \<Longrightarrow> failed n s2 u \<Longrightarrow> failed_attempts allowed failed chat fo payload as k u t
     \<Longrightarrow> failed_attempts allowed failed chat fo payload
           (\<lparr>fa_provider = n, fa_success = False, fa_error = Some (exc_msg x)\<rparr> # as) (Suc k) s t"

text \<open>The result: after the failed attempts the next provider of the route was admitted and answered.\<close>

definition failover_served ::
  "(string \<Rightarrow> bool \<Rightarrow> 's \<Rightarrow> 's \<Rightarrow> bool) \<Rightarrow> (string \<Rightarrow> 's \<Rightarrow> 's \<Rightarrow> bool) \<Rightarrow> (string \<Rightarrow> 's \<Rightarrow> 's \<Rightarrow> bool)
     \<Rightarrow> (provider \<Rightarrow> pydict \<Rightarrow> ('s, pydict) act) \<Rightarrow> failover \<Rightarrow> pydict \<Rightarrow> string list \<Rightarrow> nat
     \<Rightarrow> failover_attempt list \<Rightarrow> failover_result \<Rightarrow> 's \<Rightarrow> 's \<Rightarrow> bool" where
  "failover_served allowed worked failed chat fo payload names budget before r s t \<longleftrightarrow>
     (\<exists>as k u u1 u2 p. failed_attempts allowed failed chat fo payload as k s u \<and> k < budget
        \<and> map fa_provider as @ [fr_provider r] = take (Suc (length as)) names
        \<and> get_provider (fo_registry fo) (fr_provider r) = Inr p
        \<and> allowed (fr_provider r) True u u1 \<and> chat p payload u1 = (Inr (fr_response r), u2)
        \<and> worked (fr_provider r) u2 t
        \<and> fr_attempts r = before @ as @ [\<lparr>fa_provider = fr_provider r, fa_success = True, fa_error = None\<rparr>])"

text \<open>
  Without a result: every provider of the route was tried, or as many calls were made as are allowed.
  The exception says whether there was a call at all.
\<close>

definition failover_exhausted ::
  "(string \<Rightarrow> bool \<Rightarrow> 's \<Rightarrow> 's \<Rightarrow> bool) \<Rightarrow> (string \<Rightarrow> 's \<Rightarrow> 's \<Rightarrow> bool) \<Rightarrow> (provider \<Rightarrow> pydict \<Rightarrow> ('s, pydict) act)
     \<Rightarrow> failover \<Rightarrow> string \<Rightarrow> pydict \<Rightarrow> string list \<Rightarrow> nat \<Rightarrow> exc option \<Rightarrow> exc \<Rightarrow> 's \<Rightarrow> 's \<Rightarrow> bool" where
  "failover_exhausted allowed failed chat fo m payload names budget err x s t \<longleftrightarrow>
     (\<exists>as k y. failed_attempts allowed failed chat fo payload as k s t \<and> k \<le> budget
        \<and> map fa_provider as = take (length as) names \<and> (length as = length names \<or> k = budget)
        \<and> x = all_failed m (if k = 0 then err else Some y))"

text \<open>A call that is cancelled ends the failover; its admission stays open.\<close>

definition failover_cut ::
  "(string \<Rightarrow> bool \<Rightarrow> 's \<Rightarrow> 's \<Rightarrow> bool) \<Rightarrow> (string \<Rightarrow> 's \<Rightarrow> 's \<Rightarrow> bool) \<Rightarrow> (provider \<Rightarrow> pydict \<Rightarrow> ('s, pydict) act)
     \<Rightarrow> failover \<Rightarrow> pydict \<Rightarrow> string list \<Rightarrow> nat \<Rightarrow> exc \<Rightarrow> 's \<Rightarrow> 's \<Rightarrow> bool" where
  "failover_cut allowed failed chat fo payload names budget x s t \<longleftrightarrow>
     (\<exists>as k u u1 p n. failed_attempts allowed failed chat fo payload as k s u \<and> k < budget
        \<and> map fa_provider as @ [n] = take (Suc (length as)) names \<and> get_provider (fo_registry fo) n = Inr p
        \<and> allowed n True u u1 \<and> chat p payload u1 = (Inl x, t) \<and> \<not> isinstance_exc x PyException)"

section \<open>The contract with the reliability manager\<close>

locale provider_gate =
  fixes g :: "'s gate"
    and inv :: "'s \<Rightarrow> bool"
    and known :: "'s \<Rightarrow> string \<Rightarrow> bool"
    and allowed :: "string \<Rightarrow> bool \<Rightarrow> 's \<Rightarrow> 's \<Rightarrow> bool"
    and worked :: "string \<Rightarrow> 's \<Rightarrow> 's \<Rightarrow> bool"
    and failed :: "string \<Rightarrow> 's \<Rightarrow> 's \<Rightarrow> bool"
  assumes allow: "inv s \<Longrightarrow> known s p \<Longrightarrow> wp (gt_allow g p)
      (\<lambda>b t. inv t \<and> known t = known s \<and> allowed p b s t) (\<lambda>_ _. False) s"
    and success: "inv s \<Longrightarrow> known s p \<Longrightarrow> wp (gt_success g p)
      (\<lambda>_ t. inv t \<and> known t = known s \<and> worked p s t) (\<lambda>_ _. False) s"
    and failure: "inv s \<Longrightarrow> known s p \<Longrightarrow> wp (gt_failure g p)
      (\<lambda>_ t. inv t \<and> known t = known s \<and> failed p s t) (\<lambda>_ _. False) s"

locale provider_calls = provider_gate +
  fixes chat :: "provider \<Rightarrow> pydict \<Rightarrow> ('a, pydict) act"
  assumes chat: "inv s \<Longrightarrow> wp (chat p d) (\<lambda>_ t. inv t \<and> known t = known s)
      (\<lambda>_ t. inv t \<and> known t = known s) s"
begin

text \<open>What a run of the loop leaves.\<close>

definition loop_result ::
  "failover \<Rightarrow> pydict \<Rightarrow> string list \<Rightarrow> failover_attempt list \<Rightarrow> nat \<Rightarrow> 'a \<Rightarrow> failover_result \<Rightarrow> 'a \<Rightarrow> bool" where
  "loop_result fo payload names attempts budget s r t \<longleftrightarrow> inv t \<and> known t = known s
     \<and> failover_served allowed worked failed chat fo payload names budget attempts r s t"

definition loop_raised ::
  "failover \<Rightarrow> string \<Rightarrow> pydict \<Rightarrow> string list \<Rightarrow> nat \<Rightarrow> exc option \<Rightarrow> 'a \<Rightarrow> exc \<Rightarrow> 'a \<Rightarrow> bool" where
  "loop_raised fo m payload names budget err s x t \<longleftrightarrow> inv t \<and> known t = known s
     \<and> (if isinstance_exc x PyException then failover_exhausted allowed failed chat fo m payload names budget err x s t
        else failover_cut allowed failed chat fo payload names budget x s t)"

text \<open>One attempt without a response, before the others.\<close>

definition attempt_before :: "failover \<Rightarrow> pydict \<Rightarrow> failover_attempt \<Rightarrow> nat \<Rightarrow> 'a \<Rightarrow> 'a \<Rightarrow> bool" where
  "attempt_before fo payload a c s t \<longleftrightarrow> (\<forall>as k u. failed_attempts allowed failed chat fo payload as k t u
     \<longrightarrow> failed_attempts allowed failed chat fo payload (a # as) (c + k) s u)"

lemma loop_result_cons:
  assumes "loop_result fo payload names (attempts @ [a]) b t r u" "known t = known s"
    "attempt_before fo payload a c s t" "fa_provider a = n" "b + c \<le> b'"
  shows "loop_result fo payload (n # names) attempts b' s r u"
proof -
  obtain as k v u1 u2 p where *: "inv u" "known u = known t"
      "failed_attempts allowed failed chat fo payload as k t v" "k < b"
      "map fa_provider as @ [fr_provider r] = take (Suc (length as)) names"
      "get_provider (fo_registry fo) (fr_provider r) = Inr p"
      "allowed (fr_provider r) True v u1" "chat p payload u1 = (Inr (fr_response r), u2)"
      "worked (fr_provider r) u2 u"
      "fr_attempts r = (attempts @ [a]) @ as @ [\<lparr>fa_provider = fr_provider r, fa_success = True, fa_error = None\<rparr>]"
    using assms(1) unfolding loop_result_def failover_served_def by blast
  from * assms(2-5) show ?thesis
    unfolding loop_result_def failover_served_def attempt_before_def
    by (intro conjI exI [of _ "a # as"] exI [of _ "c + k"] exI [of _ v] exI [of _ u1] exI [of _ u2] exI [of _ p]) auto
qed

lemma loop_raised_cons:
  assumes "loop_raised fo m payload names b err' t x u" "known t = known s"
    "attempt_before fo payload a c s t" "fa_provider a = n" "b' = b + c"
    "err' = (if c = 0 then err else Some y)"
  shows "loop_raised fo m payload (n # names) b' err s x u"
proof (cases "isinstance_exc x PyException")
  case True
  with assms(1) obtain as k z where *: "inv u" "known u = known t"
      "failed_attempts allowed failed chat fo payload as k t u" "k \<le> b"
      "map fa_provider as = take (length as) names" "length as = length names \<or> k = b"
      "x = all_failed m (if k = 0 then err' else Some z)"
    unfolding loop_raised_def failover_exhausted_def by auto
  have "failover_exhausted allowed failed chat fo m payload (n # names) b' err x s u"
    unfolding failover_exhausted_def
    by (rule exI [of _ "a # as"], rule exI [of _ "c + k"], rule exI [of _ "if k = 0 then y else z"])
       (use * assms(3-6) in \<open>auto simp: attempt_before_def\<close>)
  with True * assms(2) show ?thesis by (simp add: loop_raised_def)
next
  case False
  with assms(1) obtain as k v u1 p n' where *: "inv u" "known u = known t"
      "failed_attempts allowed failed chat fo payload as k t v" "k < b"
      "map fa_provider as @ [n'] = take (Suc (length as)) names" "get_provider (fo_registry fo) n' = Inr p"
      "allowed n' True v u1" "chat p payload u1 = (Inl x, u)"
    unfolding loop_raised_def failover_cut_def by auto
  have "failover_cut allowed failed chat fo payload (n # names) b' x s u"
    unfolding failover_cut_def
    by (rule exI [of _ "a # as"], rule exI [of _ "c + k"], rule exI [of _ v], rule exI [of _ u1],
        rule exI [of _ p], rule exI [of _ n'])
       (use * False assms(3-5) in \<open>auto simp: attempt_before_def\<close>)
  with False * assms(2) show ?thesis by (simp add: loop_raised_def)
qed

definition served :: "failover \<Rightarrow> 'a \<Rightarrow> string \<Rightarrow> bool" where
  "served fo s n \<longleftrightarrow> known s n \<and> (\<exists>p. map_of (fo_registry fo) n = Some p \<and> pr_name p = n)"

lemma bnd_lift_Inr [simp]: "bnd (lift_res (Inr x)) f = f x"
  by (rule ext) (simp add: bnd_def lift_res_def)

lemma attempt_call_Inl: "fst (attempt_call call s) = Inl x \<Longrightarrow> call s = (Inl x, snd (attempt_call call s))"
  by (auto simp: attempt_call_def catch_def bnd_def ret_def throw_def split: prod.splits sum.splits if_splits)

lemma wp_attempt_call:
  assumes "inv s"
    "\<And>d t. inv t \<Longrightarrow> known t = known s \<Longrightarrow> chat p payload s = (Inr d, t) \<Longrightarrow> Q (Inr d) t"
    "\<And>x t. inv t \<Longrightarrow> known t = known s \<Longrightarrow> chat p payload s = (Inl x, t) \<Longrightarrow> isinstance_exc x PyException
       \<Longrightarrow> Q (Inl x) t"
    "\<And>x t. inv t \<Longrightarrow> known t = known s \<Longrightarrow> chat p payload s = (Inl x, t) \<Longrightarrow> \<not> isinstance_exc x PyException
       \<Longrightarrow> E x t"
  shows "wp (attempt_call (chat p payload)) Q E s"
  using chat [OF assms(1), of p payload] assms(2-4)
  by (auto simp: attempt_call_def wp_def catch_def bnd_def ret_def throw_def split: prod.splits sum.splits)

lemma loop_exhausted:
  "inv s \<Longrightarrow> names = [] \<or> budget = 0 \<Longrightarrow> wp (throw (all_failed m err)) Q (loop_raised fo m payload names budget err s) s"
  by (auto simp: wp_throw loop_raised_def failover_exhausted_def all_failed_def isinstance_exc_def exc_isa_PyException
      intro!: exI [of _ "[]"] exI [of _ 0] no_attempt split: option.splits)

lemma failover_loop_spec:
  assumes "inv s" "\<forall>n \<in> set names. served fo s n" "0 \<le> k"
  shows "wp (failover_loop g chat fo m payload names attempts k err)
    (loop_result fo payload names attempts (nat (fo_max_attempts fo - k)) s)
    (loop_raised fo m payload names (nat (fo_max_attempts fo - k)) err s) s"
  using assms
proof (induction names arbitrary: s attempts k err)
  case Nil
  then show ?case by (simp add: loop_exhausted)
next
  case (Cons n names)
  show ?case
  proof (cases "fo_max_attempts fo \<le> k")
    case True
    with Cons.prems show ?thesis by (simp add: loop_exhausted)
  next
    case False
    obtain p where p: "map_of (fo_registry fo) n = Some p" "pr_name p = n" "known s n"
      using Cons.prems(2) by (auto simp: served_def)
    have get: "get_provider (fo_registry fo) n = Inr p" using p(1) by (simp add: get_provider_Inr)
    let ?bound = "nat (fo_max_attempts fo - k)"
    have rest: "\<forall>n' \<in> set names. served fo t n'" if "known t = known s" for t
      using Cons.prems(2) that by (simp add: served_def)
    have go_on: "wp (failover_loop g chat fo m payload names (attempts @ [a]) (k + int c) err')
        (loop_result fo payload (n # names) attempts ?bound s) (loop_raised fo m payload (n # names) ?bound err s) t"
      if t: "inv t" "known t = known s" "attempt_before fo payload a c s t" "fa_provider a = n" "c \<le> 1"
        "err' = (if c = 0 then err else Some y)"
      for t a c err' y
    proof -
      have b: "?bound = nat (fo_max_attempts fo - (k + int c)) + c" using t(5) False by linarith
      have k': "0 \<le> k + int c" using Cons.prems(3) by simp
      show ?thesis
        by (rule wp_mono [OF Cons.IH [OF t(1) rest [OF t(2)] k']])
           (use b in \<open>auto intro: loop_result_cons [OF _ t(2-4)] loop_raised_cons [OF _ t(2-4) _ t(6)]\<close>)
    qed
    have call: "wp (bnd (attempt_call (chat p payload)) (\<lambda>r. case r of
            Inl x \<Rightarrow> seq (gt_failure g n)
              (failover_loop g chat fo m payload names
                (attempts @ [\<lparr>fa_provider = n, fa_success = False, fa_error = Some (exc_msg x)\<rparr>])
                (k + 1) (Some x))
          | Inr d \<Rightarrow> seq (gt_success g n)
              (ret \<lparr>fr_response = d, fr_provider = n, fr_attempts = attempts @
                 [\<lparr>fa_provider = n, fa_success = True, fa_error = None\<rparr>]\<rparr>)))
        (loop_result fo payload (n # names) attempts ?bound s) (loop_raised fo m payload (n # names) ?bound err s) t"
      if t: "inv t" "known t = known s" "allowed n True s t" for t
      unfolding wp_bnd
    proof (rule wp_attempt_call [OF t(1)])
      fix d u assume u: "inv u" "known u = known t" "chat p payload t = (Inr d, u)"
      have "wp (gt_success g n) (\<lambda>_ v. inv v \<and> known v = known u \<and> worked n u v) (\<lambda>_ _. False) u"
        by (rule success) (use u p(3) t(2) in simp_all)
      then show "wp (case Inr d of
            Inl x \<Rightarrow> seq (gt_failure g n)
              (failover_loop g chat fo m payload names
                (attempts @ [\<lparr>fa_provider = n, fa_success = False, fa_error = Some (exc_msg x)\<rparr>])
                (k + 1) (Some x))
          | Inr d \<Rightarrow> seq (gt_success g n)
              (ret \<lparr>fr_response = d, fr_provider = n, fr_attempts = attempts @
                 [\<lparr>fa_provider = n, fa_success = True, fa_error = None\<rparr>]\<rparr>))
          (loop_result fo payload (n # names) attempts ?bound s) (loop_raised fo m payload (n # names) ?bound err s) u"
        unfolding sum.case wp_seq wp_ret
      proof (rule wp_mono)
        fix x v assume v: "inv v \<and> known v = known u \<and> worked n u v"
        show "loop_result fo payload (n # names) attempts ?bound s \<lparr>fr_response = d, fr_provider = n, fr_attempts = attempts @
                 [\<lparr>fa_provider = n, fa_success = True, fa_error = None\<rparr>]\<rparr> v"
          unfolding loop_result_def failover_served_def
          by (intro conjI exI [of _ "[]"] exI [of _ 0] exI [of _ s] exI [of _ t] exI [of _ u] exI [of _ p] no_attempt)
             (use u t v False get in simp_all)
      qed simp
    next
      fix x u
      assume u: "inv u" "known u = known t" "chat p payload t = (Inl x, u)" "isinstance_exc x PyException"
      have "wp (gt_failure g n) (\<lambda>_ v. inv v \<and> known v = known u \<and> failed n u v) (\<lambda>_ _. False) u"
        by (rule failure) (use u p(3) t(2) in simp_all)
      then show "wp (case Inl x of
            Inl x \<Rightarrow> seq (gt_failure g n)
              (failover_loop g chat fo m payload names
                (attempts @ [\<lparr>fa_provider = n, fa_success = False, fa_error = Some (exc_msg x)\<rparr>])
                (k + 1) (Some x))
          | Inr d \<Rightarrow> seq (gt_success g n)
              (ret \<lparr>fr_response = d, fr_provider = n, fr_attempts = attempts @
                 [\<lparr>fa_provider = n, fa_success = True, fa_error = None\<rparr>]\<rparr>))
          (loop_result fo payload (n # names) attempts ?bound s) (loop_raised fo m payload (n # names) ?bound err s) u"
        unfolding sum.case wp_seq
      proof (rule wp_mono)
        fix y v assume v: "inv v \<and> known v = known u \<and> failed n u v"
        let ?a = "\<lparr>fa_provider = n, fa_success = False, fa_error = Some (exc_msg x)\<rparr>"
        have "attempt_before fo payload ?a 1 s v"
          unfolding attempt_before_def using t u v get by (auto intro: failed_attempt)
        from go_on [OF _ _ this, of "Some x" x] v u t
        show "wp (failover_loop g chat fo m payload names (attempts @ [?a]) (k + 1) (Some x))
          (loop_result fo payload (n # names) attempts ?bound s) (loop_raised fo m payload (n # names) ?bound err s) v"
          by simp
      qed simp
    next
      fix x u
      assume u: "inv u" "known u = known t" "chat p payload t = (Inl x, u)" "\<not> isinstance_exc x PyException"
      have "failover_cut allowed failed chat fo payload (n # names) ?bound x s u"
        unfolding failover_cut_def
        by (rule exI [of _ "[]"], rule exI [of _ 0], rule exI [of _ s], rule exI [of _ t], rule exI [of _ p],
            rule exI [of _ n])
           (use u t False get in \<open>simp add: no_attempt\<close>)
      with u t show "loop_raised fo m payload (n # names) ?bound err s x u" by (simp add: loop_raised_def)
    qed
    have refused: "wp (failover_loop g chat fo m payload names
            (attempts @ [\<lparr>fa_provider = n, fa_success = False, fa_error = Some ''Provider circuit is open''\<rparr>]) k err)
        (loop_result fo payload (n # names) attempts ?bound s) (loop_raised fo m payload (n # names) ?bound err s) t"
      if t: "inv t" "known t = known s" "allowed n False s t" for t
    proof -
      have "attempt_before fo payload
          \<lparr>fa_provider = n, fa_success = False, fa_error = Some ''Provider circuit is open''\<rparr> 0 s t"
        unfolding attempt_before_def using t(3) by (auto intro: refused_attempt)
      from go_on [OF t(1,2) this, of err] show ?thesis by simp
    qed
    show ?thesis
      unfolding failover_loop.simps get bnd_lift_Inr p(2) if_not_P [OF False] wp_bnd [of "gt_allow g n"]
    proof (rule wp_mono [OF allow [OF Cons.prems(1) p(3)]])
      fix b t assume t: "inv t \<and> known t = known s \<and> allowed n b s t"
      show "wp (if \<not> b then failover_loop g chat fo m payload names
            (attempts @ [\<lparr>fa_provider = n, fa_success = False, fa_error = Some ''Provider circuit is open''\<rparr>]) k err
          else bnd (attempt_call (chat p payload)) (\<lambda>r. case r of
            Inl x \<Rightarrow> seq (gt_failure g n)
              (failover_loop g chat fo m payload names
                (attempts @ [\<lparr>fa_provider = n, fa_success = False, fa_error = Some (exc_msg x)\<rparr>])
                (k + 1) (Some x))
          | Inr d \<Rightarrow> seq (gt_success g n)
              (ret \<lparr>fr_response = d, fr_provider = n, fr_attempts = attempts @
                 [\<lparr>fa_provider = n, fa_success = True, fa_error = None\<rparr>]\<rparr>)))
        (loop_result fo payload (n # names) attempts ?bound s) (loop_raised fo m payload (n # names) ?bound err s) t"
        using t call [of t] refused [of t] by (cases b) simp_all
    qed simp
  qed
qed

lemma failover_chat_spec:
  assumes "inv s" "dget payload ''model'' = PStr m" "m \<noteq> []" "providers_for_model fo m = Inr names"
    "\<forall>n \<in> set names. served fo s n"
  shows "wp (failover_chat g chat fo payload)
    (loop_result fo payload names [] (nat (fo_max_attempts fo)) s)
    (loop_raised fo m payload names (nat (fo_max_attempts fo)) None s) s"
  using failover_loop_spec [OF assms(1,5), of 0] assms(2-4) by (simp add: failover_chat_def)

end

section \<open>What failover leaves alone\<close>

text \<open>A relation the gate and the providers keep is kept by the whole run.\<close>

context kept
begin

lemma keeps_failover_loop:
  assumes "\<And>p. keeps (gt_allow g p)" "\<And>p. keeps (gt_success g p)" "\<And>p. keeps (gt_failure g p)"
    "\<And>p d. keeps (chat p d)"
  shows "keeps (failover_loop g chat fo m payload names attempts k err)"
  by (induction names arbitrary: attempts k err)
     (auto simp: attempt_call_def intro!: keeps_rules assms split: sum.splits)

lemma keeps_failover_chat:
  assumes "\<And>p. keeps (gt_allow g p)" "\<And>p. keeps (gt_success g p)" "\<And>p. keeps (gt_failure g p)"
    "\<And>p d. keeps (chat p d)"
  shows "keeps (failover_chat g chat fo payload)"
  by (auto simp: failover_chat_def intro!: keeps_rules keeps_failover_loop assms split: pyval.splits)

end

end
