(* ===== verification/Gateway.thy ===== *)
theory Gateway
  imports Failover
begin

text \<open>
  The state of the inference gateway and the composition of its parts: the HTTP world of the
  providers, the reliability manager all requests share, the limiter, and the failover of one
  request.  While a request waits for a provider, other requests use the manager: \<open>ge_others\<close> gives
  the operations they perform at each such point.
\<close>

section \<open>State and environment\<close>

record gateway_env = http_env +
  ge_others :: "nat \<Rightarrow> rel_op list"

text \<open>The metrics of the service, as the increments and observations made on them.\<close>

datatype service_metric =
    IM_requests string string string
  | IM_duration string string time
  | HM_requests string string string
  | HM_errors string string string
  | HM_duration string string time

text \<open>The gauges of requests in progress are kept per model, and per method and route.\<close>

record gateway = http_world +
  gw_rel :: reliability
  gw_limiter :: limiter
  gw_in_progress :: "string \<Rightarrow> int"
  gw_http_in_progress :: "string \<times> string \<Rightarrow> int"
  gw_metrics :: "service_metric list"

type_synonym 'a gateway_act = "(gateway, 'a) act"

text \<open>Providers are registered at start-up only.\<close>

fun during_request :: "rel_op \<Rightarrow> bool" where
  "during_request (Rel_register p) = False"
| "during_request _ = True"

definition others_run :: "gateway_env \<Rightarrow> unit gateway_act" where
  "others_run e = bnd (read_env (ge_others e)) (\<lambda>ops.
     modify (\<lambda>w. w\<lparr>gw_rel := rel_applies (filter during_request ops) (gw_rel w)\<rparr>))"

text \<open>The three calls on the manager, at the time the clock shows.\<close>

definition on_manager :: "(reliability, 'a) act \<Rightarrow> 'a gateway_act" where
  "on_manager f w = (case f (gw_rel w) of (r, m) \<Rightarrow> (r, w\<lparr>gw_rel := m\<rparr>))"

definition gw_gate :: "gateway_env \<Rightarrow> gateway gate" where
  "gw_gate e = \<lparr>
     gt_allow = (\<lambda>p. bnd (read_env (he_now e)) (\<lambda>now. on_manager (allow_request p now))),
     gt_success = (\<lambda>p. bnd (read_env (he_now e)) (\<lambda>now. on_manager (record_success p now))),
     gt_failure = (\<lambda>p. bnd (read_env (he_now e)) (\<lambda>now. on_manager (record_failure p now)))\<rparr>"

definition gw_chat :: "gateway_env \<Rightarrow> provider \<Rightarrow> pydict \<Rightarrow> pydict gateway_act" where
  "gw_chat e p payload = seq (others_run e) (provider_chat (http_env.truncate e) p payload)"

definition gw_failover :: "gateway_env \<Rightarrow> failover \<Rightarrow> pydict \<Rightarrow> failover_result gateway_act" where
  "gw_failover e fo payload = failover_chat (gw_gate e) (gw_chat e) fo payload"

section \<open>What a call of a provider may change\<close>

text \<open>A relation that allows the updates of the HTTP world is kept by a whole chat completion.\<close>

locale http_kept = kept R for R :: "gateway \<Rightarrow> gateway \<Rightarrow> bool" +
  assumes R_http: "R w (w\<lparr>hw_tick := n\<rparr>)" "R w (w\<lparr>hw_metrics := ms\<rparr>)" "R w (w\<lparr>hw_sleeps := ds\<rparr>)"
    and R_post: "R w (w\<lparr>hw_posts := hw_posts w @ [rq]\<rparr>)"
begin

lemma keeps_metric: "keeps (metric m)"
  unfolding metric_def by (rule keeps_modify) (rule R_http)

lemma keeps_read_env: "keeps (read_env f)"
  by (simp add: keeps_def read_env_def R_http)

lemma keeps_post: "keeps (http_post e rq)"
  by (auto simp: keeps_def http_post_def R_post Let_def split: http_outcome.splits)

lemma keeps_sleep: "keeps (http_sleep e d)"
  unfolding http_sleep_def by (intro keeps_rules keeps_modify keeps_read_env) (rule R_http)

lemmas keeps_http = keeps_metric keeps_read_env keeps_post keeps_sleep

lemma keeps_attempt: "keeps (post_attempt e b d m n)"
  by (auto simp: post_attempt_def try_post_def on_retryable_def read_data_def post_handlers_def observe_duration_def
      backoff_def on_request_error_def on_other_error_def intro!: keeps_rules keeps_http
      split: option.splits pyval.splits)

lemma keeps_attempts: "keeps (post_attempts e b d m ns)"
  by (induction ns) (auto intro!: keeps_rules keeps_attempt split: option.splits)

lemma keeps_provider_chat: "keeps (provider_chat e p d)"
  by (auto simp: provider_chat_def backend_chat_def intro!: keeps_rules keeps_attempts split: pyval.splits)

end

text \<open>The backend changes the HTTP world only, and the requests sent become more.\<close>

definition same_gateway :: "gateway \<Rightarrow> gateway \<Rightarrow> bool" where
  "same_gateway w w' \<longleftrightarrow> http_world.more w' = http_world.more w"

interpretation http_only: http_kept same_gateway
  by unfold_locales (simp_all add: same_gateway_def)

lemma same_gateway_fields:
  "same_gateway w w' \<Longrightarrow> gw_rel w' = gw_rel w \<and> gw_limiter w' = gw_limiter w
     \<and> gw_in_progress w' = gw_in_progress w \<and> gw_http_in_progress w' = gw_http_in_progress w
     \<and> gw_metrics w' = gw_metrics w"
  by (cases w; cases w') (simp add: same_gateway_def)

definition posts_grow :: "gateway \<Rightarrow> gateway \<Rightarrow> bool" where
  "posts_grow w w' \<longleftrightarrow> length (hw_posts w) \<le> length (hw_posts w')"

interpretation posted: http_kept posts_grow
  by unfold_locales (simp_all add: posts_grow_def)

section \<open>The manager is a gate\<close>

definition gw_inv :: "gateway \<Rightarrow> bool" where
  "gw_inv w \<longleftrightarrow> rel_inv (gw_rel w)"

definition gw_known :: "gateway \<Rightarrow> string \<Rightarrow> bool" where
  "gw_known w p \<longleftrightarrow> p \<in> fst ` set (rm_states (gw_rel w))"

lemma known_get_state: "gw_known w p \<longleftrightarrow> (\<exists>st. get_state p (gw_rel w) = Inr st)"
  unfolding gw_known_def get_state_Inr by (metis map_of_eq_None_iff not_None_eq)

text \<open>No operation of a request changes which providers are registered.\<close>

lemma keys_set_known: "map_of d p = Some v' \<Longrightarrow> fst ` set (dset p v d) = fst ` set d"
  by (force simp: set_keys_dset dest: map_of_SomeD)

lemma rel_apply_keys:
  "during_request op \<Longrightarrow> fst ` set (rm_states (rel_apply op m)) = fst ` set (rm_states m)"
  by (cases op) (auto simp: allow_request_def record_success_def record_failure_def take_probe_def
      update_metrics_def set_state_def drop_probe_def get_state_Inr keys_set_known
      split: sum.splits circuit_state.splits)

lemma rel_applies_keys:
  "list_all during_request ops \<Longrightarrow> fst ` set (rm_states (rel_applies ops m)) = fst ` set (rm_states m)"
  by (induction ops arbitrary: m) (simp_all add: rel_apply_keys)

lemma wp_on_manager [wp]:
  "wp (on_manager f) Q E w = wp f (\<lambda>a m. Q a (w\<lparr>gw_rel := m\<rparr>)) (\<lambda>x m. E x (w\<lparr>gw_rel := m\<rparr>)) (gw_rel w)"
  by (auto simp: wp_def on_manager_def split: prod.splits sum.splits)

text \<open>
  What the three calls do: the manager's own operation at the time the clock shows, and nothing else.
\<close>

definition manager_did :: "gateway_env \<Rightarrow> (time \<Rightarrow> (reliability, 'a) act) \<Rightarrow> 'a \<Rightarrow> gateway \<Rightarrow> gateway \<Rightarrow> bool" where
  "manager_did e f a w t \<longleftrightarrow> f (he_now e (hw_tick w)) (gw_rel w) = (Inr a, gw_rel t)
     \<and> t = w\<lparr>hw_tick := hw_tick w + 1, gw_rel := gw_rel t\<rparr>"

definition gw_allowed :: "gateway_env \<Rightarrow> string \<Rightarrow> bool \<Rightarrow> gateway \<Rightarrow> gateway \<Rightarrow> bool" where
  "gw_allowed e p = manager_did e (allow_request p)"

definition gw_success_recorded :: "gateway_env \<Rightarrow> string \<Rightarrow> gateway \<Rightarrow> gateway \<Rightarrow> bool" where
  "gw_success_recorded e p = manager_did e (record_success p) ()"

definition gw_failure_recorded :: "gateway_env \<Rightarrow> string \<Rightarrow> gateway \<Rightarrow> gateway \<Rightarrow> bool" where
  "gw_failure_recorded e p = manager_did e (record_failure p) ()"

lemma manager_did_posts:
  assumes "manager_did e f a w t"
  shows "hw_posts t = hw_posts w"
proof -
  obtain m where "t = w\<lparr>hw_tick := hw_tick w + 1, gw_rel := m\<rparr>"
    using assms unfolding manager_did_def by blast
  then show ?thesis by simp
qed

lemma manager_step:
  assumes "gw_inv w" "gw_known w p" "during_request (op (he_now e (hw_tick w)))"
    "\<And>st. get_state p (gw_rel w) = Inr st \<Longrightarrow>
       \<exists>a. f (he_now e (hw_tick w)) (gw_rel w) = (Inr a, rel_apply (op (he_now e (hw_tick w))) (gw_rel w))"
  shows "wp (bnd (read_env (he_now e)) (\<lambda>now. on_manager (f now)))
     (\<lambda>a t. gw_inv t \<and> gw_known t = gw_known w \<and> manager_did e f a w t) (\<lambda>_ _. False) w"
proof -
  let ?op = "op (he_now e (hw_tick w))"
  obtain st where "get_state p (gw_rel w) = Inr st"
    using assms(2) known_get_state by blast
  then obtain a where "f (he_now e (hw_tick w)) (gw_rel w) = (Inr a, rel_apply ?op (gw_rel w))"
    using assms(4) by blast
  moreover have "rel_inv (rel_apply ?op (gw_rel w))"
    using assms(1) rel_apply_inv by (simp add: gw_inv_def)
  ultimately show ?thesis
    using rel_apply_keys [OF assms(3), of "gw_rel w"]
    by (simp add: wp_bnd wp_read_env wp_on_manager wp_def [of "f _"] gw_inv_def gw_known_def [abs_def] manager_did_def)
qed

lemma others_run_keeps:
  assumes "gw_inv w"
  shows "wp (others_run e) (\<lambda>_ t. gw_inv t \<and> gw_known t = gw_known w) (\<lambda>_ _. False) w"
proof -
  let ?ops = "filter during_request (ge_others e (hw_tick w))"
  have "list_all during_request ?ops" by (simp add: list_all_iff)
  then show ?thesis
    using assms rel_applies_inv rel_applies_keys [of ?ops "gw_rel w"]
    by (simp add: others_run_def wp gw_inv_def gw_known_def [abs_def])
qed

interpretation gw: provider_calls "gw_gate e" gw_inv gw_known "gw_allowed e" "gw_success_recorded e"
  "gw_failure_recorded e" "gw_chat e" for e
proof
  fix s p
  assume a: "gw_inv s" "gw_known s p"
  show "wp (gt_allow (gw_gate e) p) (\<lambda>b t. gw_inv t \<and> gw_known t = gw_known s \<and> gw_allowed e p b s t)
      (\<lambda>_ _. False) s"
    unfolding gw_gate_def gate.simps gw_allowed_def
    by (rule manager_step [OF a, of "Rel_allow p"])
       (use allow_cases [of "gw_rel s" p] a(1) in \<open>auto simp: gw_inv_def split: circuit_state.splits if_splits\<close>)
  show "wp (gt_success (gw_gate e) p) (\<lambda>_ t. gw_inv t \<and> gw_known t = gw_known s \<and> gw_success_recorded e p s t)
      (\<lambda>_ _. False) s"
    unfolding gw_gate_def gate.simps gw_success_recorded_def
    by (rule wp_mono [OF manager_step [OF a, of "Rel_success p"]]) (auto simp: record_success_def)
  show "wp (gt_failure (gw_gate e) p) (\<lambda>_ t. gw_inv t \<and> gw_known t = gw_known s \<and> gw_failure_recorded e p s t)
      (\<lambda>_ _. False) s"
    unfolding gw_gate_def gate.simps gw_failure_recorded_def
    by (rule wp_mono [OF manager_step [OF a, of "Rel_failure p"]]) (auto simp: record_failure_def)
next
  fix s p d
  assume a: "gw_inv s"
  show "wp (gw_chat e p d) (\<lambda>_ t. gw_inv t \<and> gw_known t = gw_known s)
      (\<lambda>_ t. gw_inv t \<and> gw_known t = gw_known s) s"
    unfolding gw_chat_def wp_seq
  proof (rule wp_mono [OF others_run_keeps [OF a]])
    fix u t assume t: "gw_inv t \<and> gw_known t = gw_known s"
    show "wp (provider_chat (http_env.truncate e) p d)
        (\<lambda>_ t. gw_inv t \<and> gw_known t = gw_known s) (\<lambda>_ t. gw_inv t \<and> gw_known t = gw_known s) t"
      by (rule http_only.wp_after [OF http_only.keeps_provider_chat])
         (use t in \<open>auto dest!: same_gateway_fields simp: gw_inv_def gw_known_def [abs_def]\<close>)
  qed simp
qed

text \<open>Failover does not touch the admission counters, and takes back no request.\<close>

definition same_admission :: "gateway \<Rightarrow> gateway \<Rightarrow> bool" where
  "same_admission w w' \<longleftrightarrow> gw_limiter w' = gw_limiter w \<and> gw_in_progress w' = gw_in_progress w
     \<and> gw_http_in_progress w' = gw_http_in_progress w"

text \<open>A relation that also allows the updates of the manager is kept by the failover of a request.\<close>

locale failover_kept = http_kept +
  assumes R_rel: "R w (w\<lparr>gw_rel := m\<rparr>)"
begin

lemma keeps_on_manager: "keeps (on_manager f)"
  by (simp add: keeps_def on_manager_def R_rel split: prod.splits)

lemma keeps_gw_chat: "keeps (gw_chat e p d)"
  unfolding gw_chat_def others_run_def
  by (intro keeps_rules keeps_modify keeps_read_env keeps_provider_chat R_rel)

lemma keeps_gw_failover: "keeps (gw_failover e fo payload)"
  unfolding gw_failover_def
  by (rule keeps_failover_chat)
     (auto simp: gw_gate_def intro!: keeps_rules keeps_read_env keeps_on_manager keeps_gw_chat)

end

interpretation admission: failover_kept same_admission
  by unfold_locales (simp_all add: same_admission_def)

interpretation posted: failover_kept posts_grow
  by unfold_locales (simp add: posts_grow_def)

section \<open>Where a response comes from\<close>

text \<open>The \<open>i\<close>-th request to a provider was answered with the object \<open>d\<close>, for some \<open>i\<close> between \<open>k\<close> and \<open>l\<close>.\<close>

definition replied_between :: "gateway_env \<Rightarrow> nat \<Rightarrow> nat \<Rightarrow> pydict \<Rightarrow> bool" where
  "replied_between e k l d \<longleftrightarrow> (\<exists>i. k \<le> i \<and> i < l \<and> outcome_result (he_post e i) = Inr d)"

lemma truncate_post [simp]: "he_post (http_env.truncate e) = he_post e"
  by (simp add: http_env.defs)

lemma gw_chat_replied:
  assumes "gw_chat e p payload w = (Inr d, t)"
  shows "replied_between e (length (hw_posts w)) (length (hw_posts t)) d"
proof -
  obtain v where u: "others_run e w = (Inr (), v)" "hw_posts v = hw_posts w"
    by (simp add: others_run_def bnd_def read_env_def modify_def)
  have chat: "backend_chat (http_env.truncate e) (pr_backend p) (PDict payload) v = (Inr d, t)"
    using assms by (simp add: gw_chat_def seq_def bnd_def provider_chat_def throw_def u(1) split: pyval.splits if_splits)
  show ?thesis
  proof (cases "0 \<le> be_max_retries (pr_backend p)")
    case True
    from backend_chat_result [OF this, of "http_env.truncate e" payload v] chat obtain j where
      "hw_posts t = hw_posts v @ replicate (Suc j) (chat_request (pr_backend p) payload)"
      "outcome_result (he_post e (length (hw_posts v) + j)) = Inr d"
      by (auto simp: chat_ran_def Let_def)
    then show ?thesis unfolding replied_between_def u(2) by (intro exI [of _ "length (hw_posts w) + j"]) simp
  next
    case False
    then have "nat (be_max_retries (pr_backend p) + 1) = 0" by simp
    with chat show ?thesis by (simp add: backend_chat_def throw_def)
  qed
qed

lemma failed_attempts_posts:
  "failed_attempts (gw_allowed e) (gw_failure_recorded e) (gw_chat e) fo payload as k w t \<Longrightarrow> posts_grow w t"
proof (induction rule: failed_attempts.induct)
  case (refused_attempt n s u as k t)
  then have "hw_posts u = hw_posts s" by (simp add: gw_allowed_def manager_did_posts)
  with refused_attempt show ?case by (simp add: posts_grow_def)
next
  case (failed_attempt n s s1 p x s2 u as k t)
  have "hw_posts s1 = hw_posts s" "hw_posts u = hw_posts s2"
    using failed_attempt.hyps(1,5) by (simp_all add: gw_allowed_def gw_failure_recorded_def manager_did_posts)
  moreover have "posts_grow s1 s2"
    using posted.keepsD [OF posted.keeps_gw_chat, of s1 e p payload] failed_attempt.hyps(3) by simp
  ultimately show ?case using failed_attempt.IH by (simp add: posts_grow_def)
qed (simp add: posts_grow_def)

lemma failover_served_replied:
  assumes "failover_served (gw_allowed e) (gw_success_recorded e) (gw_failure_recorded e) (gw_chat e) fo payload
     names budget before r w t"
  shows "replied_between e (length (hw_posts w)) (length (hw_posts t)) (fr_response r)"
proof -
  obtain as k u u1 u2 p where *: "failed_attempts (gw_allowed e) (gw_failure_recorded e) (gw_chat e) fo payload as k w u"
    "gw_allowed e (fr_provider r) True u u1" "gw_chat e p payload u1 = (Inr (fr_response r), u2)"
    "gw_success_recorded e (fr_provider r) u2 t"
    using assms unfolding failover_served_def by blast
  have "hw_posts u1 = hw_posts u" "hw_posts t = hw_posts u2"
    using *(2,4) by (simp_all add: gw_allowed_def gw_success_recorded_def manager_did_posts)
  with gw_chat_replied [OF *(3)] failed_attempts_posts [OF *(1)] show ?thesis
    unfolding replied_between_def posts_grow_def by (metis le_trans)
qed

end
