(* ===== verification/PyText.thy ===== *)
theory PyText
  imports PyValue
begin

text \<open>
  The string methods the configuration code parses with: \<open>split\<close>, \<open>partition\<close>, \<open>rsplit\<close> with one
  split, and \<open>int\<close> of a string, with the laws that relate splitting and joining.
\<close>

section \<open>Splitting\<close>

text \<open>\<open>s.split(c)\<close> for a separator of one character.\<close>

fun py_split :: "char \<Rightarrow> string \<Rightarrow> string list" where
  "py_split c [] = [[]]"
| "py_split c (x # s) = (if x = c then [] # py_split c s
     else (case py_split c s of [] \<Rightarrow> [[x]] | p # ps \<Rightarrow> (x # p) # ps))"

text \<open>\<open>s.partition(c)\<close>: the parts around the first separator, if there is one.\<close>

fun py_partition :: "char \<Rightarrow> string \<Rightarrow> string \<times> bool \<times> string" where
  "py_partition c [] = ([], False, [])"
| "py_partition c (x # s) = (if x = c then ([], True, s)
     else (case py_partition c s of (a, b, r) \<Rightarrow> (x # a, b, r)))"

text \<open>\<open>s.rsplit(c, 1)\<close>: \<open>None\<close> when there is no separator.\<close>

definition py_rsplit1 :: "char \<Rightarrow> string \<Rightarrow> (string \<times> string) option" where
  "py_rsplit1 c s = (case py_partition c (rev s) of (a, b, r) \<Rightarrow>
     if b then Some (rev r, rev a) else None)"

lemma py_split_nonempty [simp]: "py_split c s \<noteq> []"
  by (cases s) (auto split: list.splits)

lemma intersperse_Cons: "intersperse_str [c] (p # ps) = p @ (if ps = [] then [] else c # intersperse_str [c] ps)"
  by (cases ps) auto

lemma py_split_join: "intersperse_str [c] (py_split c s) = s"
  by (induction c s rule: py_split.induct) (auto simp: intersperse_Cons split: list.splits)

lemma py_split_parts: "p \<in> set (py_split c s) \<Longrightarrow> c \<notin> set p"
  by (induction c s arbitrary: p rule: py_split.induct) (auto split: list.splits if_splits)

lemma py_split_part: "c \<notin> set p \<Longrightarrow> py_split c p = [p]"
  by (induction p) auto

lemma py_split_cons: "c \<notin> set p \<Longrightarrow> py_split c (p @ c # s) = p # py_split c s"
  by (induction p) auto

text \<open>Splitting undoes joining of parts without the separator.\<close>

lemma py_join_split:
  "ps \<noteq> [] \<Longrightarrow> list_all (\<lambda>p. c \<notin> set p) ps \<Longrightarrow> py_split c (intersperse_str [c] ps) = ps"
  by (induction ps) (auto simp: intersperse_Cons py_split_part py_split_cons)

lemma py_partition_found: "c \<notin> set a \<Longrightarrow> py_partition c (a @ c # r) = (a, True, r)"
  by (induction a) auto

lemma py_partition_absent: "c \<notin> set s \<Longrightarrow> py_partition c s = (s, False, [])"
  by (induction s) auto

lemma py_partition_some:
  "py_partition c s = (a, True, r) \<longleftrightarrow> s = a @ c # r \<and> c \<notin> set a"
proof (cases "c \<in> set s")
  case True
  then obtain a' r' where "s = a' @ c # r'" "c \<notin> set a'"
    using split_list_first by metis
  then show ?thesis
    using py_partition_found by (metis Pair_inject)
qed (use py_partition_absent [of c s] in auto)

lemma py_partition_none: "py_partition c s = (a, False, r) \<longleftrightarrow> c \<notin> set s \<and> a = s \<and> r = []"
proof (cases "c \<in> set s")
  case True
  then obtain a' r' where "s = a' @ c # r'" "c \<notin> set a'"
    using split_list_first by metis
  then show ?thesis
    using py_partition_found by auto
qed (use py_partition_absent [of c s] in auto)

lemma py_rsplit1_some: "py_rsplit1 c s = Some (a, b) \<longleftrightarrow> s = a @ c # b \<and> c \<notin> set b"
proof -
  have "py_rsplit1 c s = Some (a, b) \<longleftrightarrow> py_partition c (rev s) = (rev b, True, rev a)"
    by (auto simp: py_rsplit1_def split: prod.splits)
  also have "\<dots> \<longleftrightarrow> rev s = rev b @ c # rev a \<and> c \<notin> set b"
    by (simp add: py_partition_some)
  also have "\<dots> \<longleftrightarrow> s = a @ c # b \<and> c \<notin> set b"
    by (metis append.assoc append_Cons append_Nil rev.simps(2) rev_append rev_rev_ident)
  finally show ?thesis .
qed

section \<open>Integers from text\<close>

definition digit_val :: "char \<Rightarrow> nat option" where
  "digit_val c = (let n = code_point c in if 48 \<le> n \<and> n \<le> 57 then Some (n - 48) else None)"

fun digits_val :: "nat \<Rightarrow> string \<Rightarrow> nat option" where
  "digits_val acc [] = Some acc"
| "digits_val acc (c # s) = (case digit_val c of None \<Rightarrow> None | Some d \<Rightarrow> digits_val (acc * 10 + d) s)"

text \<open>\<open>int(s)\<close> for decimal text: white space around it, a sign, at least one digit.\<close>

definition py_int :: "string \<Rightarrow> int option" where
  "py_int s = (case py_strip s of
      [] \<Rightarrow> None
    | c # ds \<Rightarrow>
       (if c = CHR ''-'' \<or> c = CHR ''+'' then
          (if ds = [] then None else map_option (\<lambda>n. if c = CHR ''-'' then - int n else int n) (digits_val 0 ds))
        else map_option int (digits_val 0 (c # ds))))"

lemma digit_val_char [simp]: "d < 10 \<Longrightarrow> digit_val (digit_char d) = Some d"
  by (simp add: digit_val_def digit_char_def code_point_def)

lemma digits_val_append:
  "digits_val acc (s @ t) = (case digits_val acc s of None \<Rightarrow> None | Some v \<Rightarrow> digits_val v t)"
  by (induction s arbitrary: acc) (auto split: option.splits)

lemma digits_val_nat_str: "digits_val 0 (nat_str n) = Some n"
proof (induction n rule: nat_str.induct)
  case (1 n)
  then show ?case
    by (subst nat_str.simps) (auto simp: digits_val_append)
qed

lemma nat_str_chars: "c \<in> set (nat_str n) \<Longrightarrow> \<exists>d < 10. c = digit_char d"
proof (induction n rule: nat_str.induct)
  case (1 n)
  then show ?case
    by (subst (asm) (2) nat_str.simps)
       (auto split: if_splits intro: exI [of _ "n mod 10"] simp: mod_less_divisor)
qed

lemma digit_char_code: "d < 10 \<Longrightarrow> code_point (digit_char d) = 48 + d"
  by (simp add: digit_char_def code_point_def)

lemma digit_not_space: "d < 10 \<Longrightarrow> \<not> py_space (digit_char d)"
  by (simp add: py_space_def digit_char_code Let_def)

lemma py_strip_no_space: "\<forall>c \<in> set s. \<not> py_space c \<Longrightarrow> py_strip s = s"
proof (cases "s = []")
  case False
  assume a: "\<forall>c \<in> set s. \<not> py_space c"
  then have "\<not> py_space (hd s)" "\<not> py_space (hd (rev s))"
    using False hd_in_set last_in_set by (auto simp: hd_rev)
  then have "dropWhile py_space s = s" "dropWhile py_space (rev s) = rev s"
    using False by (simp_all add: dropWhile_eq_self_iff)
  then show ?thesis by (simp add: py_strip_def py_lstrip_def py_rstrip_def)
qed simp

text \<open>Reading back the text of an integer.\<close>

lemma py_int_int_str: "py_int (int_str i) = Some i"
proof -
  have sp: "\<forall>c \<in> set (nat_str n). \<not> py_space c" for n
    using nat_str_chars digit_not_space by blast
  have minus: "\<not> py_space CHR ''-''" by (simp add: py_space_def code_point_def)
  have strip: "py_strip (int_str i) = int_str i"
    by (rule py_strip_no_space) (use sp minus in \<open>auto simp: int_str_def\<close>)
  have sign: "c \<noteq> CHR ''-'' \<and> c \<noteq> CHR ''+''" if mem: "c \<in> set (nat_str n)" for c n
  proof -
    obtain d where "c = digit_char d" "d < 10" using nat_str_chars [OF mem] by blast
    then have "(of_char c :: nat) = 48 + d" using digit_char_code [of d] by (simp add: code_point_def)
    then show ?thesis by auto
  qed
  show ?thesis
  proof (cases "i < 0")
    case True
    then show ?thesis
      using strip by (simp add: py_int_def int_str_def digits_val_nat_str)
  next
    case False
    obtain c ds where cs: "nat_str (nat i) = c # ds" by (cases "nat_str (nat i)") auto
    then have "c \<noteq> CHR ''-''" "c \<noteq> CHR ''+''" using sign [of c "nat i"] by auto
    with False strip cs digits_val_nat_str [of "nat i"] show ?thesis
      by (simp add: py_int_def int_str_def)
  qed
qed

end
