(* ===== verification/InferenceConfig.thy ===== *)
theory InferenceConfig
  imports PyText
begin

text \<open>
  The settings of the inference gateway (\<^verbatim>\<open>inference/app/config.py\<close>): expansion of environment
  variables in API keys, the views of the settings, the validation of the configuration, and the
  parser of the tenants' models.  The text \<open>str(base_url)\<close> of a parsed URL is part of the provider's
  configuration.
\<close>

section \<open>Environment variables in API keys\<close>

text \<open>One match of the pattern \<open>${NAME}\<close> at the front, with the text after it.\<close>

definition ident_start :: "char \<Rightarrow> bool" where
  "ident_start c = (let n = code_point c in
     (65 \<le> n \<and> n \<le> 90) \<or> (97 \<le> n \<and> n \<le> 122) \<or> n = 95)"

definition ident_char :: "char \<Rightarrow> bool" where
  "ident_char c = (ident_start c \<or> (48 \<le> code_point c \<and> code_point c \<le> 57))"

definition match_var :: "string \<Rightarrow> (string \<times> string) option" where
  "match_var s = (case s of
      a # b # r \<Rightarrow> (let v = takeWhile ident_char r; rest = dropWhile ident_char r in
        if a = CHR ''$'' \<and> b = CHR ''{'' \<and> v \<noteq> [] \<and> ident_start (hd v) \<and> rest \<noteq> [] \<and> hd rest = CHR ''}''
        then Some (v, tl rest) else None)
    | _ \<Rightarrow> None)"

lemma match_var_shorter: "match_var s = Some (v, rest) \<Longrightarrow> length rest < length s"
proof (cases s)
  case (Cons a s')
  assume m: "match_var s = Some (v, rest)"
  with Cons obtain b r where "s' = b # r" by (cases s') (auto simp: match_var_def)
  with m Cons have "rest = tl (dropWhile ident_char r)" "dropWhile ident_char r \<noteq> []" "s = a # b # r"
    by (auto simp: match_var_def Let_def split: if_splits)
  moreover have "length (dropWhile ident_char r) \<le> length r" by (rule length_dropWhile_le)
  ultimately show ?thesis by simp
qed (simp add: match_var_def)

text \<open>\<open>pattern.sub(replace, value)\<close>: replacements are not scanned again.\<close>

function expand :: "(string \<Rightarrow> string option) \<Rightarrow> string \<Rightarrow> string result" where
  "expand env [] = Inr []"
| "expand env (c # s) = (case match_var (c # s) of
      Some (v, rest) \<Rightarrow> (case env v of
          Some (x # xs) \<Rightarrow> rbind (expand env rest) (\<lambda>t. Inr ((x # xs) @ t))
        | _ \<Rightarrow> raise ValueError (''Environment variable '' @ quoted v
                 @ '' is missing or empty''))
    | None \<Rightarrow> rbind (expand env s) (\<lambda>t. Inr (c # t)))"
  by pat_completeness auto

termination
  by (relation "measure (length \<circ> snd)") (auto dest!: match_var_shorter)

text \<open>The variables a value refers to.\<close>

function template_vars :: "string \<Rightarrow> string list" where
  "template_vars [] = []"
| "template_vars (c # s) = (case match_var (c # s) of
      Some (v, rest) \<Rightarrow> v # template_vars rest
    | None \<Rightarrow> template_vars s)"
  by pat_completeness auto

termination
  by (relation "measure length") (auto dest!: match_var_shorter)

definition is_set :: "(string \<Rightarrow> string option) \<Rightarrow> string \<Rightarrow> bool" where
  "is_set env v \<longleftrightarrow> (case env v of Some x \<Rightarrow> x \<noteq> [] | None \<Rightarrow> False)"

lemma expand_succeeds: "(\<exists>t. expand env s = Inr t) \<longleftrightarrow> list_all (is_set env) (template_vars s)"
proof (induction env s rule: expand.induct)
  case (2 env c s)
  show ?case
  proof (cases "match_var (c # s)")
    case None
    with 2 show ?thesis by simp
  next
    case (Some m)
    obtain v rest where m: "m = (v, rest)" by fastforce
    show ?thesis
    proof (cases "env v")
      case (Some x)
      show ?thesis
      proof (cases x)
        case (Cons y ys)
        have "(\<exists>t. expand env rest = Inr t) \<longleftrightarrow> list_all (is_set env) (template_vars rest)"
          using "2.IH"(2) \<open>match_var (c # s) = Some m\<close> m Some Cons by blast
        moreover have "is_set env v" using Some Cons by (simp add: is_set_def)
        ultimately show ?thesis using \<open>match_var (c # s) = Some m\<close> m Some Cons by simp
      qed (use \<open>match_var (c # s) = Some m\<close> m Some in \<open>simp add: is_set_def\<close>)
    qed (use \<open>match_var (c # s) = Some m\<close> m in \<open>simp add: is_set_def\<close>)
  qed
qed simp

lemma expand_plain: "CHR ''$'' \<notin> set s \<Longrightarrow> expand env s = Inr s"
proof (induction s)
  case (Cons c s)
  then have "match_var (c # s) = None" by (auto simp: match_var_def split: list.splits)
  with Cons show ?case by simp
qed simp

lemma expand_no_vars: "template_vars s = [] \<Longrightarrow> expand env s = Inr s"
  by (induction env s rule: expand.induct) (auto split: option.splits)

section \<open>Settings\<close>

record provider_config =
  pc_name :: string
  pc_enabled :: bool
  pc_type :: string
  pc_base_url :: string
  pc_api_key :: string

text \<open>The validator of \<open>api_key\<close>: disabled providers need no credentials.\<close>

definition expand_api_key :: "(string \<Rightarrow> string option) \<Rightarrow> bool \<Rightarrow> string \<Rightarrow> string result" where
  "expand_api_key env enabled value = (if \<not> enabled then Inr [] else expand env value)"

definition normalized_base_url :: "provider_config \<Rightarrow> string" where
  "normalized_base_url p = rstrip_slash (pc_base_url p)"

record settings =
  se_default_model :: string
  se_providers :: "provider_config list"
  se_models :: "(string \<times> string) list"
  se_failover :: "(string \<times> string list) list"
  se_max_retries :: int
  se_request_timeout :: time
  se_max_connections :: int
  se_max_keepalive :: int
  se_max_concurrency :: int
  se_max_failover_attempts :: int
  se_service_api_key :: string
  se_tenant_model_access :: string
  se_max_request_body_bytes :: int
  se_max_messages :: int
  se_max_message_content_chars :: int
  se_max_total_content_chars :: int

record backend_config =
  bc_type :: string
  bc_base_url :: string
  bc_api_key :: string

text \<open>The dictionary of the enabled providers: a repeated name keeps its place and takes the last value.\<close>

definition provider_backend_configs :: "settings \<Rightarrow> (string \<times> backend_config) list" where
  "provider_backend_configs s = foldl (\<lambda>d p. dset (pc_name p)
      \<lparr>bc_type = pc_type p, bc_base_url = normalized_base_url p, bc_api_key = pc_api_key p\<rparr> d)
     [] (filter pc_enabled (se_providers s))"

definition enabled_providers :: "settings \<Rightarrow> string list" where
  "enabled_providers s = map fst (provider_backend_configs s)"

definition enabled_models :: "settings \<Rightarrow> (string \<times> string) list" where
  "enabled_models s = filter (\<lambda>(m, p). p \<in> set (enabled_providers s)) (se_models s)"

text \<open>The loops of the validation.\<close>

fun check_model_providers :: "string list \<Rightarrow> (string \<times> string) list \<Rightarrow> unit result" where
  "check_model_providers ps [] = Inr ()"
| "check_model_providers ps ((m, p) # ms) =
     (if p \<notin> set ps then
        raise ValueError (''Model '' @ quoted m @ '' references unknown provider '' @ quoted p)
      else check_model_providers ps ms)"

fun check_failover_routes ::
  "string list \<Rightarrow> string list \<Rightarrow> (string \<times> string list) list \<Rightarrow> unit result" where
  "check_failover_routes ps ms [] = Inr ()"
| "check_failover_routes ps ms ((m, route) # rs) =
     (if m \<notin> set ms then raise ValueError (''Failover route references unknown model '' @ quoted m)
      else if route = [] then raise ValueError (''Failover route for '' @ quoted m @ '' has no providers'')
      else let unknown = sort (remdups (filter (\<lambda>p. p \<notin> set ps) route)) in
        if unknown \<noteq> [] then
          raise ValueError (''Failover route for '' @ quoted m @ '' references unknown providers: ''
            @ py_repr (PList (map PStr unknown)))
        else check_failover_routes ps ms rs)"

definition check_runtime :: "settings \<Rightarrow> unit result" where
  "check_runtime s =
     (if se_request_timeout s \<le> 0 then raise ValueError ''request_timeout_seconds must be positive''
      else if se_max_retries s < 0 then raise ValueError ''max_retries cannot be negative''
      else if se_max_connections s \<le> 0 then raise ValueError ''max_connections must be positive''
      else if se_max_keepalive s \<le> 0 then
        raise ValueError ''max_keepalive_connections must be positive''
      else if se_max_connections s < se_max_keepalive s then
        raise ValueError ''max_keepalive_connections cannot exceed max_connections''
      else Inr ())"

definition validate_configuration :: "settings \<Rightarrow> unit result" where
  "validate_configuration s = (let ps = enabled_providers s; ms = map fst (enabled_models s) in
     if ps = [] then raise ValueError ''At least one inference provider is required''
     else if \<not> distinct ps then raise ValueError ''Duplicate inference provider names''
     else if \<not> distinct ms then raise ValueError ''Duplicate model IDs''
     else rbind (check_model_providers ps (enabled_models s)) (\<lambda>_.
       if se_default_model s \<notin> set ms then
         raise ValueError (''Default model '' @ quoted (se_default_model s) @ '' is not registered'')
       else rbind (check_failover_routes ps ms (se_failover s)) (\<lambda>_. check_runtime s)))"

section \<open>The tenants' models\<close>

definition tenant_definition :: "string \<Rightarrow> (string \<times> string set) option result" where
  "tenant_definition text = (let d = py_strip text in
     if d = [] then Inr None
     else case py_partition (CHR ''='') d of (tenant, found, models) \<Rightarrow>
       if \<not> found then raise ValueError (''Invalid tenant model definition '' @ quoted d
         @ ''; expected '' @ quoted ''tenant_id=model1|model2'')
       else if py_strip tenant = [] then
         raise ValueError ''Tenant definition contains an empty tenant_id''
       else let ids = filter (\<lambda>m. m \<noteq> []) (map py_strip (py_split (CHR '','') models)) in
         if ids = [] then
           raise ValueError (''Tenant '' @ quoted (py_strip tenant) @ '' has no authorized models'')
         else Inr (Some (py_strip tenant, set ids)))"

fun tenant_definitions ::
  "string list \<Rightarrow> (string \<times> string set) list \<Rightarrow> (string \<times> string set) list result" where
  "tenant_definitions [] access = Inr access"
| "tenant_definitions (d # ds) access = rbind (tenant_definition d) (\<lambda>r. case r of
      None \<Rightarrow> tenant_definitions ds access
    | Some (t, ms) \<Rightarrow> tenant_definitions ds (dset t ms access))"

definition tenant_models :: "settings \<Rightarrow> (string \<times> string set) list result" where
  "tenant_models s = tenant_definitions (py_split (CHR '';'') (se_tenant_model_access s)) []"

section \<open>What a valid configuration is\<close>

definition config_ok :: "settings \<Rightarrow> bool" where
  "config_ok s \<longleftrightarrow> enabled_providers s \<noteq> [] \<and> distinct (map fst (enabled_models s))
     \<and> se_default_model s \<in> fst ` set (enabled_models s)
     \<and> (\<forall>(m, route) \<in> set (se_failover s). m \<in> fst ` set (enabled_models s) \<and> route \<noteq> []
          \<and> set route \<subseteq> set (enabled_providers s))
     \<and> 0 < se_request_timeout s \<and> 0 \<le> se_max_retries s \<and> 0 < se_max_keepalive s
     \<and> se_max_keepalive s \<le> se_max_connections s"

text \<open>The names of the enabled providers come from the keys of a dictionary, so they never repeat.\<close>

lemma distinct_foldl_dset:
  "distinct (map fst d) \<Longrightarrow> distinct (map fst (foldl (\<lambda>d p. dset (f p) (g p) d) d ps))"
  by (induction ps arbitrary: d) (simp_all add: distinct_dset)

lemma enabled_providers_distinct [simp]: "distinct (enabled_providers s)"
  by (simp add: enabled_providers_def provider_backend_configs_def distinct_foldl_dset)

lemma keys_foldl_dset:
  "fst ` set (foldl (\<lambda>d p. dset (f p) (g p) d) d ps) = fst ` set d \<union> f ` set ps"
  by (induction ps arbitrary: d) (auto simp: set_keys_dset)

lemma enabled_providers_set:
  "set (enabled_providers s) = pc_name ` set (filter pc_enabled (se_providers s))"
  by (simp add: enabled_providers_def provider_backend_configs_def keys_foldl_dset)

lemma check_model_providers_iff:
  "check_model_providers ps ms = Inr () \<longleftrightarrow> (\<forall>(m, p) \<in> set ms. p \<in> set ps)"
  by (induction ps ms rule: check_model_providers.induct) auto

lemma sort_remdups_Nil: "sort (remdups xs) = [] \<longleftrightarrow> xs = []"
  by (metis remdups_eq_nil_iff set_empty2 set_sort)

lemma check_failover_routes_iff:
  "check_failover_routes ps ms rs = Inr () \<longleftrightarrow>
     (\<forall>(m, route) \<in> set rs. m \<in> set ms \<and> route \<noteq> [] \<and> set route \<subseteq> set ps)"
  by (induction ps ms rs rule: check_failover_routes.induct)
     (auto simp: Let_def sort_remdups_Nil filter_empty_conv)

lemma enabled_models_provider: "(m, p) \<in> set (enabled_models s) \<Longrightarrow> p \<in> set (enabled_providers s)"
  by (simp add: enabled_models_def)

lemma validate_configuration_iff: "validate_configuration s = Inr () \<longleftrightarrow> config_ok s"
proof -
  have "check_model_providers (enabled_providers s) (enabled_models s) = Inr ()"
    by (auto simp: check_model_providers_iff dest: enabled_models_provider)
  moreover have "check_runtime s = Inr () \<longleftrightarrow> 0 < se_request_timeout s \<and> 0 \<le> se_max_retries s
      \<and> 0 < se_max_keepalive s \<and> se_max_keepalive s \<le> se_max_connections s"
    by (auto simp: check_runtime_def)
  moreover have "check_failover_routes (enabled_providers s) (map fst (enabled_models s)) (se_failover s)
      = Inr () \<longleftrightarrow> (\<forall>(m, route) \<in> set (se_failover s). m \<in> fst ` set (enabled_models s) \<and> route \<noteq> []
          \<and> set route \<subseteq> set (enabled_providers s))"
    by (simp add: check_failover_routes_iff)
  ultimately show ?thesis
    unfolding validate_configuration_def config_ok_def Let_def by (simp cong: conj_cong)
qed

text \<open>The message for repeated provider names is never given.\<close>

lemma duplicate_provider_names_unreachable:
  "validate_configuration s \<noteq> raise ValueError ''Duplicate inference provider names''"
proof -
  have "check_model_providers (enabled_providers s) (enabled_models s) = Inr ()"
    by (auto simp: check_model_providers_iff dest: enabled_models_provider)
  moreover have "check_failover_routes ps ms rs \<noteq> raise ValueError ''Duplicate inference provider names''"
    for ps ms rs
    by (induction ps ms rs rule: check_failover_routes.induct) (auto simp: Let_def)
  ultimately show ?thesis
    by (auto simp: validate_configuration_def check_runtime_def Let_def rbind_Inl_iff)
qed

text \<open>The expansion of environment variables in an API key returns for every text: it succeeds
  exactly when every variable the text refers to is set and not empty, leaves a text without references
  as it is, and is skipped for a disabled provider.\<close>

lemma expansion_returns:
  "((\<exists>t. expand_api_key env True s = Inr t) \<longleftrightarrow> list_all (is_set env) (template_vars s))
   \<and> expand_api_key env False s = Inr [] \<and> (case template_vars s of [] \<Rightarrow> expand_api_key env True s = Inr s | _ \<Rightarrow> True)"
  by (auto simp: expand_api_key_def expand_succeeds expand_no_vars split: list.split)

end
