(* ===== verification/Endpoint.thy ===== *)
theory Endpoint
  imports Gateway InferenceConfig
begin

text \<open>
  The inference service (\<^verbatim>\<open>inference/app/main.py\<close>, \<^verbatim>\<open>auth.py\<close>): start-up from the settings, the
  chat completion endpoint with its checks, admission and error answers, the other endpoints, the
  metrics middleware and the handler of unexpected exceptions.
\<close>

section \<open>Start-up\<close>

record app =
  ap_settings :: settings
  ap_models :: model_registry
  ap_failover :: failover

fun start_providers ::
  "settings \<Rightarrow> (string \<times> backend_config) list \<Rightarrow> provider_registry \<Rightarrow> reliability
     \<Rightarrow> (provider_registry \<times> reliability) result" where
  "start_providers s [] reg m = Inr (reg, m)"
| "start_providers s ((name, c) # cs) reg m =
     (if bc_type c \<noteq> ''openai-compatible'' then
        raise ValueError (''Unsupported provider type '' @ quoted (bc_type c) @ '' for provider ''
          @ quoted name)
      else rbind (new_provider name (bc_base_url c) (bc_api_key c) (se_request_timeout s)
                    (se_max_connections s) (se_max_keepalive s) (se_max_retries s)) (\<lambda>p.
        rbind (add_provider p reg) (\<lambda>reg'. case register_provider name m of
            (Inl e, m') \<Rightarrow> Inl e
          | (Inr _, m') \<Rightarrow> start_providers s cs reg' m')))"

fun start_models ::
  "provider_registry \<Rightarrow> (string \<times> string) list \<Rightarrow> model_registry \<Rightarrow> model_registry result" where
  "start_models reg [] ms = Inr ms"
| "start_models reg ((m, p) # rest) ms =
     (if p \<notin> set (provider_names reg) then
        raise ValueError (''Model '' @ quoted m @ '' references unregistered provider '' @ quoted p)
      else rbind (add_model (new_model m p) ms) (start_models reg rest))"

text \<open>The routes: each model's own provider, replaced by its failover list if it has one.\<close>

fun start_routes ::
  "(string \<times> string list) list \<Rightarrow> (string \<times> string list) list \<Rightarrow> (string \<times> string list) list result" where
  "start_routes [] routes = Inr routes"
| "start_routes ((m, ps) # rest) routes =
     (if map_of routes m = None then
        raise ValueError (''Failover route references unregistered model '' @ quoted m)
      else start_routes rest (dset m ps routes))"

definition own_routes :: "(string \<times> string) list \<Rightarrow> (string \<times> string list) list" where
  "own_routes ms = foldl (\<lambda>d mp. dset (fst mp) [snd mp] d) [] ms"

definition new_gateway :: "reliability \<Rightarrow> limiter \<Rightarrow> gateway" where
  "new_gateway m l = http_world.extend new_http_world
     \<lparr>gw_rel = m, gw_limiter = l, gw_in_progress = (\<lambda>_. 0), gw_http_in_progress = (\<lambda>_. 0), gw_metrics = []\<rparr>"

definition startup :: "settings \<Rightarrow> (app \<times> gateway) result" where
  "startup s =
     rbind (validate_configuration s) (\<lambda>_.
     rbind (new_limiter (se_max_concurrency s)) (\<lambda>l.
     rbind (new_reliability 1 3 10) (\<lambda>m0.
     rbind (start_providers s (provider_backend_configs s) [] m0) (\<lambda>(reg, m).
     rbind (start_models reg (enabled_models s) []) (\<lambda>models.
     rbind (start_routes (se_failover s) (own_routes (enabled_models s))) (\<lambda>routes.
     rbind (new_failover reg routes (se_max_failover_attempts s)) (\<lambda>fo.
     Inr (\<lparr>ap_settings = s, ap_models = models, ap_failover = fo\<rparr>, new_gateway m l))))))))"

section \<open>Answers\<close>

text \<open>\<open>api_error\<close>: a status with the code and the message of its detail.\<close>

datatype answer =
    Api_error (ans_status: int) (ans_code: string) (ans_message: string)
  | Answer (ans_headers: "(string \<times> string) list") (ans_body: pydict)

fun answer_status :: "answer \<Rightarrow> int" where
  "answer_status (Api_error st c m) = st"
| "answer_status (Answer h b) = 200"

definition require_service_auth :: "settings \<Rightarrow> string option \<Rightarrow> answer option" where
  "require_service_auth s key =
     (if se_service_api_key s = [] then
        Some (Api_error 503 ''SERVICE_AUTH_NOT_CONFIGURED''
          ''Inference service authentication is not configured.'')
      else if key \<noteq> Some (se_service_api_key s) then
        Some (Api_error 401 ''INVALID_SERVICE_CREDENTIAL'' ''Invalid service authentication credential.'')
      else None)"

section \<open>The checks of a chat request\<close>

text \<open>The request: its credential header, its body or the failure to read it, and the parsed JSON.\<close>

record chat_http_request =
  cr_method :: string
  cr_route :: string
  cr_key :: "string option"
  cr_body_length :: "int option"
  cr_json :: "pyval option"

definition message_at :: "nat \<Rightarrow> string" where
  "message_at i = ''Message at index '' @ int_str (int i)"

text \<open>The loop over the messages, with the index and the number of the characters so far.\<close>

fun check_messages :: "settings \<Rightarrow> nat \<Rightarrow> pyval list \<Rightarrow> int \<Rightarrow> answer + int" where
  "check_messages s i [] chars = Inr chars"
| "check_messages s i (msg # msgs) chars = (case msg of
      PDict d \<Rightarrow> (case dget d ''content'' of
          PNone \<Rightarrow> check_messages s (Suc i) msgs chars
        | PStr c \<Rightarrow>
            (if se_max_message_content_chars s < int (length c) then
               Inl (Api_error 400 ''MESSAGE_CONTENT_TOO_LARGE''
                 (message_at i @ '' content exceeds the maximum allowed size of ''
                   @ int_str (se_max_message_content_chars s) @ '' characters''))
             else check_messages s (Suc i) msgs (chars + int (length c)))
        | _ \<Rightarrow> Inl (Api_error 400 ''INVALID_MESSAGE_CONTENT''
                 (message_at i @ '' '' @ quoted ''content'' @ '' must be a string'')))
    | _ \<Rightarrow> Inl (Api_error 400 ''INVALID_MESSAGE'' (message_at i @ '' must be a JSON object'')))"

definition check_body :: "settings \<Rightarrow> chat_http_request \<Rightarrow> answer + pydict" where
  "check_body s rq = (case cr_body_length rq of
      None \<Rightarrow> Inl (Api_error 400 ''REQUEST_BODY_READ_FAILED'' ''Unable to read request body'')
    | Some n \<Rightarrow>
       (if se_max_request_body_bytes s < n then
          Inl (Api_error 413 ''REQUEST_BODY_TOO_LARGE'' (''Request body exceeds the maximum allowed size of ''
            @ int_str (se_max_request_body_bytes s) @ '' bytes''))
        else case cr_json rq of
            None \<Rightarrow> Inl (Api_error 400 ''INVALID_JSON'' ''Invalid JSON request'')
          | Some (PDict d) \<Rightarrow> Inr d
          | Some _ \<Rightarrow> Inl (Api_error 400 ''INVALID_REQUEST_BODY'' ''Request body must be a JSON object'')))"

definition check_content :: "settings \<Rightarrow> pydict \<Rightarrow> answer option" where
  "check_content s d = (case dget d ''messages'' of
      PList msgs \<Rightarrow>
       (if msgs = [] then Some (Api_error 400 ''INVALID_MESSAGES''
            (''Field '' @ quoted ''messages'' @ '' must be a non-empty list''))
        else if se_max_messages s < int (length msgs) then Some (Api_error 400 ''TOO_MANY_MESSAGES''
            (''Field '' @ quoted ''messages'' @ '' exceeds the maximum allowed count of ''
              @ int_str (se_max_messages s)))
        else case check_messages s 0 msgs 0 of
            Inl a \<Rightarrow> Some a
          | Inr chars \<Rightarrow> (if se_max_total_content_chars s < chars then
                Some (Api_error 400 ''TOTAL_MESSAGE_CONTENT_TOO_LARGE''
                  (''Total message content exceeds the maximum allowed size of ''
                    @ int_str (se_max_total_content_chars s) @ '' characters''))
              else None))
    | _ \<Rightarrow> Some (Api_error 400 ''INVALID_MESSAGES''
            (''Field '' @ quoted ''messages'' @ '' must be a non-empty list'')))"

definition resolve_model :: "app \<Rightarrow> pydict \<Rightarrow> answer + model_definition" where
  "resolve_model a d = (case dget_or d ''model'' (PStr (se_default_model (ap_settings a))) of
      PStr m \<Rightarrow> (case get_model (ap_models a) m of
          Inr md \<Rightarrow> Inr md
        | Inl e \<Rightarrow> Inl (Api_error 404 ''MODEL_NOT_FOUND'' (''Model '' @ quoted m @ '' was not found'')))
    | _ \<Rightarrow> Inl (Api_error 400 ''INVALID_MODEL'' (''Field '' @ quoted ''model'' @ '' must be a string'')))"

text \<open>All checks in the order of the endpoint: the payload to send and its model, or the refusal.\<close>

definition check_request :: "app \<Rightarrow> chat_http_request \<Rightarrow> answer + (pydict \<times> model_definition)" where
  "check_request a rq = (case check_body (ap_settings a) rq of
      Inl x \<Rightarrow> Inl x
    | Inr d \<Rightarrow> (case check_content (ap_settings a) d of
        Some x \<Rightarrow> Inl x
      | None \<Rightarrow> (case resolve_model a d of
          Inl x \<Rightarrow> Inl x
        | Inr md \<Rightarrow> (let payload = dset ''model'' (PStr (md_id md)) d in
            if dget payload ''stream'' = PBool True then
              Inl (Api_error 501 ''STREAMING_NOT_IMPLEMENTED'' ''Streaming is not implemented yet'')
            else Inr (payload, md)))))"

section \<open>The chat endpoint\<close>

definition count_metric :: "service_metric \<Rightarrow> unit gateway_act" where
  "count_metric x = modify (\<lambda>w. w\<lparr>gw_metrics := gw_metrics w @ [x]\<rparr>)"

definition admit :: "bool gateway_act" where
  "admit w = (case try_acquire (gw_limiter w) of (b, l) \<Rightarrow> (Inr b, w\<lparr>gw_limiter := l\<rparr>))"

definition leave :: "unit gateway_act" where
  "leave w = (case release_slot (gw_limiter w) of
      Inl e \<Rightarrow> (Inl e, w)
    | Inr l \<Rightarrow> (Inr (), w\<lparr>gw_limiter := l\<rparr>))"

text \<open>The duration since \<open>started\<close> is observed after the count of the request.\<close>

definition count_inference ::
  "gateway_env \<Rightarrow> string \<Rightarrow> string \<Rightarrow> string \<Rightarrow> time \<Rightarrow> unit gateway_act" where
  "count_inference e p m status started = bnd (read_env (he_perf e)) (\<lambda>t.
     seq (count_metric (IM_requests p m status)) (count_metric (IM_duration p m (t - started))))"

text \<open>\<open>try: result = await failover... except KeyError ... except RuntimeError ...\<close>\<close>

definition call_failover ::
  "gateway_env \<Rightarrow> app \<Rightarrow> pydict \<Rightarrow> string \<Rightarrow> time \<Rightarrow> (answer + failover_result) gateway_act" where
  "call_failover e a payload m started =
     catch (bnd (gw_failover e (ap_failover a) payload) (\<lambda>r. ret (Inr r)))
       (\<lambda>x. if isinstance_exc x KeyError then
              ret (Inl (Api_error 503 ''MODEL_UNAVAILABLE''
                (''No inference route is configured for model '' @ quoted m)))
            else if isinstance_exc x RuntimeError then
              seq (count_inference e ''failover'' m ''error'' started)
                (ret (Inl (Api_error 503 ''INFERENCE_FAILED'' (''Inference failed for model '' @ quoted m))))
            else throw x)"

text \<open>
  \<open>JSONResponse\<close> renders its content with \<open>json.dumps(allow_nan=False)\<close>: a float without a JSON text
  raises, outside of the \<open>try\<close> of the endpoint.
\<close>

fun finite_json :: "pyval \<Rightarrow> bool"
and finite_elems :: "pyval list \<Rightarrow> bool"
and finite_items :: "pydict \<Rightarrow> bool" where
  "finite_json (PFloat t) = (t \<notin> {''nan'', ''inf'', ''-inf''})"
| "finite_json (PList xs) = finite_elems xs"
| "finite_json (PDict d) = finite_items d"
| "finite_json _ = True"
| "finite_elems [] = True"
| "finite_elems (x # xs) = (finite_json x \<and> finite_elems xs)"
| "finite_items [] = True"
| "finite_items ((k, v) # d) = (finite_json v \<and> finite_items d)"

definition render_error :: exc where
  "render_error = Exc ValueError ''Out of range float values are not JSON compliant''"

definition json_response :: "(string \<times> string) list \<Rightarrow> pydict \<Rightarrow> answer gateway_act" where
  "json_response headers content =
     (if finite_json (PDict content) then ret (Answer headers content) else throw render_error)"

definition run_inference :: "gateway_env \<Rightarrow> app \<Rightarrow> pydict \<Rightarrow> string \<Rightarrow> answer gateway_act" where
  "run_inference e a payload m =
     seq (modify (\<lambda>w. w\<lparr>gw_in_progress := (gw_in_progress w)(m := gw_in_progress w m + 1)\<rparr>))
     (bnd (read_env (he_perf e)) (\<lambda>started.
     bnd (ensure
       (bnd (call_failover e a payload m started) (\<lambda>r. case r of
          Inl x \<Rightarrow> ret (Inl x)
        | Inr res \<Rightarrow> seq (count_inference e (fr_provider res) m ''success'' started) (ret (Inr res))))
       (seq (modify (\<lambda>w. w\<lparr>gw_in_progress := (gw_in_progress w)(m := gw_in_progress w m - 1)\<rparr>)) leave))
     (\<lambda>r. case r of
        Inl x \<Rightarrow> ret x
      | Inr res \<Rightarrow> json_response [(''X-Agenyx-Provider'', fr_provider res), (''X-Agenyx-Model'', m)]
            (fr_response res))))"

definition chat_completions :: "gateway_env \<Rightarrow> app \<Rightarrow> chat_http_request \<Rightarrow> answer gateway_act" where
  "chat_completions e a rq = (case require_service_auth (ap_settings a) (cr_key rq) of
      Some x \<Rightarrow> ret x
    | None \<Rightarrow> (case check_request a rq of
        Inl x \<Rightarrow> ret x
      | Inr (payload, md) \<Rightarrow> bnd admit (\<lambda>ok.
          if \<not> ok then ret (Api_error 429 ''INFERENCE_CONCURRENCY_LIMIT''
            ''Inference concurrency limit reached'')
          else run_inference e a payload (md_id md))))"

section \<open>Middleware and the handler of exceptions\<close>

definition http_metrics ::
  "gateway_env \<Rightarrow> chat_http_request \<Rightarrow> answer gateway_act \<Rightarrow> answer gateway_act" where
  "http_metrics e rq call = (let l = (cr_method rq, cr_route rq) in bnd (read_env (he_perf e)) (\<lambda>start.
     seq (modify (\<lambda>w. w\<lparr>gw_http_in_progress := (gw_http_in_progress w)(l := gw_http_in_progress w l + 1)\<rparr>))
     (ensure
       (catch
         (bnd call (\<lambda>x. let st = int_str (answer_status x) in
            seq (count_metric (HM_requests (cr_method rq) (cr_route rq) st))
            (seq (guarded (400 \<le> answer_status x) (count_metric (HM_errors (cr_method rq) (cr_route rq) st)))
            (ret x))))
         (\<lambda>x. if isinstance_exc x PyException then
                seq (count_metric (HM_requests (cr_method rq) (cr_route rq) ''500''))
                (seq (count_metric (HM_errors (cr_method rq) (cr_route rq) ''500'')) (throw x))
              else throw x))
       (bnd (read_env (he_perf e)) (\<lambda>t.
          seq (count_metric (HM_duration (cr_method rq) (cr_route rq) (t - start)))
            (modify (\<lambda>w. w\<lparr>gw_http_in_progress := (gw_http_in_progress w)(l := gw_http_in_progress w l - 1)\<rparr>)))))))"

definition unexpected_answer :: answer where
  "unexpected_answer = Api_error 500 ''INTERNAL_SERVER_ERROR'' ''An unexpected internal error occurred.''"

definition unhandled_exception :: "exc \<Rightarrow> answer gateway_act" where
  "unhandled_exception x = (if isinstance_exc x PyException then ret unexpected_answer else throw x)"

text \<open>One request to the chat endpoint as the service handles it.\<close>

definition serve_chat :: "gateway_env \<Rightarrow> app \<Rightarrow> chat_http_request \<Rightarrow> answer gateway_act" where
  "serve_chat e a rq = catch (http_metrics e rq (chat_completions e a rq)) unhandled_exception"

section \<open>The other endpoints\<close>

definition health_answer :: answer where
  "health_answer = Answer [] [(''status'', PStr ''ok'')]"

text \<open>The first configured provider that is registered and healthy.\<close>

primrec ready_from :: "gateway_env \<Rightarrow> app \<Rightarrow> string list \<Rightarrow> answer gateway_act" where
  "ready_from e a [] =
     ret (Api_error 503 ''NO_PROVIDERS_AVAILABLE'' ''No inference providers available'')"
| "ready_from e a (n # ns) = (case get_provider (fo_registry (ap_failover a)) n of
      Inl x \<Rightarrow> ready_from e a ns
    | Inr p \<Rightarrow> bnd (provider_health (http_env.truncate e) p) (\<lambda>h.
        if h then ret (Answer [] [(''status'', PStr ''ready''), (''provider'', PStr (pr_name p))])
        else ready_from e a ns))"

definition ready :: "gateway_env \<Rightarrow> app \<Rightarrow> answer gateway_act" where
  "ready e a = ready_from e a (enabled_providers (ap_settings a))"

definition providers_answer :: "app \<Rightarrow> answer" where
  "providers_answer a = Answer [] [(''object'', PStr ''list''),
     (''data'', PList (map (\<lambda>n. PDict [(''id'', PStr n), (''object'', PStr ''provider'')])
        (provider_names (fo_registry (ap_failover a)))))]"

definition models_answer :: "app \<Rightarrow> answer" where
  "models_answer a = Answer [] [(''object'', PStr ''list''),
     (''data'', PList (map (\<lambda>m. PDict [(''id'', PStr (md_id m)), (''object'', PStr (md_object m)),
        (''owned_by'', PStr (md_owned_by m))]) (list_models (ap_models a))))]"

text \<open>\<open>isof\<close> is \<open>datetime.isoformat\<close>.\<close>

definition iso_or_none :: "(time \<Rightarrow> string) \<Rightarrow> time option \<Rightarrow> pyval" where
  "iso_or_none isof t = (case t of Some x \<Rightarrow> PStr (isof x) | None \<Rightarrow> PNone)"

definition reliability_answer :: "(time \<Rightarrow> string) \<Rightarrow> gateway \<Rightarrow> answer" where
  "reliability_answer isof w = Answer [] [(''object'', PStr ''reliability''),
     (''providers'', PList (map (\<lambda>st. PDict [(''provider'', PStr (ph_name st)),
        (''status'', PStr (provider_status_value (ph_status st))),
        (''circuit_state'', PStr (circuit_state_value (ph_circuit st))),
        (''consecutive_failures'', PInt (ph_consecutive st)),
        (''total_failures'', PInt (ph_failures st)),
        (''total_successes'', PInt (ph_successes st)),
        (''last_failure_at'', iso_or_none isof (ph_last_failure_at st)),
        (''last_success_at'', iso_or_none isof (ph_last_success_at st)),
        (''circuit_opened_at'', iso_or_none isof (ph_opened_at st)),
        (''circuit_half_opened_at'', iso_or_none isof (ph_half_opened_at st))]) (list_states (gw_rel w))))]"

section \<open>What start-up establishes\<close>

lemma register_provider_Inr:
  "register_provider name m = (Inr u, m') \<Longrightarrow>
     m' = replaced name (new_provider_state name) (rm_probes m) m \<and> map_of (rm_states m) name = None"
  using register_refused [of name m] register_replaced [of name m]
  by (cases "py_strip name = [] \<or> map_of (rm_states m) name \<noteq> None") auto

lemma register_provider_keys:
  "register_provider name m = (Inr u, m') \<Longrightarrow>
     fst ` set (rm_states m') = insert name (fst ` set (rm_states m))"
  by (drule register_provider_Inr) (simp add: replaced_def set_keys_dset)

lemma new_provider_name: "new_provider n u k t c a r = Inr p \<Longrightarrow> pr_name p = py_strip n"
  by (auto simp: new_provider_def split: if_splits)

lemma add_provider_keys:
  "add_provider p reg = Inr reg' \<Longrightarrow> fst ` set reg' = insert (pr_name p) (fst ` set reg)"
proof -
  assume "add_provider p reg = Inr reg'"
  then have "reg' = dset (pr_name p) p reg"
    by (auto simp: add_provider_def split: if_splits)
  then show ?thesis by (simp add: set_keys_dset)
qed

lemma start_providers_spec:
  assumes "start_providers s cs reg m = Inr (reg', m')" "gateway_providers.names_ok reg" "rel_inv m"
  shows "gateway_providers.names_ok reg' \<and> rel_inv m'
    \<and> fst ` set reg' = py_strip ` fst ` set cs \<union> fst ` set reg
    \<and> fst ` set (rm_states m') = fst ` set cs \<union> fst ` set (rm_states m)"
  using assms
proof (induction s cs reg m rule: start_providers.induct)
  case (2 s name c cs reg m)
  obtain p reg1 m1 u where 1: "new_provider name (bc_base_url c) (bc_api_key c) (se_request_timeout s)
        (se_max_connections s) (se_max_keepalive s) (se_max_retries s) = Inr p"
      "add_provider p reg = Inr reg1" "register_provider name m = (Inr u, m1)"
      "start_providers s cs reg1 m1 = Inr (reg', m')" "bc_type c = ''openai-compatible''"
    using "2.prems"(1)
    by (cases "register_provider name m"; cases "fst (register_provider name m)")
       (auto split: if_splits)
  have inv: "rel_inv m1"
    using rel_apply_inv [OF "2.prems"(3), of "Rel_register name"] 1(3) by simp
  have names: "gateway_providers.names_ok reg1"
    using gateway_providers.add_names_ok [OF "2.prems"(2) 1(2)] .
  have keys: "fst ` set reg1 = insert (py_strip name) (fst ` set reg)"
    using add_provider_keys [OF 1(2)] new_provider_name [OF 1(1)] by simp
  have "gateway_providers.names_ok reg' \<and> rel_inv m'
      \<and> fst ` set reg' = py_strip ` fst ` set cs \<union> fst ` set reg1
      \<and> fst ` set (rm_states m') = fst ` set cs \<union> fst ` set (rm_states m1)"
    using "2.IH" 1 names inv by simp
  with keys register_provider_keys [OF 1(3)] show ?case by auto
qed simp

lemma start_models_all:
  "start_models reg ms acc = Inr ms' \<Longrightarrow>
     register_all add_model (map (\<lambda>(m, p). new_model m p) ms) acc = Inr ms'"
  by (induction reg ms acc rule: start_models.induct) (auto split: if_splits)

lemma new_model_id [simp]: "md_id (new_model m p) = m"
  by (simp add: new_model_def)

lemma start_models_lookup:
  assumes "start_models reg ms [] = Inr ms'" "map_of ms' m = Some md"
  shows "md_id md = m \<and> m \<noteq> [] \<and> m \<in> fst ` set ms"
proof -
  have r: "register_all add_model (map (\<lambda>(m, p). new_model m p) ms) [] = Inr ms'"
    using start_models_all [OF assms(1)] .
  then have "md \<in> set (map (\<lambda>(m, p). new_model m p) ms)" "md_id md = m"
    using gateway_models.register_all_lookup [OF r] assms(2) by (auto dest!: map_of_SomeD)
  moreover have "list_all model_admissible (map (\<lambda>(m, p). new_model m p) ms)"
    using r gateway_models.register_all_succeeds by blast
  ultimately show ?thesis
    by (auto simp: list_all_iff model_admissible_def image_iff split_beta intro: rev_bexI)
qed

lemma start_routes_lookup:
  "start_routes fs routes = Inr routes' \<Longrightarrow>
     (map_of routes m \<noteq> None \<longrightarrow> map_of routes' m \<noteq> None)
     \<and> (map_of routes' m = Some ps \<longrightarrow> map_of routes m = Some ps \<or> (m, ps) \<in> set fs)"
  by (induction fs routes arbitrary: routes' rule: start_routes.induct) (auto split: if_splits)

lemma own_routes_foldl:
  "(m \<in> fst ` set ms \<or> map_of d m \<noteq> None \<longrightarrow> map_of (foldl (\<lambda>d mp. dset (fst mp) [snd mp] d) d ms) m \<noteq> None)
   \<and> (map_of (foldl (\<lambda>d mp. dset (fst mp) [snd mp] d) d ms) m = Some ps \<longrightarrow>
        map_of d m = Some ps \<or> (\<exists>p. (m, p) \<in> set ms \<and> ps = [p]))"
proof (induction ms arbitrary: d)
  case (Cons mp ms)
  show ?case
    using Cons.IH [of "dset (fst mp) [snd mp] d"] by (cases mp) (auto split: if_splits)
qed simp

text \<open>Every model the service offers has a route, and every provider of it is known to everybody.\<close>

definition model_served :: "app \<Rightarrow> gateway \<Rightarrow> string \<Rightarrow> bool" where
  "model_served a w m \<longleftrightarrow> m \<noteq> [] \<and> (\<exists>names. providers_for_model (ap_failover a) m = Inr names
     \<and> names \<noteq> [] \<and> (\<forall>n \<in> set names. gw.served (ap_failover a) w n))"

definition app_ok :: "app \<Rightarrow> gateway \<Rightarrow> bool" where
  "app_ok a w \<longleftrightarrow> gw_inv w \<and> routes_ok (ap_failover a)
     \<and> (\<forall>m md. map_of (ap_models a) m = Some md \<longrightarrow> md_id md = m \<and> model_served a w m)"

lemma served_iff: "gw.served fo w n \<longleftrightarrow>
    gw_known w n \<and> (\<exists>p. map_of (fo_registry fo) n = Some p \<and> pr_name p = n)"
  by (simp add: gw.served_def)

lemma startup_ok:
  assumes "startup s = Inr (a, w)"
  shows "app_ok a w \<and> ap_settings a = s \<and> config_ok s \<and> 1 \<le> cl_max (gw_limiter w)
    \<and> cl_active (gw_limiter w) = 0 \<and> hw_posts w = []
    \<and> fo_max_attempts (ap_failover a) = se_max_failover_attempts s \<and> gw_in_progress w = (\<lambda>_. 0)
    \<and> gw_http_in_progress w = (\<lambda>_. 0) \<and> cl_max (gw_limiter w) = se_max_concurrency s"
proof -
  obtain l m0 reg m models routes fo where
      v: "validate_configuration s = Inr ()" "new_limiter (se_max_concurrency s) = Inr l"
        "new_reliability 1 3 10 = Inr m0"
        "start_providers s (provider_backend_configs s) [] m0 = Inr (reg, m)"
        "start_models reg (enabled_models s) [] = Inr models"
        "start_routes (se_failover s) (own_routes (enabled_models s)) = Inr routes"
        "new_failover reg routes (se_max_failover_attempts s) = Inr fo"
      and a: "a = \<lparr>ap_settings = s, ap_models = models, ap_failover = fo\<rparr>" "w = new_gateway m l"
    using assms by (auto simp: startup_def split: prod.splits)
  have ok: "config_ok s" using v(1) validate_configuration_iff by blast
  have fo: "fo = \<lparr>fo_registry = reg, fo_routes = routes, fo_max_attempts = se_max_failover_attempts s\<rparr>"
      "routes_ok fo"
    using v(7) new_failover_iff by blast+
  have prov: "gateway_providers.names_ok reg" "rel_inv m"
      "fst ` set reg = py_strip ` set (enabled_providers s)"
      "fst ` set (rm_states m) = set (enabled_providers s)"
  proof -
    have "rm_states m0 = []" using v(3) by (auto simp: new_reliability_def split: if_splits)
    then show "gateway_providers.names_ok reg" "rel_inv m"
      "fst ` set reg = py_strip ` set (enabled_providers s)"
      "fst ` set (rm_states m) = set (enabled_providers s)"
      using start_providers_spec [OF v(4) _ new_reliability_inv [OF v(3)]]
      by (simp_all add: enabled_providers_def gateway_providers.names_ok_def)
  qed
  have w: "gw_rel w = m" "gw_limiter w = l" "hw_posts w = []" "gw_in_progress w = (\<lambda>_. 0)"
      "gw_http_in_progress w = (\<lambda>_. 0)"
    by (simp_all add: a new_gateway_def new_http_world_def http_world.defs)
  have lim: "1 \<le> cl_max l" "cl_active l = 0" "cl_max l = se_max_concurrency s"
    using v(2) by (auto simp: new_limiter_def split: if_splits)
  have "model_served a w mid" "md_id md = mid" if md: "map_of models mid = Some md" for mid md
  proof -
    have mid: "md_id md = mid" "mid \<noteq> []" "mid \<in> fst ` set (enabled_models s)"
      using start_models_lookup [OF v(5) md] by auto
    then have "map_of routes mid \<noteq> None"
      using start_routes_lookup [OF v(6), of mid] own_routes_foldl [of mid "enabled_models s" "[]"]
      by (auto simp: own_routes_def)
    then obtain names where names: "map_of routes mid = Some names" by blast
    then have "set names \<subseteq> set (enabled_providers s)"
      using start_routes_lookup [OF v(6), of mid names]
        own_routes_foldl [of mid "enabled_models s" "[]" names] ok
      by (auto simp: own_routes_def config_ok_def dest: enabled_models_provider)
    moreover have reg_names: "set names \<subseteq> fst ` set reg" "names \<noteq> []"
      using fo names by (auto simp: routes_ok_def dest!: map_of_SomeD)
    ultimately have "gw.served fo w n" if n: "n \<in> set names" for n
    proof -
      obtain p where p: "map_of reg n = Some p"
        using n reg_names by (metis map_of_eq_None_iff not_None_eq subsetD)
      then have "pr_name p = n" using prov(1) by (simp add: gateway_providers.names_ok_def)
      with p n \<open>set names \<subseteq> set (enabled_providers s)\<close> show ?thesis
        by (auto simp: served_iff gw_known_def w prov(4) fo)
    qed
    then show "model_served a w mid" "md_id md = mid"
      using mid names reg_names by (auto simp: model_served_def providers_for_model_def a fo)
  qed
  then show ?thesis
    using ok fo prov(2) lim w by (auto simp: app_ok_def a gw_inv_def)
qed

section \<open>What the chat endpoint answers\<close>

text \<open>
  What a request leaves as it was: the slots and the gauges of requests in progress, the providers
  known to the manager, and the manager's invariant.  The requests to providers become more.
\<close>

lemma exc_isa_KeyError: "exc_isa c KeyError \<longleftrightarrow> c = KeyError"
  by (cases c) (simp_all add: exc_isa_def eval_nat_numeral)

definition undisturbed :: "gateway \<Rightarrow> gateway \<Rightarrow> bool" where
  "undisturbed w t \<longleftrightarrow> same_admission w t \<and> gw_inv t \<and> gw_known t = gw_known w \<and> posts_grow w t"

definition routed :: "app \<Rightarrow> string \<Rightarrow> string \<Rightarrow> bool" where
  "routed a m p \<longleftrightarrow> (\<exists>names. providers_for_model (ap_failover a) m = Inr names \<and> p \<in> set names)"

definition failed_answer :: "string \<Rightarrow> answer" where
  "failed_answer m = Api_error 503 ''INFERENCE_FAILED'' (''Inference failed for model '' @ quoted m)"

lemma undisturbed_fields:
  "undisturbed w (t\<lparr>gw_metrics := x\<rparr>) = undisturbed w t"
  "undisturbed w (t\<lparr>hw_tick := n\<rparr>) = undisturbed w t"
  by (simp_all add: undisturbed_def same_admission_def gw_inv_def gw_known_def [abs_def] posts_grow_def)

lemma loop_result_routed:
  assumes "gw.loop_result e fo payload names [] k s r t"
  shows "fr_provider r \<in> set names \<and> gw_inv t \<and> gw_known t = gw_known s
    \<and> replied_between e (length (hw_posts s)) (length (hw_posts t)) (fr_response r)"
proof -
  have served: "failover_served (gw_allowed e) (gw_success_recorded e) (gw_failure_recorded e) (gw_chat e) fo payload
      names k [] r s t" and t: "gw_inv t" "gw_known t = gw_known s"
    using assms unfolding gw.loop_result_def by blast+
  then obtain as :: "failover_attempt list" where
    eq: "map fa_provider as @ [fr_provider r] = take (Suc (length as)) names"
    unfolding failover_served_def by blast
  have "fr_provider r \<in> set (map fa_provider as @ [fr_provider r])" by simp
  then have "fr_provider r \<in> set names"
    unfolding eq by (rule in_set_takeD)
  with t failover_served_replied [OF served] show ?thesis by simp
qed

lemma all_failed_class: "isinstance_exc (all_failed m y) RuntimeError \<and> \<not> isinstance_exc (all_failed m y) KeyError"
  by (auto simp: all_failed_def isinstance_exc_def exc_isa_def eval_nat_numeral split: option.splits)

lemma loop_raised_class:
  assumes "gw.loop_raised e fo m payload names k err s x t"
  shows "gw_inv t \<and> gw_known t = gw_known s
    \<and> (isinstance_exc x PyException \<longrightarrow> isinstance_exc x RuntimeError \<and> \<not> isinstance_exc x KeyError)"
  using assms all_failed_class unfolding gw.loop_raised_def failover_exhausted_def by (auto split: if_splits)

lemma gw_failover_spec:
  assumes "gw_inv w" "model_served a w m" "dget payload ''model'' = PStr m"
  shows "wp (gw_failover e (ap_failover a) payload)
    (\<lambda>r t. undisturbed w t \<and> routed a m (fr_provider r)
       \<and> replied_between e (length (hw_posts w)) (length (hw_posts t)) (fr_response r))
    (\<lambda>x t. undisturbed w t \<and> (isinstance_exc x PyException \<longrightarrow>
        isinstance_exc x RuntimeError \<and> \<not> isinstance_exc x KeyError)) w"
proof -
  obtain names where n: "providers_for_model (ap_failover a) m = Inr names" "m \<noteq> []"
      "\<forall>n \<in> set names. gw.served (ap_failover a) w n"
    using assms(2) by (auto simp: model_served_def)
  have "wp (gw_failover e (ap_failover a) payload)
      (gw.loop_result e (ap_failover a) payload names [] (nat (fo_max_attempts (ap_failover a))) w)
      (gw.loop_raised e (ap_failover a) m payload names (nat (fo_max_attempts (ap_failover a))) None w) w"
    unfolding gw_failover_def by (rule gw.failover_chat_spec [OF assms(1,3) n(2,1,3)])
  from wp_conj [OF wp_conj [OF this admission.keeps_wp [OF admission.keeps_gw_failover]]
      posted.keeps_wp [OF posted.keeps_gw_failover]]
  show ?thesis
    by (rule wp_mono)
       (use n(1) in \<open>auto simp: undisturbed_def routed_def dest: loop_result_routed loop_raised_class\<close>)
qed

lemma call_failover_spec:
  assumes "gw_inv w" "model_served a w m" "dget payload ''model'' = PStr m"
  shows "wp (call_failover e a payload m started)
    (\<lambda>r t. undisturbed w t \<and> (case r of Inl x \<Rightarrow> x = failed_answer m | Inr res \<Rightarrow> routed a m (fr_provider res)
       \<and> replied_between e (length (hw_posts w)) (length (hw_posts t)) (fr_response res)))
    (\<lambda>x t. undisturbed w t \<and> \<not> isinstance_exc x PyException) w"
  unfolding call_failover_def wp_catch wp_bnd wp_ret
proof (rule wp_mono [OF gw_failover_spec [OF assms]])
  fix x t
  assume x: "undisturbed w t \<and> (isinstance_exc x PyException \<longrightarrow>
      isinstance_exc x RuntimeError \<and> \<not> isinstance_exc x KeyError)"
  let ?Q = "\<lambda>(r :: answer + failover_result) t. undisturbed w t \<and> (case r of Inl x \<Rightarrow> x = failed_answer m
      | Inr res \<Rightarrow> routed a m (fr_provider res)
          \<and> replied_between e (length (hw_posts w)) (length (hw_posts t)) (fr_response res))"
  have count: "wp (seq (count_inference e p m st started) (ret r)) ?Q E t = ?Q r t" for p st r E
    by (simp add: wp count_inference_def count_metric_def undisturbed_fields split: sum.split)
  show "wp (if isinstance_exc x KeyError
        then ret (Inl (Api_error 503 ''MODEL_UNAVAILABLE''
               (''No inference route is configured for model '' @ quoted m)))
        else if isinstance_exc x RuntimeError
        then seq (count_inference e ''failover'' m ''error'' started)
               (ret (Inl (Api_error 503 ''INFERENCE_FAILED'' (''Inference failed for model '' @ quoted m))))
        else throw x)
      ?Q (\<lambda>x t. undisturbed w t \<and> \<not> isinstance_exc x PyException) t"
  proof (cases "isinstance_exc x PyException")
    case True
    then have k: "\<not> isinstance_exc x KeyError" and r: "isinstance_exc x RuntimeError"
      using x by simp_all
    show ?thesis
      unfolding if_not_P [OF k] if_P [OF r] count using x by (simp add: failed_answer_def)
  next
    case False
    then have "exc_class x = PyBaseException \<or> exc_class x = CancelledError"
      by (simp add: isinstance_exc_def exc_isa_PyException)
    then have "\<not> isinstance_exc x KeyError" "\<not> isinstance_exc x RuntimeError"
      by (auto simp: isinstance_exc_def exc_isa_KeyError)
    with x False show ?thesis by (simp add: wp)
  qed
qed simp

text \<open>
  The answers a client can get: a refusal of one of the checks, a failed inference, or the answer
  of a provider on the model's route, when it has a JSON text.
\<close>

definition proper_answer :: "app \<Rightarrow> answer \<Rightarrow> bool" where
  "proper_answer a ans = (case ans of
      Api_error st code msg \<Rightarrow> code \<noteq> ''INTERNAL_SERVER_ERROR'' \<and> code \<noteq> ''MODEL_UNAVAILABLE''
    | Answer hs body \<Rightarrow> \<exists>m p. hs = [(''X-Agenyx-Provider'', p), (''X-Agenyx-Model'', m)]
        \<and> model_exists (ap_models a) m \<and> routed a m p \<and> finite_json (PDict body))"

text \<open>The \<open>i\<close>-th answer of a provider was taken, and cannot be passed on.\<close>

definition unrenderable :: "gateway_env \<Rightarrow> nat \<Rightarrow> bool" where
  "unrenderable e i = (case outcome_result (he_post e i) of Inl _ \<Rightarrow> False | Inr d \<Rightarrow> \<not> finite_json (PDict d))"

definition unrendered :: "gateway_env \<Rightarrow> gateway \<Rightarrow> gateway \<Rightarrow> bool" where
  "unrendered e w t \<longleftrightarrow> (\<exists>i. length (hw_posts w) \<le> i \<and> i < length (hw_posts t) \<and> unrenderable e i)"

lemma replied_unrendered:
  "replied_between e (length (hw_posts w)) (length (hw_posts t)) d \<Longrightarrow> \<not> finite_json (PDict d) \<Longrightarrow> unrendered e w t"
  unfolding replied_between_def unrendered_def unrenderable_def by fastforce

definition slots_ok :: "gateway \<Rightarrow> bool" where
  "slots_ok w \<longleftrightarrow> 0 \<le> cl_active (gw_limiter w) \<and> cl_active (gw_limiter w) \<le> cl_max (gw_limiter w)"

lemma check_messages_proper: "check_messages s i msgs n = Inl x \<Longrightarrow> proper_answer a x"
  by (induction s i msgs n rule: check_messages.induct)
     (auto simp: proper_answer_def split: pyval.splits if_splits)

lemma check_request_proper: "check_request a rq = Inl x \<Longrightarrow> proper_answer b x"
proof -
  assume r: "check_request a rq = Inl x"
  have body: "check_body s rq = Inl x \<Longrightarrow> proper_answer b x" for s
    by (auto simp: check_body_def proper_answer_def split: option.splits pyval.splits if_splits)
  have content: "check_content s d = Some x \<Longrightarrow> proper_answer b x" for s d
    using check_messages_proper
    by (auto simp: check_content_def split: pyval.splits if_splits sum.splits)
       (auto simp: proper_answer_def)
  have model: "resolve_model a d = Inl x \<Longrightarrow> proper_answer b x" for d
    by (auto simp: resolve_model_def proper_answer_def split: pyval.splits sum.splits)
  show ?thesis
    using r body content model
    by (auto simp: check_request_def Let_def split: sum.splits option.splits if_splits)
       (auto simp: proper_answer_def)
qed

text \<open>A request that passes the checks names a registered model, which is the model sent on.\<close>

lemma check_request_model:
  assumes "check_request a rq = Inr (payload, md)"
  shows "\<exists>m. map_of (ap_models a) m = Some md \<and> dget payload ''model'' = PStr (md_id md)"
proof -
  obtain d where d: "resolve_model a d = Inr md" "payload = dset ''model'' (PStr (md_id md)) d"
    using assms by (auto simp: check_request_def Let_def split: sum.splits option.splits if_splits)
  then obtain m where "get_model (ap_models a) m = Inr md"
    by (auto simp: resolve_model_def split: pyval.splits sum.splits)
  then have "map_of (ap_models a) m = Some md"
    by (auto simp: get_model_def not_registered_def split: if_splits option.splits)
  then show ?thesis using d(2) by (auto simp: dget_def)
qed

lemma undisturbed_refl: "gw_inv w \<Longrightarrow> undisturbed w w"
  by (simp add: undisturbed_def same_admission_def posts_grow_def)

lemma run_inference_spec:
  assumes "gw_inv w" "model_served a w m" "dget payload ''model'' = PStr m" "model_exists (ap_models a) m"
    "0 \<le> cl_active (gw_limiter w)"
  shows "wp (run_inference e a payload m)
    (\<lambda>ans t. proper_answer a ans \<and> undisturbed w t)
    (\<lambda>x t. (isinstance_exc x PyException \<longrightarrow> x = render_error \<and> unrendered e w t) \<and> undisturbed w t)
    (w\<lparr>gw_limiter := (gw_limiter w)\<lparr>cl_active := cl_active (gw_limiter w) + 1\<rparr>\<rparr>)"
proof -
  let ?v = "w\<lparr>gw_limiter := (gw_limiter w)\<lparr>cl_active := cl_active (gw_limiter w) + 1\<rparr>,
      gw_in_progress := (gw_in_progress w)(m := gw_in_progress w m + 1), hw_tick := hw_tick w + 1\<rparr>"
  let ?leave = "seq (modify (\<lambda>w. w\<lparr>gw_in_progress := (gw_in_progress w)(m := gw_in_progress w m - 1)\<rparr>)) leave"
  let ?fin = "\<lambda>r. case r of Inl x \<Rightarrow> ret x
      | Inr res \<Rightarrow> json_response [(''X-Agenyx-Provider'', fr_provider res), (''X-Agenyx-Model'', m)] (fr_response res)"
  let ?got = "\<lambda>r t. case r of Inl x \<Rightarrow> x = failed_answer m
      | Inr res \<Rightarrow> routed a m (fr_provider res)
          \<and> replied_between e (length (hw_posts w)) (length (hw_posts t)) (fr_response res)"
  have v: "gw_inv ?v" "model_served a ?v m"
    using assms(1,2) by (simp_all add: gw_inv_def model_served_def served_iff gw_known_def)
  have left: "wp ?leave (\<lambda>_ u. undisturbed w u \<and> hw_posts u = hw_posts t) E t"
    if t: "undisturbed ?v t" for t E
    using t assms(5) by (simp add: wp leave_def release_slot_def wp_def [of leave] undisturbed_def
        same_admission_def gw_inv_def gw_known_def [abs_def] posts_grow_def)
  have body: "wp (bnd (call_failover e a payload m started) (\<lambda>r. case r of
          Inl x \<Rightarrow> ret (Inl x)
        | Inr res \<Rightarrow> seq (count_inference e (fr_provider res) m ''success'' started) (ret (Inr res))))
      (\<lambda>r t. undisturbed ?v t \<and> ?got r t) (\<lambda>x t. undisturbed ?v t \<and> \<not> isinstance_exc x PyException) ?v" for started
    unfolding wp_bnd
    by (rule wp_mono [OF call_failover_spec [OF v assms(3)]])
       (auto simp: wp count_inference_def count_metric_def undisturbed_fields split: sum.splits)
  have ensured: "wp (ensure (bnd (call_failover e a payload m started) (\<lambda>r. case r of
          Inl x \<Rightarrow> ret (Inl x)
        | Inr res \<Rightarrow> seq (count_inference e (fr_provider res) m ''success'' started) (ret (Inr res)))) ?leave)
      (\<lambda>r t. undisturbed w t \<and> ?got r t) (\<lambda>x t. undisturbed w t \<and> \<not> isinstance_exc x PyException) ?v" for started
    unfolding wp_ensure
    by (rule wp_mono [OF body]; rule wp_mono [OF left]) (auto split: sum.splits)
  have rendered: "wp (?fin r) (\<lambda>ans t. proper_answer a ans \<and> undisturbed w t)
      (\<lambda>x t. (isinstance_exc x PyException \<longrightarrow> x = render_error \<and> unrendered e w t) \<and> undisturbed w t) t"
    if "undisturbed w t \<and> ?got r t" for r t
    using that assms(4) replied_unrendered
    by (auto simp: wp json_response_def proper_answer_def failed_answer_def split: sum.splits)
  show ?thesis
    unfolding run_inference_def wp_seq [of "modify _"] wp_modify wp_bnd [of "read_env _"] wp_read_env wp_bnd [of "ensure _ _"]
    by (simp, rule wp_mono [OF ensured [simplified]], erule rendered, simp)
qed

lemma chat_completions_spec:
  assumes "app_ok a w" "slots_ok w"
  shows "wp (chat_completions e a rq)
    (\<lambda>ans t. proper_answer a ans \<and> undisturbed w t)
    (\<lambda>x t. (isinstance_exc x PyException \<longrightarrow> x = render_error \<and> unrendered e w t) \<and> undisturbed w t) w"
proof (cases "require_service_auth (ap_settings a) (cr_key rq)")
  case (Some x)
  then have "proper_answer a x"
    by (auto simp: require_service_auth_def proper_answer_def split: if_splits)
  with Some assms(1) show ?thesis
    by (simp add: chat_completions_def wp undisturbed_refl app_ok_def)
next
  case None
  show ?thesis
  proof (cases "check_request a rq")
    case (Inl x)
    with None assms(1) check_request_proper [OF Inl] show ?thesis
      by (simp add: chat_completions_def wp undisturbed_refl app_ok_def)
  next
    case (Inr pm)
    obtain payload md where pm: "pm = (payload, md)" by fastforce
    obtain m where m: "map_of (ap_models a) m = Some md" "dget payload ''model'' = PStr (md_id md)"
      using check_request_model Inr pm by blast
    then have id: "md_id md = m" "model_served a w m"
      using assms(1) by (auto simp: app_ok_def)
    have ok: "gw_inv w" "0 \<le> cl_active (gw_limiter w)" "model_exists (ap_models a) m"
      using assms m by (auto simp: app_ok_def slots_ok_def model_exists_def)
    have refused: "proper_answer a (Api_error 429 ''INFERENCE_CONCURRENCY_LIMIT''
        ''Inference concurrency limit reached'')"
      by (simp add: proper_answer_def)
    show ?thesis
      using run_inference_spec [OF ok(1) id(2) _ ok(3,2), of payload e] m(2) id(1) None Inr pm
        refused undisturbed_refl [OF ok(1)]
      by (simp add: chat_completions_def wp_bnd wp_def [of admit] admit_def try_acquire_def wp_ret)
  qed
qed

text \<open>
  The middleware counts the request and restores its gauge; the only unexpected exception left to handle
  is the one of an answer without a JSON text.
\<close>

lemma serve_chat_spec:
  assumes "app_ok a w" "slots_ok w"
  shows "wp (serve_chat e a rq)
    (\<lambda>ans t. (proper_answer a ans \<or> ans = unexpected_answer \<and> unrendered e w t) \<and> undisturbed w t)
    (\<lambda>x t. \<not> isinstance_exc x PyException \<and> undisturbed w t) w"
proof -
  let ?l = "(cr_method rq, cr_route rq)"
  let ?v = "w\<lparr>hw_tick := hw_tick w + 1, gw_http_in_progress := (gw_http_in_progress w)(?l := gw_http_in_progress w ?l + 1)\<rparr>"
  have v: "app_ok a ?v" "slots_ok ?v"
    using assms
    by (simp_all add: app_ok_def slots_ok_def gw_inv_def model_served_def served_iff gw_known_def)
  let ?body = "\<lambda>call :: answer gateway_act. catch
         (bnd call (\<lambda>x. let st = int_str (answer_status x) in
            seq (count_metric (HM_requests (cr_method rq) (cr_route rq) st))
            (seq (guarded (400 \<le> answer_status x) (count_metric (HM_errors (cr_method rq) (cr_route rq) st)))
            (ret x))))
         (\<lambda>x. if isinstance_exc x PyException then
                seq (count_metric (HM_requests (cr_method rq) (cr_route rq) ''500''))
                (seq (count_metric (HM_errors (cr_method rq) (cr_route rq) ''500'')) (throw x))
              else throw x)"
  let ?E = "\<lambda>w x t. (isinstance_exc x PyException \<longrightarrow> x = render_error \<and> unrendered e w t) \<and> undisturbed w t"
  have body: "wp (?body (chat_completions e a rq)) (\<lambda>ans t. proper_answer a ans \<and> undisturbed ?v t) (?E ?v) ?v"
    unfolding wp_catch wp_bnd
    by (rule wp_mono [OF chat_completions_spec [OF v]])
       (auto simp: wp count_metric_def undisturbed_fields unrendered_def Let_def)
  let ?fin = "\<lambda>start. bnd (read_env (he_perf e)) (\<lambda>t.
          seq (count_metric (HM_duration (cr_method rq) (cr_route rq) (t - start)))
            (modify (\<lambda>w. w\<lparr>gw_http_in_progress := (gw_http_in_progress w)(?l := gw_http_in_progress w ?l - 1)\<rparr>)))"
  have after: "wp (?fin start) (\<lambda>_ u. undisturbed w u \<and> hw_posts u = hw_posts t) E t"
    if t: "undisturbed ?v t" for t E start
    using t by (simp add: wp count_metric_def undisturbed_def same_admission_def gw_inv_def
        gw_known_def [abs_def] posts_grow_def)
  have metrics: "wp (http_metrics e rq (chat_completions e a rq))
      (\<lambda>ans t. proper_answer a ans \<and> undisturbed w t) (?E w) w"
  proof -
    have "wp (ensure (?body (chat_completions e a rq)) (?fin start))
        (\<lambda>ans t. proper_answer a ans \<and> undisturbed w t) (?E w) ?v" for start
      unfolding wp_ensure
      by (rule wp_mono [OF body]; rule wp_mono [OF after]) (auto simp: unrendered_def)
    then show ?thesis
      unfolding http_metrics_def Let_def [of ?l] wp_bnd [of "read_env _"] wp_read_env wp_seq [of "modify _"] wp_modify
      by simp
  qed
  show ?thesis
    unfolding serve_chat_def wp_catch
    by (rule wp_mono [OF metrics]) (auto simp: unhandled_exception_def wp)
qed

section \<open>The service over time\<close>

text \<open>Requests to the chat endpoint one after the other, with what each of them got.\<close>

fun serve_all ::
  "gateway_env \<Rightarrow> app \<Rightarrow> chat_http_request list \<Rightarrow> gateway \<Rightarrow> answer result list \<times> gateway" where
  "serve_all e a [] w = ([], w)"
| "serve_all e a (rq # rqs) w = (case serve_chat e a rq w of
      (r, v) \<Rightarrow> (case serve_all e a rqs v of (rs, t) \<Rightarrow> (r # rs, t)))"

definition answered :: "app \<Rightarrow> answer result \<Rightarrow> bool" where
  "answered a r = (case r of Inr ans \<Rightarrow> proper_answer a ans \<or> ans = unexpected_answer
     | Inl x \<Rightarrow> \<not> isinstance_exc x PyException)"

lemma undisturbed_app_ok: "undisturbed w t \<Longrightarrow> app_ok a w \<Longrightarrow> app_ok a t"
  by (simp add: undisturbed_def app_ok_def model_served_def served_iff)

lemma undisturbed_slots: "undisturbed w t \<Longrightarrow> slots_ok w \<Longrightarrow> slots_ok t"
  by (simp add: undisturbed_def slots_ok_def same_admission_def)

lemma undisturbed_trans: "undisturbed w v \<Longrightarrow> undisturbed v t \<Longrightarrow> undisturbed w t"
  by (auto simp: undisturbed_def same_admission_def intro: posted.R_trans)

lemma unexpected_not_proper: "\<not> proper_answer a unexpected_answer"
  by (simp add: proper_answer_def unexpected_answer_def)

text \<open>
  Each unexpected answer has its own answer of a provider that could not be passed on.
\<close>

lemma unrendered_count:
  assumes "unrendered e w t"
  shows "0 < length (filter (unrenderable e) [length (hw_posts w)..<length (hw_posts t)])"
  using assms by (auto simp: unrendered_def filter_empty_conv)

lemma serve_all_spec:
  assumes "app_ok a w" "slots_ok w"
  shows "list_all (answered a) (fst (serve_all e a rqs w)) \<and> undisturbed w (snd (serve_all e a rqs w))
    \<and> length (filter (\<lambda>r. r = Inr unexpected_answer) (fst (serve_all e a rqs w)))
        \<le> length (filter (unrenderable e) [length (hw_posts w)..<length (hw_posts (snd (serve_all e a rqs w)))])"
  using assms
proof (induction rqs arbitrary: w)
  case Nil
  then show ?case by (simp add: undisturbed_refl app_ok_def)
next
  case (Cons rq rqs)
  obtain r v where rv: "serve_chat e a rq w = (r, v)" by fastforce
  let ?t = "snd (serve_all e a rqs v)"
  let ?n = "\<lambda>w t. length (filter (unrenderable e) [length (hw_posts w)..<length (hw_posts t)])"
  have r: "answered a r" "undisturbed w v" "r = Inr unexpected_answer \<Longrightarrow> unrendered e w v"
    using serve_chat_spec [OF Cons.prems, of e rq] rv unexpected_not_proper
    by (auto simp: wp_def answered_def split: sum.splits)
  have rest: "list_all (answered a) (fst (serve_all e a rqs v)) \<and> undisturbed v ?t
      \<and> length (filter (\<lambda>r. r = Inr unexpected_answer) (fst (serve_all e a rqs v))) \<le> ?n v ?t"
    using Cons.IH undisturbed_app_ok undisturbed_slots r(2) Cons.prems by blast
  have "length (hw_posts w) \<le> length (hw_posts v)" "length (hw_posts v) \<le> length (hw_posts ?t)"
    using r(2) rest by (simp_all add: undisturbed_def posts_grow_def)
  then have "[length (hw_posts w)..<length (hw_posts ?t)] =
      [length (hw_posts w)..<length (hw_posts v)] @ [length (hw_posts v)..<length (hw_posts ?t)]"
    by (metis le_Suc_ex upt_add_eq_append)
  then have split: "?n w ?t = ?n w v + ?n v ?t" by simp
  have one: "(if r = Inr unexpected_answer then 1 else 0) \<le> ?n w v"
    using unrendered_count [OF r(3)] by (simp del: length_greater_0_conv add: Suc_le_eq)
  have "length (filter (\<lambda>r. r = Inr unexpected_answer) (fst (serve_all e a (rq # rqs) w)))
      = (if r = Inr unexpected_answer then 1 else 0)
        + length (filter (\<lambda>r. r = Inr unexpected_answer) (fst (serve_all e a rqs v)))"
    by (simp add: rv split_beta)
  moreover have "snd (serve_all e a (rq # rqs) w) = ?t" by (simp add: rv split_beta)
  moreover have "list_all (answered a) (fst (serve_all e a (rq # rqs) w))" using r(1) rest by (simp add: rv split_beta)
  ultimately show ?case using split one rest undisturbed_trans [OF r(2)] by (simp only: simp_thms) (elim conjE, rule add_mono)
qed

lemma startup_slots_ok: "startup s = Inr (a, w) \<Longrightarrow> slots_ok w"
  by (drule startup_ok) (simp add: slots_ok_def)

end
