(* ===== verification/ServiceDemo.thy ===== *)
theory ServiceDemo
  imports Demo Endpoint
begin

text \<open>
  A concrete inference service (two providers, one of them a backup), a world that answers it, and a
  concrete execution to store: the examples of the properties of the service and of persistence.
\<close>

definition demo_settings :: settings where
  "demo_settings = \<lparr>se_default_model = ''m'',
     se_providers = [\<lparr>pc_name = ''a'', pc_enabled = True, pc_type = ''openai-compatible'',
         pc_base_url = ''http://a/v1/'', pc_api_key = ''k''\<rparr>,
       \<lparr>pc_name = ''b'', pc_enabled = True, pc_type = ''openai-compatible'',
         pc_base_url = ''http://b/v1'', pc_api_key = []\<rparr>],
     se_models = [(''m'', ''a'')], se_failover = [(''m'', [''a'', ''b''])], se_max_retries = 2,
     se_request_timeout = 120, se_max_connections = 100, se_max_keepalive = 20, se_max_concurrency = 10,
     se_max_failover_attempts = 3, se_service_api_key = ''s'',
     se_tenant_model_access = ''tenant=m'', se_max_request_body_bytes = 1000, se_max_messages = 100,
     se_max_message_content_chars = 1000, se_max_total_content_chars = 5000\<rparr>"

definition demo_app :: app where
  "demo_app = (case startup demo_settings of Inr (a, w) \<Rightarrow> a)"

definition demo_gateway :: gateway where
  "demo_gateway = (case startup demo_settings of Inr (a, w) \<Rightarrow> w)"

lemma demo_starts: "\<not> isl (startup demo_settings)"
  by code_simp

lemma demo_startup: "startup demo_settings = Inr (demo_app, demo_gateway)"
  using demo_starts by (cases "startup demo_settings") (auto simp: demo_app_def demo_gateway_def)

definition demo_payload :: pydict where
  "demo_payload = [(''model'', PStr ''m''), (''messages'', PList [PDict [(''role'', PStr ''user''), (''content'', PStr ''hi'')]])]"

definition demo_chat :: chat_http_request where
  "demo_chat = \<lparr>cr_method = ''POST'', cr_route = ''/v1/chat/completions'', cr_key = Some ''s'',
     cr_body_length = Some 80, cr_json = Some (PDict demo_payload)\<rparr>"

text \<open>Provider \<open>a\<close> fails with a client error, which the third provider request answers.\<close>

definition demo_http :: gateway_env where
  "demo_http = \<lparr>he_post = (\<lambda>n. if n = 0 then Replied \<lparr>hr_status = 404, hr_json = None, hr_error_text = ''no''\<rparr>
       else Replied \<lparr>hr_status = 200, hr_json = Some (PDict [(''id'', PStr ''x'')]), hr_error_text = []\<rparr>),
     he_stream = (\<lambda>_. \<lparr>st_opened = Failed (Exc HttpRequestError ''down''), st_chunks = [], st_ended = None\<rparr>),
     he_get = (\<lambda>_. Failed (Exc HttpRequestError ''down'')), he_aclose = (\<lambda>_. None),
     he_perf = (\<lambda>n. of_nat n), he_now = (\<lambda>n. of_nat n), he_uniform = (\<lambda>_. 0),
     he_sleep_cancelled = (\<lambda>_. False), ge_others = (\<lambda>_. [])\<rparr>"

definition demo_world :: http_env where
  "demo_world = http_env.truncate demo_http"

lemma demo_world_simps [simp]:
  "he_post demo_world = he_post demo_http" "he_uniform demo_world t = 0" "\<not> he_sleep_cancelled demo_world t"
  by (simp_all add: demo_world_def demo_http_def http_env.defs)

lemma demo_world_uniform: "0 \<le> he_uniform demo_world t \<and> he_uniform demo_world t \<le> 1"
  by simp

lemma demo_gateway_posts: "hw_posts demo_gateway = []"
  by code_simp

definition demo_backend :: backend where
  "demo_backend = \<lparr>be_provider = ''a'', be_base_url = ''http://a/v1'', be_api_key = Some ''k'', be_timeout = 120,
     be_max_retries = 2, be_connect_timeout = 10, be_max_connections = 100, be_max_keepalive = 20\<rparr>"

lemma demo_backend_constructed:
  "new_backend ''a'' ''http://a/v1/'' (Some ''k'') 120 2 100 20 = Inr demo_backend"
  by (simp add: new_backend_def demo_backend_def rstrip_slash_def)

text \<open>A provider that failed three times.\<close>

definition demo_manager :: reliability where
  "demo_manager = \<lparr>rm_degraded = 1, rm_unhealthy = 3, rm_recovery = 10, rm_states = [], rm_probes = {},
     rm_gauges = []\<rparr>"

definition demo_failures :: "rel_op list" where
  "demo_failures = [Rel_register ''a'', Rel_failure ''a'' 1, Rel_failure ''a'' 2, Rel_failure ''a'' 3]"

lemma demo_manager_constructed: "new_reliability 1 3 10 = Inr demo_manager"
  by (simp add: new_reliability_def demo_manager_def)

lemma demo_manager_open: "abs_breaker (rel_applies demo_failures demo_manager) ''a'' = Some (Br_open 3)"
  by code_simp

section \<open>Persistence\<close>

definition demo_pg :: pg_env where
  "demo_pg = \<lparr>pe_flush = (\<lambda>_. None), pe_commit = (\<lambda>_. None), pe_parse_uuid = (\<lambda>s. Inr s),
     pe_uuid = nat_str, pe_now = (\<lambda>n. of_nat n)\<rparr>"

definition empty_database :: database where
  "empty_database = \<lparr>db_executions = [], db_steps = [], db_results = [], db_events = []\<rparr>"

lemma empty_database_wf: "db_wf empty_database"
  by (simp add: db_wf_def empty_database_def steps_of_def)

lemma empty_database_records: "same_records [] (new_service empty_database)"
  unfolding same_records_def using empty_database_wf
  by (simp add: new_service_def pg_get_def find_row_def mem_get_def empty_database_def)

lemma demo_pg_works: "works demo_pg"
  by (simp add: works_def demo_pg_def)

definition demo_event :: agent_event where
  "demo_event = \<lparr>ev_type = ''execution.started'', ev_execution_id = ''e1'', ev_data = []\<rparr>"

definition demo_step :: step where
  "demo_step = \<lparr>step_id = ''s1'', step_number = 1, step_type = StepType_PLAN, step_status = StepStatus_RUNNING,
     step_input = PNone, step_output = PNone, step_error = None, step_started_at = Some 2, step_completed_at = None\<rparr>"

definition demo_execution :: execution where
  "demo_execution = \<lparr>ex_id = ''e1'', ex_status = Status_RUNNING, ex_created_at = 1, ex_started_at = Some 2,
     ex_updated_at = 3, ex_completed_at = None, ex_metadata = [], ex_error = None, ex_error_type = None,
     ex_steps = [demo_step], ex_state = State_PLANNING\<rparr>"

definition demo_created :: service where
  "demo_created = snd (sv_create_execution demo_pg (demo_execution\<lparr>ex_steps := []\<rparr>) (new_service empty_database))"

definition demo_saved :: service where
  "demo_saved = snd (sv_update_execution demo_pg demo_execution demo_created)"

lemma demo_update: "sv_update_execution demo_pg demo_execution demo_created = (Inr (), demo_saved)"
proof -
  have "\<not> isl (fst (sv_update_execution demo_pg demo_execution demo_created))" by code_simp
  then show ?thesis
    by (cases "sv_update_execution demo_pg demo_execution demo_created"; cases "fst (sv_update_execution demo_pg demo_execution demo_created)")
       (auto simp: demo_saved_def)
qed

definition demo_record :: execution_record where
  "demo_record = execution_to_record demo_execution"

lemma demo_record_storable: "pg_storable demo_record"
  by (simp add: pg_storable_def demo_record_def execution_to_record_def demo_execution_def)

lemma demo_created_wf: "db_wf (sv_db demo_created)"
proof -
  have "same_records (snd (mem_write (Store_create (execution_to_record (demo_execution\<lparr>ex_steps := []\<rparr>))) []))
      (snd (pg_write demo_pg (Store_create (execution_to_record (demo_execution\<lparr>ex_steps := []\<rparr>))) (new_service empty_database)))"
    by (rule write_same_records [THEN conjunct2, OF demo_pg_works empty_database_records])
       (simp add: pg_storable_def execution_to_record_def)
  then show ?thesis by (simp add: same_records_def demo_created_def sv_create_execution_def)
qed

lemma demo_trace: "trace_inv (ex_steps demo_execution)"
  by (simp add: trace_inv_def demo_execution_def demo_step_def step_inv_def step_is_terminal_def step_is_failed_def)

lemma demo_step_ids: "distinct (map step_id (ex_steps demo_execution))"
  by (simp add: demo_execution_def)

text \<open>A database that refuses the first commit.\<close>

definition demo_refusing :: pg_env where
  "demo_refusing = demo_pg\<lparr>pe_commit := (\<lambda>n. if n = 2 then Some (Exc PyException ''refused'') else None)\<rparr>"

definition demo_refused :: service where
  "demo_refused = snd (sv_append_event demo_refusing demo_event (new_service empty_database))"

lemma demo_refused_body:
  "append_body demo_refusing demo_event ''e1'' (new_service empty_database) =
     (Inr (), snd (append_body demo_refusing demo_event ''e1'' (new_service empty_database)))"
  "pe_commit demo_refusing (sv_tick (snd (append_body demo_refusing demo_event ''e1'' (new_service empty_database))))
     = Some (Exc PyException ''refused'')"
  "sv_append_event demo_refusing demo_event demo_refused =
     (Inr (), snd (sv_append_event demo_refusing demo_event demo_refused))"
proof -
  have ok: "r = (Inr (), snd r)" if "\<not> isl (fst r)" for r :: "unit result \<times> service"
    using that by (cases r; cases "fst r") simp_all
  show "append_body demo_refusing demo_event ''e1'' (new_service empty_database) =
      (Inr (), snd (append_body demo_refusing demo_event ''e1'' (new_service empty_database)))"
    by (rule ok) code_simp
  show "pe_commit demo_refusing (sv_tick (snd (append_body demo_refusing demo_event ''e1'' (new_service empty_database))))
      = Some (Exc PyException ''refused'')"
    by code_simp
  show "sv_append_event demo_refusing demo_event demo_refused =
      (Inr (), snd (sv_append_event demo_refusing demo_event demo_refused))"
    by (rule ok) code_simp
qed

text \<open>Failover of the example: the first provider refuses the request, the second one answers it.\<close>

lemma demo_failover_served:
  "case fst (gw_failover demo_http (ap_failover demo_app) demo_payload demo_gateway) of
     Inr r \<Rightarrow> fr_provider r = ''b'' | Inl x \<Rightarrow> False"
  by code_simp

end
