(* ===== verification/Worker.thy ===== *)
theory Worker
  imports Backend PyText
begin

text \<open>
  The task worker (\<^verbatim>\<open>worker/app\<close>): the Valkey queue, the call of the agent service, the
  execution of one task with its attempts, retries and dead letters, the recovery of pending tasks, and
  the worker's loop.

  The Valkey server is not part of the repository: its commands are an argument (\<open>valkey\<close>), actions
  over a server state of their own, and any of them may raise.  What the worker relies on is stated as
  \<open>valkey_behaves\<close>.  The agent's replies, the clock, the signals and the cancellations are the
  environment, read at a common counter.
\<close>

section \<open>Numbers and dates in text\<close>

text \<open>\<open>int(x)\<close> of a float given by its \<open>repr\<close>: towards zero; \<open>1.5e+16\<close> is the form of large ones.\<close>

definition int_of_float :: "string \<Rightarrow> int result" where
  "int_of_float t =
     (let neg = (t \<noteq> [] \<and> hd t = CHR ''-''); u = (if neg then tl t else t) in
      if u = ''inf'' then raise (ExternalError ''OverflowError'') ''cannot convert float infinity to integer''
      else if u = ''nan'' then raise ValueError ''cannot convert float NaN to integer''
      else case py_partition (CHR ''e'') u of (m, _, ex) \<Rightarrow>
        (case py_partition (CHR ''.'') m of (i, _, f) \<Rightarrow>
          (let digits = (case digits_val 0 (i @ f) of Some n \<Rightarrow> int n | None \<Rightarrow> 0);
               x = (case py_int ex of Some k \<Rightarrow> k | None \<Rightarrow> 0);
               n = (if int (length f) \<le> x then digits * 10 ^ nat (x - int (length f))
                    else digits div 10 ^ nat (int (length f) - x)) in
           Inr (if neg then - n else n))))"

text \<open>\<open>s in t\<close>.\<close>

fun contains_text :: "string \<Rightarrow> string \<Rightarrow> bool" where
  "contains_text s [] = (s = [])"
| "contains_text s (c # t) = (take (length s) (c # t) = s \<or> contains_text s t)"

text \<open>\<open>int(value)\<close> of a JSON value.\<close>

definition int_of_value :: "pyval \<Rightarrow> int result" where
  "int_of_value x = (case x of
      PInt i \<Rightarrow> Inr i
    | PBool b \<Rightarrow> Inr (if b then 1 else 0)
    | PFloat t \<Rightarrow> int_of_float t
    | PStr t \<Rightarrow> (case py_int t of Some i \<Rightarrow> Inr i
        | None \<Rightarrow> raise ValueError (''invalid literal for int() with base 10: '' @ repr_str t))
    | _ \<Rightarrow> raise TypeError (''int() argument must be a string, a bytes-like object or a real number, not ''
         @ quoted (case x of PNone \<Rightarrow> ''NoneType'' | PList _ \<Rightarrow> ''list'' | _ \<Rightarrow> ''dict'')))"

text \<open>\<open>int((b - a).total_seconds() * 1000)\<close>.\<close>

definition elapsed_ms :: "time \<Rightarrow> time \<Rightarrow> int" where
  "elapsed_ms a b = (if a \<le> b then \<lfloor>(b - a) * 1000\<rfloor> else - \<lfloor>(a - b) * 1000\<rfloor>)"

section \<open>The queue\<close>

type_synonym message = "string \<times> (string \<times> string) list"

text \<open>
  The commands of the Valkey client.  A claim gives \<open>None\<close> for an empty reply and otherwise the
  messages of its second component.
\<close>

record 's valkey =
  vk_group_create :: "string \<Rightarrow> string \<Rightarrow> ('s, unit) act"
  vk_readgroup :: "string \<Rightarrow> string \<Rightarrow> string \<Rightarrow> int \<Rightarrow> int \<Rightarrow> ('s, (string \<times> message list) list) act"
  vk_autoclaim :: "string \<Rightarrow> string \<Rightarrow> string \<Rightarrow> int \<Rightarrow> int \<Rightarrow> ('s, message list option) act"
  vk_ack :: "string \<Rightarrow> string \<Rightarrow> string \<Rightarrow> ('s, unit) act"
  vk_add :: "string \<Rightarrow> (string \<times> string) list \<Rightarrow> ('s, string) act"
  vk_pending :: "string \<Rightarrow> string \<Rightarrow> ('s, pyval) act"
  vk_hget :: "string \<Rightarrow> string \<Rightarrow> ('s, string option) act"
  vk_hset :: "string \<Rightarrow> (string \<times> pyval) list \<Rightarrow> ('s, unit) act"
  vk_close :: "('s, unit) act"
  vk_sentinel_close :: "('s, unit) act"

datatype connection = Direct string | Via_sentinel "(string \<times> int) list" string

record worker_queue =
  wq_stream :: string
  wq_group :: string
  wq_consumer :: string
  wq_dead_letter :: string
  wq_idle_ms :: int
  wq_batch :: int
  wq_connection :: connection
  wq_password :: "string option"

text \<open>\<open>url\<close>, \<open>sentinel_hosts\<close>, \<open>master_name\<close> and \<open>password\<close> select the client.\<close>

definition new_queue ::
  "string \<Rightarrow> string \<Rightarrow> string \<Rightarrow> string \<Rightarrow> string \<Rightarrow> int \<Rightarrow> int \<Rightarrow> (string \<times> int) list option
     \<Rightarrow> string option \<Rightarrow> string option \<Rightarrow> worker_queue result" where
  "new_queue url stream grp consumer dlq idle batch hosts master password =
     (if idle < 1 then raise ValueError ''pending_idle_ms must be greater than zero''
      else if batch < 1 then raise ValueError ''pending_batch_size must be greater than zero''
      else Inr \<lparr>wq_stream = stream, wq_group = grp, wq_consumer = consumer, wq_dead_letter = dlq,
        wq_idle_ms = idle, wq_batch = batch,
        wq_connection = (case (hosts, master) of
            (Some (h # hs), Some (m # ms)) \<Rightarrow> Via_sentinel (h # hs) (m # ms)
          | _ \<Rightarrow> Direct url),
        wq_password = (if password = Some [] then None else password)\<rparr>)"

text \<open>
  What the worker did, in order: the requests to the agent, the waits with their time limits, and what
  became of the messages.  The code does not keep this log.
\<close>

datatype worker_event =
    Wk_run string string
  | Wk_completed string string
  | Wk_dead string string
  | Wk_wait int
  | Wk_ack string
  | Wk_not_ready string
  | Wk_no_execution string
  | Wk_closed

record 's worker_world =
  ww_server :: 's
  ww_tick :: nat
  ww_shutdown :: bool
  ww_log :: "worker_event list"

type_synonym ('s, 'a) wk = "('s worker_world, 'a) act"

definition on_server :: "('s, 'a) act \<Rightarrow> ('s, 'a) wk" where
  "on_server f w = (case f (ww_server w) of (r, s) \<Rightarrow> (r, w\<lparr>ww_server := s\<rparr>))"

definition note_event :: "worker_event \<Rightarrow> ('s, unit) wk" where
  "note_event x = modify (\<lambda>w. w\<lparr>ww_log := ww_log w @ [x]\<rparr>)"

definition ensure_group :: "'s valkey \<Rightarrow> worker_queue \<Rightarrow> ('s, unit) wk" where
  "ensure_group v q = catch (on_server (vk_group_create v (wq_stream q) (wq_group q)))
     (\<lambda>x. if exc_class x = ExternalError ''ResponseError'' \<and> contains_text ''BUSYGROUP'' (exc_msg x)
          then ret () else throw x)"

definition queue_read :: "'s valkey \<Rightarrow> worker_queue \<Rightarrow> ('s, (string \<times> message list) list) wk" where
  "queue_read v q = on_server (vk_readgroup v (wq_stream q) (wq_group q) (wq_consumer q) 1 5000)"

definition claim_pending :: "'s valkey \<Rightarrow> worker_queue \<Rightarrow> ('s, message list) wk" where
  "claim_pending v q =
     bnd (on_server (vk_autoclaim v (wq_stream q) (wq_group q) (wq_consumer q) (wq_idle_ms q) (wq_batch q)))
       (\<lambda>r. ret (case r of None \<Rightarrow> [] | Some ms \<Rightarrow> ms))"

definition acknowledge :: "'s valkey \<Rightarrow> worker_queue \<Rightarrow> string \<Rightarrow> ('s, unit) wk" where
  "acknowledge v q mid = seq (on_server (vk_ack v (wq_stream q) (wq_group q) mid)) (note_event (Wk_ack mid))"

definition dead_letter ::
  "'s valkey \<Rightarrow> worker_queue \<Rightarrow> string \<Rightarrow> string \<Rightarrow> string \<Rightarrow> int \<Rightarrow> string \<Rightarrow> ('s, string) wk" where
  "dead_letter v q mid eid intent attempt err =
     bnd (on_server (vk_add v (wq_dead_letter q)
        [(''execution_id'', eid), (''intent'', intent), (''attempt'', int_str attempt),
         (''original_message_id'', mid), (''error'', err), (''consumer'', wq_consumer q)])) (\<lambda>d.
     seq (note_event (Wk_dead mid d)) (seq (acknowledge v q mid) (ret d)))"

text \<open>\<open>result[0]\<close>: the reply of the client is a dict, whose keys are strings, or a list.\<close>

definition item_zero :: "pyval \<Rightarrow> pyval result" where
  "item_zero r = (case r of
      PList (x # _) \<Rightarrow> Inr x
    | PList [] \<Rightarrow> raise (ExternalError ''IndexError'') ''list index out of range''
    | PDict d \<Rightarrow> raise KeyError ''0''
    | PStr (c # _) \<Rightarrow> Inr (PStr [c])
    | PStr [] \<Rightarrow> raise (ExternalError ''IndexError'') ''string index out of range''
    | _ \<Rightarrow> raise TypeError ''object is not subscriptable'')"

definition pending_count :: "'s valkey \<Rightarrow> worker_queue \<Rightarrow> ('s, int) wk" where
  "pending_count v q = bnd (on_server (vk_pending v (wq_stream q) (wq_group q))) (\<lambda>r.
     lift_res (rbind (item_zero r) int_of_value))"

definition queue_close :: "'s valkey \<Rightarrow> worker_queue \<Rightarrow> ('s, unit) wk" where
  "queue_close v q = seq (on_server (vk_close v))
     (seq (case wq_connection q of Via_sentinel _ _ \<Rightarrow> on_server (vk_sentinel_close v) | Direct _ \<Rightarrow> ret ())
       (note_event Wk_closed))"

section \<open>The agent service\<close>

record worker_env =
  we_agent :: "nat \<Rightarrow> http_outcome"
  we_now :: "nat \<Rightarrow> time"
  we_signal :: "nat \<Rightarrow> bool"
  we_cancelled :: "nat \<Rightarrow> bool"
  we_iso :: "time \<Rightarrow> string"
  we_parse_iso :: "string \<Rightarrow> time result"

definition tick_read :: "(nat \<Rightarrow> 'a) \<Rightarrow> ('s, 'a) wk" where
  "tick_read f w = (Inr (f (ww_tick w)), w\<lparr>ww_tick := ww_tick w + 1\<rparr>)"

text \<open>At an \<open>await\<close> the signal handlers may run and the task may be cancelled.\<close>

definition request_shutdown :: "('s, unit) wk" where
  "request_shutdown = modify (\<lambda>w. w\<lparr>ww_shutdown := True\<rparr>)"

definition await_point :: "worker_env \<Rightarrow> ('s, unit) wk" where
  "await_point e = bnd (tick_read (\<lambda>n. (we_signal e n, we_cancelled e n))) (\<lambda>(sig, cancelled).
     seq (guarded sig request_shutdown)
       (if cancelled then throw (Exc CancelledError []) else ret ()))"

text \<open>
  \<open>asyncio.wait_for(shutdown_event.wait(), timeout=d)\<close>, or \<open>asyncio.sleep(d)\<close>: it ends when the time has
  passed or, if there is the shutdown event, when that is set; a cancellation ends it too.
\<close>

definition timed_wait :: "worker_env \<Rightarrow> int \<Rightarrow> ('s, unit) wk" where
  "timed_wait e d = seq (note_event (Wk_wait d)) (await_point e)"

text \<open>The reply to \<open>POST /v1/agent/run\<close>, checked.\<close>

definition agent_result :: "http_outcome \<Rightarrow> pydict result" where
  "agent_result out = (case out of Failed x \<Rightarrow> Inl x
     | Replied r \<Rightarrow> rbind (raise_for_status r) (\<lambda>_. case hr_json r of
          None \<Rightarrow> raise JSONDecodeError ''Expecting value''
        | Some (PDict d) \<Rightarrow> Inr d
        | Some _ \<Rightarrow> raise RuntimeError ''Agent returned an invalid response''))"

definition agent_run :: "worker_env \<Rightarrow> string \<Rightarrow> string \<Rightarrow> ('s, pydict) wk" where
  "agent_run e mid intent =
     seq (note_event (Wk_run mid intent))
     (seq (await_point e)
     (bnd (tick_read (we_agent e)) (\<lambda>out. lift_res (agent_result out))))"

section \<open>The execution of one task\<close>

record executor =
  tx_max_attempts :: int
  tx_base :: int
  tx_max :: int

definition state_key :: "string \<Rightarrow> string" where
  "state_key eid = ''agenyx:execution:'' @ eid"

text \<open>The keyword arguments of \<open>_update_state\<close>; \<open>PNone\<close> and \<open>None\<close> are the defaults.\<close>

record state_update =
  su_status :: string
  su_answer :: pyval
  su_error :: "string option"
  su_steps :: "int option"
  su_attempt :: "int option"
  su_worker :: "string option"
  su_queued_at :: "string option"
  su_started_at :: "string option"
  su_completed_at :: "string option"
  su_failed_at :: "string option"
  su_retry_at :: "string option"
  su_duration_ms :: "int option"
  su_message_id :: "string option"
  su_dead_letter_id :: "string option"

definition update_of :: "string \<Rightarrow> state_update" where
  "update_of status = \<lparr>su_status = status, su_answer = PNone, su_error = None, su_steps = None,
     su_attempt = None, su_worker = None, su_queued_at = None, su_started_at = None,
     su_completed_at = None, su_failed_at = None, su_retry_at = None, su_duration_ms = None,
     su_message_id = None, su_dead_letter_id = None\<rparr>"

definition text_field :: "string \<Rightarrow> string option \<Rightarrow> (string \<times> pyval) list" where
  "text_field f v = (case v of None \<Rightarrow> [] | Some t \<Rightarrow> [(f, PStr t)])"

definition state_mapping :: "state_update \<Rightarrow> (string \<times> pyval) list" where
  "state_mapping u =
     [(''status'', PStr (su_status u))]
     @ (if su_answer u = PNone then [] else [(''answer'', su_answer u)])
     @ text_field ''error'' (su_error u)
     @ text_field ''steps'' (map_option int_str (su_steps u))
     @ text_field ''attempt'' (map_option int_str (su_attempt u))
     @ text_field ''worker'' (su_worker u)
     @ text_field ''queued_at'' (su_queued_at u)
     @ text_field ''started_at'' (su_started_at u)
     @ text_field ''completed_at'' (su_completed_at u)
     @ text_field ''failed_at'' (su_failed_at u)
     @ text_field ''retry_at'' (su_retry_at u)
     @ text_field ''duration_ms'' (map_option int_str (su_duration_ms u))
     @ text_field ''original_message_id'' (su_message_id u)
     @ text_field ''dead_letter_message_id'' (su_dead_letter_id u)"

definition update_state :: "'s valkey \<Rightarrow> string \<Rightarrow> state_update \<Rightarrow> ('s, unit) wk" where
  "update_state v eid u = on_server (vk_hset v (state_key eid) (state_mapping u))"

definition get_attempt :: "'s valkey \<Rightarrow> string \<Rightarrow> ('s, int) wk" where
  "get_attempt v eid = bnd (on_server (vk_hget v (state_key eid) ''attempt'')) (\<lambda>st.
     ret (case st of None \<Rightarrow> 0 | Some t \<Rightarrow> (case py_int t of None \<Rightarrow> 0 | Some i \<Rightarrow> i)))"

definition retry_delay :: "executor \<Rightarrow> int \<Rightarrow> int" where
  "retry_delay x attempt = min (tx_base x * 2 ^ nat (max (attempt - 1) 0)) (tx_max x)"

definition wait_for_retry :: "worker_env \<Rightarrow> int \<Rightarrow> ('s, unit) wk" where
  "wait_for_retry e delay = (if delay \<le> 0 then ret () else timed_wait e delay)"

definition handle_failure ::
  "worker_env \<Rightarrow> 's valkey \<Rightarrow> worker_queue \<Rightarrow> executor \<Rightarrow> string \<Rightarrow> string \<Rightarrow> string \<Rightarrow> int \<Rightarrow> time \<Rightarrow> string
     \<Rightarrow> ('s, unit) wk" where
  "handle_failure e v q x eid intent mid attempt started err =
     bnd (tick_read (we_now e)) (\<lambda>t1. let ms = elapsed_ms started t1 in
     if tx_max_attempts x \<le> attempt then
       bnd (dead_letter v q mid eid intent attempt err) (\<lambda>d.
       bnd (tick_read (we_now e)) (\<lambda>t2.
       update_state v eid ((update_of ''failed'')\<lparr>su_error := Some err, su_attempt := Some attempt,
         su_worker := Some (wq_consumer q), su_failed_at := Some (we_iso e t2), su_retry_at := Some [],
         su_duration_ms := Some ms, su_dead_letter_id := Some d\<rparr>)))
     else
       bnd (tick_read (we_now e)) (\<lambda>t2. let retry_at = t2 + of_int (retry_delay x attempt) in
       bnd (tick_read (we_now e)) (\<lambda>t3.
       seq (update_state v eid ((update_of ''retrying'')\<lparr>su_error := Some err, su_attempt := Some attempt,
         su_worker := Some (wq_consumer q), su_failed_at := Some (we_iso e t3),
         su_retry_at := Some (we_iso e retry_at), su_duration_ms := Some ms\<rparr>))
       (wait_for_retry e (retry_delay x attempt)))))"

definition payload_field :: "(string \<times> string) list \<Rightarrow> string \<Rightarrow> string result" where
  "payload_field p f = (case map_of p f of Some t \<Rightarrow> Inr t | None \<Rightarrow> raise KeyError (repr_str f))"

text \<open>Recording a success; every exception here leaves the message unacknowledged.\<close>

definition handle_success ::
  "worker_env \<Rightarrow> 's valkey \<Rightarrow> worker_queue \<Rightarrow> string \<Rightarrow> string \<Rightarrow> int \<Rightarrow> time \<Rightarrow> pydict \<Rightarrow> ('s, unit) wk" where
  "handle_success e v q eid mid attempt started res =
     bnd (tick_read (we_now e)) (\<lambda>t1.
     bnd (lift_res (case dget res ''steps'' of PNone \<Rightarrow> Inr None
            | s \<Rightarrow> rbind (int_of_value s) (\<lambda>i. Inr (Some i)))) (\<lambda>steps.
     bnd (tick_read (we_now e)) (\<lambda>t2.
     seq (update_state v eid ((update_of ''completed'')\<lparr>su_answer := dget res ''answer'', su_error := Some [],
        su_steps := steps, su_attempt := Some attempt, su_worker := Some (wq_consumer q),
        su_completed_at := Some (we_iso e t2), su_retry_at := Some [], su_failed_at := Some [],
        su_duration_ms := Some (elapsed_ms started t1)\<rparr>))
     (seq (note_event (Wk_completed mid eid)) (acknowledge v q mid)))))"

definition executor_execute ::
  "worker_env \<Rightarrow> 's valkey \<Rightarrow> worker_queue \<Rightarrow> executor \<Rightarrow> message \<Rightarrow> ('s, unit) wk" where
  "executor_execute e v q x msg = (let mid = fst msg in
     bnd (lift_res (payload_field (snd msg) ''execution_id'')) (\<lambda>eid.
     bnd (lift_res (payload_field (snd msg) ''intent'')) (\<lambda>intent.
     bnd (get_attempt v eid) (\<lambda>a. let attempt = a + 1 in
     bnd (tick_read (we_now e)) (\<lambda>started.
     seq (update_state v eid ((update_of ''running'')\<lparr>su_attempt := Some attempt,
        su_worker := Some (wq_consumer q), su_started_at := Some (we_iso e started),
        su_message_id := Some mid, su_error := Some [], su_retry_at := Some [], su_failed_at := Some []\<rparr>))
     (bnd (catch (bnd (agent_run e mid intent) (\<lambda>d. ret (Inr d)))
            (\<lambda>ex. if isinstance_exc ex PyException then ret (Inl ex) else throw ex)) (\<lambda>r.
     case r of
       Inl ex \<Rightarrow> handle_failure e v q x eid intent mid attempt started (exc_msg ex)
     | Inr res \<Rightarrow> handle_success e v q eid mid attempt started res)))))))"

section \<open>The worker\<close>

text \<open>\<open>parse_retry_at\<close>: the empty and the unreadable text give no time.\<close>

definition parse_retry_at :: "worker_env \<Rightarrow> string option \<Rightarrow> time option" where
  "parse_retry_at e value = (case value of None \<Rightarrow> None
     | Some t \<Rightarrow> (if t = [] then None else (case we_parse_iso e t of Inr x \<Rightarrow> Some x | Inl _ \<Rightarrow> None)))"

definition has_execution :: "message \<Rightarrow> bool" where
  "has_execution msg \<longleftrightarrow> (case map_of (snd msg) ''execution_id'' of None \<Rightarrow> False | Some t \<Rightarrow> t \<noteq> [])"

text \<open>After an execution the worker reads the state to log it; no exception but a cancellation escapes.\<close>

definition process_message ::
  "worker_env \<Rightarrow> 's valkey \<Rightarrow> worker_queue \<Rightarrow> executor \<Rightarrow> message \<Rightarrow> ('s, unit) wk" where
  "process_message e v q x msg =
     (if \<not> has_execution msg then note_event (Wk_no_execution (fst msg))
      else let key = state_key (the (map_of (snd msg) ''execution_id'')) in
        catch (seq (executor_execute e v q x msg)
            (bnd (on_server (vk_hget v key ''status'')) (\<lambda>st.
               if st = Some ''retrying'' then bnd (on_server (vk_hget v key ''retry_at'')) (\<lambda>_. ret ())
               else ret ())))
          (\<lambda>ex. if isinstance_exc ex PyException then ret () else throw ex))"

text \<open>One claimed message: skipped while its retry time has not come.\<close>

definition recover_message ::
  "worker_env \<Rightarrow> 's valkey \<Rightarrow> worker_queue \<Rightarrow> executor \<Rightarrow> message \<Rightarrow> ('s, unit) wk" where
  "recover_message e v q x msg =
     (if \<not> has_execution msg then note_event (Wk_no_execution (fst msg))
      else bnd (on_server (vk_hget v (state_key (the (map_of (snd msg) ''execution_id''))) ''retry_at'')) (\<lambda>raw.
        case parse_retry_at e raw of
          None \<Rightarrow> process_message e v q x msg
        | Some t \<Rightarrow> bnd (tick_read (we_now e)) (\<lambda>now.
            if now < t then note_event (Wk_not_ready (fst msg)) else process_message e v q x msg)))"

text \<open>The messages of a batch until a shutdown is requested.\<close>

primrec until_shutdown :: "message list \<Rightarrow> (message \<Rightarrow> ('s, unit) wk) \<Rightarrow> ('s, unit) wk" where
  "until_shutdown [] f = ret ()"
| "until_shutdown (m # ms) f = bnd (gets ww_shutdown) (\<lambda>stop.
     if stop then ret () else seq (f m) (until_shutdown ms f))"

text \<open>\<open>asyncio.to_thread(f)\<close>, with \<open>except ValkeyTimeoutError\<close> and \<open>except Exception\<close>: \<open>None\<close> for either.\<close>

definition in_thread :: "worker_env \<Rightarrow> ('s, 'a) wk \<Rightarrow> ('s, exc + 'a) wk" where
  "in_thread e m = catch (seq (await_point e) (bnd m (\<lambda>a. seq (await_point e) (ret (Inr a)))))
     (\<lambda>x. if isinstance_exc x PyException then ret (Inl x) else throw x)"

definition recover_pending ::
  "worker_env \<Rightarrow> 's valkey \<Rightarrow> worker_queue \<Rightarrow> executor \<Rightarrow> ('s, unit) wk" where
  "recover_pending e v q x = bnd (in_thread e (claim_pending v q)) (\<lambda>r. case r of
      Inl _ \<Rightarrow> ret ()
    | Inr ms \<Rightarrow> until_shutdown ms (recover_message e v q x))"

text \<open>
  One turn of the loop.  After a failed read that is not a time-out of Valkey the worker waits,
  interruptibly, before the next turn.
\<close>

definition worker_turn ::
  "worker_env \<Rightarrow> 's valkey \<Rightarrow> worker_queue \<Rightarrow> executor \<Rightarrow> ('s, unit) wk" where
  "worker_turn e v q x = seq (recover_pending e v q x) (bnd (gets ww_shutdown) (\<lambda>stop.
     if stop then ret () else bnd (in_thread e (queue_read v q)) (\<lambda>r. case r of
         Inl ex \<Rightarrow> (if exc_class ex = ExternalError ''ValkeyTimeoutError'' then ret () else timed_wait e 2)
       | Inr streams \<Rightarrow> for_each streams (\<lambda>(_, ms). until_shutdown ms (process_message e v q x)))))"

text \<open>\<open>while not self._shutdown.is_set()\<close>, for at most \<open>n\<close> turns.\<close>

primrec worker_turns ::
  "nat \<Rightarrow> worker_env \<Rightarrow> 's valkey \<Rightarrow> worker_queue \<Rightarrow> executor \<Rightarrow> ('s, unit) wk" where
  "worker_turns 0 e v q x = ret ()"
| "worker_turns (Suc n) e v q x = bnd (gets ww_shutdown) (\<lambda>stop.
     if stop then ret () else seq (worker_turn e v q x) (worker_turns n e v q x))"

definition worker_run ::
  "nat \<Rightarrow> worker_env \<Rightarrow> 's valkey \<Rightarrow> worker_queue \<Rightarrow> executor \<Rightarrow> ('s, unit) wk" where
  "worker_run n e v q x = seq (ensure_group v q) (ensure (worker_turns n e v q x) (queue_close v q))"

section \<open>What an acknowledgement means\<close>

text \<open>
  An event is in order after the events before it: a task is completed or dead-lettered only after it
  was run, and acknowledged only after it was completed or dead-lettered.
\<close>

definition ran_task :: "string \<Rightarrow> worker_event \<Rightarrow> bool" where
  "ran_task mid x = (case x of Wk_run m i \<Rightarrow> m = mid | _ \<Rightarrow> False)"

definition settled_task :: "string \<Rightarrow> worker_event \<Rightarrow> bool" where
  "settled_task mid x = (case x of Wk_completed m eid \<Rightarrow> m = mid | Wk_dead m d \<Rightarrow> m = mid | _ \<Rightarrow> False)"

definition event_ok :: "worker_event list \<Rightarrow> worker_event \<Rightarrow> bool" where
  "event_ok seen x = (case x of
      Wk_ack m \<Rightarrow> list_ex (settled_task m) seen
    | Wk_completed m eid \<Rightarrow> list_ex (ran_task m) seen
    | Wk_dead m d \<Rightarrow> list_ex (ran_task m) seen
    | _ \<Rightarrow> True)"

fun log_ok_after :: "worker_event list \<Rightarrow> worker_event list \<Rightarrow> bool" where
  "log_ok_after seen [] = True"
| "log_ok_after seen (x # l) = (event_ok seen x \<and> log_ok_after (seen @ [x]) l)"

definition log_ok :: "worker_event list \<Rightarrow> bool" where
  "log_ok l = log_ok_after [] l"

lemma log_ok_after_snoc: "log_ok_after seen (l @ [x]) = (log_ok_after seen l \<and> event_ok (seen @ l) x)"
  by (induction l arbitrary: seen) auto

lemma log_ok_Nil [simp]: "log_ok []"
  by (simp add: log_ok_def)

lemma log_ok_snoc [simp]: "log_ok (l @ [x]) = (log_ok l \<and> event_ok l x)"
  by (simp add: log_ok_def log_ok_after_snoc)

lemma log_ok_split: "log_ok (pre @ x # post) \<Longrightarrow> event_ok pre x"
proof (induction post rule: rev_induct)
  case (snoc y post)
  then show ?case using log_ok_snoc [of "pre @ x # post" y] by simp
qed simp

text \<open>What precedes an acknowledgement.\<close>

lemma ran_before: "log_ok (pre @ x # post) \<Longrightarrow> settled_task mid x \<Longrightarrow> list_ex (ran_task mid) pre"
  by (drule log_ok_split) (auto simp: event_ok_def settled_task_def split: worker_event.splits)

lemma list_ex_split: "list_ex P l \<Longrightarrow> \<exists>a x b. l = a @ x # b \<and> P x"
  unfolding list_ex_iff using split_list by fast

lemma acknowledged_history:
  assumes "log_ok (pre @ Wk_ack mid # post)"
  shows "\<exists>a b x c i. pre = a @ Wk_run mid i # b @ x # c \<and> settled_task mid x"
proof -
  have "list_ex (settled_task mid) pre" using log_ok_split [OF assms] by (simp add: event_ok_def)
  then obtain a x c where pre: "pre = a @ x # c" "settled_task mid x" using list_ex_split by blast
  then have "list_ex (ran_task mid) a" using assms ran_before [of a x "c @ Wk_ack mid # post" mid] by simp
  then obtain a' y b where a: "a = a' @ y # b" "ran_task mid y" using list_ex_split by blast
  then obtain i where "y = Wk_run mid i" by (cases y) (simp_all add: ran_task_def)
  with pre a show ?thesis by (metis append.assoc append_Cons)
qed

lemma wp_note_event [wp]: "wp (note_event x) Q E w = Q () (w\<lparr>ww_log := ww_log w @ [x]\<rparr>)"
  by (simp add: note_event_def wp)

lemma wp_tick_read [wp]: "wp (tick_read f) Q E w = Q (f (ww_tick w)) (w\<lparr>ww_tick := ww_tick w + 1\<rparr>)"
  by (simp add: tick_read_def wp_def)

text \<open>The commands and the waits leave the log as it is.\<close>

interpretation same_log: kept "\<lambda>s t. ww_log t = ww_log (s :: 's worker_world)"
  by unfold_locales simp_all

lemma same_log_server [intro]: "same_log.keeps (on_server f)"
  by (rule same_log.keepsI) (simp add: on_server_def split_beta)

lemma same_log_tick [intro]: "same_log.keeps (tick_read f)"
  by (rule same_log.keepsI) (simp add: tick_read_def)

lemma same_log_await [intro]: "same_log.keeps (await_point e)"
  by (auto simp: await_point_def request_shutdown_def
      intro!: same_log.keeps_rules same_log.keeps_modify split: prod.splits)

lemma same_log_update [intro]: "same_log.keeps (update_state v eid u)"
  by (auto simp: update_state_def)

lemma same_log_attempt [intro]: "same_log.keeps (get_attempt v eid)"
  by (auto simp: get_attempt_def intro!: same_log.keeps_rules)

lemma same_log_queue [intro]:
  "same_log.keeps (queue_read v q)" "same_log.keeps (claim_pending v q)" "same_log.keeps (ensure_group v q)"
  by (auto simp: queue_read_def claim_pending_def ensure_group_def intro!: same_log.keeps_rules)

definition ordered :: "'s worker_world \<Rightarrow> bool" where
  "ordered w \<longleftrightarrow> log_ok (ww_log w)"

definition ran :: "string \<Rightarrow> 's worker_world \<Rightarrow> bool" where
  "ran mid w \<longleftrightarrow> log_ok (ww_log w) \<and> list_ex (ran_task mid) (ww_log w)"

lemma ran_ordered: "ran mid w \<Longrightarrow> ordered w"
  by (simp add: ran_def ordered_def)

lemma acknowledge_ordered:
  assumes "log_ok (ww_log w)" "list_ex (settled_task mid) (ww_log w)"
  shows "wp (acknowledge v q mid) (\<lambda>_. ordered) (\<lambda>_. ordered) w"
  unfolding acknowledge_def
  by (rule same_log.seq_after [OF same_log_server])
     (use assms in \<open>auto simp: wp ordered_def event_ok_def\<close>)

lemma dead_letter_ordered:
  assumes "ran mid w"
  shows "wp (dead_letter v q mid eid intent a err) (\<lambda>_. ordered) (\<lambda>_. ordered) w"
  unfolding dead_letter_def
proof (rule same_log.bnd_after [OF same_log_server])
  fix d and t :: "'a worker_world" assume t: "ww_log t = ww_log w"
  let ?t = "t\<lparr>ww_log := ww_log t @ [Wk_dead mid d]\<rparr>"
  have "wp (acknowledge v q mid) (\<lambda>_. ordered) (\<lambda>_. ordered) ?t"
    by (rule acknowledge_ordered) (use assms t in \<open>simp_all add: ran_def event_ok_def settled_task_def\<close>)
  then show "wp (seq (note_event (Wk_dead mid d)) (seq (acknowledge v q mid) (ret d)))
      (\<lambda>_. ordered) (\<lambda>_. ordered) t"
    unfolding wp_seq wp_note_event wp_ret .
qed (use assms ran_ordered in \<open>auto simp: ordered_def ran_def\<close>)

lemma ordered_same: "ww_log t = ww_log s \<Longrightarrow> ordered s \<Longrightarrow> ordered t"
  by (simp add: ordered_def)

lemma same_log_ordered: "same_log.keeps m \<Longrightarrow> ordered w \<Longrightarrow> wp m (\<lambda>_. ordered) (\<lambda>_. ordered) w"
  by (erule same_log.wp_after) (auto intro: ordered_same)

lemma timed_wait_ordered:
  assumes "ordered w"
  shows "wp (timed_wait e d) (\<lambda>_. ordered) (\<lambda>_. ordered) w"
  unfolding timed_wait_def wp_seq wp_note_event
  by (rule same_log_ordered [OF same_log_await]) (use assms in \<open>simp add: ordered_def event_ok_def\<close>)

lemma handle_failure_ordered:
  assumes "ran mid w"
  shows "wp (handle_failure e v q x eid intent mid a started err) (\<lambda>_. ordered) (\<lambda>_. ordered) w"
proof (cases "tx_max_attempts x \<le> a")
  case True
  let ?w = "w\<lparr>ww_tick := ww_tick w + 1\<rparr>"
  have "wp (dead_letter v q mid eid intent a err) (\<lambda>_. ordered) (\<lambda>_. ordered) ?w"
    by (rule dead_letter_ordered) (use assms in \<open>simp add: ran_def\<close>)
  then show ?thesis
    unfolding handle_failure_def wp_bnd [of "tick_read _"] wp_tick_read Let_def if_P [OF True] wp_bnd
    by (rule wp_mono) (auto intro!: same_log_ordered simp: ordered_def)
next
  case False
  show ?thesis
    unfolding handle_failure_def wp_bnd wp_tick_read Let_def if_not_P [OF False]
    by (rule same_log.seq_after [OF same_log_update])
       (use assms in \<open>auto simp: wp wait_for_retry_def ran_def ordered_def intro!: timed_wait_ordered\<close>)
qed

lemma handle_success_ordered:
  assumes "ran mid w"
  shows "wp (handle_success e v q eid mid a started res) (\<lambda>_. ordered) (\<lambda>_. ordered) w"
  unfolding handle_success_def wp_bnd wp_tick_read wp_lift_res
  by (intro conjI allI impI; (rule same_log.seq_after [OF same_log_update])?)
     (use assms in \<open>auto simp: wp ran_def ordered_def event_ok_def settled_task_def
        intro!: acknowledge_ordered\<close>)

text \<open>The run of a task by the agent is noted before its reply; no other event is.\<close>

lemma agent_run_ran:
  assumes "ordered w"
  shows "wp (agent_run e mid intent) (\<lambda>_. ran mid) (\<lambda>_. ran mid) w"
  unfolding agent_run_def wp_seq wp_note_event wp_bnd
  by (rule same_log.wp_after [OF same_log_await])
     (use assms in \<open>auto simp: wp ran_def ordered_def event_ok_def ran_task_def\<close>)

lemma executor_execute_ordered:
  assumes "ordered w"
  shows "wp (executor_execute e v q x msg) (\<lambda>_. ordered) (\<lambda>_. ordered) w"
proof -
  have run: "wp (bnd (catch (bnd (agent_run e mid intent) (\<lambda>d. ret (Inr d)))
            (\<lambda>ex. if isinstance_exc ex PyException then ret (Inl ex) else throw ex)) (\<lambda>r.
     case r of
       Inl ex \<Rightarrow> handle_failure e v q x eid intent mid a started (exc_msg ex)
     | Inr res \<Rightarrow> handle_success e v q eid mid a started res)) (\<lambda>_. ordered) (\<lambda>_. ordered) t"
    if "ordered t" for mid intent eid a started and t :: "'a worker_world"
    unfolding wp_bnd wp_catch
    by (rule wp_mono [OF agent_run_ran [OF that]])
       (auto simp: wp ran_ordered intro!: handle_failure_ordered handle_success_ordered)
  have body: "wp (bnd (get_attempt v eid) (\<lambda>a. let attempt = a + 1 in
     bnd (tick_read (we_now e)) (\<lambda>started. seq (update_state v eid (u attempt started)) (m attempt started))))
     (\<lambda>_. ordered) (\<lambda>_. ordered) w"
    if "\<And>a st t. ordered t \<Longrightarrow> wp (m a st) (\<lambda>_. ordered) (\<lambda>_. ordered) (t :: 'a worker_world)" for eid u m
    unfolding Let_def
    by (rule same_log.bnd_after [OF same_log_attempt], unfold wp_bnd wp_tick_read,
        rule same_log.seq_after [OF same_log_update])
       (use assms that in \<open>auto simp: ordered_def\<close>)
  show ?thesis
    unfolding executor_execute_def Let_def [of "fst msg"]
    unfolding wp_bnd [of "lift_res _"] wp_lift_res
    using assms by (intro conjI allI impI body run) auto
qed

lemma process_message_ordered:
  assumes "ordered w"
  shows "wp (process_message e v q x msg) (\<lambda>_. ordered) (\<lambda>_. ordered) w"
proof -
  have after: "wp (bnd (on_server (vk_hget v key f)) g) (\<lambda>_. ordered) E t"
    if "ordered t" "\<And>st t. ordered t \<Longrightarrow> wp (g st) (\<lambda>_. ordered) E t" "\<And>ex t. ordered t \<Longrightarrow> E ex t"
    for key f g E and t :: "'a worker_world"
    by (rule same_log.bnd_after [OF same_log_server]) (blast intro: that(2,3) ordered_same [OF _ that(1)])+
  have handled: "ordered t \<Longrightarrow> wp (if isinstance_exc ex PyException then ret () else throw ex)
      (\<lambda>_. ordered) (\<lambda>_. ordered) t" for ex and t :: "'a worker_world"
    by (simp add: wp)
  show ?thesis
  proof (cases "has_execution msg")
    case False
    with assms show ?thesis by (simp add: process_message_def wp ordered_def event_ok_def)
  next
    case True
    then have has: "\<not> \<not> has_execution msg" by simp
    show ?thesis
      unfolding process_message_def if_not_P [OF has] Let_def wp_catch wp_seq
      by (rule wp_mono [OF executor_execute_ordered [OF assms]])
         (auto intro!: after handled simp: wp_ret wp_throw split: if_splits)
  qed
qed

lemma recover_message_ordered:
  assumes "ordered w"
  shows "wp (recover_message e v q x msg) (\<lambda>_. ordered) (\<lambda>_. ordered) w"
proof (cases "has_execution msg")
  case False
  with assms show ?thesis by (simp add: recover_message_def wp ordered_def event_ok_def)
next
  case True
  then show ?thesis
    unfolding recover_message_def
    by (simp, intro same_log.bnd_after [OF same_log_server])
       (use assms in \<open>auto simp: wp ordered_def event_ok_def process_message_ordered split: option.splits\<close>)
qed

lemma until_shutdown_ordered:
  assumes "\<And>m t. ordered t \<Longrightarrow> wp (f m) (\<lambda>_. ordered) (\<lambda>_. ordered) (t :: 's worker_world)" "ordered w"
  shows "wp (until_shutdown ms f) (\<lambda>_. ordered) (\<lambda>_. ordered) w"
  using assms(2)
proof (induction ms arbitrary: w)
  case (Cons m ms)
  have "wp (f m) (\<lambda>_. wp (until_shutdown ms f) (\<lambda>_. ordered) (\<lambda>_. ordered)) (\<lambda>_. ordered) w"
    by (rule wp_mono [OF assms(1) [OF Cons.prems]]) (auto intro: Cons.IH)
  with Cons.prems show ?case by (simp add: wp)
qed (simp add: wp)

lemma in_thread_same: "same_log.keeps m \<Longrightarrow> same_log.keeps (in_thread e m)"
  by (auto simp: in_thread_def intro!: same_log.keeps_rules)

lemma worker_turn_ordered:
  assumes "ordered w"
  shows "wp (worker_turn e v q x) (\<lambda>_. ordered) (\<lambda>_. ordered) w"
proof -
  have rec: "wp (recover_pending e v q x) (\<lambda>_. ordered) (\<lambda>_. ordered) w"
    unfolding recover_pending_def
    by (rule same_log.bnd_after [OF in_thread_same])
       (use assms in \<open>auto simp: wp ordered_same intro!: until_shutdown_ordered recover_message_ordered
          split: sum.splits\<close>)
  have streams: "wp (for_each ss (\<lambda>(n, ms). until_shutdown ms (process_message e v q x)))
      (\<lambda>_. ordered) (\<lambda>_. ordered) t" if "ordered t" for ss and t :: "'a worker_world"
    by (rule wp_for_each [where I = ordered])
       (use that in \<open>auto intro!: until_shutdown_ordered process_message_ordered\<close>)
  have read: "wp (bnd (in_thread e (queue_read v q)) (\<lambda>r. case r of
         Inl ex \<Rightarrow> (if exc_class ex = ExternalError ''ValkeyTimeoutError'' then ret () else timed_wait e 2)
       | Inr ss \<Rightarrow> for_each ss (\<lambda>(n, ms). until_shutdown ms (process_message e v q x))))
      (\<lambda>_. ordered) (\<lambda>_. ordered) t" if "ordered t" for t :: "'a worker_world"
    by (rule same_log.bnd_after [OF in_thread_same])
       (use that in \<open>auto simp: wp ordered_same intro!: streams timed_wait_ordered split: sum.splits\<close>)
  show ?thesis
    unfolding worker_turn_def wp_seq wp_bnd [of "gets _"] wp_gets
    by (rule wp_mono [OF rec]) (use read in \<open>auto simp: wp\<close>)
qed

lemma worker_run_ordered:
  assumes "ordered w"
  shows "wp (worker_run n e v q x) (\<lambda>_. ordered) (\<lambda>_. ordered) w"
proof -
  have turns: "wp (worker_turns n e v q x) (\<lambda>_. ordered) (\<lambda>_. ordered) t" if "ordered t" for t :: "'a worker_world"
    using that
  proof (induction n arbitrary: t)
    case (Suc n)
    have "wp (seq (worker_turn e v q x) (worker_turns n e v q x)) (\<lambda>_. ordered) (\<lambda>_. ordered) t"
      unfolding wp_seq by (rule wp_mono [OF worker_turn_ordered [OF Suc.prems]]) (auto intro: Suc.IH)
    with Suc.prems show ?case by (simp add: wp)
  qed (simp add: wp)
  have sentinel: "same_log.keeps (case wq_connection q of
      Via_sentinel _ _ \<Rightarrow> on_server (vk_sentinel_close v) | Direct _ \<Rightarrow> ret ())"
    by (auto split: connection.split intro!: same_log.keeps_rules)
  have close: "wp (queue_close v q) (\<lambda>_. ordered) (\<lambda>_. ordered) t" if "ordered t" for t :: "'a worker_world"
    unfolding queue_close_def
    by (rule same_log.seq_after [OF same_log_server], unfold wp_seq,
        rule same_log.wp_after [OF sentinel])
       (use that in \<open>auto simp: wp ordered_def event_ok_def\<close>)
  have fin: "wp (ensure (worker_turns n e v q x) (queue_close v q)) (\<lambda>_. ordered) (\<lambda>_. ordered) t"
    if "ordered t" for t :: "'a worker_world"
    unfolding wp_ensure by (rule wp_mono [OF turns [OF that]]) (auto intro!: close)
  show ?thesis
    unfolding worker_run_def
    by (rule same_log.seq_after [OF same_log_queue(3)]) (use assms ordered_same in \<open>auto intro!: fin\<close>)
qed

end
