(* ===== verification/WorkerRetries.thy ===== *)
theory WorkerRetries
  imports Worker
begin

text \<open>
  Tasks the agent keeps failing: on a Valkey server that behaves as documented, the delivery of the
  message runs the task and counts an attempt, which is put off by doubling delays; a claim of the message
  runs it again once its retry time has come, and only then; and the last attempt puts the task into the
  dead-letter stream and acknowledges it.
\<close>

section \<open>The server\<close>

text \<open>
  \<open>hash s k f\<close> is the field \<open>f\<close> of the hash \<open>k\<close>, \<open>pend s\<close> are the messages delivered and not
  acknowledged: HGET reads a field, HSET sets the fields it is given, XADD adds an entry elsewhere, and
  XACK removes one message from the pending ones.
\<close>

fun set_fields :: "(string \<Rightarrow> string option) \<Rightarrow> (string \<times> pyval) list \<Rightarrow> string \<Rightarrow> string option" where
  "set_fields h [] = h"
| "set_fields h ((f, PStr t) # m) = set_fields (h(f \<mapsto> t)) m"
| "set_fields h ((f, _) # m) = set_fields h m"

definition texts :: "(string \<times> pyval) list \<Rightarrow> bool" where
  "texts m \<longleftrightarrow> list_all (\<lambda>(f, x). is_str x) m"

definition valkey_behaves ::
  "'s valkey \<Rightarrow> ('s \<Rightarrow> string \<Rightarrow> string \<Rightarrow> string option) \<Rightarrow> ('s \<Rightarrow> (string \<times> string \<times> string) set) \<Rightarrow> bool" where
  "valkey_behaves v hash pend \<longleftrightarrow>
     (\<forall>k f s. vk_hget v k f s = (Inr (hash s k f), s))
     \<and> (\<forall>k m s. texts m \<longrightarrow> (\<exists>t. vk_hset v k m s = (Inr (), t)
          \<and> hash t = (hash s)(k := set_fields (hash s k) m) \<and> pend t = pend s))
     \<and> (\<forall>st m s. \<exists>i t. vk_add v st m s = (Inr i, t) \<and> hash t = hash s \<and> pend t = pend s)
     \<and> (\<forall>st g i s. \<exists>t. vk_ack v st g i s = (Inr (), t) \<and> hash t = hash s \<and> pend t = pend s - {(st, g, i)})"

lemma wp_hget:
  "valkey_behaves v hash pend \<Longrightarrow> wp (on_server (vk_hget v k f)) Q E w = Q (hash (ww_server w) k f) w"
  by (simp add: valkey_behaves_def wp_def on_server_def)

lemma wp_hset:
  assumes "valkey_behaves v hash pend" "texts m"
    "\<And>s. hash s = (hash (ww_server w))(k := set_fields (hash (ww_server w) k) m) \<Longrightarrow>
       pend s = pend (ww_server w) \<Longrightarrow> Q () (w\<lparr>ww_server := s\<rparr>)"
  shows "wp (on_server (vk_hset v k m)) Q E w"
proof -
  have "\<exists>t. vk_hset v k m (ww_server w) = (Inr (), t)
      \<and> hash t = (hash (ww_server w))(k := set_fields (hash (ww_server w) k) m) \<and> pend t = pend (ww_server w)"
    using assms(1) [unfolded valkey_behaves_def, THEN conjunct2, THEN conjunct1, rule_format, OF assms(2)] .
  with assms(3) show ?thesis by (auto simp only: wp_def on_server_def prod.case sum.case)
qed

lemma wp_add:
  assumes "valkey_behaves v hash pend"
    "\<And>i s. hash s = hash (ww_server w) \<Longrightarrow> pend s = pend (ww_server w) \<Longrightarrow> Q i (w\<lparr>ww_server := s\<rparr>)"
  shows "wp (on_server (vk_add v st m)) Q E w"
proof -
  have "\<exists>i t. vk_add v st m (ww_server w) = (Inr i, t) \<and> hash t = hash (ww_server w) \<and> pend t = pend (ww_server w)"
    using assms(1) [unfolded valkey_behaves_def, THEN conjunct2, THEN conjunct2, THEN conjunct1, rule_format] .
  with assms(2) show ?thesis by (auto simp only: wp_def on_server_def prod.case sum.case)
qed

lemma wp_ack:
  assumes "valkey_behaves v hash pend"
    "\<And>s. hash s = hash (ww_server w) \<Longrightarrow> pend s = pend (ww_server w) - {(st, g, i)} \<Longrightarrow> Q () (w\<lparr>ww_server := s\<rparr>)"
  shows "wp (on_server (vk_ack v st g i)) Q E w"
proof -
  have "\<exists>t. vk_ack v st g i (ww_server w) = (Inr (), t) \<and> hash t = hash (ww_server w)
      \<and> pend t = pend (ww_server w) - {(st, g, i)}"
    using assms(1) [unfolded valkey_behaves_def, THEN conjunct2, THEN conjunct2, THEN conjunct2, rule_format] .
  with assms(2) show ?thesis by (auto simp only: wp_def on_server_def prod.case sum.case)
qed

definition never_cancelled :: "worker_env \<Rightarrow> bool" where
  "never_cancelled e \<longleftrightarrow> (\<forall>n. \<not> we_cancelled e n)"

definition always_fails :: "worker_env \<Rightarrow> bool" where
  "always_fails e \<longleftrightarrow> (\<forall>n. case agent_result (we_agent e n) of
     Inl x \<Rightarrow> isinstance_exc x PyException | Inr _ \<Rightarrow> False)"

lemma wp_await:
  assumes "never_cancelled e"
    "\<And>t. ww_server t = ww_server w \<Longrightarrow> ww_log t = ww_log w \<Longrightarrow> ww_tick t = ww_tick w + 1 \<Longrightarrow> Q () t"
  shows "wp (await_point e) Q E w"
  using assms by (auto simp: await_point_def request_shutdown_def wp never_cancelled_def)

text \<open>A wait for a retry takes the delay, when there is one.\<close>

definition waited :: "int \<Rightarrow> worker_event list" where
  "waited d = (if 0 < d then [Wk_wait d] else [])"

lemma wp_wait:
  assumes "never_cancelled e"
    "\<And>t. ww_server t = ww_server w \<Longrightarrow> ww_log t = ww_log w @ waited d \<Longrightarrow>
       ww_tick t = ww_tick w + length (waited d) \<Longrightarrow> Q () t"
  shows "wp (wait_for_retry e d) Q E w"
proof (cases "d \<le> 0")
  case True
  then show ?thesis using assms(2) [of w] by (simp add: wait_for_retry_def wp_ret waited_def)
next
  case False
  then show ?thesis
    unfolding wait_for_retry_def if_not_P [OF False] timed_wait_def wp_seq wp_note_event
    by (intro wp_await [OF assms(1)] assms(2)) (simp_all add: waited_def)
qed

section \<open>One delivery\<close>

text \<open>The attempts a state counts, and the message of a task.\<close>

definition counted :: "string option \<Rightarrow> int" where
  "counted st = (case st of None \<Rightarrow> 0 | Some t \<Rightarrow> (case py_int t of None \<Rightarrow> 0 | Some i \<Rightarrow> i))"

lemma counted_int [simp]: "counted (Some (int_str i)) = i"
  by (simp add: counted_def py_int_int_str)

lemma counted_None [simp]: "counted None = 0"
  by (simp add: counted_def)

definition task_message :: "message \<Rightarrow> string \<Rightarrow> string \<Rightarrow> string \<Rightarrow> bool" where
  "task_message msg mid eid intent \<longleftrightarrow> fst msg = mid \<and> eid \<noteq> []
     \<and> map_of (snd msg) ''execution_id'' = Some eid \<and> map_of (snd msg) ''intent'' = Some intent"

text \<open>What a failed delivery with \<open>a\<close> attempts before it leaves: the clock is read at the start, and for
  the retry time after the two reads of the agent's turn and the one for the duration.\<close>

definition delivered ::
  "worker_env \<Rightarrow> worker_queue \<Rightarrow> executor \<Rightarrow> ('s \<Rightarrow> string \<Rightarrow> string \<Rightarrow> string option)
     \<Rightarrow> ('s \<Rightarrow> (string \<times> string \<times> string) set)
     \<Rightarrow> string \<Rightarrow> string \<Rightarrow> string \<Rightarrow> int \<Rightarrow> 's worker_world \<Rightarrow> 's worker_world \<Rightarrow> bool" where
  "delivered e q x hash pend mid eid intent a w t \<longleftrightarrow>
     counted (hash (ww_server t) (state_key eid) ''attempt'') = a + 1
     \<and> (if tx_max_attempts x \<le> a + 1
        then hash (ww_server t) (state_key eid) ''status'' = Some ''failed''
          \<and> pend (ww_server t) = pend (ww_server w) - {(wq_stream q, wq_group q, mid)}
          \<and> (\<exists>d. ww_log t = ww_log w @ [Wk_run mid intent, Wk_dead mid d, Wk_ack mid])
        else hash (ww_server t) (state_key eid) ''status'' = Some ''retrying''
          \<and> hash (ww_server t) (state_key eid) ''retry_at''
            = Some (we_iso e (we_now e (ww_tick w + 4) + of_int (retry_delay x (a + 1))))
          \<and> pend (ww_server t) = pend (ww_server w)
          \<and> ww_log t = ww_log w @ Wk_run mid intent # waited (retry_delay x (a + 1))
          \<and> ww_tick t = ww_tick w + 6 + length (waited (retry_delay x (a + 1))))"

lemma texts_simps [simp]:
  "texts []" "texts ((f, x) # m) = (is_str x \<and> texts m)" "texts (m @ m') = (texts m \<and> texts m')"
  by (simp_all add: texts_def)

lemma texts_field [simp]: "texts (text_field f v)"
  by (simp add: text_field_def split: option.split)

lemma texts_update: "su_answer u = PNone \<or> is_str (su_answer u) \<Longrightarrow> texts (state_mapping u)"
  by (auto simp: state_mapping_def)

lemma set_fields_append [simp]: "set_fields h (m @ m') = set_fields (set_fields h m) m'"
  by (induction h m rule: set_fields.induct) (simp_all add: fun_upd_def)

lemma set_fields_field [simp]:
  "set_fields h (text_field f v) g = (if g = f then (case v of None \<Rightarrow> h g | Some t \<Rightarrow> Some t) else h g)"
  by (simp add: text_field_def split: option.split)

lemma mapped_fields:
  "su_answer u = PNone \<Longrightarrow> su_attempt u = Some n \<Longrightarrow>
     set_fields h (state_mapping u) ''attempt'' = Some (int_str n)
     \<and> set_fields h (state_mapping u) ''status'' = Some (su_status u)
     \<and> set_fields h (state_mapping u) ''retry_at''
       = (case su_retry_at u of None \<Rightarrow> h ''retry_at'' | Some t \<Rightarrow> Some t)"
  by (auto simp: state_mapping_def split: option.split)

lemma failed_delivery:
  assumes "valkey_behaves v hash pend" "never_cancelled e"
    "ww_log t = ww_log w @ [Wk_run mid intent]" "pend (ww_server t) = pend (ww_server w)" "ww_tick t = ww_tick w + 3"
  shows "wp (handle_failure e v q x eid intent mid (a + 1) started err)
    (\<lambda>_. delivered e q x hash pend mid eid intent a w) (\<lambda>_ _. False) t"
proof (cases "tx_max_attempts x \<le> a + 1")
  case True
  then show ?thesis
    unfolding handle_failure_def delivered_def if_P [OF True] dead_letter_def acknowledge_def update_state_def Let_def
      wp_bnd wp_seq wp_tick_read wp_note_event wp_ret
    by (intro wp_add [OF assms(1)] wp_ack [OF assms(1)] wp_hset [OF assms(1) texts_update])
       (use assms(3,4) in \<open>simp_all add: update_of_def mapped_fields\<close>)
next
  case False
  then show ?thesis
    unfolding handle_failure_def delivered_def if_not_P [OF False] update_state_def Let_def
      wp_bnd wp_seq wp_tick_read
    by (intro wp_hset [OF assms(1) texts_update] wp_wait [OF assms(2)])
       (use assms(3-5) in \<open>simp_all add: update_of_def mapped_fields numeral_eq_Suc\<close>)
qed

lemma always_failsD:
  assumes "always_fails e"
  shows "\<exists>ex. agent_result (we_agent e n) = Inl ex \<and> isinstance_exc ex PyException"
  using assms by (cases "agent_result (we_agent e n)") (auto simp: always_fails_def dest!: spec [of _ n])

lemma agent_run_outcome:
  assumes "never_cancelled e"
  shows "wp (agent_run e mid intent)
    (\<lambda>res t. (\<exists>n. agent_result (we_agent e n) = Inr res) \<and> ww_server t = ww_server w
       \<and> ww_log t = ww_log w @ [Wk_run mid intent] \<and> ww_tick t = ww_tick w + 2)
    (\<lambda>ex t. (\<exists>n. agent_result (we_agent e n) = Inl ex) \<and> ww_server t = ww_server w
       \<and> ww_log t = ww_log w @ [Wk_run mid intent] \<and> ww_tick t = ww_tick w + 2) w"
  unfolding agent_run_def wp_seq wp_note_event
proof (rule wp_await [OF assms])
  fix t :: "'a worker_world"
  assume "ww_server t = ww_server (w\<lparr>ww_log := ww_log w @ [Wk_run mid intent]\<rparr>)"
    "ww_log t = ww_log (w\<lparr>ww_log := ww_log w @ [Wk_run mid intent]\<rparr>)"
    "ww_tick t = ww_tick (w\<lparr>ww_log := ww_log w @ [Wk_run mid intent]\<rparr>) + 1"
  then show "wp (bnd (tick_read (we_agent e)) (\<lambda>out. lift_res (agent_result out)))
    (\<lambda>res t. (\<exists>n. agent_result (we_agent e n) = Inr res) \<and> ww_server t = ww_server w
       \<and> ww_log t = ww_log w @ [Wk_run mid intent] \<and> ww_tick t = ww_tick w + 2)
    (\<lambda>ex t. (\<exists>n. agent_result (we_agent e n) = Inl ex) \<and> ww_server t = ww_server w
       \<and> ww_log t = ww_log w @ [Wk_run mid intent] \<and> ww_tick t = ww_tick w + 2) t"
    by (auto simp: wp)
qed

text \<open>A task counts its attempt, asks the agent, and goes on by the agent's result.\<close>

lemma execute_by_outcome:
  fixes w :: "'s worker_world"
  assumes "valkey_behaves v hash pend" "never_cancelled e" "task_message msg mid eid intent"
    "counted (hash (ww_server w) (state_key eid) ''attempt'') = a"
    and failed: "\<And>n ex started t. \<lbrakk>agent_result (we_agent e n) = Inl ex;
        ww_log t = ww_log w @ [Wk_run mid intent]; pend (ww_server t) = pend (ww_server w);
        ww_tick t = ww_tick w + 3\<rbrakk> \<Longrightarrow>
      isinstance_exc ex PyException \<and> wp (handle_failure e v q x eid intent mid (a + 1) started (exc_msg ex)) Q F t"
    and answered: "\<And>n res started t. \<lbrakk>agent_result (we_agent e n) = Inr res;
        ww_log t = ww_log w @ [Wk_run mid intent]; pend (ww_server t) = pend (ww_server w);
        ww_tick t = ww_tick w + 3\<rbrakk> \<Longrightarrow>
      wp (handle_success e v q eid mid (a + 1) started res) Q F t"
  shows "wp (executor_execute e v q x msg) Q F w"
proof -
  have msg: "fst msg = mid" "payload_field (snd msg) ''execution_id'' = Inr eid"
      "payload_field (snd msg) ''intent'' = Inr intent"
    using assms(3) by (auto simp: task_message_def payload_field_def)
  let ?settle = "\<lambda>eid started r. case r of
       Inl ex \<Rightarrow> handle_failure e v q x eid intent mid (a + 1) started (exc_msg ex)
     | Inr res \<Rightarrow> handle_success e v q eid mid (a + 1) started res"
  let ?asked = "catch (bnd (agent_run e mid intent) (\<lambda>d. ret (Inr d)))
            (\<lambda>ex. if isinstance_exc ex PyException then ret (Inl ex) else throw ex)"
  have asked: "wp (bnd ?asked (?settle eid started)) Q F t"
    if t: "ww_log t = ww_log w" "pend (ww_server t) = pend (ww_server w)" "ww_tick t = ww_tick w + 1" for t started
    unfolding wp_bnd wp_catch wp_ret
  proof (rule wp_mono [OF agent_run_outcome [OF assms(2)]])
    fix res and u :: "'s worker_world"
    assume "(\<exists>n. agent_result (we_agent e n) = Inr res) \<and> ww_server u = ww_server t \<and> ww_log u = ww_log t @ [Wk_run mid intent]
      \<and> ww_tick u = ww_tick t + 2"
    then show "wp (?settle eid started (Inr res)) Q F u"
      using answered [of _ res u started] t by auto
  next
    fix ex and u :: "'s worker_world"
    assume "(\<exists>n. agent_result (we_agent e n) = Inl ex) \<and> ww_server u = ww_server t \<and> ww_log u = ww_log t @ [Wk_run mid intent]
      \<and> ww_tick u = ww_tick t + 2"
    then show "wp (if isinstance_exc ex PyException then ret (Inl ex) else throw ex) (\<lambda>r. wp (?settle eid started r) Q F) F u"
      using failed [of _ ex u started] t by (auto simp: wp_ret)
  qed
  have a: "(case hash (ww_server w) (state_key eid) ''attempt'' of None \<Rightarrow> 0
      | Some t \<Rightarrow> (case py_int t of None \<Rightarrow> 0 | Some i \<Rightarrow> i)) = a"
    using assms(4) by (simp add: counted_def)
  show ?thesis
    unfolding executor_execute_def Let_def msg get_attempt_def update_state_def
      wp_bnd [of "lift_res _"] wp_lift_res
  proof (intro conjI allI impI)
    fix eid' intent' assume "(Inr eid :: string result) = Inr eid'" "(Inr intent :: string result) = Inr intent'"
    then have e: "eid' = eid" "intent' = intent" by simp_all
    show "wp (bnd (bnd (on_server (vk_hget v (state_key eid') ''attempt'')) (\<lambda>st.
          ret (case st of None \<Rightarrow> 0 | Some t \<Rightarrow> (case py_int t of None \<Rightarrow> 0 | Some i \<Rightarrow> i)))) (\<lambda>a.
        bnd (tick_read (we_now e)) (\<lambda>started.
        seq (on_server (vk_hset v (state_key eid') (state_mapping ((update_of ''running'')\<lparr>su_attempt := Some (a + 1),
          su_worker := Some (wq_consumer q), su_started_at := Some (we_iso e started),
          su_message_id := Some mid, su_error := Some [], su_retry_at := Some [], su_failed_at := Some []\<rparr>))))
        (bnd (catch (bnd (agent_run e mid intent') (\<lambda>d. ret (Inr d)))
              (\<lambda>ex. if isinstance_exc ex PyException then ret (Inl ex) else throw ex)) (\<lambda>r.
         case r of
           Inl ex \<Rightarrow> handle_failure e v q x eid' intent' mid (a + 1) started (exc_msg ex)
         | Inr res \<Rightarrow> handle_success e v q eid' mid (a + 1) started res))))) Q F w"
      unfolding e wp_bnd [of "bnd _ _"] wp_bnd [of "on_server _"] wp_hget [OF assms(1)] wp_ret a
        wp_bnd [of "tick_read _"] wp_tick_read wp_seq
      by (intro wp_hset [OF assms(1) texts_update] asked) (simp_all add: update_of_def)
  qed simp_all
qed

lemma failing_execute:
  assumes "valkey_behaves v hash pend" "never_cancelled e" "always_fails e"
    "task_message msg mid eid intent" "counted (hash (ww_server w) (state_key eid) ''attempt'') = a"
  shows "wp (executor_execute e v q x msg) (\<lambda>_. delivered e q x hash pend mid eid intent a w) (\<lambda>_ _. False) w"
proof (rule execute_by_outcome [OF assms(1,2,4,5)])
  fix n ex started and t :: "'a worker_world"
  assume "agent_result (we_agent e n) = Inl ex" "ww_log t = ww_log w @ [Wk_run mid intent]"
    "pend (ww_server t) = pend (ww_server w)" "ww_tick t = ww_tick w + 3"
  then show "isinstance_exc ex PyException \<and> wp (handle_failure e v q x eid intent mid (a + 1) started (exc_msg ex))
      (\<lambda>_. delivered e q x hash pend mid eid intent a w) (\<lambda>_ _. False) t"
    using always_failsD [OF assms(3), of n] by (auto intro!: failed_delivery [OF assms(1,2)])
next
  fix n res started and t :: "'a worker_world"
  assume "agent_result (we_agent e n) = Inr res"
  with always_failsD [OF assms(3), of n]
  show "wp (handle_success e v q eid mid (a + 1) started res)
      (\<lambda>_. delivered e q x hash pend mid eid intent a w) (\<lambda>_ _. False) t" by simp
qed

lemma failing_process:
  assumes "valkey_behaves v hash pend" "never_cancelled e" "always_fails e"
    "task_message msg mid eid intent" "counted (hash (ww_server w) (state_key eid) ''attempt'') = a"
  shows "wp (process_message e v q x msg) (\<lambda>_. delivered e q x hash pend mid eid intent a w) (\<lambda>_ _. False) w"
proof -
  have has: "\<not> \<not> has_execution msg"
    using assms(4) by (simp add: has_execution_def task_message_def)
  show ?thesis
    unfolding process_message_def if_not_P [OF has] Let_def wp_catch wp_seq
    by (rule wp_mono [OF failing_execute [OF assms]])
       (simp_all add: wp_bnd wp_hget [OF assms(1)] wp_ret)
qed

section \<open>The course of one message\<close>

text \<open>
  The message is delivered, and while it is pending it is claimed again and again, at any time: a claim goes
  through \<open>recover_message\<close>, which looks at the retry time the failure left.
\<close>

definition claim_again ::
  "worker_env \<Rightarrow> 's valkey \<Rightarrow> worker_queue \<Rightarrow> executor \<Rightarrow> ('s \<Rightarrow> (string \<times> string \<times> string) set) \<Rightarrow> message
     \<Rightarrow> ('s, unit) wk" where
  "claim_again e v q x pend msg = bnd (gets (\<lambda>w. (wq_stream q, wq_group q, fst msg) \<in> pend (ww_server w)))
     (\<lambda>pending. guarded pending (recover_message e v q x msg))"

definition deliver_and_claim ::
  "nat \<Rightarrow> worker_env \<Rightarrow> 's valkey \<Rightarrow> worker_queue \<Rightarrow> executor \<Rightarrow> ('s \<Rightarrow> (string \<times> string \<times> string) set) \<Rightarrow> message
     \<Rightarrow> ('s, unit) wk" where
  "deliver_and_claim k e v q x pend msg =
     seq (process_message e v q x msg) (for_each (replicate k msg) (claim_again e v q x pend))"

text \<open>
  What the worker does with a failing message of \<open>a\<close> attempts that is due at \<open>due\<close>, at once if \<open>None\<close>, over
  \<open>k\<close> claims from the clock reading \<open>n\<close> on: an early claim is put back; another one runs the task and
  waits out the delay of the attempt, which is also the next retry time; the last run is the end.
\<close>

function retry_course ::
  "worker_env \<Rightarrow> executor \<Rightarrow> string \<Rightarrow> string \<Rightarrow> string \<Rightarrow> int \<Rightarrow> time option \<Rightarrow> nat \<Rightarrow> nat \<Rightarrow> worker_event list" where
  "retry_course e x mid intent d a due n 0 = []"
| "retry_course e x mid intent d a (Some t) n (Suc k) =
     (if we_now e n < t then Wk_not_ready mid # retry_course e x mid intent d a (Some t) (Suc n) k
      else retry_course e x mid intent d a None (Suc n) (Suc k))"
| "retry_course e x mid intent d a None n (Suc k) =
     (if tx_max_attempts x \<le> a + 1 then [Wk_run mid intent, Wk_dead mid d, Wk_ack mid]
      else Wk_run mid intent # waited (retry_delay x (a + 1))
        @ retry_course e x mid intent d (a + 1) (Some (we_now e (n + 4) + of_int (retry_delay x (a + 1))))
            (n + 6 + length (waited (retry_delay x (a + 1)))) k)"
  by pat_completeness auto
termination
  by (relation "measures [\<lambda>(e, x, mid, intent, d, a, due, n, k). k,
      \<lambda>(e, x, mid, intent, d, a, due, n, k). if due = None then 0 else 1]") auto

definition runs_in :: "string \<Rightarrow> worker_event list \<Rightarrow> nat" where
  "runs_in mid l = length (filter (ran_task mid) l)"

definition early_in :: "string \<Rightarrow> worker_event list \<Rightarrow> nat" where
  "early_in mid l = length (filter (\<lambda>x. x = Wk_not_ready mid) l)"

lemma runs_in_simps [simp]:
  "runs_in mid [] = 0" "runs_in mid (l @ l') = runs_in mid l + runs_in mid l'"
  "runs_in mid (Wk_run mid intent # l) = Suc (runs_in mid l)" "runs_in mid (Wk_not_ready m # l) = runs_in mid l"
  "runs_in mid (Wk_dead m d # l) = runs_in mid l" "runs_in mid (Wk_ack m # l) = runs_in mid l"
  "runs_in mid (waited y) = 0"
  by (simp_all add: runs_in_def ran_task_def waited_def)

lemma early_in_simps [simp]:
  "early_in mid [] = 0" "early_in mid (l @ l') = early_in mid l + early_in mid l'"
  "early_in mid (Wk_run m intent # l) = early_in mid l" "early_in mid (Wk_not_ready mid # l) = Suc (early_in mid l)"
  "early_in mid (Wk_dead m d # l) = early_in mid l" "early_in mid (Wk_ack m # l) = early_in mid l"
  "early_in mid (waited y) = 0"
  by (simp_all add: early_in_def waited_def)

text \<open>The runs never exceed the attempts left, and while some are left every claim is early or a run.\<close>

lemma course_counts:
  "a < tx_max_attempts x \<Longrightarrow> a + int (runs_in mid (retry_course e x mid intent d a due n k)) \<le> tx_max_attempts x
     \<and> (a + int (runs_in mid (retry_course e x mid intent d a due n k)) < tx_max_attempts x \<longrightarrow>
         runs_in mid (retry_course e x mid intent d a due n k)
           + early_in mid (retry_course e x mid intent d a due n k) = k)"
  by (induction e x mid intent d a due n k rule: retry_course.induct) auto

text \<open>The times of the worker's clock survive being written and read back.\<close>

definition iso_reads :: "worker_env \<Rightarrow> bool" where
  "iso_reads e \<longleftrightarrow> (\<forall>n d. we_iso e (we_now e n + of_int d) \<noteq> []
     \<and> we_parse_iso e (we_iso e (we_now e n + of_int d)) = Inr (we_now e n + of_int d))"

text \<open>The message after \<open>a < max_attempts\<close> failed attempts.\<close>

definition put_off ::
  "worker_env \<Rightarrow> worker_queue \<Rightarrow> ('s \<Rightarrow> string \<Rightarrow> string \<Rightarrow> string option) \<Rightarrow> ('s \<Rightarrow> (string \<times> string \<times> string) set)
     \<Rightarrow> string \<Rightarrow> string \<Rightarrow> int \<Rightarrow> time option \<Rightarrow> 's \<Rightarrow> bool" where
  "put_off e q hash pend mid eid a due s \<longleftrightarrow> counted (hash s (state_key eid) ''attempt'') = a
     \<and> hash s (state_key eid) ''status'' = Some ''retrying''
     \<and> parse_retry_at e (hash s (state_key eid) ''retry_at'') = due
     \<and> (wq_stream q, wq_group q, mid) \<in> pend s"

lemma delivered_put_off:
  assumes "delivered e q x hash pend mid eid intent a w t" "iso_reads e" "\<not> tx_max_attempts x \<le> a + 1"
    "(wq_stream q, wq_group q, mid) \<in> pend (ww_server w)"
  shows "put_off e q hash pend mid eid (a + 1)
    (Some (we_now e (ww_tick w + 4) + of_int (retry_delay x (a + 1)))) (ww_server t)"
  using assms by (simp add: delivered_def put_off_def iso_reads_def parse_retry_at_def)

text \<open>How a course ends: in the dead letters, or with the message pending.\<close>

definition course_ended ::
  "executor \<Rightarrow> worker_queue \<Rightarrow> ('s \<Rightarrow> string \<Rightarrow> string \<Rightarrow> string option) \<Rightarrow> ('s \<Rightarrow> (string \<times> string \<times> string) set)
     \<Rightarrow> string \<Rightarrow> string \<Rightarrow> (string \<times> string \<times> string) set \<Rightarrow> int \<Rightarrow> 's \<Rightarrow> bool" where
  "course_ended x q hash pend mid eid pend0 n s \<longleftrightarrow>
     (if n = tx_max_attempts x
      then hash s (state_key eid) ''status'' = Some ''failed'' \<and> pend s = pend0 - {(wq_stream q, wq_group q, mid)}
      else hash s (state_key eid) ''status'' = Some ''retrying'' \<and> pend s = pend0)"

lemma claims_done:
  "(wq_stream q, wq_group q, fst msg) \<notin> pend (ww_server w) \<Longrightarrow> Q () w \<Longrightarrow>
     wp (for_each (replicate k msg) (claim_again e v q x pend)) Q E w"
  by (induction k) (simp_all add: wp claim_again_def)

definition follows_course ::
  "worker_env \<Rightarrow> worker_queue \<Rightarrow> executor \<Rightarrow> ('s \<Rightarrow> string \<Rightarrow> string \<Rightarrow> string option)
     \<Rightarrow> ('s \<Rightarrow> (string \<times> string \<times> string) set) \<Rightarrow> string \<Rightarrow> string \<Rightarrow> string \<Rightarrow> int \<Rightarrow> time option \<Rightarrow> nat
     \<Rightarrow> 's worker_world \<Rightarrow> 's worker_world \<Rightarrow> bool" where
  "follows_course e q x hash pend mid eid intent a due k w t \<longleftrightarrow>
     (\<exists>d new. ww_log t = ww_log w @ new \<and> new = retry_course e x mid intent d a due (ww_tick w) k
       \<and> course_ended x q hash pend mid eid (pend (ww_server w)) (a + int (runs_in mid new)) (ww_server t))"

text \<open>The first run of a course, and the claims after it.\<close>

lemma course_of_run:
  assumes "valkey_behaves v hash pend" "never_cancelled e" "always_fails e"
    "task_message msg mid eid intent" "iso_reads e" "a < tx_max_attempts x"
    "counted (hash (ww_server w) (state_key eid) ''attempt'') = a" "(wq_stream q, wq_group q, mid) \<in> pend (ww_server w)"
    and claims: "\<And>due t. put_off e q hash pend mid eid (a + 1) due (ww_server t) \<Longrightarrow> a + 1 < tx_max_attempts x \<Longrightarrow>
      wp (for_each (replicate k msg) (claim_again e v q x pend))
        (\<lambda>_. follows_course e q x hash pend mid eid intent (a + 1) due k t) (\<lambda>_ _. False) t"
  shows "wp (deliver_and_claim k e v q x pend msg)
    (\<lambda>_. follows_course e q x hash pend mid eid intent a None (Suc k) w) (\<lambda>_ _. False) w"
  unfolding deliver_and_claim_def wp_seq
proof (rule wp_mono [OF failing_process [OF assms(1-4,7)]])
  fix t :: "'a worker_world"
  assume t: "delivered e q x hash pend mid eid intent a w t"
  let ?claims = "for_each (replicate k msg) (claim_again e v q x pend)"
  show "wp ?claims (\<lambda>_. follows_course e q x hash pend mid eid intent a None (Suc k) w) (\<lambda>_ _. False) t"
  proof (cases "tx_max_attempts x \<le> a + 1")
    case True
    with t obtain d where d: "ww_log t = ww_log w @ [Wk_run mid intent, Wk_dead mid d, Wk_ack mid]"
        "hash (ww_server t) (state_key eid) ''status'' = Some ''failed''"
        "pend (ww_server t) = pend (ww_server w) - {(wq_stream q, wq_group q, mid)}"
      by (auto simp: delivered_def)
    have mid: "fst msg = mid" using assms(4) by (simp add: task_message_def)
    have "follows_course e q x hash pend mid eid intent a None (Suc k) w t"
      unfolding follows_course_def by (rule exI [of _ d]) (use d True assms(6) in \<open>simp add: course_ended_def\<close>)
    then show ?thesis using claims_done [of q msg pend t] d(3) mid by simp
  next
    case False
    let ?delay = "retry_delay x (a + 1)"
    let ?due = "Some (we_now e (ww_tick w + 4) + of_int ?delay)"
    have off: "put_off e q hash pend mid eid (a + 1) ?due (ww_server t)"
      by (rule delivered_put_off [OF t assms(5) False assms(8)])
    have "a + 1 < tx_max_attempts x" using False by simp
    then show ?thesis
    proof (rule wp_mono [OF claims [OF off]])
      fix u :: "'a worker_world"
      assume "follows_course e q x hash pend mid eid intent (a + 1) ?due k t u"
      then show "follows_course e q x hash pend mid eid intent a None (Suc k) w u"
        unfolding follows_course_def by (elim exE, intro exI) (use t False in \<open>auto simp: delivered_def algebra_simps\<close>)
    qed
  qed
qed simp

lemma course_of_claims:
  assumes "valkey_behaves v hash pend" "never_cancelled e" "always_fails e"
    "task_message msg mid eid intent" "iso_reads e"
  shows "put_off e q hash pend mid eid a due (ww_server w) \<Longrightarrow> a < tx_max_attempts x \<Longrightarrow>
      wp (for_each (replicate k msg) (claim_again e v q x pend))
        (\<lambda>_. follows_course e q x hash pend mid eid intent a due k w) (\<lambda>_ _. False) w"
proof (induction k arbitrary: a due w)
  case 0
  then show ?case by (simp add: wp follows_course_def course_ended_def put_off_def)
next
  case (Suc k)
  have off: "counted (hash (ww_server w) (state_key eid) ''attempt'') = a"
      "parse_retry_at e (hash (ww_server w) (state_key eid) ''retry_at'') = due"
      "(wq_stream q, wq_group q, fst msg) \<in> pend (ww_server w)"
      "(wq_stream q, wq_group q, mid) \<in> pend (ww_server w)"
    using Suc.prems(1) assms(4) by (simp_all add: put_off_def task_message_def)
  have msg: "\<not> \<not> has_execution msg" "the (map_of (snd msg) ''execution_id'') = eid" "fst msg = mid"
    using assms(4) by (simp_all add: has_execution_def task_message_def)
  have run: "wp (process_message e v q x msg) (\<lambda>_. wp (for_each (replicate k msg) (claim_again e v q x pend))
        (\<lambda>_. follows_course e q x hash pend mid eid intent a None (Suc k) u) (\<lambda>_ _. False)) (\<lambda>_ _. False) u"
    if "ww_server u = ww_server w" for u :: "'a worker_world"
    unfolding wp_seq [symmetric] deliver_and_claim_def [symmetric]
    by (rule course_of_run [OF assms Suc.prems(2)]) (use off that Suc.IH in simp_all)
  have claim: "wp (for_each (replicate (Suc k) msg) (claim_again e v q x pend)) Q E w
      = wp (recover_message e v q x msg) (\<lambda>_. wp (for_each (replicate k msg) (claim_again e v q x pend)) Q E) E w"
    for Q E using off(3) by (simp add: wp claim_again_def)
  show ?case
  proof (cases due)
    case None
    then show ?thesis
      unfolding claim recover_message_def if_not_P [OF msg(1)] msg wp_bnd wp_hget [OF assms(1)] off(2)
      using run [of w] by simp
  next
    case (Some t)
    let ?u = "w\<lparr>ww_tick := ww_tick w + 1\<rparr>"
    show ?thesis
    proof (cases "we_now e (ww_tick w) < t")
      case True
      let ?v = "?u\<lparr>ww_log := ww_log w @ [Wk_not_ready mid]\<rparr>"
      have "put_off e q hash pend mid eid a due (ww_server ?v)" using Suc.prems(1) by simp
      then have "wp (for_each (replicate k msg) (claim_again e v q x pend))
          (\<lambda>_. follows_course e q x hash pend mid eid intent a due (Suc k) w) (\<lambda>_ _. False) ?v"
        by (rule wp_mono [OF Suc.IH [OF _ Suc.prems(2)]]) (auto simp: follows_course_def Some True)
      then show ?thesis
        unfolding claim recover_message_def if_not_P [OF msg(1)] msg wp_bnd wp_hget [OF assms(1)] off(2)
        using Some True by (simp add: wp)
    next
      case False
      have "wp (process_message e v q x msg) (\<lambda>_. wp (for_each (replicate k msg) (claim_again e v q x pend))
        (\<lambda>_. follows_course e q x hash pend mid eid intent a due (Suc k) w) (\<lambda>_ _. False)) (\<lambda>_ _. False) ?u"
        by (rule wp_mono [OF run]) (auto simp: follows_course_def Some False elim!: wp_mono)
      then show ?thesis
        unfolding claim recover_message_def if_not_P [OF msg(1)] msg wp_bnd wp_hget [OF assms(1)] off(2)
        using Some False by (simp add: wp)
    qed
  qed
qed

text \<open>A new message, delivered and then claimed \<open>k\<close> times.\<close>

lemma failing_task_course:
  assumes "valkey_behaves v hash pend" "never_cancelled e" "always_fails e"
    "task_message msg mid eid intent" "iso_reads e" "0 < tx_max_attempts x"
    "counted (hash (ww_server w) (state_key eid) ''attempt'') = 0" "(wq_stream q, wq_group q, mid) \<in> pend (ww_server w)"
  shows "wp (deliver_and_claim k e v q x pend msg)
    (\<lambda>_. follows_course e q x hash pend mid eid intent 0 None (Suc k) w) (\<lambda>_ _. False) w"
  by (rule course_of_run [OF assms]) (use course_of_claims [OF assms(1-5), of q 1 _ _ x] in simp)

text \<open>The delays of the default settings, as the policies of the other retry loops.\<close>

lemma retry_delay_backoff:
  assumes "0 \<le> tx_base x" "0 \<le> tx_max x"
  shows "capped_backoff (\<lambda>n. retry_delay x (int n + 1)) (tx_base x) (tx_max x)"
  using capped_backoff_doubling [OF assms] by (simp add: retry_delay_def)

definition default_executor :: executor where
  "default_executor = \<lparr>tx_max_attempts = 4, tx_base = 5, tx_max = 60\<rparr>"

interpretation worker_backoff: capped_backoff "\<lambda>n. retry_delay default_executor (int n + 1)" 5 60
  using retry_delay_backoff [of default_executor] by (simp add: default_executor_def)

lemma default_retries: "map (retry_delay default_executor) [1, 2, 3] = [5, 10, 20]"
  by (simp add: retry_delay_def default_executor_def)

end
