(* ===== verification/WorkerConfig.thy ===== *)
theory WorkerConfig
  imports WorkerRetries
begin

text \<open>
  The settings of the worker (\<^verbatim>\<open>worker/app/config.py\<close>) read from its environment, and the worker they
  configure (\<^verbatim>\<open>create_worker\<close> of \<^verbatim>\<open>worker/app/main.py\<close>).
\<close>

section \<open>Sentinel addresses\<close>

text \<open>One stripped, nonempty entry \<open>host:port\<close>.\<close>

definition parse_host :: "string \<Rightarrow> (string \<times> int) result" where
  "parse_host address = (case py_rsplit1 (CHR '':'') address of
      None \<Rightarrow> raise ValueError (''Invalid VALKEY_SENTINEL_HOSTS entry: '' @ repr_str address)
    | Some (host, port) \<Rightarrow> (case py_int port of
          None \<Rightarrow> raise ValueError (''Invalid VALKEY_SENTINEL_HOSTS entry: '' @ repr_str address)
        | Some p \<Rightarrow> Inr (py_strip host, p)))"

fun parse_hosts :: "string list \<Rightarrow> (string \<times> int) list result" where
  "parse_hosts [] = Inr []"
| "parse_hosts (a # as) = (if py_strip a = [] then parse_hosts as
     else rbind (parse_host (py_strip a)) (\<lambda>h. rbind (parse_hosts as) (\<lambda>hs. Inr (h # hs))))"

definition parse_sentinel_hosts :: "string \<Rightarrow> (string \<times> int) list result" where
  "parse_sentinel_hosts value =
     (if py_strip value = [] then Inr [] else parse_hosts (py_split (CHR '','') value))"

text \<open>The text of a list of addresses.\<close>

definition host_text :: "string \<times> int \<Rightarrow> string" where
  "host_text h = fst h @ CHR '':'' # int_str (snd h)"

definition hosts_text :: "(string \<times> int) list \<Rightarrow> string" where
  "hosts_text hs = intersperse_str [CHR '',''] (map host_text hs)"

definition plain_host :: "string \<Rightarrow> bool" where
  "plain_host s \<longleftrightarrow> s \<noteq> [] \<and> list_all (\<lambda>c. c \<noteq> CHR '','' \<and> \<not> py_space c) s"

lemma int_str_chars: "c \<in> set (int_str i) \<Longrightarrow> c = CHR ''-'' \<or> (\<exists>d < 10. c = digit_char d)"
  using nat_str_chars by (auto simp: int_str_def split: if_splits)

lemma digit_char_plain: "d < 10 \<Longrightarrow> digit_char d \<noteq> CHR '':'' \<and> digit_char d \<noteq> CHR '',''"
  using digit_char_code [of d] by (auto simp: code_point_def)

lemma int_str_plain: "CHR '':'' \<notin> set (int_str i) \<and> CHR '','' \<notin> set (int_str i)"
  using int_str_chars [of "CHR '':''" i] int_str_chars [of "CHR '',''" i] digit_char_plain by force

lemma int_str_no_space: "c \<in> set (int_str i) \<Longrightarrow> \<not> py_space c"
  using int_str_chars [of c i] digit_not_space by (auto simp: py_space_def code_point_def)

lemma host_text_strip:
  assumes "plain_host (fst h)"
  shows "py_strip (host_text h) = host_text h"
proof -
  have "\<not> py_space CHR '':''" by (simp add: py_space_def code_point_def)
  then show ?thesis
    using assms int_str_no_space
    by (intro py_strip_no_space) (auto simp: host_text_def plain_host_def list_all_iff)
qed

lemma parse_host_text: "plain_host (fst h) \<Longrightarrow> parse_host (host_text h) = Inr h"
proof -
  assume p: "plain_host (fst h)"
  have "py_rsplit1 (CHR '':'') (host_text h) = Some (fst h, int_str (snd h))"
    using int_str_plain by (simp add: py_rsplit1_some host_text_def)
  moreover have "py_strip (fst h) = fst h"
    using p by (intro py_strip_no_space) (auto simp: plain_host_def list_all_iff)
  ultimately show ?thesis by (simp add: parse_host_def py_int_int_str)
qed

lemma parse_hosts_text: "list_all (plain_host \<circ> fst) hs \<Longrightarrow> parse_hosts (map host_text hs) = Inr hs"
proof (induction hs)
  case (Cons h hs)
  then have "plain_host (fst h)" "parse_hosts (map host_text hs) = Inr hs" by simp_all
  moreover have "host_text h \<noteq> []" by (simp add: host_text_def)
  ultimately show ?case by (simp add: host_text_strip parse_host_text)
qed simp

text \<open>Parsing reads back the text of every list of hosts without commas and white space.\<close>

lemma sentinel_hosts_roundtrip:
  assumes "list_all (plain_host \<circ> fst) hs"
  shows "parse_sentinel_hosts (hosts_text hs) = Inr hs"
proof (cases "hs = []")
  case False
  have comma: "list_all (\<lambda>p. CHR '','' \<notin> set p) (map host_text hs)"
    using assms int_str_plain by (auto simp: list_all_iff host_text_def plain_host_def)
  have "py_split (CHR '','') (hosts_text hs) = map host_text hs"
    unfolding hosts_text_def by (rule py_join_split) (use False comma in auto)
  moreover have "py_strip (hosts_text hs) \<noteq> []"
  proof -
    obtain h hs' where hs: "hs = h # hs'" using False by (cases hs) auto
    then have "CHR '':'' \<in> set (hosts_text hs)"
      by (simp add: hosts_text_def host_text_def intersperse_Cons)
    moreover have "\<not> py_space CHR '':''" by (simp add: py_space_def code_point_def)
    ultimately show ?thesis by (auto simp: py_strip_eq_Nil)
  qed
  ultimately show ?thesis by (simp add: parse_sentinel_hosts_def parse_hosts_text [OF assms])
qed (simp add: parse_sentinel_hosts_def hosts_text_def)

text \<open>A failure names the entry.\<close>

lemma parse_hosts_fails:
  "parse_hosts as = Inl ex \<Longrightarrow>
     exc_class ex = ValueError \<and> (\<exists>a \<in> set as. exc_msg ex = ''Invalid VALKEY_SENTINEL_HOSTS entry: '' @ repr_str (py_strip a))"
  by (induction as) (auto simp: parse_host_def rbind_Inl_iff split: if_splits sum.splits option.splits prod.splits)

section \<open>Settings\<close>

text \<open>\<open>float(s)\<close> for decimal text; the value is kept by its text.\<close>

definition all_digits :: "string \<Rightarrow> bool" where
  "all_digits s = list_all (\<lambda>c. digit_val c \<noteq> None) s"

definition unsigned_part :: "string \<Rightarrow> string" where
  "unsigned_part s = (case s of [] \<Rightarrow> [] | c # r \<Rightarrow> (if c = CHR ''-'' \<or> c = CHR ''+'' then r else s))"

definition float_text :: "string \<Rightarrow> string option" where
  "float_text s = (let t = py_strip s; u = unsigned_part t in
     if py_lower u \<in> {''inf'', ''infinity'', ''nan''} then Some t
     else case py_partition (CHR ''e'') (py_lower u) of (m, has_exp, ex) \<Rightarrow>
       (case py_partition (CHR ''.'') m of (i, _, f) \<Rightarrow>
         if i @ f \<noteq> [] \<and> all_digits (i @ f)
            \<and> (has_exp \<longrightarrow> unsigned_part ex \<noteq> [] \<and> all_digits (unsigned_part ex))
         then Some t else None))"

record worker_settings =
  ws_url :: string
  ws_stream :: string
  ws_group :: string
  ws_consumer :: string
  ws_hosts :: "(string \<times> int) list"
  ws_master :: string
  ws_password :: string
  ws_agent_url :: string
  ws_timeout :: string
  ws_max_attempts :: int
  ws_base :: int
  ws_max :: int
  ws_idle_ms :: int
  ws_batch :: int

definition env_get :: "(string \<Rightarrow> string option) \<Rightarrow> string \<Rightarrow> string \<Rightarrow> string" where
  "env_get env name dflt = (case env name of None \<Rightarrow> dflt | Some t \<Rightarrow> t)"

definition env_int :: "(string \<Rightarrow> string option) \<Rightarrow> string \<Rightarrow> string \<Rightarrow> int result" where
  "env_int env name dflt = (case py_int (env_get env name dflt) of Some i \<Rightarrow> Inr i
     | None \<Rightarrow> raise ValueError (''invalid literal for int() with base 10: '' @ repr_str (env_get env name dflt)))"

definition env_float :: "(string \<Rightarrow> string option) \<Rightarrow> string \<Rightarrow> string \<Rightarrow> string result" where
  "env_float env name dflt = (case float_text (env_get env name dflt) of Some t \<Rightarrow> Inr t
     | None \<Rightarrow> raise ValueError (''could not convert string to float: '' @ repr_str (env_get env name dflt)))"

text \<open>\<open>Settings()\<close>, in the order the fields are read.\<close>

definition worker_settings :: "(string \<Rightarrow> string option) \<Rightarrow> string \<Rightarrow> worker_settings result" where
  "worker_settings env hostname =
     rbind (parse_sentinel_hosts (env_get env ''VALKEY_SENTINEL_HOSTS'' [])) (\<lambda>hosts.
     rbind (env_float env ''AGENT_TIMEOUT_SECONDS'' ''120'') (\<lambda>timeout.
     rbind (env_int env ''MAX_ATTEMPTS'' ''4'') (\<lambda>attempts.
     rbind (env_int env ''RETRY_BASE_DELAY_SECONDS'' ''5'') (\<lambda>base.
     rbind (env_int env ''RETRY_MAX_DELAY_SECONDS'' ''60'') (\<lambda>mx.
     rbind (env_int env ''PENDING_IDLE_MS'' ''10000'') (\<lambda>idle.
     rbind (env_int env ''PENDING_BATCH_SIZE'' ''10'') (\<lambda>batch.
     Inr \<lparr>ws_url = env_get env ''VALKEY_URL'' ''redis://valkey:6379/0'',
       ws_stream = env_get env ''TASK_STREAM'' ''agenyx:tasks'',
       ws_group = env_get env ''CONSUMER_GROUP'' ''agenyx-workers'',
       ws_consumer = env_get env ''CONSUMER_NAME'' hostname,
       ws_hosts = hosts, ws_master = env_get env ''VALKEY_MASTER_NAME'' ''mymaster'',
       ws_password = env_get env ''VALKEY_PASSWORD'' [],
       ws_agent_url = env_get env ''AGENT_URL'' ''http://agent:8000'',
       ws_timeout = timeout, ws_max_attempts = attempts, ws_base = base, ws_max = mx,
       ws_idle_ms = idle, ws_batch = batch\<rparr>)))))))"

section \<open>The configured worker\<close>

definition worker_executor :: "worker_settings \<Rightarrow> executor" where
  "worker_executor s = \<lparr>tx_max_attempts = ws_max_attempts s, tx_base = ws_base s, tx_max = ws_max s\<rparr>"

record agent_client =
  ac_base_url :: string
  ac_timeout :: string

definition new_agent_client :: "string \<Rightarrow> string \<Rightarrow> agent_client" where
  "new_agent_client url timeout = \<lparr>ac_base_url = rstrip_slash url, ac_timeout = timeout\<rparr>"

text \<open>The queue, the client of the agent service and the executor of the worker.\<close>

definition create_worker :: "worker_settings \<Rightarrow> (worker_queue \<times> agent_client \<times> executor) result" where
  "create_worker s =
     rbind (new_queue (ws_url s) (ws_stream s) (ws_group s) (ws_consumer s) ''agenyx:tasks:dead-letter''
        (ws_idle_ms s) (ws_batch s) (if ws_hosts s = [] then None else Some (ws_hosts s))
        (if ws_hosts s = [] then None else Some (ws_master s))
        (if ws_password s = [] then None else Some (ws_password s)))
       (\<lambda>q. Inr (q, new_agent_client (ws_agent_url s) (ws_timeout s), worker_executor s))"

definition start_worker :: "(string \<Rightarrow> string option) \<Rightarrow> string \<Rightarrow> (worker_queue \<times> agent_client \<times> executor) result" where
  "start_worker env hostname = rbind (worker_settings env hostname) create_worker"

text \<open>
  A worker that starts claims positive batches of messages idle for a positive time, and connects
  through Sentinel exactly when hosts and a master are configured.
\<close>

lemma create_worker_queue:
  assumes "create_worker s = Inr (q, c, x)"
  shows "c = new_agent_client (ws_agent_url s) (ws_timeout s)
    \<and> 1 \<le> wq_idle_ms q \<and> 1 \<le> wq_batch q \<and> wq_stream q = ws_stream s \<and> wq_group q = ws_group s
    \<and> wq_consumer q = ws_consumer s \<and> x = worker_executor s
    \<and> wq_connection q = (if ws_hosts s \<noteq> [] \<and> ws_master s \<noteq> [] then Via_sentinel (ws_hosts s) (ws_master s)
        else Direct (ws_url s))
    \<and> wq_password q = (if ws_password s = [] then None else Some (ws_password s))"
  using assms
  by (auto simp: create_worker_def new_queue_def split: if_splits option.splits list.splits)

lemma create_worker_rejects:
  "(\<exists>ex. create_worker s = Inl ex) \<longleftrightarrow> ws_idle_ms s < 1 \<or> ws_batch s < 1"
  by (auto simp: create_worker_def new_queue_def)

text \<open>Without environment variables the worker is the default one.\<close>

lemma default_worker:
  "start_worker (\<lambda>_. None) host = Inr (
     \<lparr>wq_stream = ''agenyx:tasks'', wq_group = ''agenyx-workers'', wq_consumer = host,
       wq_dead_letter = ''agenyx:tasks:dead-letter'', wq_idle_ms = 10000, wq_batch = 10,
       wq_connection = Direct ''redis://valkey:6379/0'', wq_password = None\<rparr>,
     \<lparr>ac_base_url = ''http://agent:8000'', ac_timeout = ''120''\<rparr>, default_executor)"
proof -
  have ints: "py_int ''4'' = Some 4" "py_int ''5'' = Some 5" "py_int ''60'' = Some 60"
      "py_int ''10000'' = Some 10000" "py_int ''10'' = Some 10" "float_text ''120'' = Some ''120''"
    by code_simp+
  have url: "new_agent_client ''http://agent:8000'' t = \<lparr>ac_base_url = ''http://agent:8000'', ac_timeout = t\<rparr>" for t
    unfolding new_agent_client_def by code_simp
  show ?thesis
    by (simp add: start_worker_def worker_settings_def env_get_def env_int_def env_float_def ints
        parse_sentinel_hosts_def create_worker_def new_queue_def url worker_executor_def default_executor_def)
qed

end
