(* ===== verification/WorkerDemo.thy ===== *)
theory WorkerDemo
  imports WorkerConfig
begin

text \<open>
  A concrete Valkey server, which behaves as the worker relies on, an agent service that is down, and a
  task: the examples of the properties of the worker.
\<close>

text \<open>The hashes, the pending messages and the entries added to streams.\<close>

record demo_server =
  ds_hash :: "string \<Rightarrow> string \<Rightarrow> string option"
  ds_pending :: "(string \<times> string \<times> string) list"
  ds_new :: "message list"
  ds_added :: "(string \<times> (string \<times> string) list) list"

definition demo_ack :: "string \<Rightarrow> string \<Rightarrow> string \<Rightarrow> (demo_server, unit) act" where
  "demo_ack st g i s = (Inr (), s\<lparr>ds_pending := removeAll (st, g, i) (ds_pending s)\<rparr>)"

definition demo_add :: "string \<Rightarrow> (string \<times> string) list \<Rightarrow> (demo_server, string) act" where
  "demo_add st m s = (Inr ''d'', s\<lparr>ds_added := ds_added s @ [(st, m)]\<rparr>)"

definition demo_hset :: "string \<Rightarrow> (string \<times> pyval) list \<Rightarrow> (demo_server, unit) act" where
  "demo_hset k m s = (Inr (), s\<lparr>ds_hash := (ds_hash s)(k := set_fields (ds_hash s k) m)\<rparr>)"

definition demo_readgroup ::
  "string \<Rightarrow> string \<Rightarrow> string \<Rightarrow> int \<Rightarrow> int \<Rightarrow> (demo_server, (string \<times> message list) list) act" where
  "demo_readgroup st g c n b s = (case ds_new s of [] \<Rightarrow> (Inr [], s)
     | m # ms \<Rightarrow> (Inr [(st, [m])], s\<lparr>ds_new := ms, ds_pending := ds_pending s @ [(st, g, fst m)]\<rparr>))"

definition demo_valkey :: "demo_server valkey" where
  "demo_valkey = \<lparr>vk_group_create = (\<lambda>st g s. (Inr (), s)), vk_readgroup = demo_readgroup,
     vk_autoclaim = (\<lambda>st g c idle n s. (Inr None, s)), vk_ack = demo_ack, vk_add = demo_add,
     vk_pending = (\<lambda>st g s. (Inr (PDict [(''pending'', PInt (int (length (ds_pending s))))]), s)),
     vk_hget = (\<lambda>k f s. (Inr (ds_hash s k f), s)), vk_hset = demo_hset,
     vk_close = (\<lambda>s. (Inr (), s)), vk_sentinel_close = (\<lambda>s. (Inr (), s))\<rparr>"

lemma demo_valkey_behaves: "valkey_behaves demo_valkey ds_hash (\<lambda>s. set (ds_pending s))"
  by (simp add: valkey_behaves_def demo_valkey_def demo_hset_def demo_add_def demo_ack_def)

definition sample_task :: message where
  "sample_task = (''1-0'', [(''execution_id'', ''e''), (''intent'', ''i'')])"

lemma demo_task_message: "task_message sample_task ''1-0'' ''e'' ''i''"
  by (simp add: task_message_def sample_task_def)

definition task_queue :: worker_queue where
  "task_queue = \<lparr>wq_stream = ''agenyx:tasks'', wq_group = ''agenyx-workers'', wq_consumer = ''w'',
     wq_dead_letter = ''agenyx:tasks:dead-letter'', wq_idle_ms = 10000, wq_batch = 10,
     wq_connection = Direct ''redis://valkey:6379/0'', wq_password = None\<rparr>"

definition idle_world :: "demo_server worker_world" where
  "idle_world = \<lparr>ww_server = \<lparr>ds_hash = (\<lambda>_ _. None),
       ds_pending = [(''agenyx:tasks'', ''agenyx-workers'', ''1-0'')], ds_new = [sample_task], ds_added = []\<rparr>,
     ww_tick = 0, ww_shutdown = False, ww_log = []\<rparr>"

lemma idle_world_log [simp]: "ww_log idle_world = []" "ww_tick idle_world = 0"
  by (simp_all add: idle_world_def)

lemma idle_world_task: "ds_hash (ww_server idle_world) k f = None"
  "set (ds_pending (ww_server idle_world)) = {(wq_stream task_queue, wq_group task_queue, ''1-0'')}"
  by (simp_all add: idle_world_def task_queue_def)

lemma default_attempts: "tx_max_attempts default_executor = 4"
  by (simp add: default_executor_def)

text \<open>An agent service that cannot be reached, and one that answers; five seconds between two readings of the
  clock, and its times written as numbers.\<close>

definition down_env :: worker_env where
  "down_env = \<lparr>we_agent = (\<lambda>_. Failed (Exc HttpRequestError ''down'')), we_now = (\<lambda>n. of_int (5 * int n)),
     we_signal = (\<lambda>_. False), we_cancelled = (\<lambda>_. False), we_iso = (\<lambda>t. int_str \<lfloor>t\<rfloor>),
     we_parse_iso = (\<lambda>t. case py_int t of Some i \<Rightarrow> Inr (of_int i) | None \<Rightarrow> raise ValueError ''iso'')\<rparr>"

definition answering_env :: worker_env where
  "answering_env = down_env\<lparr>we_agent := (\<lambda>_. Replied \<lparr>hr_status = 200,
     hr_json = Some (PDict [(''answer'', PStr ''a''), (''steps'', PInt 2)]), hr_error_text = []\<rparr>),
     we_now := (\<lambda>_. 0), we_iso := (\<lambda>_. ''t'')\<rparr>"

lemma down_env_ok: "never_cancelled down_env" "always_fails down_env"
  by (simp_all add: never_cancelled_def always_fails_def down_env_def agent_result_def
      isinstance_exc_def exc_isa_def eval_nat_numeral)

lemma int_str_nonempty: "int_str i \<noteq> []"
  using py_int_int_str [of i] by (auto simp: py_int_def)

lemma down_env_iso: "iso_reads down_env"
proof -
  have "\<lfloor>we_now down_env n + of_int d\<rfloor> = 5 * int n + d"
      "we_now down_env n + of_int d = of_int (5 * int n + d)" for n d
    by (simp_all add: down_env_def) linarith
  then show ?thesis
    unfolding iso_reads_def by (simp add: down_env_def int_str_nonempty py_int_int_str)
qed

text \<open>Four attempts, put off by five, ten and twenty seconds; the fourth claim comes too early.\<close>

lemma demo_course: "retry_course down_env default_executor ''1-0'' ''i'' d 0 None 0 5 =
  [Wk_run ''1-0'' ''i'', Wk_wait 5, Wk_run ''1-0'' ''i'', Wk_wait 10, Wk_run ''1-0'' ''i'', Wk_wait 20,
   Wk_not_ready ''1-0'', Wk_run ''1-0'' ''i'', Wk_dead ''1-0'' d, Wk_ack ''1-0'']"
  by (simp add: eval_nat_numeral down_env_def default_executor_def retry_delay_def waited_def)

lemma demo_run_log:
  "ww_log (snd (worker_run 1 answering_env demo_valkey task_queue default_executor idle_world)) =
     [Wk_run ''1-0'' ''i'', Wk_completed ''1-0'' ''e'', Wk_ack ''1-0'', Wk_closed]"
  by code_simp

end
