(* ===== verification/AgentClients.thy ===== *)
theory AgentClients
  imports Backend Planner
begin

text \<open>
  The HTTP clients of the agent: the inference client with its retries bounded by the retry policy and by
  the deadline of the execution (\<^verbatim>\<open>inference/client.py\<close>), and the client of the semantic router
  (\<^verbatim>\<open>router/client.py\<close>).  The environment of the HTTP client is that of \<open>Backend\<close>; its clock \<open>he_perf\<close> is
  \<open>time.monotonic()\<close> here.
\<close>

section \<open>The inference client\<close>

record inference_client =
  ic_base_url :: string
  ic_key :: string
  ic_timeout :: time
  ic_timeout_text :: string
  ic_connect_timeout :: time
  ic_max_connections :: int
  ic_max_keepalive :: int
  ic_policy :: retry_policy

text \<open>\<open>ic_timeout_text\<close> is the text of the time-out in the messages.\<close>

definition new_inference_client ::
  "string \<Rightarrow> string \<Rightarrow> time \<Rightarrow> string \<Rightarrow> int \<Rightarrow> int \<Rightarrow> retry_policy option \<Rightarrow> inference_client" where
  "new_inference_client url key timeout text conns keepalive policy =
     \<lparr>ic_base_url = rstrip_slash url, ic_key = key, ic_timeout = timeout, ic_timeout_text = text,
       ic_connect_timeout = min timeout 10, ic_max_connections = conns, ic_max_keepalive = keepalive,
       ic_policy = (case policy of None \<Rightarrow> default_policy | Some p \<Rightarrow> p)\<rparr>"

definition completion_payload :: "string \<Rightarrow> pydict list \<Rightarrow> pydict list \<Rightarrow> pydict" where
  "completion_payload model messages tools =
     [(''model'', PStr model), (''messages'', PList (map PDict messages)), (''temperature'', PInt 0)]
     @ (if tools = [] then [] else [(''tools'', PList (map PDict tools)), (''tool_choice'', PStr ''auto'')])"

definition completion_request ::
  "inference_client \<Rightarrow> string \<Rightarrow> pydict list \<Rightarrow> pydict list \<Rightarrow> http_request" where
  "completion_request c model messages tools =
     \<lparr>rq_url = ic_base_url c @ ''/v1/chat/completions'',
       rq_headers = [(''X-Agenyx-Service-Key'', ic_key c)],
       rq_json = completion_payload model messages tools\<rparr>"

definition validate_response :: "pydict \<Rightarrow> unit result" where
  "validate_response data = (case dget data ''choices'' of
      PList (PDict choice # _) \<Rightarrow> (case dget choice ''message'' of
          PDict message \<Rightarrow> Inr ()
        | _ \<Rightarrow> raise LLMResponseError ''Inference response does not contain message'')
    | PList (_ # _) \<Rightarrow> raise LLMResponseError ''Inference response contains invalid choice''
    | _ \<Rightarrow> raise LLMResponseError ''Inference response does not contain choices'')"

text \<open>The exceptions of the POST, in the order of the handlers.\<close>

definition completion_error :: "inference_client \<Rightarrow> exc \<Rightarrow> exc" where
  "completion_error c x =
     (if isinstance_exc x HttpConnectError then
        Exc LLMConnectionError (''Unable to connect to inference service at '' @ ic_base_url c)
      else if isinstance_exc x HttpTimeoutException then
        Exc LLMTimeoutError (''Inference request timed out after '' @ ic_timeout_text c @ ''s'')
      else if isinstance_exc x HttpError then Exc LLMConnectionError ''Inference HTTP request failed''
      else x)"

definition check_completion :: "http_reply \<Rightarrow> pydict result" where
  "check_completion r =
     (if 500 \<le> hr_status r then
        raise LLMConnectionError (''Inference service returned HTTP '' @ int_str (hr_status r))
      else if 400 \<le> hr_status r then
        raise LLMResponseError (''Inference service returned HTTP '' @ int_str (hr_status r))
      else case hr_json r of
          None \<Rightarrow> raise LLMResponseError ''Inference service returned invalid JSON''
        | Some (PDict data) \<Rightarrow> rbind (validate_response data) (\<lambda>_. Inr data)
        | Some _ \<Rightarrow> raise LLMResponseError ''Inference response must be a JSON object'')"

definition complete_once ::
  "http_env \<Rightarrow> inference_client \<Rightarrow> http_request \<Rightarrow> ('x, pydict) http_act" where
  "complete_once e c rq = bnd (catch (http_post e rq) (\<lambda>x. throw (completion_error c x)))
     (\<lambda>r. lift_res (check_completion r))"

text \<open>Before the wait: the execution's deadline, when there is one.\<close>

definition check_deadline :: "http_env \<Rightarrow> time option \<Rightarrow> time \<Rightarrow> exc \<Rightarrow> ('x, unit) http_act" where
  "check_deadline e deadline delay x = (case deadline of
      None \<Rightarrow> ret ()
    | Some t \<Rightarrow> bnd (read_env (he_perf e)) (\<lambda>now. let remaining = t - now in
        if remaining \<le> 0 then throw x
        else if remaining \<le> delay then throw x else ret ()))"

text \<open>One pass of the loop: \<open>None\<close> when the attempt failed and is to be repeated.\<close>

definition complete_attempt ::
  "http_env \<Rightarrow> inference_client \<Rightarrow> time option \<Rightarrow> http_request \<Rightarrow> int \<Rightarrow> ('x, pydict option) http_act" where
  "complete_attempt e c deadline rq attempt =
     catch (bnd (complete_once e c rq) (\<lambda>d. ret (Some d)))
       (\<lambda>x. if \<not> isinstance_exc x PyException then throw x
         else bnd (lift_res (should_retry (ic_policy c) x attempt)) (\<lambda>yes.
           if \<not> yes then throw x
           else bnd (read_env (he_uniform e)) (\<lambda>u. bnd (lift_res (get_delay (ic_policy c) u attempt)) (\<lambda>delay.
             seq (check_deadline e deadline delay x) (seq (http_sleep e delay) (ret None))))))"

primrec complete_attempts ::
  "http_env \<Rightarrow> inference_client \<Rightarrow> time option \<Rightarrow> http_request \<Rightarrow> nat list \<Rightarrow> ('x, pydict) http_act" where
  "complete_attempts e c deadline rq [] =
     throw (Exc RuntimeError ''Inference retry loop exited unexpectedly'')"
| "complete_attempts e c deadline rq (n # ns) = bnd (complete_attempt e c deadline rq (int n)) (\<lambda>r.
     case r of Some data \<Rightarrow> ret data | None \<Rightarrow> complete_attempts e c deadline rq ns)"

definition client_complete ::
  "http_env \<Rightarrow> inference_client \<Rightarrow> string \<Rightarrow> pydict list \<Rightarrow> pydict list \<Rightarrow> time option \<Rightarrow> ('x, pydict) http_act" where
  "client_complete e c model messages tools deadline =
     complete_attempts e c deadline (completion_request c model messages tools)
       [1..<nat (rp_max_attempts (ic_policy c) + 1)]"

text \<open>\<open>close\<close> of either client; \<open>name\<close> tells the clients apart.\<close>

definition client_close :: "http_env \<Rightarrow> string \<Rightarrow> ('x, unit) http_act" where
  "client_close e name = bnd (gets (\<lambda>w. name \<in> hw_closed w)) (\<lambda>closed.
     guarded (\<not> closed) (bnd (read_env (he_aclose e)) (\<lambda>r. case r of
         Some x \<Rightarrow> throw x
       | None \<Rightarrow> modify (\<lambda>w. w\<lparr>hw_closed := insert name (hw_closed w)\<rparr>))))"

section \<open>The router client\<close>

record routing_decision =
  rd_model :: string
  rd_provider :: string
  rd_score :: "pyval option"
  rd_strategy :: "string option"

record router_client =
  sr_base_url :: string
  sr_timeout :: time
  sr_connect_timeout :: time

definition new_router_client :: "string \<Rightarrow> time \<Rightarrow> router_client" where
  "new_router_client url timeout = \<lparr>sr_base_url = rstrip_slash url, sr_timeout = timeout,
     sr_connect_timeout = min timeout 2\<rparr>"

definition route_request ::
  "router_client \<Rightarrow> string \<Rightarrow> string \<Rightarrow> pydict list \<Rightarrow> string list option \<Rightarrow> http_request" where
  "route_request c session task messages capabilities =
     \<lparr>rq_url = sr_base_url c @ ''/route'', rq_headers = [],
       rq_json = [(''session_id'', PStr session), (''task'', PStr task),
         (''messages'', PList (map PDict messages)),
         (''constraints'', PDict [(''required_capabilities'',
            PList (map PStr (case capabilities of None \<Rightarrow> [] | Some cs \<Rightarrow> cs)))])]\<rparr>"

definition router_error :: "exc \<Rightarrow> exc" where
  "router_error x =
     (if isinstance_exc x HttpTimeoutException then
        Exc SemanticRouterError ''Semantic router request timed out''
      else if isinstance_exc x HttpError then
        Exc SemanticRouterError ''Unable to connect to semantic router''
      else x)"

text \<open>\<open>float(score)\<close>: \<open>fl\<close> converts integers, which may be too large for a float.\<close>

definition score_of :: "(int \<Rightarrow> string result) \<Rightarrow> pyval \<Rightarrow> pyval option result" where
  "score_of fl v = (case v of
      PInt i \<Rightarrow> rbind (fl i) (\<lambda>t. Inr (Some (PFloat t)))
    | PBool b \<Rightarrow> rbind (fl (if b then 1 else 0)) (\<lambda>t. Inr (Some (PFloat t)))
    | PFloat t \<Rightarrow> Inr (Some (PFloat t))
    | _ \<Rightarrow> Inr None)"

definition routing_of :: "(int \<Rightarrow> string result) \<Rightarrow> pydict \<Rightarrow> routing_decision result" where
  "routing_of fl data =
     (case dget data ''model'' of
        PStr (m # ms) \<Rightarrow> (case dget data ''provider'' of
            PStr (p # ps) \<Rightarrow> rbind (score_of fl (dget data ''score'')) (\<lambda>score.
              Inr \<lparr>rd_model = m # ms, rd_provider = p # ps, rd_score = score,
                rd_strategy = (case dget data ''strategy'' of PStr s \<Rightarrow> Some s | _ \<Rightarrow> None)\<rparr>)
          | _ \<Rightarrow> raise SemanticRouterError ''Semantic router response is missing provider'')
      | _ \<Rightarrow> raise SemanticRouterError ''Semantic router response is missing model'')"

definition check_routing :: "(int \<Rightarrow> string result) \<Rightarrow> http_reply \<Rightarrow> routing_decision result" where
  "check_routing fl r =
     (if 500 \<le> hr_status r then
        raise SemanticRouterError (''Semantic router returned HTTP '' @ int_str (hr_status r))
      else if 400 \<le> hr_status r then
        raise SemanticRouterError (''Semantic router rejected request with HTTP '' @ int_str (hr_status r))
      else case hr_json r of
          None \<Rightarrow> raise SemanticRouterError ''Semantic router returned invalid JSON''
        | Some (PDict data) \<Rightarrow> routing_of fl data
        | Some _ \<Rightarrow> raise SemanticRouterError ''Semantic router response must be an object'')"

definition client_route ::
  "http_env \<Rightarrow> (int \<Rightarrow> string result) \<Rightarrow> router_client \<Rightarrow> string \<Rightarrow> string \<Rightarrow> pydict list \<Rightarrow> string list option
     \<Rightarrow> ('x, routing_decision) http_act" where
  "client_route e fl c session task messages capabilities =
     bnd (catch (http_post e (route_request c session task messages capabilities))
            (\<lambda>x. throw (router_error x)))
       (\<lambda>r. lift_res (check_routing fl r))"

section \<open>What a completion returns\<close>

text \<open>The meaning of one outcome, and the outcomes that are worth another attempt.\<close>

fun completion_result :: "inference_client \<Rightarrow> http_outcome \<Rightarrow> pydict result" where
  "completion_result c (Replied r) = check_completion r"
| "completion_result c (Failed x) = Inl (completion_error c x)"

definition transient :: "inference_client \<Rightarrow> http_outcome \<Rightarrow> bool" where
  "transient c out \<longleftrightarrow> (case completion_result c out of Inr _ \<Rightarrow> False
     | Inl x \<Rightarrow> exc_class x \<in> {LLMConnectionError, LLMTimeoutError, ToolExecutionError})"

lemma complete_once_post:
  "wp (complete_once e c rq) Q E w =
     (let w' = w\<lparr>hw_posts := hw_posts w @ [rq]\<rparr> in
      case completion_result c (he_post e (length (hw_posts w))) of Inr d \<Rightarrow> Q d w' | Inl x \<Rightarrow> E x w')"
  by (auto simp: complete_once_def wp Let_def split: http_outcome.splits sum.splits)

definition wait_ok :: "http_env \<Rightarrow> inference_client \<Rightarrow> time option \<Rightarrow> time \<Rightarrow> bool" where
  "wait_ok e c deadline d \<longleftrightarrow> 0 \<le> d \<and> d \<le> rp_max_delay (ic_policy c)
     \<and> (case deadline of None \<Rightarrow> True | Some t \<Rightarrow> \<exists>n. d < t - he_perf e n)"

text \<open>
  A call with \<open>k\<close> attempts left: \<open>Suc j\<close> requests, all but the last with transient failures, and waits
  within the policy and the deadline; its result is what the last request means.
\<close>

definition completion_ran ::
  "http_env \<Rightarrow> inference_client \<Rightarrow> time option \<Rightarrow> http_request \<Rightarrow> nat \<Rightarrow> 'x http_world_scheme \<Rightarrow> pydict result
     \<Rightarrow> 'x http_world_scheme \<Rightarrow> bool" where
  "completion_ran e c deadline rq k w r w' = (let out = (\<lambda>m. he_post e (length (hw_posts w) + m)) in
     \<exists>j ds. j < k \<and> hw_posts w' = hw_posts w @ replicate (Suc j) rq
       \<and> (\<forall>m < j. transient c (out m))
       \<and> hw_sleeps w' = hw_sleeps w @ ds \<and> list_all (wait_ok e c deadline) ds
       \<and> (length ds = j \<and> r = completion_result c (out j)
            \<and> (transient c (out j) \<and> deadline = None \<longrightarrow> Suc j = k)
          \<or> length ds = Suc j \<and> r = raise CancelledError []))"

text \<open>One pass.\<close>

definition attempted ::
  "http_env \<Rightarrow> inference_client \<Rightarrow> time option \<Rightarrow> http_request \<Rightarrow> bool \<Rightarrow> 'x http_world_scheme
     \<Rightarrow> pydict option result \<Rightarrow> 'x http_world_scheme \<Rightarrow> bool" where
  "attempted e c deadline rq again w r w' = (let out = he_post e (length (hw_posts w)) in
     hw_posts w' = hw_posts w @ [rq]
     \<and> (hw_sleeps w' = hw_sleeps w \<and> r = rbind (completion_result c out) (\<lambda>d. Inr (Some d))
          \<and> (transient c out \<and> deadline = None \<longrightarrow> \<not> again)
        \<or> (\<exists>d. hw_sleeps w' = hw_sleeps w @ [d] \<and> wait_ok e c deadline d) \<and> transient c out \<and> again
          \<and> (r = Inr None \<or> r = raise CancelledError [])))"

lemma rbind_Some_iff [simp]:
  "Inr r = rbind res (\<lambda>d. Inr (Some d)) \<longleftrightarrow> (\<exists>d. res = Inr d \<and> r = Some d)"
  "Inl x = rbind res (\<lambda>d. Inr (Some d)) \<longleftrightarrow> res = Inl x"
  by (cases res; auto)+

lemma should_retry_iff:
  "1 \<le> a \<Longrightarrow> should_retry p x a =
     Inr (a < rp_max_attempts p \<and> exc_class x \<in> {LLMConnectionError, LLMTimeoutError, ToolExecutionError})"
  by (auto simp: should_retry_def isinstance_exc_def)

lemma wp_check_deadline:
  "wp (check_deadline e deadline d x) Q E w = (case deadline of None \<Rightarrow> Q () w
     | Some t \<Rightarrow> let w' = w\<lparr>hw_tick := hw_tick w + 1\<rparr> in
         if 0 < t - he_perf e (hw_tick w) \<and> d < t - he_perf e (hw_tick w) then Q () w' else E x w')"
  by (simp add: check_deadline_def wp Let_def not_le split: option.split)

lemma wp_http_sleep:
  "wp (http_sleep e d) Q E w = (let w' = w\<lparr>hw_sleeps := hw_sleeps w @ [d], hw_tick := hw_tick w + 1\<rparr> in
     if he_sleep_cancelled e (hw_tick w) then E (Exc CancelledError []) w' else Q () w')"
  by (simp add: http_sleep_def wp Let_def)

lemma complete_attempt_spec:
  assumes "policy_ok (ic_policy c)" "\<And>t. 0 \<le> he_uniform e t \<and> he_uniform e t \<le> 1" "1 \<le> n"
    "again = (int n < rp_max_attempts (ic_policy c))"
  shows "wp (complete_attempt e c deadline rq (int n))
    (\<lambda>r. attempted e c deadline rq again w (Inr r)) (\<lambda>x. attempted e c deadline rq again w (Inl x)) w"
proof (cases "completion_result c (he_post e (length (hw_posts w)))")
  case (Inr d)
  then show ?thesis
    by (simp add: complete_attempt_def wp complete_once_post attempted_def transient_def Let_def)
next
  case (Inl x)
  let ?retry = "int n < rp_max_attempts (ic_policy c) \<and> exc_class x \<in> {LLMConnectionError, LLMTimeoutError, ToolExecutionError}"
  have sr: "should_retry (ic_policy c) x (int n) = Inr ?retry"
    using assms(3) by (simp add: should_retry_iff)
  have tr: "transient c (he_post e (length (hw_posts w))) \<longleftrightarrow>
      exc_class x \<in> {LLMConnectionError, LLMTimeoutError, ToolExecutionError}"
    by (simp add: transient_def Inl)
  show ?thesis
  proof (cases ?retry)
    case False
    then show ?thesis
      using tr assms(4)
      by (auto simp: complete_attempt_def wp complete_once_post attempted_def Let_def Inl sr)
  next
    case True
    then have py: "isinstance_exc x PyException" by (auto simp: isinstance_exc_def exc_isa_PyException)
    have again: "again" "transient c (he_post e (length (hw_posts w)))" using True tr assms(4) by simp_all
    let ?u = "he_uniform e (hw_tick w)"
    obtain d where d: "get_delay (ic_policy c) ?u (int n) = Inr d" "0 \<le> d" "d \<le> rp_max_delay (ic_policy c)"
      using get_delay_bounds [OF assms(1) _ conjunct1 [OF assms(2)] conjunct2 [OF assms(2)], of "int n" "hw_tick w"]
        assms(3) by auto
    show ?thesis
    proof (cases deadline)
      case None
      then show ?thesis
        using d again True by (simp add: complete_attempt_def wp complete_once_post attempted_def Let_def Inl
            sr True py wp_check_deadline wp_http_sleep wait_ok_def)
    next
      case (Some t)
      then show ?thesis
        using d again True by (auto simp: complete_attempt_def wp complete_once_post attempted_def Let_def Inl
            sr True py wp_check_deadline wp_http_sleep wait_ok_def)
    qed
  qed
qed

lemma completion_ran_step:
  assumes "attempted e c deadline rq True w (Inr None) v" "completion_ran e c deadline rq k v r w'"
  shows "completion_ran e c deadline rq (Suc k) w r w'"
proof -
  let ?out = "\<lambda>m. he_post e (length (hw_posts w) + m)"
  have v: "hw_posts v = hw_posts w @ [rq]" "transient c (?out 0)"
    using assms(1) by (auto simp: attempted_def Let_def)
  obtain d where d: "hw_sleeps v = hw_sleeps w @ [d]" "wait_ok e c deadline d"
    using assms(1) by (auto simp: attempted_def Let_def)
  obtain j ds where j: "j < k" "hw_posts w' = hw_posts v @ replicate (Suc j) rq"
      "\<forall>m < j. transient c (?out (Suc m))" "hw_sleeps w' = hw_sleeps v @ ds" "list_all (wait_ok e c deadline) ds"
      "length ds = j \<and> r = completion_result c (?out (Suc j))
         \<and> (transient c (?out (Suc j)) \<and> deadline = None \<longrightarrow> Suc j = k)
       \<or> length ds = Suc j \<and> r = raise CancelledError []"
    using assms(2) v(1) by (auto simp: completion_ran_def Let_def)
  have "\<forall>m < Suc j. transient c (?out m)"
    using v(2) j(3) by (auto simp: less_Suc_eq_0_disj)
  with v d j show ?thesis
    unfolding completion_ran_def Let_def
    by (intro exI [of _ "Suc j"] exI [of _ "d # ds"]) auto
qed

lemma completion_ran_last:
  assumes "attempted e c deadline rq again w (case r of Inl x \<Rightarrow> Inl x | Inr d \<Rightarrow> Inr (Some d)) v" "again = (0 < k)"
  shows "completion_ran e c deadline rq (Suc k) w r v"
proof (cases "hw_sleeps v = hw_sleeps w")
  case True
  with assms show ?thesis
    unfolding completion_ran_def Let_def
    by (intro exI [of _ 0] exI [of _ "[]"])
       (auto simp: attempted_def Let_def split: sum.splits)
next
  case False
  then obtain d where "hw_sleeps v = hw_sleeps w @ [d]" "wait_ok e c deadline d" "r = raise CancelledError []"
    using assms by (auto simp: attempted_def Let_def split: sum.splits)
  with assms show ?thesis
    unfolding completion_ran_def Let_def
    by (intro exI [of _ 0] exI [of _ "[d]"]) (auto simp: attempted_def Let_def)
qed

lemma complete_attempts_ran:
  assumes "policy_ok (ic_policy c)" "\<And>t. 0 \<le> he_uniform e t \<and> he_uniform e t \<le> 1"
    "1 \<le> n" "rp_max_attempts (ic_policy c) = int (n + k)"
  shows "wp (complete_attempts e c deadline rq [n..<Suc (n + k)])
    (\<lambda>d. completion_ran e c deadline rq (Suc k) w (Inr d))
    (\<lambda>x. completion_ran e c deadline rq (Suc k) w (Inl x)) w"
  using assms(3,4)
proof (induction k arbitrary: n w)
  case 0
  have again: "False = (int n < rp_max_attempts (ic_policy c))" using 0 by simp
  have list: "[n..<Suc (n + 0)] = [n]" by simp
  show ?case
    unfolding list complete_attempts.simps wp_bnd
  proof (rule wp_mono [OF complete_attempt_spec [OF assms(1,2) 0(1) again]])
    fix r v assume a: "attempted e c deadline rq False w (Inr r) v"
    then obtain d where "r = Some d"
      by (cases "completion_result c (he_post e (length (hw_posts w)))") (auto simp: attempted_def Let_def)
    with a completion_ran_last [of e c deadline rq False w "Inr d" v 0]
    show "wp (case r of None \<Rightarrow> throw (Exc RuntimeError ''Inference retry loop exited unexpectedly'')
        | Some data \<Rightarrow> ret data)
       (\<lambda>d. completion_ran e c deadline rq (Suc 0) w (Inr d))
       (\<lambda>x. completion_ran e c deadline rq (Suc 0) w (Inl x)) v"
      by (simp add: wp)
  next
    fix x v assume "attempted e c deadline rq False w (Inl x) v"
    with completion_ran_last [of e c deadline rq False w "Inl x" v 0]
    show "completion_ran e c deadline rq (Suc 0) w (Inl x) v" by simp
  qed
next
  case (Suc k)
  have again: "True = (int n < rp_max_attempts (ic_policy c))" using Suc.prems by simp
  have list: "[n..<Suc (n + Suc k)] = n # [Suc n..<Suc (Suc n + k)]" by (simp add: upt_rec)
  show ?case
    unfolding list complete_attempts.simps wp_bnd
  proof (rule wp_mono [OF complete_attempt_spec [OF assms(1,2) Suc.prems(1) again]])
    fix r v assume a: "attempted e c deadline rq True w (Inr r) v"
    show "wp (case r of None \<Rightarrow> complete_attempts e c deadline rq [Suc n..<Suc (Suc n + k)]
        | Some data \<Rightarrow> ret data)
       (\<lambda>d. completion_ran e c deadline rq (Suc (Suc k)) w (Inr d))
       (\<lambda>x. completion_ran e c deadline rq (Suc (Suc k)) w (Inl x)) v"
    proof (cases r)
      case None
      have "wp (complete_attempts e c deadline rq [Suc n..<Suc (Suc n + k)])
          (\<lambda>d. completion_ran e c deadline rq (Suc k) v (Inr d))
          (\<lambda>x. completion_ran e c deadline rq (Suc k) v (Inl x)) v"
        using Suc.IH [of "Suc n" v] Suc.prems by simp
      then show ?thesis
        unfolding None option.case
        by (rule wp_mono) (use a None completion_ran_step in blast)+
    next
      case (Some d)
      with a completion_ran_last [of e c deadline rq True w "Inr d" v "Suc k"] show ?thesis
        by (simp add: wp)
    qed
  next
    fix x v assume "attempted e c deadline rq True w (Inl x) v"
    with completion_ran_last [of e c deadline rq True w "Inl x" v "Suc k"]
    show "completion_ran e c deadline rq (Suc (Suc k)) w (Inl x) v" by simp
  qed
qed

text \<open>A whole call: at least one request, at most \<open>max_attempts\<close>.\<close>

lemma client_complete_ran:
  assumes "policy_ok (ic_policy c)" "\<And>t. 0 \<le> he_uniform e t \<and> he_uniform e t \<le> 1"
  shows "completion_ran e c deadline (completion_request c model messages tools)
    (nat (rp_max_attempts (ic_policy c))) w
    (fst (client_complete e c model messages tools deadline w))
    (snd (client_complete e c model messages tools deadline w))"
proof -
  have pos: "0 < rp_max_attempts (ic_policy c)" using assms(1) by (simp add: policy_ok_def)
  then obtain k where k: "nat (rp_max_attempts (ic_policy c)) = Suc k" by (cases "nat (rp_max_attempts (ic_policy c))") auto
  with pos have "rp_max_attempts (ic_policy c) = int (1 + k)" "nat (rp_max_attempts (ic_policy c) + 1) = Suc (1 + k)"
    by simp_all
  with complete_attempts_ran [OF assms, of 1 k deadline "completion_request c model messages tools" w]
  show ?thesis
    unfolding client_complete_def k by (auto simp: wp_def split: prod.splits sum.splits)
qed

text \<open>Every answer has the shape the planner reads.\<close>

lemma completion_result_shape:
  assumes "completion_result c out = Inr d"
  shows "\<exists>choice rest message. dget d ''choices'' = PList (PDict choice # rest) \<and> dget choice ''message'' = PDict message"
  using assms
  by (cases out)
     (auto simp: check_completion_def validate_response_def split: if_splits option.splits pyval.splits list.splits)

lemma completion_result_shaped:
  "case completion_result c out of Inl _ \<Rightarrow> True | Inr d \<Rightarrow> \<exists>choice rest message.
     dget d ''choices'' = PList (PDict choice # rest) \<and> dget choice ''message'' = PDict message"
  using completion_result_shape [of c out] by (auto split: sum.split)

lemma extract_message_of_completion:
  assumes "completion_result c out = Inr d" "extract_message (PDict d) = Inl x"
  shows "x = Exc AgentProtocolError (''Inference response message must have role '' @ quoted ''assistant'')
    \<or> x = Exc AgentProtocolError ''Inference message role must be a string''"
  using completion_result_shape [OF assms(1)] assms(2)
  by (auto simp: extract_message_def split: pyval.splits if_splits)

text \<open>The failures of a call are those of the language model interface, unless the POST raises something else.\<close>

lemma completion_result_errors:
  assumes "completion_result c out = Inl x" "\<And>y. out = Failed y \<Longrightarrow> isinstance_exc y HttpError"
  shows "exc_class x \<in> {LLMConnectionError, LLMTimeoutError, LLMResponseError}"
  using assms
  by (cases out)
     (auto simp: check_completion_def completion_error_def isinstance_exc_def rbind_Inl_iff validate_response_def
       split: if_splits option.splits pyval.splits list.splits)

section \<open>What the router client returns\<close>

lemma client_route_post:
  "client_route e fl c session task messages caps w =
     (let rq = route_request c session task messages caps in
      (case he_post e (length (hw_posts w)) of
         Failed x \<Rightarrow> Inl (router_error x) | Replied r \<Rightarrow> check_routing fl r,
       w\<lparr>hw_posts := hw_posts w @ [rq]\<rparr>))"
  by (simp add: client_route_def bnd_def catch_def http_post_def throw_def lift_res_def Let_def
      split: http_outcome.split)

text \<open>A decision names a model and a provider.\<close>

lemma routing_named: "routing_of fl data = Inr d \<Longrightarrow> rd_model d \<noteq> [] \<and> rd_provider d \<noteq> []"
  by (auto simp: routing_of_def split: pyval.splits list.splits)

lemma check_routing_named: "check_routing fl r = Inr d \<Longrightarrow> rd_model d \<noteq> [] \<and> rd_provider d \<noteq> []"
  by (auto simp: check_routing_def routing_named split: if_splits option.splits pyval.splits)

text \<open>Failures are router errors, but for a score that no float can hold.\<close>

lemma check_routing_errors:
  assumes "check_routing fl r = Inl x"
  shows "exc_class x = SemanticRouterError
    \<or> (\<exists>d i. hr_json r = Some (PDict d) \<and> fl i = Inl x)"
  using assms
  by (auto simp: check_routing_def routing_of_def score_of_def rbind_Inl_iff
      split: if_splits option.splits pyval.splits list.splits)

end
