(* ===== verification/AgentGateway.thy ===== *)
theory AgentGateway
  imports AgentClients Endpoint
begin

text \<open>
  The agent's inference client and the inference gateway together: the requests of
  \<^verbatim>\<open>internal/agent/app/inference/client.py\<close> are answered by the chat endpoint of
  \<^verbatim>\<open>inference/app/main.py\<close>.  Three loops are nested here: the attempts of the client, the failover of
  the gateway, and the retries of each provider's backend.
\<close>

section \<open>The provider requests of one request\<close>

text \<open>Whatever the state, the action sends at most \<open>k\<close> requests.\<close>

definition posts_at_most :: "nat \<Rightarrow> ('x http_world_scheme, 'a) act \<Rightarrow> bool" where
  "posts_at_most k m \<longleftrightarrow> (\<forall>w. \<exists>ps. hw_posts (snd (m w)) = hw_posts w @ ps \<and> length ps \<le> k)"

lemma posts_mono: "posts_at_most k m \<Longrightarrow> k \<le> l \<Longrightarrow> posts_at_most l m"
  unfolding posts_at_most_def by (meson le_trans)

lemma posts_chain:
  assumes "posts_at_most k m" "m w = (r, u)" "posts_at_most l n"
  shows "\<exists>ps. hw_posts (snd (n u)) = hw_posts w @ ps \<and> length ps \<le> k + l"
proof -
  obtain ps qs where "hw_posts u = hw_posts w @ ps" "length ps \<le> k" "hw_posts (snd (n u)) = hw_posts u @ qs" "length qs \<le> l"
    using assms unfolding posts_at_most_def by (metis snd_conv)
  then show ?thesis by (intro exI [of _ "ps @ qs"]) simp
qed

lemma posts_stop: "posts_at_most k m \<Longrightarrow> m w = (r, u) \<Longrightarrow> \<exists>ps. hw_posts u = hw_posts w @ ps \<and> length ps \<le> k + l"
  unfolding posts_at_most_def by (metis snd_conv trans_le_add1)

lemma posts_bnd:
  assumes "posts_at_most k m" "\<And>x. posts_at_most l (f x)"
  shows "posts_at_most (k + l) (bnd m f)"
  unfolding posts_at_most_def bnd_def
  using posts_chain [OF assms(1) _ assms(2)] posts_stop [OF assms(1)]
  by (auto split: prod.split sum.split)

lemma posts_catch:
  assumes "posts_at_most k m" "\<And>x. posts_at_most l (h x)"
  shows "posts_at_most (k + l) (catch m h)"
  unfolding posts_at_most_def catch_def
  using posts_chain [OF assms(1) _ assms(2)] posts_stop [OF assms(1)]
  by (auto split: prod.split sum.split)

lemma posts_ensure:
  assumes "posts_at_most k m" "posts_at_most l f"
  shows "posts_at_most (k + l) (ensure m f)"
proof -
  have "snd (ensure m f w) = snd (f (snd (m w)))" for w
    by (simp add: ensure_def split: prod.split sum.split)
  then show ?thesis
    unfolding posts_at_most_def using posts_chain [OF assms(1) _ assms(2)] by (metis surjective_pairing)
qed

lemma posts_lift: "(\<And>x. r = Inr x \<Longrightarrow> posts_at_most k (f x)) \<Longrightarrow> posts_at_most k (bnd (lift_res r) f)"
  by (cases r) (auto simp: posts_at_most_def bnd_def lift_res_def)

lemma posts_ends: "posts_at_most k (ret x)" "posts_at_most k (throw e)"
  by (simp_all add: posts_at_most_def ret_def throw_def)

text \<open>Everything but the calls of the providers sends nothing.\<close>

lemma posts_modify: "(\<And>w. hw_posts (f w) = hw_posts w) \<Longrightarrow> posts_at_most k (modify f)"
  by (simp add: posts_at_most_def modify_def)

lemma posts_silent:
  "posts_at_most k (read_env f)" "posts_at_most k (on_manager g)" "posts_at_most k (count_metric x)"
  "posts_at_most k admit" "posts_at_most k leave"
  by (auto simp: posts_at_most_def read_env_def on_manager_def count_metric_def modify_def admit_def leave_def
      split: prod.split sum.split)

lemma posts_bnd0: "posts_at_most 0 m \<Longrightarrow> (\<And>x. posts_at_most l (f x)) \<Longrightarrow> posts_at_most l (bnd m f)"
  using posts_bnd [of 0 m l f] by simp

lemma posts_seq0: "posts_at_most 0 m \<Longrightarrow> posts_at_most l n \<Longrightarrow> posts_at_most l (seq m n)"
  unfolding seq_def by (rule posts_bnd0)

text \<open>What follows, or handles, may be silent too.\<close>

lemma posts_first: "posts_at_most k m \<Longrightarrow> (\<And>x. posts_at_most 0 (f x)) \<Longrightarrow> posts_at_most k (bnd m f)"
  using posts_bnd [of k m 0 f] by simp

lemma posts_handled: "posts_at_most k m \<Longrightarrow> (\<And>x. posts_at_most 0 (h x)) \<Longrightarrow> posts_at_most k (catch m h)"
  using posts_catch [of k m 0 h] by simp

lemma posts_finally: "posts_at_most k m \<Longrightarrow> posts_at_most 0 f \<Longrightarrow> posts_at_most k (ensure m f)"
  using posts_ensure [of k m 0 f] by simp

lemma posts_guarded: "posts_at_most k m \<Longrightarrow> posts_at_most k (guarded b m)"
  by (simp add: guarded_def posts_at_most_def ret_def)

lemma posts_count: "posts_at_most k (count_inference e p m st started)"
  unfolding count_inference_def by (intro posts_bnd0 posts_seq0 posts_silent)

lemma posts_gate:
  "posts_at_most 0 (gt_allow (gw_gate e) p)" "posts_at_most 0 (gt_success (gw_gate e) p)"
  "posts_at_most 0 (gt_failure (gw_gate e) p)" "posts_at_most 0 (others_run e)"
  unfolding gw_gate_def others_run_def gate.simps
  by (intro posts_bnd0 posts_silent posts_modify; simp)+

text \<open>A call of a provider with \<open>K\<close> tries.\<close>

definition tries_bounded :: "nat \<Rightarrow> provider_registry \<Rightarrow> bool" where
  "tries_bounded K reg \<longleftrightarrow> (\<forall>(n, p) \<in> set reg. 0 \<le> be_max_retries (pr_backend p)
     \<and> nat (be_max_retries (pr_backend p)) + 1 \<le> K)"

lemma posts_backend:
  assumes "0 \<le> be_max_retries b"
  shows "posts_at_most (nat (be_max_retries b) + 1) (backend_chat e b (PDict d))"
  unfolding posts_at_most_def
proof
  fix w :: "'a http_world_scheme"
  let ?i = "length (hw_posts w)" and ?n = "nat (be_max_retries b)"
  obtain j where j: "j \<le> decisive (he_post e) ?i ?n - ?i"
      "hw_posts (snd (backend_chat e b (PDict d) w)) = hw_posts w @ replicate (Suc j) (chat_request b d)"
    using backend_chat_result [OF assms, of e d w] unfolding chat_ran_def Let_def by blast
  then have "Suc j \<le> ?n + 1" using decisive_bounds [of ?i "he_post e" ?n] by linarith
  with j(2) show "\<exists>ps. hw_posts (snd (backend_chat e b (PDict d) w)) = hw_posts w @ ps \<and> length ps \<le> ?n + 1"
    by (intro exI [of _ "replicate (Suc j) (chat_request b d)"]) simp
qed

lemma posts_chat:
  assumes "0 \<le> be_max_retries (pr_backend p)" "nat (be_max_retries (pr_backend p)) + 1 \<le> K"
  shows "posts_at_most K (gw_chat e p d)"
  unfolding gw_chat_def provider_chat_def
  by (intro posts_seq0 posts_gate)
     (auto intro: posts_ends posts_mono [OF posts_backend assms(2)] assms(1) split: pyval.split)

lemma posts_failover:
  assumes "tries_bounded K (fo_registry fo)" "0 \<le> k"
  shows "posts_at_most (nat (fo_max_attempts fo - k) * K)
     (failover_loop (gw_gate e) (gw_chat e) fo m d names attempts k err)"
  using assms(2)
proof (induction names arbitrary: attempts k err)
  case Nil
  show ?case by (simp add: posts_ends)
next
  case (Cons name names)
  let ?B = "nat (fo_max_attempts fo - k) * K"
  show ?case
  proof (cases "fo_max_attempts fo \<le> k")
    case True
    then show ?thesis by (simp add: posts_ends)
  next
    case False
    then have "nat (fo_max_attempts fo - k) = Suc (nat (fo_max_attempts fo - (k + 1)))" using Cons.prems by linarith
    then have B: "?B = K + nat (fo_max_attempts fo - (k + 1)) * K" by simp
    have found: "0 \<le> be_max_retries (pr_backend p) \<and> nat (be_max_retries (pr_backend p)) + 1 \<le> K"
      if "get_provider (fo_registry fo) name = Inr p" for p
    proof -
      have "(name, p) \<in> set (fo_registry fo)"
        using that by (auto simp: get_provider_def not_registered_def Let_def split: if_splits option.splits dest: map_of_SomeD)
      with assms(1) show ?thesis by (auto simp: tries_bounded_def)
    qed
    have call: "posts_at_most K (attempt_call (gw_chat e p d))"
      if "get_provider (fo_registry fo) name = Inr p" for p
      unfolding attempt_call_def using found [OF that]
      by (intro posts_first posts_handled posts_ends) (auto intro: posts_chat posts_ends)
    have rest: "posts_at_most (nat (fo_max_attempts fo - (k + 1)) * K)
        (failover_loop (gw_gate e) (gw_chat e) fo m d names as (k + 1) er)" for as er
      using Cons.IH [of "k + 1"] Cons.prems by simp
    show ?thesis
      unfolding failover_loop.simps if_not_P [OF False]
    proof (rule posts_lift, rule posts_bnd0 [OF posts_gate(1)])
      fix p allowed
      assume "get_provider (fo_registry fo) name = Inr p"
      from call [OF this] show "posts_at_most ?B
          (if \<not> allowed then failover_loop (gw_gate e) (gw_chat e) fo m d names
             (attempts @ [\<lparr>fa_provider = pr_name p, fa_success = False,
                            fa_error = Some ''Provider circuit is open''\<rparr>]) k err
           else bnd (attempt_call (gw_chat e p d)) (\<lambda>r. case r of
              Inl x \<Rightarrow> seq (gt_failure (gw_gate e) (pr_name p))
                (failover_loop (gw_gate e) (gw_chat e) fo m d names
                  (attempts @ [\<lparr>fa_provider = pr_name p, fa_success = False, fa_error = Some (exc_msg x)\<rparr>])
                  (k + 1) (Some x))
            | Inr r \<Rightarrow> seq (gt_success (gw_gate e) (pr_name p))
                (ret \<lparr>fr_response = r, fr_provider = pr_name p, fr_attempts = attempts @
                   [\<lparr>fa_provider = pr_name p, fa_success = True, fa_error = None\<rparr>]\<rparr>)))"
        using Cons.IH [OF Cons.prems]
        by (cases allowed) (simp_all only: B not_True_eq_False not_False_eq_True if_True if_False,
            auto intro!: posts_bnd posts_seq0 posts_gate rest posts_ends split: sum.split)
    qed
  qed
qed

lemma posts_serve:
  assumes "tries_bounded K (fo_registry (ap_failover a))"
  shows "posts_at_most (nat (fo_max_attempts (ap_failover a)) * K) (serve_chat e a rq)"
proof -
  let ?B = "nat (fo_max_attempts (ap_failover a)) * K"
  have fo: "posts_at_most ?B (gw_failover e (ap_failover a) d)" for d
    unfolding gw_failover_def failover_chat_def
    using posts_failover [OF assms, of 0] by (auto intro: posts_ends posts_lift split: pyval.split)
  have call: "posts_at_most ?B (call_failover e a d m started)" for d m started
    unfolding call_failover_def
    by (intro posts_first posts_handled fo posts_ends) (auto intro: posts_ends posts_seq0 posts_count)
  have run: "posts_at_most ?B (run_inference e a d m)" for d m
    unfolding run_inference_def
    by (intro posts_seq0 posts_bnd0 posts_silent posts_modify posts_finally posts_first posts_handled call)
       (auto simp: json_response_def intro: posts_ends posts_seq0 posts_count split: sum.split)
  have chat: "posts_at_most ?B (chat_completions e a rq)"
    unfolding chat_completions_def
    by (auto intro!: posts_ends posts_bnd0 posts_silent run split: option.split sum.split)
  show ?thesis
    unfolding serve_chat_def http_metrics_def Let_def
    by (intro posts_first posts_handled posts_bnd0 posts_seq0 posts_finally posts_silent posts_modify chat posts_ends posts_guarded)
       (auto simp: unhandled_exception_def intro: posts_ends posts_seq0 posts_silent)
qed

text \<open>A started service: every provider has the retries of the settings.\<close>

lemma set_dset: "set (dset k v d) \<subseteq> insert (k, v) (set d)"
  unfolding dset_def by (induction d) auto

lemma new_provider_retries:
  "new_provider n u k t c a r = Inr p \<Longrightarrow> 0 \<le> be_max_retries (pr_backend p) \<and> be_max_retries (pr_backend p) = r"
  by (auto simp: new_provider_def new_backend_def split: if_splits)

lemma start_providers_tries:
  "start_providers s cs reg m = Inr (reg', m') \<Longrightarrow> tries_bounded (nat (se_max_retries s) + 1) reg
     \<Longrightarrow> tries_bounded (nat (se_max_retries s) + 1) reg'"
proof (induction s cs reg m rule: start_providers.induct)
  case (2 s name c cs reg m)
  obtain p reg1 m1 u where 1: "new_provider name (bc_base_url c) (bc_api_key c) (se_request_timeout s)
        (se_max_connections s) (se_max_keepalive s) (se_max_retries s) = Inr p"
      "add_provider p reg = Inr reg1" "register_provider name m = (Inr u, m1)"
      "start_providers s cs reg1 m1 = Inr (reg', m')" "bc_type c = ''openai-compatible''"
    using "2.prems"(1)
    by (cases "register_provider name m"; cases "fst (register_provider name m)") (auto split: if_splits)
  have "tries_bounded (nat (se_max_retries s) + 1) reg1"
    using "2.prems"(2) new_provider_retries [OF 1(1)] 1(2) set_dset [of "pr_name p" p reg]
    by (fastforce simp: tries_bounded_def add_provider_def split: if_splits)
  then show ?case using "2.IH" 1 by simp
qed simp

lemma startup_tries: "startup s = Inr (a, w) \<Longrightarrow>
    tries_bounded (nat (se_max_retries s) + 1) (fo_registry (ap_failover a))
    \<and> fo_max_attempts (ap_failover a) = se_max_failover_attempts s"
  by (auto simp: startup_def new_failover_iff tries_bounded_def
      dest!: start_providers_tries [of s "provider_backend_configs s" "[]"] split: prod.splits)

section \<open>Which answer it is\<close>

text \<open>
  Partial correctness over the requests sent so far: from requests that satisfy \<open>Q\<close>, a value that is
  returned satisfies \<open>P\<close> with the requests sent by then.
\<close>

definition yields :: "(http_request list \<Rightarrow> bool) \<Rightarrow> ('x http_world_scheme, 'a) act
    \<Rightarrow> ('a \<Rightarrow> http_request list \<Rightarrow> bool) \<Rightarrow> bool" where
  "yields Q m P \<longleftrightarrow> (\<forall>w x u. m w = (Inr x, u) \<longrightarrow> Q (hw_posts w) \<longrightarrow> P x (hw_posts u))"

lemma yields_ret: "(\<And>ps. Q ps \<Longrightarrow> P x ps) \<Longrightarrow> yields Q (ret x) P"
  by (simp add: yields_def ret_def)

lemma yields_throw: "yields Q (throw e) P"
  by (simp add: yields_def throw_def)

lemma yields_silent: "posts_at_most 0 m \<Longrightarrow> yields Q m (\<lambda>_. Q)"
  unfolding yields_def posts_at_most_def by (metis append_Nil2 le_zero_eq length_0_conv snd_conv)

lemma yields_bnd: "yields Q m R \<Longrightarrow> (\<And>x. yields (R x) (f x) P) \<Longrightarrow> yields Q (bnd m f) P"
  unfolding yields_def bnd_def by (auto split: prod.splits sum.splits)

lemma yields_after: "posts_at_most 0 m \<Longrightarrow> (\<And>x. yields Q (f x) P) \<Longrightarrow> yields Q (bnd m f) P"
  by (rule yields_bnd [OF yields_silent])

lemma yields_seq: "posts_at_most 0 m \<Longrightarrow> yields Q n P \<Longrightarrow> yields Q (seq m n) P"
  unfolding seq_def by (rule yields_after)

lemma yields_catch: "yields Q m P \<Longrightarrow> (\<And>x. yields (\<lambda>_. True) (h x) P) \<Longrightarrow> yields Q (catch m h) P"
  unfolding yields_def catch_def by (auto split: prod.splits sum.splits)

lemma yields_ensure: "yields Q m P \<Longrightarrow> posts_at_most 0 f \<Longrightarrow> yields Q (ensure m f) P"
  unfolding yields_def ensure_def posts_at_most_def
  by (auto split: prod.splits sum.splits) (metis append_Nil2 snd_conv)

lemma yields_lift: "(\<And>x. r = Inr x \<Longrightarrow> yields Q (f x) P) \<Longrightarrow> yields Q (bnd (lift_res r) f) P"
  by (cases r) (auto simp: yields_def bnd_def lift_res_def)

lemma yields_if: "(b \<Longrightarrow> yields Q m P) \<Longrightarrow> (\<not> b \<Longrightarrow> yields Q n P) \<Longrightarrow> yields Q (if b then m else n) P"
  by simp

text \<open>The last request was this payload, sent to the provider, and the object is its answer.\<close>

definition from_provider :: "http_env \<Rightarrow> provider \<Rightarrow> pydict \<Rightarrow> pydict \<Rightarrow> http_request list \<Rightarrow> bool" where
  "from_provider e p payload d ps \<longleftrightarrow> ps \<noteq> [] \<and> last ps = chat_request (pr_backend p) payload
     \<and> outcome_result (he_post e (length ps - 1)) = Inr d"

lemma yields_backend:
  assumes "0 \<le> be_max_retries (pr_backend p)"
  shows "yields Q (backend_chat e (pr_backend p) (PDict payload)) (from_provider e p payload)"
  unfolding yields_def
proof (intro allI impI)
  fix w :: "'a http_world_scheme" and d u
  assume "backend_chat e (pr_backend p) (PDict payload) w = (Inr d, u)"
  with backend_chat_result [OF assms, of e payload w] obtain j where
      "hw_posts u = hw_posts w @ replicate (Suc j) (chat_request (pr_backend p) payload)"
      "outcome_result (he_post e (length (hw_posts w) + j)) = Inr d"
    by (auto simp: chat_ran_def Let_def)
  then show "from_provider e p payload d (hw_posts u)" by (simp add: from_provider_def)
qed

lemma yields_chat:
  assumes "0 \<le> be_max_retries (pr_backend p)"
  shows "yields Q (gw_chat e p payload) (from_provider (http_env.truncate e) p payload)"
  unfolding gw_chat_def provider_chat_def
  by (intro yields_seq posts_gate)
     (auto intro: yields_throw yields_backend [OF assms] split: pyval.split)

text \<open>The result of the failover: the provider it names gave it.\<close>

definition result_from :: "gateway_env \<Rightarrow> failover \<Rightarrow> string list \<Rightarrow> pydict \<Rightarrow> failover_result
    \<Rightarrow> http_request list \<Rightarrow> bool" where
  "result_from e fo names payload r ps \<longleftrightarrow> (\<exists>n p. n \<in> set names \<and> get_provider (fo_registry fo) n = Inr p
     \<and> pr_name p = fr_provider r \<and> from_provider (http_env.truncate e) p payload (fr_response r) ps)"

lemma yields_failover:
  assumes "tries_bounded K (fo_registry fo)" "set names \<subseteq> set route"
  shows "yields Q (failover_loop (gw_gate e) (gw_chat e) fo m payload names attempts k err)
     (result_from e fo route payload)"
  using assms(2)
proof (induction names arbitrary: attempts k err Q)
  case Nil
  show ?case by (simp add: yields_throw)
next
  case (Cons name names)
  have call: "yields Q (attempt_call (gw_chat e p payload))
      (\<lambda>r ps. case r of Inl x \<Rightarrow> True | Inr d \<Rightarrow> from_provider (http_env.truncate e) p payload d ps)"
    if "get_provider (fo_registry fo) name = Inr p" for p Q
  proof -
    have "0 \<le> be_max_retries (pr_backend p)"
      using assms(1) that by (auto simp: tries_bounded_def dest!: map_of_SomeD)
    then show ?thesis
      unfolding attempt_call_def
      by (intro yields_catch yields_bnd [OF yields_chat])
         (auto intro: yields_ret yields_throw)
  qed
  show ?case
    unfolding failover_loop.simps
  proof (rule yields_if [OF yields_throw], rule yields_lift, rule yields_after [OF posts_gate(1)], rule yields_if)
    fix p allowed
    assume p: "get_provider (fo_registry fo) name = Inr p"
    have rest: "yields R (failover_loop (gw_gate e) (gw_chat e) fo m payload names as i er)
        (result_from e fo route payload)" for R as i er
      using Cons by simp
    then show "yields Q (failover_loop (gw_gate e) (gw_chat e) fo m payload names as k err)
        (result_from e fo route payload)" for as .
    have given: "result_from e fo route payload \<lparr>fr_response = r, fr_provider = pr_name p, fr_attempts = as\<rparr> ps"
      if "from_provider (http_env.truncate e) p payload r ps" for r as ps
      using that p Cons.prems unfolding result_from_def by (intro exI [of _ name] exI [of _ p]) simp
    show "yields Q (bnd (attempt_call (gw_chat e p payload)) (\<lambda>r. case r of
              Inl x \<Rightarrow> seq (gt_failure (gw_gate e) (pr_name p))
                (failover_loop (gw_gate e) (gw_chat e) fo m payload names
                  (attempts @ [\<lparr>fa_provider = pr_name p, fa_success = False, fa_error = Some (exc_msg x)\<rparr>])
                  (k + 1) (Some x))
            | Inr r \<Rightarrow> seq (gt_success (gw_gate e) (pr_name p))
                (ret \<lparr>fr_response = r, fr_provider = pr_name p, fr_attempts = attempts @
                   [\<lparr>fa_provider = pr_name p, fa_success = True, fa_error = None\<rparr>]\<rparr>)))
        (result_from e fo route payload)"
      by (intro yields_bnd [OF call [OF p]])
         (auto intro!: yields_seq posts_gate yields_ret rest given split: sum.split)
  qed
qed

definition on_route :: "failover \<Rightarrow> string \<Rightarrow> provider \<Rightarrow> bool" where
  "on_route fo m p \<longleftrightarrow> (\<exists>names n. providers_for_model fo m = Inr names \<and> n \<in> set names
     \<and> get_provider (fo_registry fo) n = Inr p)"

text \<open>An error, or the answer of a provider of the model under its name and the name of the model.\<close>

definition answer_from :: "gateway_env \<Rightarrow> failover \<Rightarrow> string \<Rightarrow> pydict \<Rightarrow> answer \<Rightarrow> http_request list \<Rightarrow> bool" where
  "answer_from e fo m payload ans ps \<longleftrightarrow> (case ans of
      Api_error st code msg \<Rightarrow> 400 \<le> st
    | Answer hs body \<Rightarrow> (\<exists>p. on_route fo m p \<and> hs = [(''X-Agenyx-Provider'', pr_name p), (''X-Agenyx-Model'', m)]
        \<and> from_provider (http_env.truncate e) p payload body ps))"

lemma answer_from_error: "400 \<le> st \<Longrightarrow> answer_from e fo m d (Api_error st c t) ps"
  by (simp add: answer_from_def)

lemma check_messages_refuses: "check_messages s i msgs n = Inl x \<Longrightarrow> answer_from e fo m d x ps"
  by (induction s i msgs n rule: check_messages.induct)
     (auto simp: answer_from_def split: pyval.splits if_splits)

lemma check_request_refuses:
  assumes "check_request a rq = Inl x"
  shows "answer_from e fo m d x ps"
proof -
  have body: "check_body s rq = Inl x \<Longrightarrow> answer_from e fo m d x ps" for s
    by (auto simp: check_body_def answer_from_def split: option.splits pyval.splits if_splits)
  have content: "check_content s d' = Some x \<Longrightarrow> answer_from e fo m d x ps" for s d'
    using check_messages_refuses
    by (auto simp: check_content_def split: pyval.splits if_splits sum.splits) (auto simp: answer_from_def)
  have model: "resolve_model a d' = Inl x \<Longrightarrow> answer_from e fo m d x ps" for d'
    by (auto simp: resolve_model_def answer_from_def split: pyval.splits sum.splits)
  show ?thesis
    using assms body content model
    by (auto simp: check_request_def Let_def split: sum.splits option.splits if_splits) (auto simp: answer_from_def)
qed

lemma call_failover_yields:
  assumes "tries_bounded K (fo_registry (ap_failover a))" "dget payload ''model'' = PStr m"
  shows "yields Q (call_failover e a payload m started) (\<lambda>r ps. case r of Inl x \<Rightarrow> answer_from e (ap_failover a) m payload x ps
     | Inr res \<Rightarrow> \<exists>names. providers_for_model (ap_failover a) m = Inr names
         \<and> result_from e (ap_failover a) names payload res ps)"
proof -
  have "yields Q (gw_failover e (ap_failover a) payload) (\<lambda>res ps. \<exists>names.
      providers_for_model (ap_failover a) m = Inr names \<and> result_from e (ap_failover a) names payload res ps)"
    unfolding gw_failover_def failover_chat_def assms(2) pyval.case
  proof (intro yields_if yields_throw yields_lift)
    fix names
    assume "providers_for_model (ap_failover a) m = Inr names"
    with yields_failover [OF assms(1) subset_refl, of Q e m payload names "[]" 0 None]
    show "yields Q (failover_loop (gw_gate e) (gw_chat e) (ap_failover a) m payload names [] 0 None)
       (\<lambda>res ps. \<exists>names. providers_for_model (ap_failover a) m = Inr names
          \<and> result_from e (ap_failover a) names payload res ps)"
      by (auto simp: yields_def)
  qed
  then show ?thesis
    unfolding call_failover_def
    by (intro yields_catch yields_bnd [where m = "gw_failover e (ap_failover a) payload"])
       (auto intro!: yields_ret yields_throw yields_seq posts_count answer_from_error)
qed

lemma run_inference_yields:
  assumes "tries_bounded K (fo_registry (ap_failover a))" "dget payload ''model'' = PStr m"
  shows "yields Q (run_inference e a payload m) (answer_from e (ap_failover a) m payload)"
proof -
  let ?got = "\<lambda>r ps. case r of Inl x \<Rightarrow> answer_from e (ap_failover a) m payload x ps
     | Inr res \<Rightarrow> \<exists>names. providers_for_model (ap_failover a) m = Inr names
         \<and> result_from e (ap_failover a) names payload res ps"
  have "answer_from e (ap_failover a) m payload
      (Answer [(''X-Agenyx-Provider'', fr_provider res), (''X-Agenyx-Model'', m)] (fr_response res)) ps"
    if "result_from e (ap_failover a) names payload res ps" "providers_for_model (ap_failover a) m = Inr names" for names res ps
    using that unfolding answer_from_def result_from_def on_route_def by fastforce
  then have "yields (?got r) (case r of
        Inl x \<Rightarrow> ret x
      | Inr res \<Rightarrow> json_response [(''X-Agenyx-Provider'', fr_provider res), (''X-Agenyx-Model'', m)] (fr_response res))
     (answer_from e (ap_failover a) m payload)" for r
    by (auto simp: json_response_def intro!: yields_ret yields_throw split: sum.split)
  moreover have "yields Q (ensure (bnd (call_failover e a payload m started) (\<lambda>r. case r of
          Inl x \<Rightarrow> ret (Inl x)
        | Inr res \<Rightarrow> seq (count_inference e (fr_provider res) m ''success'' started) (ret (Inr res))))
       (seq (modify (\<lambda>w. w\<lparr>gw_in_progress := (gw_in_progress w)(m := gw_in_progress w m - 1)\<rparr>)) leave)) ?got" for started Q
    by (intro yields_ensure yields_bnd [OF call_failover_yields [OF assms]] posts_modify posts_seq0 posts_silent)
       (auto intro!: yields_ret yields_seq posts_count split: sum.split)
  ultimately show ?thesis
    unfolding run_inference_def
    by (intro yields_seq [OF posts_modify] yields_after [OF posts_silent(1)])
       (auto intro: yields_bnd)
qed

lemma serve_chat_yields:
  assumes "tries_bounded K (fo_registry (ap_failover a))"
    "\<And>d md. check_request a rq = Inr (d, md) \<Longrightarrow> d = payload \<and> md_id md = m"
    "dget payload ''model'' = PStr m"
  shows "yields Q (serve_chat e a rq) (answer_from e (ap_failover a) m payload)"
proof -
  have auth: "require_service_auth (ap_settings a) (cr_key rq) = Some x \<Longrightarrow>
      answer_from e (ap_failover a) m payload x ps" for x ps
    by (auto simp: require_service_auth_def answer_from_def split: if_splits)
  have "yields Q (chat_completions e a rq) (answer_from e (ap_failover a) m payload)"
    unfolding chat_completions_def
    using auth check_request_refuses assms(2) run_inference_yields [OF assms(1,3)]
    by (auto intro!: yields_ret yields_after posts_silent answer_from_error split: option.split sum.split)
  then show ?thesis
    unfolding serve_chat_def http_metrics_def Let_def
    by (intro yields_catch yields_after yields_seq yields_ensure posts_silent posts_modify posts_bnd0 posts_seq0
        posts_guarded yields_bnd [where m = "chat_completions e a rq"])
       (auto intro!: yields_ret yields_throw yields_seq posts_silent answer_from_error simp: unhandled_exception_def unexpected_answer_def)
qed

section \<open>The connection\<close>

text \<open>
  The body of an answer, and what the client reads of it.  The answers of the endpoint have a text; a
  body \<open>wire\<close> knows no text for is an internal error all the same.
\<close>

definition gateway_body :: "answer \<Rightarrow> pyval" where
  "gateway_body x = (case x of
      Api_error st c m \<Rightarrow> PDict [(''detail'', PDict [(''code'', PStr c), (''message'', PStr m)])]
    | Answer h b \<Rightarrow> PDict b)"

definition gateway_reply :: "(pyval \<Rightarrow> pyval option) \<Rightarrow> (int \<Rightarrow> string) \<Rightarrow> answer \<Rightarrow> http_reply" where
  "gateway_reply wire reason x = (case wire (gateway_body x) of
      Some v \<Rightarrow> \<lparr>hr_status = answer_status x, hr_json = Some v, hr_error_text = reason (answer_status x)\<rparr>
    | None \<Rightarrow> \<lparr>hr_status = 500, hr_json = wire (gateway_body
        (Api_error 500 ''INTERNAL_SERVER_ERROR'' ''An unexpected internal error occurred.'')),
        hr_error_text = reason 500\<rparr>)"

text \<open>The request as the gateway gets it, \<open>len\<close> the length of its body when that could be read.\<close>

definition sent_to_gateway :: "int option \<Rightarrow> http_request \<Rightarrow> chat_http_request" where
  "sent_to_gateway len rq = \<lparr>cr_method = ''POST'', cr_route = ''/v1/chat/completions'',
     cr_key = map_of (rq_headers rq) ''X-Agenyx-Service-Key'', cr_body_length = len,
     cr_json = Some (PDict (rq_json rq))\<rparr>"

text \<open>
  One request of the client: the gateway, found in the state \<open>w\<close>, handles it and answers, or the answer is
  lost on the way, or the request never arrives.
\<close>

definition served_call :: "gateway_env \<Rightarrow> app \<Rightarrow> (pyval \<Rightarrow> pyval option) \<Rightarrow> (int \<Rightarrow> string) \<Rightarrow> http_request
    \<Rightarrow> gateway \<Rightarrow> http_outcome \<Rightarrow> gateway \<Rightarrow> bool" where
  "served_call e a wire reason rq w out w' \<longleftrightarrow>
     (\<exists>len r. serve_chat e a (sent_to_gateway len rq) w = (r, w') \<and> (case out of
         Replied rep \<Rightarrow> (case r of Inr ans \<Rightarrow> rep = gateway_reply wire reason ans | Inl x \<Rightarrow> False)
       | Failed x \<Rightarrow> True))
     \<or> w' = w \<and> (case out of Replied rep \<Rightarrow> False | Failed x \<Rightarrow> True)"

text \<open>All requests of a client, whatever the gateway did in between: \<open>W n\<close> is how the \<open>n\<close>-th one finds it.\<close>

definition through_gateway :: "(nat \<Rightarrow> gateway_env) \<Rightarrow> app \<Rightarrow> (pyval \<Rightarrow> pyval option) \<Rightarrow> (int \<Rightarrow> string)
    \<Rightarrow> http_env \<Rightarrow> http_request \<Rightarrow> (nat \<Rightarrow> gateway) \<Rightarrow> (nat \<Rightarrow> gateway) \<Rightarrow> bool" where
  "through_gateway ge a wire reason e rq W W' \<longleftrightarrow>
     (\<forall>n. served_call (ge n) a wire reason rq (W n) (he_post e n) (W' n))"

definition provider_requests :: "gateway \<Rightarrow> gateway \<Rightarrow> nat" where
  "provider_requests w w' = length (hw_posts w') - length (hw_posts w)"

section \<open>One request\<close>

lemma served_call_requests:
  assumes "tries_bounded K (fo_registry (ap_failover a))" "served_call e a wire reason rq w out w'"
  shows "provider_requests w w' \<le> nat (fo_max_attempts (ap_failover a)) * K"
  using assms(2) unfolding served_call_def
proof (elim disjE exE conjE)
  fix len r
  assume "serve_chat e a (sent_to_gateway len rq) w = (r, w')"
  then show ?thesis
    using posts_serve [OF assms(1), of e "sent_to_gateway len rq"]
    unfolding posts_at_most_def provider_requests_def by (metis add_diff_cancel_left' length_append snd_conv)
qed (simp add: provider_requests_def)

lemma served_reply: "served_call e a wire reason rq w (Replied rep) w' \<Longrightarrow>
    \<exists>len ans. serve_chat e a (sent_to_gateway len rq) w = (Inr ans, w') \<and> rep = gateway_reply wire reason ans"
proof -
  assume "served_call e a wire reason rq w (Replied rep) w'"
  then obtain len r where "serve_chat e a (sent_to_gateway len rq) w = (r, w')"
      "case r of Inr ans \<Rightarrow> rep = gateway_reply wire reason ans | Inl x \<Rightarrow> False"
    by (auto simp: served_call_def)
  then show ?thesis by (cases r) auto
qed

lemma completion_model:
  assumes "check_request a (sent_to_gateway len (completion_request c model messages tools)) = Inr (d, md)" "app_ok a w"
  shows "d = completion_payload model messages tools \<and> md_id md = model"
proof -
  let ?d = "completion_payload model messages tools"
  have model: "dget_or ?d ''model'' v = PStr model" "dset ''model'' (PStr model) ?d = ?d" for v
    by (simp_all add: completion_payload_def dget_or_def dset_def)
  have md: "resolve_model a ?d = Inr md" "d = dset ''model'' (PStr (md_id md)) ?d"
    using assms(1) by (auto simp: check_request_def check_body_def sent_to_gateway_def completion_request_def Let_def
        split: sum.splits option.splits if_splits)
  then have "map_of (ap_models a) model = Some md"
    by (auto simp: resolve_model_def model(1) get_model_def not_registered_def split: if_splits option.splits sum.splits)
  then have "md_id md = model" using assms(2) by (simp add: app_ok_def)
  with md(2) model(2) show ?thesis by simp
qed

lemma check_reply:
  assumes "faithful_wire wire" "answer_from e fo m payload ans ps"
    "check_completion (gateway_reply wire reason ans) = Inr data"
  shows "validate_response data = Inr ()
    \<and> (\<exists>p. on_route fo m p \<and> from_provider (http_env.truncate e) p payload data ps)"
proof (cases ans)
  case (Api_error st c t)
  then have "400 \<le> hr_status (gateway_reply wire reason ans)"
    using assms(2) by (simp add: answer_from_def gateway_reply_def split: option.split)
  then show ?thesis using assms(3) by (simp add: check_completion_def split: if_splits)
next
  case (Answer hs body)
  have "wire (PDict body) = Some (PDict body)"
    using assms(1,3) Answer
    by (auto simp: gateway_reply_def gateway_body_def check_completion_def faithful_wire_def
        dest: spec [of _ "PDict body"] split: option.splits)
  then have "data = body" "validate_response body = Inr ()"
    using assms(3) Answer
    by (cases "validate_response body"; simp add: gateway_reply_def gateway_body_def check_completion_def)+
  then show ?thesis using assms(2) Answer by (auto simp: answer_from_def)
qed

lemma check_completion_class:
  "check_completion rep = Inl x \<Longrightarrow> exc_class x \<in> {LLMConnectionError, LLMResponseError}
     \<and> (exc_class x = LLMConnectionError \<longrightarrow> 500 \<le> hr_status rep)"
  by (auto simp: check_completion_def validate_response_def rbind_Inl_iff
      split: if_splits option.splits pyval.splits list.splits)

lemma transient_reply: "transient c (Replied rep) \<Longrightarrow> 500 \<le> hr_status rep"
  using check_completion_class by (fastforce simp: transient_def split: sum.splits)

lemma completion_result_class: "completion_result c out = Inl x \<Longrightarrow>
    exc_class x \<in> {LLMConnectionError, LLMTimeoutError, LLMResponseError} \<or> out = Failed x"
  by (cases out) (auto simp: completion_error_def dest!: check_completion_class split: if_splits)

section \<open>A completion\<close>

text \<open>What a call of the client that made \<open>n\<close> requests, the first of them the \<open>k\<close>-th, means at the gateway.\<close>

lemma completion_through_gateway:
  assumes start: "startup s = Inr (a, w0)" and faithful: "faithful_wire wire"
    and policy: "policy_ok (ic_policy c)" "\<And>t. 0 \<le> he_uniform e t \<and> he_uniform e t \<le> 1"
    and through: "through_gateway ge a wire reason e (completion_request c model messages tools) W W'"
    and run: "client_complete e c model messages tools deadline w = (r, t)"
  defines "k \<equiv> length (hw_posts w)"
  defines "n \<equiv> length (hw_posts t) - k"
  shows "1 \<le> n" "int n \<le> rp_max_attempts (ic_policy c)"
    "\<forall>i < n - 1. case he_post e (k + i) of Failed x \<Rightarrow> True | Replied rep \<Rightarrow> 500 \<le> hr_status rep"
    "case r of Inl x \<Rightarrow> exc_class x \<in> {LLMConnectionError, LLMTimeoutError, LLMResponseError, CancelledError}
         \<or> he_post e (k + n - 1) = Failed x
     | Inr data \<Rightarrow> validate_response data = Inr () \<and> (\<exists>p. on_route (ap_failover a) model p
         \<and> from_provider (http_env.truncate (ge (k + n - 1))) p (completion_payload model messages tools) data
             (hw_posts (W' (k + n - 1))))"
proof -
  let ?rq = "completion_request c model messages tools"
  let ?out = "\<lambda>m. he_post e (k + m)"
  have "completion_ran e c deadline ?rq (nat (rp_max_attempts (ic_policy c))) w r t"
    using client_complete_ran [OF policy, where deadline = deadline and model = model and messages = messages
        and tools = tools and w = w] run by simp
  then obtain j where j: "j < nat (rp_max_attempts (ic_policy c))" "hw_posts t = hw_posts w @ replicate (Suc j) ?rq"
      "\<forall>m < j. transient c (?out m)" "r = completion_result c (?out j) \<or> r = raise CancelledError []"
    unfolding completion_ran_def Let_def k_def by blast
  then have n: "n = Suc j" "k + n - 1 = k + j" by (simp_all add: n_def k_def)
  show "1 \<le> n" "int n \<le> rp_max_attempts (ic_policy c)" using j(1) n by linarith+
  show "\<forall>i < n - 1. case ?out i of Failed x \<Rightarrow> True | Replied rep \<Rightarrow> 500 \<le> hr_status rep"
    using j(3) n by (fastforce dest: transient_reply split: http_outcome.split)
  have app: "app_ok a w0" using startup_ok [OF start] by simp
  obtain K where K: "tries_bounded K (fo_registry (ap_failover a))" using startup_tries [OF start] by blast
  have served: "served_call (ge (k + j)) a wire reason ?rq (W (k + j)) (?out j) (W' (k + j))"
    using through by (simp add: through_gateway_def)
  have payload: "dget (completion_payload model messages tools) ''model'' = PStr model"
    by (simp add: completion_payload_def dget_def)
  show "case r of Inl x \<Rightarrow> exc_class x \<in> {LLMConnectionError, LLMTimeoutError, LLMResponseError, CancelledError}
         \<or> he_post e (k + n - 1) = Failed x
     | Inr data \<Rightarrow> validate_response data = Inr () \<and> (\<exists>p. on_route (ap_failover a) model p
         \<and> from_provider (http_env.truncate (ge (k + n - 1))) p (completion_payload model messages tools) data
             (hw_posts (W' (k + n - 1))))"
  proof (cases r)
    case (Inl x)
    have "exc_class x \<in> {LLMConnectionError, LLMTimeoutError, LLMResponseError, CancelledError} \<or> ?out j = Failed x"
      using j(4) Inl completion_result_class [of c "?out j" x] by auto
    then show ?thesis using Inl unfolding n(2) by simp
  next
    case (Inr data)
    with j(4) obtain rep where rep: "?out j = Replied rep" "check_completion rep = Inr data"
      by (cases "?out j") auto
    with served obtain len ans where ans: "serve_chat (ge (k + j)) a (sent_to_gateway len ?rq) (W (k + j)) = (Inr ans, W' (k + j))"
        "rep = gateway_reply wire reason ans"
      using served_reply by metis
    have "yields (\<lambda>_. True) (serve_chat (ge (k + j)) a (sent_to_gateway len ?rq))
        (answer_from (ge (k + j)) (ap_failover a) model (completion_payload model messages tools))"
      using completion_model [OF _ app] by (intro serve_chat_yields [OF K _ payload]) blast
    then have "answer_from (ge (k + j)) (ap_failover a) model (completion_payload model messages tools) ans (hw_posts (W' (k + j)))"
      using ans(1) by (auto simp: yields_def)
    from check_reply [OF faithful this] show ?thesis
      using rep(2) ans(2) Inr unfolding n(2) by auto
  qed
qed

lemma gateway_requests:
  assumes "startup s = Inr (a, w0)" "through_gateway ge a wire reason e rq W W'"
  shows "(\<Sum>i = k..<k + n. provider_requests (W i) (W' i))
    \<le> n * (nat (se_max_failover_attempts s) * (nat (se_max_retries s) + 1))"
proof -
  have "provider_requests (W i) (W' i) \<le> nat (se_max_failover_attempts s) * (nat (se_max_retries s) + 1)" for i
    using served_call_requests [of "nat (se_max_retries s) + 1" a "ge i" wire reason rq "W i" "he_post e i" "W' i"]
      startup_tries [OF assms(1)] assms(2) by (simp add: through_gateway_def)
  with sum_bounded_above [of "{k..<k + n}" "\<lambda>i. provider_requests (W i) (W' i)"] show ?thesis by simp
qed

end
