(* ===== verification/AgentAuth.thy ===== *)
theory AgentAuth
  imports PyText
begin

text \<open>
  The accounts and access tokens of the agent service (\<^verbatim>\<open>core/auth.py\<close>).  The key derivation function and
  the encoding of JSON web tokens are libraries: they are arguments, and what the service relies on is
  \<open>jwt_behaves\<close>.
\<close>

section \<open>Passwords\<close>

text \<open>\<open>kdf password salt\<close> is the derived key as hexadecimal text.\<close>

type_synonym key_derivation = "string \<Rightarrow> string \<Rightarrow> string"

definition hash_password :: "key_derivation \<Rightarrow> string \<Rightarrow> string \<Rightarrow> string" where
  "hash_password kdf password salt = salt @ CHR '':'' # kdf password salt"

definition verify_password :: "key_derivation \<Rightarrow> string \<Rightarrow> string \<Rightarrow> bool result" where
  "verify_password kdf password stored = (case py_partition (CHR '':'') stored of (salt, found, expected) \<Rightarrow>
     if found then Inr (kdf password salt = expected)
     else raise ValueError ''not enough values to unpack (expected 2, got 1)'')"

lemma verify_hashed:
  "CHR '':'' \<notin> set salt \<Longrightarrow> verify_password kdf p (hash_password kdf q salt) = Inr (kdf p salt = kdf q salt)"
  by (simp add: verify_password_def hash_password_def py_partition_found)

section \<open>The credential store\<close>

type_synonym user_store = "(string \<times> (string \<times> string)) list"

definition user_key :: "string \<Rightarrow> string" where
  "user_key email = py_lower (py_strip email)"

text \<open>\<open>salt\<close> is the random salt drawn for a new account.\<close>

definition add_user ::
  "key_derivation \<Rightarrow> string \<Rightarrow> string \<Rightarrow> string \<Rightarrow> user_store \<Rightarrow> (string \<times> user_store) result" where
  "add_user kdf salt email password users =
     (if map_of users (user_key email) \<noteq> None then
        raise UserAlreadyExistsError ''A user with this email already exists.''
      else Inr (user_key email,
        dset (user_key email) (user_key email, hash_password kdf password salt) users))"

definition verify_user ::
  "key_derivation \<Rightarrow> string \<Rightarrow> string \<Rightarrow> user_store \<Rightarrow> string option result" where
  "verify_user kdf email password users = (case map_of users (user_key email) of
      None \<Rightarrow> Inr None
    | Some (uid, stored) \<Rightarrow> rbind (verify_password kdf password stored) (\<lambda>ok.
        Inr (if ok then Some uid else None)))"

text \<open>
  The accounts the service can have made: every record is kept under its own name and holds the hash of
  some password with a salt of hexadecimal digits.
\<close>

definition users_ok :: "key_derivation \<Rightarrow> user_store \<Rightarrow> bool" where
  "users_ok kdf users \<longleftrightarrow> (\<forall>k r. map_of users k = Some r \<longrightarrow>
     (\<exists>password salt. r = (k, hash_password kdf password salt) \<and> CHR '':'' \<notin> set salt))"

lemma users_ok_empty [simp]: "users_ok kdf []"
  by (simp add: users_ok_def)

lemma add_user_ok:
  assumes "users_ok kdf users" "add_user kdf salt email password users = Inr (k, users')" "CHR '':'' \<notin> set salt"
  shows "users_ok kdf users'"
proof -
  have users': "users' = dset (user_key email) (user_key email, hash_password kdf password salt) users"
    using assms(2) by (auto simp: add_user_def split: if_splits)
  show ?thesis
    unfolding users_ok_def
  proof (intro allI impI)
    fix i r assume i: "map_of users' i = Some r"
    show "\<exists>p t. r = (i, hash_password kdf p t) \<and> CHR '':'' \<notin> set t"
    proof (cases "i = user_key email")
      case True
      with i assms(3) show ?thesis by (auto simp: users' map_of_dset)
    next
      case False
      with i have "map_of users i = Some r" by (simp add: users' map_of_dset)
      then show ?thesis using assms(1) [unfolded users_ok_def, rule_format] by blast
    qed
  qed
qed

text \<open>A verification of a good store returns, and tells a user only under the name of the account.\<close>

lemma verify_user_total:
  assumes "users_ok kdf users"
  shows "\<exists>u. verify_user kdf email password users = Inr u \<and> (u = None \<or> u = Some (user_key email))"
proof (cases "map_of users (user_key email)")
  case (Some r)
  then obtain q salt where "r = (user_key email, hash_password kdf q salt)" "CHR '':'' \<notin> set salt"
    using assms [unfolded users_ok_def, rule_format, OF Some] by blast
  with Some show ?thesis by (simp add: verify_user_def verify_hashed)
qed (simp add: verify_user_def)

text \<open>After a sign-up exactly the passwords with the same derived key log in.\<close>

lemma login_after_signup:
  assumes "add_user kdf salt email password users = Inr (k, users')" "CHR '':'' \<notin> set salt"
    "user_key email' = user_key email"
  shows "verify_user kdf email' p users' =
    Inr (if kdf p salt = kdf password salt then Some (user_key email) else None)"
  using assms by (auto simp: add_user_def verify_user_def map_of_dset verify_hashed split: if_splits)

text \<open>The other accounts are untouched.\<close>

lemma signup_frame:
  assumes "add_user kdf salt email password users = Inr (k, users')" "user_key email' \<noteq> user_key email"
  shows "verify_user kdf email' p users' = verify_user kdf email' p users"
  using assms by (auto simp: add_user_def verify_user_def map_of_dset split: if_splits)

lemma signup_twice:
  assumes "add_user kdf salt email password users = Inr (k, users')" "user_key email' = user_key email"
  shows "add_user kdf salt' email' p users' = raise UserAlreadyExistsError ''A user with this email already exists.''"
  using assms by (auto simp: add_user_def map_of_dset split: if_splits)

section \<open>Access tokens\<close>

record token_claims =
  tc_sub :: string
  tc_iss :: string
  tc_aud :: string
  tc_iat :: time
  tc_exp :: time

record auth_settings =
  as_secret :: string
  as_algorithm :: string
  as_issuer :: string
  as_audience :: string

text \<open>
  \<open>jw_encode\<close> takes the claims, the secret and the algorithm; \<open>jw_decode\<close> the time, the token, the secret,
  the algorithm, the issuer and the audience.
\<close>

record jwt =
  jw_encode :: "token_claims \<Rightarrow> string \<Rightarrow> string \<Rightarrow> string result"
  jw_decode :: "time \<Rightarrow> string \<Rightarrow> string \<Rightarrow> string \<Rightarrow> string \<Rightarrow> string \<Rightarrow> pyval result"

definition create_access_token ::
  "jwt \<Rightarrow> auth_settings \<Rightarrow> time \<Rightarrow> string \<Rightarrow> time option \<Rightarrow> string result" where
  "create_access_token j s now subject delta =
     jw_encode j \<lparr>tc_sub = subject, tc_iss = as_issuer s, tc_aud = as_audience s, tc_iat = now,
       tc_exp = now + (case delta of None \<Rightarrow> 3600 | Some d \<Rightarrow> d)\<rparr> (as_secret s) (as_algorithm s)"

text \<open>\<^verbatim>\<open>scripts/create_token.py\<close>: a token for the developer.\<close>

definition local_token :: "jwt \<Rightarrow> auth_settings \<Rightarrow> time \<Rightarrow> string result" where
  "local_token j s now =
     jw_encode j \<lparr>tc_sub = ''local-developer'', tc_iss = as_issuer s, tc_aud = as_audience s, tc_iat = now,
       tc_exp = now + 3600\<rparr> (as_secret s) (as_algorithm s)"

text \<open>An exception of the endpoints: an HTTP answer of its own, or any other one.\<close>

datatype http_problem = Http_exception int pyval "(string \<times> string) list" | Raised exc

definition invalid_token :: "string \<Rightarrow> http_problem" where
  "invalid_token m = Http_exception 401
     (PDict [(''code'', PStr ''INVALID_TOKEN''), (''message'', PStr m)]) [(''WWW-Authenticate'', ''Bearer'')]"

text \<open>The errors of the library are of the class \<open>PyJWTError\<close>.\<close>

definition verify_token :: "jwt \<Rightarrow> auth_settings \<Rightarrow> time \<Rightarrow> string \<Rightarrow> http_problem + pydict" where
  "verify_token j s now token =
     (case jw_decode j now token (as_secret s) (as_algorithm s) (as_issuer s) (as_audience s) of
        Inl x \<Rightarrow> Inl (if exc_class x = ExternalError ''PyJWTError''
          then invalid_token ''Invalid or expired authentication token'' else Raised x)
      | Inr (PDict d) \<Rightarrow> Inr d
      | Inr _ \<Rightarrow> Inl (invalid_token ''Invalid authentication token''))"

text \<open>What is encoded is decoded with the same keys, issuer and audience until it expires, and refused after that.\<close>

definition jwt_behaves :: "jwt \<Rightarrow> string \<Rightarrow> bool" where
  "jwt_behaves j alg \<longleftrightarrow> (\<forall>c secret. \<exists>token. jw_encode j c secret alg = Inr token
     \<and> (\<forall>now. if tc_iat c \<le> now \<and> now < tc_exp c
          then \<exists>d. jw_decode j now token secret alg (tc_iss c) (tc_aud c) = Inr (PDict d) \<and> dget d ''sub'' = PStr (tc_sub c)
          else \<exists>m. jw_decode j now token secret alg (tc_iss c) (tc_aud c) = raise (ExternalError ''PyJWTError'') m))"

lemma jwt_behaves_encodes: "jwt_behaves j alg \<Longrightarrow> \<exists>token. jw_encode j c secret alg = Inr token"
  unfolding jwt_behaves_def by blast

lemma token_roundtrip:
  assumes "jwt_behaves j (as_algorithm s)" "create_access_token j s now subject None = Inr token"
  shows "if now \<le> t \<and> t < now + 3600 then \<exists>d. verify_token j s t token = Inr d \<and> dget d ''sub'' = PStr subject
    else verify_token j s t token = Inl (invalid_token ''Invalid or expired authentication token'')"
proof -
  let ?c = "\<lparr>tc_sub = subject, tc_iss = as_issuer s, tc_aud = as_audience s, tc_iat = now, tc_exp = now + 3600\<rparr>"
  have tok: "jw_encode j ?c (as_secret s) (as_algorithm s) = Inr token"
    using assms(2) by (simp add: create_access_token_def)
  obtain token' where tok': "jw_encode j ?c (as_secret s) (as_algorithm s) = Inr token'"
      "\<forall>t. if tc_iat ?c \<le> t \<and> t < tc_exp ?c
        then \<exists>d. jw_decode j t token' (as_secret s) (as_algorithm s) (tc_iss ?c) (tc_aud ?c) = Inr (PDict d)
          \<and> dget d ''sub'' = PStr (tc_sub ?c)
        else \<exists>m. jw_decode j t token' (as_secret s) (as_algorithm s) (tc_iss ?c) (tc_aud ?c) = raise (ExternalError ''PyJWTError'') m"
    using assms(1) [unfolded jwt_behaves_def, THEN spec, THEN spec] by blast
  from tok' tok have "token' = token" by simp
  then have "if now \<le> t \<and> t < now + 3600
      then \<exists>d. jw_decode j t token (as_secret s) (as_algorithm s) (as_issuer s) (as_audience s) = Inr (PDict d)
        \<and> dget d ''sub'' = PStr subject
      else \<exists>m. jw_decode j t token (as_secret s) (as_algorithm s) (as_issuer s) (as_audience s) = raise (ExternalError ''PyJWTError'') m"
    using tok'(2) [THEN spec, of t] by (simp only: token_claims.simps)
  then show ?thesis by (auto simp: verify_token_def split: if_splits)
qed

text \<open>The token of the script is the one a login of that name gets, and is accepted as long.\<close>

lemma local_token_accepted:
  assumes "jwt_behaves j (as_algorithm s)" "local_token j s now = Inr token"
  shows "if now \<le> t \<and> t < now + 3600
    then \<exists>d. verify_token j s t token = Inr d \<and> dget d ''sub'' = PStr ''local-developer''
    else verify_token j s t token = Inl (invalid_token ''Invalid or expired authentication token'')"
proof -
  have "create_access_token j s now ''local-developer'' None = Inr token"
    using assms(2) by (simp add: local_token_def create_access_token_def)
  from token_roundtrip [OF assms(1) this] show ?thesis .
qed

end
