(* ===== verification/JsonText.thy ===== *)
theory JsonText
  imports PyText
begin

text \<open>
  Line breaks in the text of \<open>json.dumps\<close>: there are none, whatever the strings of the value contain.  The
  server-sent events of the agent and the log lines of the inference service rely on it.
\<close>

section \<open>No line breaks\<close>

definition newline :: char where
  "newline = CHR 0x0A"

text \<open>Values whose floats are written without line breaks, as \<open>repr\<close> writes them.\<close>

fun plain_value :: "pyval \<Rightarrow> bool"
and plain_elems :: "pyval list \<Rightarrow> bool"
and plain_items :: "pydict \<Rightarrow> bool" where
  "plain_value (PFloat s) = (newline \<notin> set s)"
| "plain_value (PList xs) = plain_elems xs"
| "plain_value (PDict d) = plain_items d"
| "plain_value _ = True"
| "plain_elems [] = True"
| "plain_elems (x # xs) = (plain_value x \<and> plain_elems xs)"
| "plain_items [] = True"
| "plain_items ((k, v) # d) = (plain_value v \<and> plain_items d)"

lemma code_newline: "code_point newline = 10"
  by (simp add: newline_def code_point_def)

lemma newline_other: "newline \<noteq> dquote" "newline \<noteq> bslash" "newline \<notin> set ''{}[]nulltruefalse''"
  by code_simp+

lemma nat_str_no_newline: "newline \<notin> set (nat_str n)"
proof
  assume "newline \<in> set (nat_str n)"
  then obtain d where "newline = digit_char d" "d < 10" using nat_str_chars by blast
  with digit_char_code [of d] code_newline show False by simp
qed

lemma int_str_no_newline: "newline \<notin> set (int_str i)"
  using nat_str_no_newline by (auto simp: int_str_def newline_def)

lemma hex_char_no_newline: "d < 16 \<Longrightarrow> newline \<noteq> hex_char d"
proof
  assume d: "d < 16" and "newline = hex_char d"
  then have "code_point (hex_char d) = 10" using code_newline by simp
  with d show False by (auto simp: hex_char_def code_point_def digit_char_code [unfolded code_point_def] split: if_splits)
qed

lemma code_point_bound: "code_point c < 256"
  unfolding code_point_def by simp

lemma json_char_no_newline: "newline \<notin> set (json_char b c)"
proof -
  have "newline \<noteq> hex_char (code_point c div 16)" and "newline \<noteq> hex_char (code_point c mod 16)"
    using code_point_bound [of c] by (auto intro!: hex_char_no_newline less_mult_imp_div_less)
  moreover have "newline = c \<Longrightarrow> code_point c = 10" using code_newline by simp
  ultimately show ?thesis
    using newline_other by (auto simp: json_char_def hex2_def Let_def newline_def)
qed

lemma json_str_no_newline: "newline \<notin> set (json_str b s)"
  using json_char_no_newline newline_other(1) by (auto simp: json_str_def)

lemma json_float_no_newline: "newline \<notin> set s \<Longrightarrow> newline \<notin> set (json_float s)"
  by (auto simp: json_float_def newline_def)

lemma intersperse_no_newline:
  "newline \<notin> set sep \<Longrightarrow> list_all (\<lambda>s. newline \<notin> set s) ss \<Longrightarrow> newline \<notin> set (intersperse_str sep ss)"
  by (induction sep ss rule: intersperse_str.induct) auto

lemma sort_items_set: "set (sort_items b d) = set d"
  by (simp add: sort_items_def)

lemma json_dumps_no_newline:
  assumes "newline \<notin> set (jo_item_sep jo)" "newline \<notin> set (jo_key_sep jo)"
  shows "plain_value v \<Longrightarrow> newline \<notin> set (json_dumps jo v)"
    and "plain_elems vs \<Longrightarrow> list_all (\<lambda>s. newline \<notin> set s) (json_elems jo vs)"
    and "plain_items d \<Longrightarrow> list_all (\<lambda>(k, s). newline \<notin> set s) (json_items jo d)"
  using assms
proof (induction jo v and jo vs and jo d rule: json_dumps_json_elems_json_items.induct)
  case (7 jo d)
  then have "list_all (\<lambda>s. newline \<notin> set s)
      (map (\<lambda>(k, t). json_str (jo_ascii jo) k @ jo_key_sep jo @ t) (sort_items (jo_sort jo) (json_items jo d)))"
    using json_str_no_newline by (auto simp: list_all_iff sort_items_set split: prod.splits)
  from intersperse_no_newline [OF _ this, of "jo_item_sep jo"] 7 newline_other(3) show ?case by simp
next
  case (6 jo xs)
  from intersperse_no_newline [of "jo_item_sep jo" "json_elems jo xs"] 6 newline_other(3) show ?case by simp
qed (use newline_other(3) in \<open>auto simp: int_str_no_newline json_str_no_newline json_float_no_newline\<close>)

end
