(* ===== verification/AgentApi.thy ===== *)
theory AgentApi
  imports RtRun AgentAuth JsonText
begin

text \<open>
  The HTTP interface of the agent service (\<^verbatim>\<open>api/routes.py\<close>, \<^verbatim>\<open>api/errors.py\<close>, \<^verbatim>\<open>api/streaming.py\<close>,
  \<^verbatim>\<open>models/requests.py\<close>): the validation of request bodies, the accounts, the runs, and the translation
  of events into server-sent events.
\<close>

section \<open>Answers\<close>

datatype api_answer =
    Json_answer (aa_status: int) (aa_body: pyval) (aa_headers: "(string \<times> string) list")
  | Text_answer int string
  | Sse_answer event_stream

fun api_status :: "api_answer \<Rightarrow> int" where
  "api_status (Json_answer st b h) = st"
| "api_status (Text_answer st t) = st"
| "api_status (Sse_answer s) = 200"

text \<open>The handler of \<open>AgenyxError\<close>, in the order of its tests.\<close>

definition error_code :: "exc \<Rightarrow> int \<times> string" where
  "error_code x =
     (if isinstance_exc x LLMTimeoutError then (504, ''LLM_TIMEOUT'')
      else if isinstance_exc x LLMConnectionError then (503, ''LLM_UNAVAILABLE'')
      else if isinstance_exc x AgentMaxStepsError then (500, ''AGENT_MAX_STEPS'')
      else if isinstance_exc x AgentProtocolError then (502, ''AGENT_PROTOCOL_ERROR'')
      else if isinstance_exc x ToolError then (502, ''TOOL_ERROR'')
      else if isinstance_exc x UserAlreadyExistsError then (409, ''USER_ALREADY_EXISTS'')
      else if isinstance_exc x InvalidCredentialsError then (401, ''INVALID_CREDENTIALS'')
      else (500, ''INTERNAL_ERROR''))"

definition agenyx_error_handler :: "exc \<Rightarrow> api_answer" where
  "agenyx_error_handler x = (case error_code x of (st, code) \<Rightarrow>
     Json_answer st (PDict [(''error'', PDict [(''code'', PStr code), (''message'', PStr (exc_msg x))])]) [])"

text \<open>Other exceptions are answered by the framework.\<close>

definition answer_exception :: "exc \<Rightarrow> api_answer" where
  "answer_exception x = (if isinstance_exc x AgenyxError then agenyx_error_handler x
     else Text_answer 500 ''Internal Server Error'')"

fun answer_problem :: "http_problem \<Rightarrow> api_answer" where
  "answer_problem (Http_exception st d h) = Json_answer st (PDict [(''detail'', d)]) h"
| "answer_problem (Raised x) = answer_exception x"

definition unprocessable :: api_answer where
  "unprocessable = Json_answer 422 PNone []"

section \<open>Request bodies\<close>

definition text_between :: "int \<Rightarrow> int \<Rightarrow> pyval \<Rightarrow> string option" where
  "text_between lo hi v = (case v of
      PStr s \<Rightarrow> (if lo \<le> int (length s) \<and> int (length s) \<le> hi then Some s else None)
    | _ \<Rightarrow> None)"

definition parse_agent_request :: "pyval \<Rightarrow> string option" where
  "parse_agent_request body = (case body of PDict d \<Rightarrow> text_between 1 10000 (dget d ''intent'') | _ \<Rightarrow> None)"

definition parse_credentials :: "pyval \<Rightarrow> (string \<times> string) option" where
  "parse_credentials body = (case body of
      PDict d \<Rightarrow> (case (text_between 3 320 (dget d ''email''), text_between 8 128 (dget d ''password'')) of
          (Some e, Some p) \<Rightarrow> Some (e, p)
        | _ \<Rightarrow> None)
    | _ \<Rightarrow> None)"

section \<open>Accounts\<close>

definition token_answer :: "string \<Rightarrow> api_answer" where
  "token_answer token = Json_answer 200 (PDict [(''access_token'', PStr token),
     (''token_type'', PStr ''bearer''), (''expires_in'', PInt 3600)]) []"

definition give_token :: "jwt \<Rightarrow> auth_settings \<Rightarrow> time \<Rightarrow> string \<Rightarrow> api_answer" where
  "give_token j s now subject = (case create_access_token j s now subject None of
      Inr token \<Rightarrow> token_answer token | Inl x \<Rightarrow> answer_exception x)"

definition signup ::
  "key_derivation \<Rightarrow> jwt \<Rightarrow> auth_settings \<Rightarrow> time \<Rightarrow> string \<Rightarrow> pyval \<Rightarrow> user_store \<Rightarrow> api_answer \<times> user_store" where
  "signup kdf j s now salt body users = (case parse_credentials body of
      None \<Rightarrow> (unprocessable, users)
    | Some (email, password) \<Rightarrow> (case add_user kdf salt email password users of
          Inl x \<Rightarrow> (answer_exception x, users)
        | Inr (subject, users') \<Rightarrow> (give_token j s now subject, users')))"

definition login ::
  "key_derivation \<Rightarrow> jwt \<Rightarrow> auth_settings \<Rightarrow> time \<Rightarrow> pyval \<Rightarrow> user_store \<Rightarrow> api_answer" where
  "login kdf j s now body users = (case parse_credentials body of
      None \<Rightarrow> unprocessable
    | Some (email, password) \<Rightarrow> (case verify_user kdf email password users of
          Inl x \<Rightarrow> answer_exception x
        | Inr None \<Rightarrow> answer_exception (Exc InvalidCredentialsError ''Invalid email or password.'')
        | Inr (Some subject) \<Rightarrow> give_token j s now subject))"

definition api_health :: api_answer where
  "api_health = Json_answer 200 (PDict [(''status'', PStr ''ok'')]) []"

section \<open>Runs\<close>

definition tool_call_json :: "tool_call_result \<Rightarrow> pyval" where
  "tool_call_json t = PDict [(''call_id'', PStr (tcr_call_id t)), (''name'', PStr (tcr_name t)),
     (''arguments'', PDict (tcr_arguments t)), (''result'', PStr (tcr_result t))]"

definition response_json :: "agent_response \<Rightarrow> pyval" where
  "response_json r = PDict [(''execution_id'', PStr (rs_execution_id r)), (''status'', PStr (rs_status r)),
     (''answer'', PStr (rs_answer r)), (''steps'', PInt (rs_steps r)),
     (''tool_calls'', PList (map tool_call_json (rs_tool_calls r)))]"

text \<open>\<open>runtime.run(intent)\<close> with the defaults of its other arguments.\<close>

definition intent_request :: "string \<Rightarrow> string \<Rightarrow> run_request" where
  "intent_request eid intent = resolved_request eid intent None None PNone"

lemma runtime_run_intent [simp]:
  "runtime_run rt en eid clk am st n intent None None PNone None =
     run_execution rt en (intent_request eid intent) (create_execution eid clk (intent_request eid intent) [] am st n)"
  by (simp add: runtime_run_def intent_request_def Let_def)

definition run_agent ::
  "runtime \<Rightarrow> env \<Rightarrow> string \<Rightarrow> clock \<Rightarrow> approval_manager \<Rightarrow> tool_result idem_store \<Rightarrow> nat \<Rightarrow> pyval
     \<Rightarrow> api_answer \<times> world option" where
  "run_agent rt en eid clk am st n body = (case parse_agent_request body of
      None \<Rightarrow> (unprocessable, None)
    | Some intent \<Rightarrow>
       (case runtime_run rt en eid clk am st n intent None None PNone None of
          (Inr resp, w) \<Rightarrow> (Json_answer 200 (response_json resp) [], Some w)
        | (Inl x, w) \<Rightarrow> (answer_exception x, Some w)))"

text \<open>The handlers that leave the run to a task of its own; \<open>w\<close> is the registered execution.\<close>

definition submit_agent :: "world \<Rightarrow> registry \<Rightarrow> api_answer \<times> registry" where
  "submit_agent w reg = (case submit w reg of (sb, reg') \<Rightarrow>
     (Json_answer 200 (PDict [(''execution_id'', PStr (sb_execution_id sb)), (''status'', PStr (sb_status sb))]) [],
      reg'))"

definition stream_agent :: "world \<Rightarrow> registry \<Rightarrow> api_answer \<times> registry" where
  "stream_agent w reg = (case stream_execution w reg of
      (Inr s, reg') \<Rightarrow> (Sse_answer s, reg')
    | (Inl x, reg') \<Rightarrow> (answer_exception x, reg'))"

definition stream_agent_events :: "string \<Rightarrow> registry \<Rightarrow> api_answer" where
  "stream_agent_events eid reg = (case get_event_stream eid reg of
      None \<Rightarrow> answer_problem (Http_exception 404 (PStr ''Execution not found or no longer active'') [])
    | Some s \<Rightarrow> Sse_answer s)"

section \<open>Server-sent events\<close>

definition compact_opts :: json_opts where
  "compact_opts = \<lparr>jo_ascii = True, jo_sort = False, jo_item_sep = '','', jo_key_sep = '':''\<rparr>"

definition event_text :: "agent_event \<Rightarrow> string" where
  "event_text ev = json_dumps compact_opts
     (PDict [(''execution_id'', PStr (ev_execution_id ev)), (''data'', PDict (ev_data ev))])"

definition sse_frame :: "agent_event \<Rightarrow> string" where
  "sse_frame ev = ''event: '' @ ev_type ev @ newline # ''data: '' @ event_text ev @ [newline, newline]"

text \<open>The frames of the events a consumer got.\<close>

definition event_stream_to_sse :: "agent_event list \<Rightarrow> string list" where
  "event_stream_to_sse evs = map sse_frame evs"

text \<open>A client that reads an event line, a data line and a blank line at a time.\<close>

fun read_frames :: "string list \<Rightarrow> (string \<times> string) list" where
  "read_frames (a # b # c # ls) =
     (if take 7 a = ''event: '' \<and> take 6 b = ''data: '' \<and> c = [] then (drop 7 a, drop 6 b) # read_frames ls else [])"
| "read_frames _ = []"

definition read_sse :: "string \<Rightarrow> (string \<times> string) list" where
  "read_sse s = read_frames (py_split newline s)"

lemma event_text_no_newline: "plain_items (ev_data ev) \<Longrightarrow> newline \<notin> set (event_text ev)"
  unfolding event_text_def
  by (rule json_dumps_no_newline(1)) (simp_all add: compact_opts_def newline_def)

text \<open>
  Every event arrives as one frame with its name and the text of its payload, in order, whatever the
  strings of the payload contain.
\<close>

lemma sse_roundtrip:
  assumes "list_all (\<lambda>ev. newline \<notin> set (ev_type ev) \<and> plain_items (ev_data ev)) evs"
  shows "read_sse (concat (event_stream_to_sse evs)) = map (\<lambda>ev. (ev_type ev, event_text ev)) evs"
  using assms
proof (induction evs)
  case Nil
  show ?case by (simp add: event_stream_to_sse_def read_sse_def)
next
  case (Cons ev evs)
  let ?rest = "concat (event_stream_to_sse evs)"
  have ev: "newline \<notin> set (''event: '' @ ev_type ev)" "newline \<notin> set (''data: '' @ event_text ev)"
    using Cons.prems event_text_no_newline [of ev] by (auto simp: newline_def)
  have "concat (event_stream_to_sse (ev # evs)) =
      (''event: '' @ ev_type ev) @ newline # (''data: '' @ event_text ev) @ newline # [] @ newline # ?rest"
    by (simp add: event_stream_to_sse_def sse_frame_def)
  then have "py_split newline (concat (event_stream_to_sse (ev # evs))) =
      (''event: '' @ ev_type ev) # (''data: '' @ event_text ev) # [] # py_split newline ?rest"
    using py_split_cons [OF ev(1)] py_split_cons [OF ev(2)] by (simp del: append.simps add: py_split_cons)
  with Cons show ?case by (simp add: read_sse_def)
qed

section \<open>What the endpoints answer\<close>

text \<open>The answers to the errors of a run, class by class.\<close>

lemma error_code_table:
  "error_code (Exc LLMTimeoutError m) = (504, ''LLM_TIMEOUT'')"
  "error_code (Exc LLMConnectionError m) = (503, ''LLM_UNAVAILABLE'')"
  "error_code (Exc AgentMaxStepsError m) = (500, ''AGENT_MAX_STEPS'')"
  "error_code (Exc AgentProtocolError m) = (502, ''AGENT_PROTOCOL_ERROR'')"
  "error_code (Exc ToolError m) = (502, ''TOOL_ERROR'')"
  "error_code (Exc UserAlreadyExistsError m) = (409, ''USER_ALREADY_EXISTS'')"
  "error_code (Exc InvalidCredentialsError m) = (401, ''INVALID_CREDENTIALS'')"
  by (simp_all add: error_code_def isinstance_exc_def exc_isa_def eval_nat_numeral)

text \<open>The tool errors the agent raises are not of the class \<open>ToolError\<close>; they are internal errors here.\<close>

lemma tool_errors_are_internal:
  "c \<in> {ToolExecutionError, ToolNotFound, UnknownToolError, ToolValidationError,
      InvalidToolArgumentsError, ExecutionLimitExceeded, PlanningError, LLMResponseError} \<Longrightarrow>
     error_code (Exc c m) = (500, ''INTERNAL_ERROR'')"
  by (elim insertE emptyE) (simp_all add: error_code_def isinstance_exc_def exc_isa_def eval_nat_numeral)

text \<open>A run is answered with its response, the error of its exception, or a refusal of the body.\<close>

lemma run_agent_cases:
  "run_agent rt en eid clk am st n body = (ans, ow) \<Longrightarrow>
     (ow = None \<and> ans = unprocessable \<and> parse_agent_request body = None)
   \<or> (\<exists>intent r w. parse_agent_request body = Some intent \<and> ow = Some w
       \<and> run_execution rt en (intent_request eid intent)
           (create_execution eid clk (intent_request eid intent) [] am st n) = (r, w)
       \<and> ans = (case r of Inr resp \<Rightarrow> Json_answer 200 (response_json resp) [] | Inl x \<Rightarrow> answer_exception x))"
  by (auto simp: run_agent_def split: option.splits prod.splits sum.splits)

text \<open>The life of an account.\<close>

lemma parse_same_password:
  "parse_credentials body = Some (e, p) \<Longrightarrow> 8 \<le> length p \<and> length p \<le> 128"
  by (auto simp: parse_credentials_def text_between_def split: pyval.splits option.splits if_splits)

lemma login_answer:
  assumes "parse_credentials body = Some (email, password)"
    "signup kdf j s now salt body users = (ans, users')" "map_of users (user_key email) = None"
    "CHR '':'' \<notin> set salt" "parse_credentials body' = Some (email', p)" "user_key email' = user_key email"
  shows "login kdf j s t body' users' =
    (if kdf p salt = kdf password salt then give_token j s t (user_key email)
     else agenyx_error_handler (Exc InvalidCredentialsError ''Invalid email or password.''))"
proof -
  have add: "add_user kdf salt email password users = Inr (user_key email, users')"
    using assms(1-3) by (auto simp: signup_def add_user_def)
  show ?thesis
    by (simp add: login_def assms(5) login_after_signup [OF add assms(4,6)] answer_exception_def
        isinstance_exc_def exc_isa_def eval_nat_numeral)
qed

lemma signup_again:
  assumes "parse_credentials body = Some (email, password)" "map_of users (user_key email) \<noteq> None"
  shows "signup kdf j s now salt body users =
    (agenyx_error_handler (Exc UserAlreadyExistsError ''A user with this email already exists.''), users)"
  using assms by (auto simp: signup_def add_user_def answer_exception_def isinstance_exc_def exc_isa_def eval_nat_numeral)

text \<open>An address of blanks is an account with the empty name.\<close>

lemma blank_address_signs_up:
  "user_key ''   '' = [] \<and> parse_credentials (PDict [(''email'', PStr ''   ''), (''password'', PStr ''12345678'')])
     = Some (''   '', ''12345678'')"
  by code_simp

end
