(* ===== verification/Recovery.thy ===== *)
theory Recovery
  imports ContextMgr EventStream Persistence Effects
begin

text \<open>
  Crash recovery (\<^verbatim>\<open>agent_runtime/recovery\<close> and \<open>resume_execution\<close> of \<^verbatim>\<open>runtime.py\<close>): the policy, the
  detector of orphaned executions, the replay of events into a context, the engine, and the stored results
  of tool calls (\<^verbatim>\<open>tools/idempotency.py\<close>).  The engine calls
  methods the runtime class does not declare; the runtime is an argument of its model.
\<close>

section \<open>The policy\<close>

record recovery_policy =
  rc_stale :: time
  rc_max_attempts :: int
  rc_partial_replay :: bool

definition default_recovery :: recovery_policy where
  "default_recovery = \<lparr>rc_stale = 300, rc_max_attempts = 3, rc_partial_replay = True\<rparr>"

definition can_recover :: "recovery_policy \<Rightarrow> int \<Rightarrow> time \<Rightarrow> bool" where
  "can_recover p attempts elapsed =
     (if rc_max_attempts p \<le> attempts then False
      else if elapsed < rc_stale p then False
      else True)"

section \<open>Orphaned executions\<close>

text \<open>
  A row of the executions table; \<open>None\<close> stands for an attribute the row does not have.  \<open>getattr\<close> with
  a default is used for the attempts only.
\<close>

record run_row =
  rw_id :: "string option"
  rw_status :: execution_status
  rw_updated_at :: "time option"
  rw_attempts :: "int option"

definition unfinished :: "run_row \<Rightarrow> bool" where
  "unfinished r \<longleftrightarrow> rw_status r = Status_RUNNING \<or> rw_status r = Status_RECOVERING"

definition missing :: "string \<Rightarrow> 'a result" where
  "missing a = raise AttributeError a"

definition flag_row :: "int \<Rightarrow> time \<Rightarrow> run_row \<Rightarrow> (run_row \<times> string list) result" where
  "flag_row threshold now r =
     (if \<not> unfinished r then Inr (r, [])
      else case rw_updated_at r of
          None \<Rightarrow> missing ''updated_at''
        | Some t \<Rightarrow>
            (if of_int threshold < now - t then
               (case rw_id r of
                  None \<Rightarrow> missing ''id''
                | Some i \<Rightarrow> Inr (r\<lparr>rw_status := Status_CRASHED,
                    rw_attempts := Some ((case rw_attempts r of None \<Rightarrow> 0 | Some n \<Rightarrow> n) + 1)\<rparr>, [i]))
             else Inr (r, [])))"

fun flag_rows :: "int \<Rightarrow> time \<Rightarrow> run_row list \<Rightarrow> (run_row list \<times> string list) result" where
  "flag_rows threshold now [] = Inr ([], [])"
| "flag_rows threshold now (r # rs) = rbind (flag_row threshold now r) (\<lambda>(r', i).
     rbind (flag_rows threshold now rs) (\<lambda>(rs', ids). Inr (r' # rs', i @ ids)))"

text \<open>
  The scan over the rows of the session; \<open>query\<close> is the exception of a session without queries, and
  \<open>commit\<close> that of a refused commit.  What is not committed is lost.
\<close>

definition scan_orphaned ::
  "int \<Rightarrow> time \<Rightarrow> exc option \<Rightarrow> exc option \<Rightarrow> run_row list \<Rightarrow> string list result \<times> run_row list" where
  "scan_orphaned threshold now query commit rows = (case query of
      Some x \<Rightarrow> (Inl x, rows)
    | None \<Rightarrow> (case flag_rows threshold now rows of
          Inl x \<Rightarrow> (Inl x, rows)
        | Inr (rows', flagged) \<Rightarrow>
            (if flagged = [] then (Inr [], rows)
             else case commit of Some x \<Rightarrow> (Inl x, rows) | None \<Rightarrow> (Inr flagged, rows'))))"

text \<open>At start-up of the service an exception of the scan is logged only.\<close>

definition startup_scan ::
  "int \<Rightarrow> time \<Rightarrow> exc option \<Rightarrow> exc option \<Rightarrow> run_row list \<Rightarrow> unit result \<times> run_row list" where
  "startup_scan threshold now query commit rows = (case scan_orphaned threshold now query commit rows of
      (Inr _, rows') \<Rightarrow> (Inr (), rows')
    | (Inl x, rows') \<Rightarrow> (if isinstance_exc x PyException then Inr () else Inl x, rows'))"

definition stale :: "int \<Rightarrow> time \<Rightarrow> run_row \<Rightarrow> bool" where
  "stale threshold now r \<longleftrightarrow> unfinished r \<and> (\<exists>t. rw_updated_at r = Some t \<and> of_int threshold < now - t)"

lemma flag_row_Inr:
  "flag_row threshold now r = Inr (r', ids) \<Longrightarrow>
     (if stale threshold now r then ids = [the (rw_id r)] \<and> rw_id r \<noteq> None \<and> rw_status r' = Status_CRASHED
        \<and> rw_attempts r' = Some ((case rw_attempts r of None \<Rightarrow> 0 | Some n \<Rightarrow> n) + 1)
        \<and> rw_id r' = rw_id r \<and> rw_updated_at r' = rw_updated_at r
      else ids = [] \<and> r' = r)"
  by (auto simp: flag_row_def stale_def missing_def split: if_splits option.splits)

text \<open>The flagged executions are the stale ones, in the order of the rows; the others stay as they are.\<close>

lemma flag_rows_Inr:
  "flag_rows threshold now rows = Inr (rows', flagged) \<Longrightarrow>
     flagged = map (the \<circ> rw_id) (filter (stale threshold now) rows)
     \<and> list_all2 (\<lambda>r r'. if stale threshold now r then rw_status r' = Status_CRASHED \<and> rw_id r' = rw_id r
         \<and> rw_attempts r' = Some ((case rw_attempts r of None \<Rightarrow> 0 | Some n \<Rightarrow> n) + 1) else r' = r) rows rows'"
proof (induction rows arbitrary: rows' flagged)
  case (Cons r rows)
  then obtain r' i rs' ids where "flag_row threshold now r = Inr (r', i)" "flag_rows threshold now rows = Inr (rs', ids)"
      "rows' = r' # rs'" "flagged = i @ ids"
    by auto
  with Cons.IH [of rs' "ids"] flag_row_Inr [of threshold now r r' i] show ?case
    by (auto split: if_splits)
qed simp

lemma crashed_not_stale: "rw_status r = Status_CRASHED \<Longrightarrow> \<not> stale threshold now r"
  by (simp add: stale_def unfinished_def)

lemma flag_rows_total:
  assumes "list_all (\<lambda>r. unfinished r \<longrightarrow> rw_updated_at r \<noteq> None \<and> rw_id r \<noteq> None) rows"
  shows "\<exists>rows' flagged. flag_rows threshold now rows = Inr (rows', flagged)"
  using assms
proof (induction rows)
  case (Cons r rows)
  then obtain rs' ids where "flag_rows threshold now rows = Inr (rs', ids)" by auto
  moreover have "\<exists>r' i. flag_row threshold now r = Inr (r', i)"
    using Cons.prems by (auto simp: flag_row_def split: option.split)
  ultimately show ?case by auto
qed simp

text \<open>A scan right after a successful one, with the same clock, flags nothing.\<close>

lemma scan_twice:
  assumes "scan_orphaned threshold now None None rows = (Inr flagged, rows')"
    "list_all (\<lambda>r. unfinished r \<longrightarrow> rw_updated_at r \<noteq> None \<and> rw_id r \<noteq> None) rows'"
  shows "scan_orphaned threshold now None None rows' = (Inr [], rows')"
proof -
  obtain rs fl where fl: "flag_rows threshold now rows = Inr (rs, fl)" "rows' = (if fl = [] then rows else rs)"
    using assms(1) by (auto simp: scan_orphaned_def split: sum.splits prod.splits if_splits)
  have not_stale: "list_all (\<lambda>r. \<not> stale threshold now r) rows'"
  proof (cases "fl = []")
    case True
    with flag_rows_Inr [OF fl(1)] fl(2) show ?thesis by (auto simp: list_all_iff filter_empty_conv)
  next
    case False
    then show ?thesis
      using flag_rows_Inr [OF fl(1)] fl(2) crashed_not_stale
      by (auto simp: list_all_length list_all2_conv_all_nth split: if_splits)
  qed
  obtain rs2 fl2 where "flag_rows threshold now rows' = Inr (rs2, fl2)"
    using flag_rows_total [OF assms(2)] by blast
  with flag_rows_Inr [OF this] not_stale have "fl2 = []" by (auto simp: list_all_iff filter_empty_conv)
  with \<open>flag_rows threshold now rows' = Inr (rs2, fl2)\<close> show ?thesis by (simp add: scan_orphaned_def)
qed

text \<open>With a session that has no \<open>query\<close>, which the service passes, nothing is ever flagged.\<close>

lemma startup_scan_without_query:
  "isinstance_exc x PyException \<Longrightarrow> startup_scan threshold now (Some x) commit rows = (Inr (), rows)"
  by (simp add: startup_scan_def scan_orphaned_def)

section \<open>Replaying events\<close>

text \<open>
  An event as the replayer reads it: an object, with the attributes it has, or a dictionary.  The key of
  the sort is \<open>created_at\<close>, and the number zero where there is no such attribute.
\<close>

datatype sort_stamp = Stamp_zero | Stamp_none | Stamp time

datatype event_like =
    Event_object (eo_type: "string option") (eo_payload: "pydict option") (eo_created: sort_stamp)
  | Event_dict pydict

fun event_stamp :: "event_like \<Rightarrow> sort_stamp" where
  "event_stamp (Event_object ty p s) = s"
| "event_stamp (Event_dict d) = Stamp_zero"

fun event_name :: "event_like \<Rightarrow> pyval" where
  "event_name (Event_object ty p s) = (case ty of Some (c # cs) \<Rightarrow> PStr (c # cs) | _ \<Rightarrow> PNone)"
| "event_name (Event_dict d) = dget d ''event_type''"

fun event_payload :: "event_like \<Rightarrow> pyval" where
  "event_payload (Event_object ty p s) = (case p of Some d \<Rightarrow> PDict d | None \<Rightarrow> PDict [])"
| "event_payload (Event_dict d) = dget_or d ''payload'' (PDict [])"

text \<open>\<open>sorted\<close> is stable; it compares two keys only when there are two events.\<close>

definition stamp_time :: "sort_stamp \<Rightarrow> time" where
  "stamp_time s = (case s of Stamp t \<Rightarrow> t | _ \<Rightarrow> 0)"

definition sort_events :: "event_like list \<Rightarrow> event_like list result" where
  "sort_events es =
     (if length es \<le> 1 \<or> list_all (\<lambda>e. event_stamp e = Stamp_zero) es
         \<or> list_all (\<lambda>e. event_stamp e \<noteq> Stamp_zero \<and> event_stamp e \<noteq> Stamp_none) es
      then Inr (sort_key (stamp_time \<circ> event_stamp) es)
      else raise TypeError ''instances cannot be compared'')"

definition payload_get :: "pyval \<Rightarrow> string \<Rightarrow> pyval \<Rightarrow> pyval result" where
  "payload_get p k v = (case p of PDict d \<Rightarrow> Inr (dget_or d k v) | _ \<Rightarrow> missing ''get'')"

text \<open>The context manager has no operation \<open>add_tool_result\<close>.\<close>

definition replay_event :: "event_like \<Rightarrow> execution_context \<Rightarrow> execution_context result" where
  "replay_event ev c =
     (if event_name ev = PStr ''USER_INPUT'' then
        rbind (payload_get (event_payload ev) ''text'' (PStr [])) (\<lambda>t. add_user_message t c)
      else if event_name ev = PStr ''MODEL_DECISION'' then
        rbind (payload_get (event_payload ev) ''decision'' (PStr [])) (\<lambda>d. add_assistant_message d c)
      else if event_name ev = PStr ''TOOL_RESULT'' then missing ''add_tool_result''
      else Inr c)"

definition on_context :: "(execution_context \<Rightarrow> execution_context result) \<Rightarrow> (execution_context, unit) act" where
  "on_context f c = (case f c of Inl x \<Rightarrow> (Inl x, c) | Inr c' \<Rightarrow> (Inr (), c'))"

definition rehydrate :: "event_like list \<Rightarrow> (execution_context, unit) act" where
  "rehydrate es = seq (modify clear_context)
     (bnd (lift_res (sort_events es)) (\<lambda>sorted. for_each sorted (\<lambda>ev. on_context (replay_event ev))))"

text \<open>\<open>resume_execution\<close> of the runtime; \<open>events\<close> is what the persistence returns, if there is one.\<close>

definition resume_execution :: "event_like list result option \<Rightarrow> (execution_context, unit) act" where
  "resume_execution events = (case events of
      None \<Rightarrow> throw (Exc RuntimeError ''Cannot resume execution without persistence configured'')
    | Some r \<Rightarrow> bnd (lift_res r) rehydrate)"

text \<open>The events the stores keep: their attributes are called \<open>type\<close> and \<open>data\<close>.\<close>

definition stored_event :: "event_record \<Rightarrow> event_like" where
  "stored_event r = Event_object None None (case er_recorded_at r of None \<Rightarrow> Stamp_none | Some t \<Rightarrow> Stamp t)"

lemma replay_nothing:
  "list_all (\<lambda>e. event_name e \<notin> {PStr ''USER_INPUT'', PStr ''MODEL_DECISION'', PStr ''TOOL_RESULT''}) es
    \<Longrightarrow> for_each es (\<lambda>ev. on_context (replay_event ev)) c = (Inr (), c)"
  by (induction es) (simp_all add: ret_def seq_def bnd_def on_context_def replay_event_def)

lemma set_sort_events: "sort_events es = Inr es' \<Longrightarrow> set es' = set es"
  by (auto simp: sort_events_def split: if_splits)

text \<open>Events without one of the three names only clear the context.\<close>

lemma rehydrate_clears:
  assumes "list_all (\<lambda>e. event_name e \<notin> {PStr ''USER_INPUT'', PStr ''MODEL_DECISION'', PStr ''TOOL_RESULT''}) es"
    "sort_events es = Inr es'"
  shows "rehydrate es c = (Inr (), clear_context c)"
proof -
  have "list_all (\<lambda>e. event_name e \<notin> {PStr ''USER_INPUT'', PStr ''MODEL_DECISION'', PStr ''TOOL_RESULT''}) es'"
    using assms(1) set_sort_events [OF assms(2)] by (simp add: list_all_iff)
  then show ?thesis
    by (simp add: rehydrate_def seq_def bnd_def modify_def lift_res_def assms(2) replay_nothing)
qed

lemma stored_events_sort:
  assumes "list_all (\<lambda>r. er_recorded_at r \<noteq> None) rs"
  shows "\<exists>es'. sort_events (map stored_event rs) = Inr es'"
  using assms by (auto simp: sort_events_def stored_event_def list_all_iff)

text \<open>So replaying what was stored loses the context.\<close>

lemma stored_events_lost:
  assumes "list_all (\<lambda>r. er_recorded_at r \<noteq> None) rs"
  shows "rehydrate (map stored_event rs) c = (Inr (), clear_context c)"
  using stored_events_sort [OF assms]
  by (auto intro!: rehydrate_clears simp: list_all_iff stored_event_def)

text \<open>The names the runtime publishes are not those the replayer looks for.\<close>

lemma published_events_lost:
  assumes "list_all (\<lambda>e. \<exists>ty p t. e = Event_object (Some (event_type_value ty)) p (Stamp t)) es"
  shows "rehydrate es c = (Inr (), clear_context c)"
proof -
  have name: "event_name (Event_object (Some (event_type_value ty)) p s) = PStr (event_type_value ty)" for ty p s
    by (cases ty) simp_all
  have other: "event_type_value ty \<notin> {''USER_INPUT'', ''MODEL_DECISION'', ''TOOL_RESULT''}" for ty
    by (cases ty) simp_all
  have "\<exists>es'. sort_events es = Inr es'"
    using assms by (auto simp: sort_events_def list_all_iff)
  then obtain es' where "sort_events es = Inr es'" by blast
  moreover have "list_all (\<lambda>e. event_name e \<notin> {PStr ''USER_INPUT'', PStr ''MODEL_DECISION'', PStr ''TOOL_RESULT''}) es"
    unfolding list_all_iff
  proof
    fix e assume "e \<in> set es"
    then obtain ty p t where "e = Event_object (Some (event_type_value ty)) p (Stamp t)"
      using assms by (auto simp: list_all_iff)
    with name [of ty p "Stamp t"] other [of ty] show "event_name e \<notin> {PStr ''USER_INPUT'', PStr ''MODEL_DECISION'', PStr ''TOOL_RESULT''}"
      by simp
  qed
  ultimately show ?thesis by (intro rehydrate_clears)
qed

text \<open>A tool result can never be replayed.\<close>

lemma for_each_fails:
  "x \<in> set xs \<Longrightarrow> (\<And>s. \<exists>e t. f x s = (Inl e, t)) \<Longrightarrow> \<exists>e t. for_each xs f s = (Inl e, t)"
proof (induction xs arbitrary: s)
  case (Cons y ys)
  show ?case
  proof (cases "y = x")
    case True
    then obtain e t where "f y s = (Inl e, t)" using Cons.prems(2) by blast
    then show ?thesis by (simp add: seq_def bnd_def)
  next
    case False
    then have "x \<in> set ys" using Cons.prems(1) by simp
    then show ?thesis
      using Cons.IH [OF _ Cons.prems(2)] by (cases "f y s" rule: prod.exhaust, cases "fst (f y s)") (auto simp: seq_def bnd_def)
  qed
qed simp

lemma tool_result_fails:
  assumes "ev \<in> set es" "event_name ev = PStr ''TOOL_RESULT''"
  shows "\<exists>x t. rehydrate es c = (Inl x, t)"
proof (cases "sort_events es")
  case (Inr es')
  have "\<exists>e t. on_context (replay_event ev) s = (Inl e, t)" for s
    by (simp add: on_context_def replay_event_def assms(2) missing_def)
  then have "\<exists>e t. for_each es' (\<lambda>ev. on_context (replay_event ev)) (clear_context c) = (Inl e, t)"
    using assms(1) set_sort_events [OF Inr] by (intro for_each_fails) auto
  with Inr show ?thesis by (auto simp: rehydrate_def seq_def bnd_def modify_def lift_res_def)
qed (simp add: rehydrate_def seq_def bnd_def modify_def lift_res_def)

section \<open>The engine\<close>

text \<open>
  The operations of the runtime the engine calls.  The state holds the contexts too; \<open>rr_rehydrate\<close> is the
  replay into the context manager of the runtime.
\<close>

record 's recovery_runtime =
  rr_get :: "string \<Rightarrow> ('s, int \<times> time) act"
  rr_events :: "string \<Rightarrow> ('s, event_like list) act"
  rr_update :: "string \<Rightarrow> execution_status \<Rightarrow> ('s, unit) act"
  rr_rehydrate :: "event_like list \<Rightarrow> ('s, unit) act"
  rr_resume :: "string \<Rightarrow> ('s, unit) act"

definition recover_execution :: "'s recovery_runtime \<Rightarrow> recovery_policy \<Rightarrow> string \<Rightarrow> ('s, unit) act" where
  "recover_execution r p eid =
     bnd (rr_get r eid) (\<lambda>(attempts, elapsed).
     bnd (rr_events r eid) (\<lambda>events.
     if \<not> can_recover p attempts elapsed then rr_update r eid Status_FAILED
     else
       seq (rr_update r eid Status_RECOVERING)
       (seq (rr_rehydrate r events)
       (seq (rr_update r eid Status_RUNNING)
       (rr_resume r eid)))))"

lemma can_recover_iff: "can_recover p n t \<longleftrightarrow> n < rc_max_attempts p \<and> rc_stale p \<le> t"
  by (auto simp: can_recover_def)

text \<open>On a runtime without \<open>get_execution\<close>, as the class in the repository, recovery always fails.\<close>

lemma recovery_needs_get_execution:
  "(\<And>s. rr_get r eid s = (missing ''get_execution'', s)) \<Longrightarrow>
     recover_execution r p eid s = (missing ''get_execution'', s)"
  by (simp add: recover_execution_def bnd_def missing_def)

section \<open>Results by idempotency key\<close>

text \<open>
  The idempotency manager (\<^verbatim>\<open>tools/idempotency.py\<close>) over a synchronous session, which may have no
  \<open>query\<close>: the query gives the output of the row with a key, if there is one.
\<close>

record 's result_session =
  rs_query :: "(string \<Rightarrow> ('s, pyval option) act) option"
  rs_add :: "string \<Rightarrow> pyval \<Rightarrow> ('s, unit) act"
  rs_commit :: "('s, unit) act"

definition get_cached_result :: "'s result_session \<Rightarrow> string \<Rightarrow> ('s, pyval) act" where
  "get_cached_result db key = (case rs_query db of
      None \<Rightarrow> ret PNone
    | Some query \<Rightarrow> catch (bnd (query key) (\<lambda>r. ret (case r of None \<Rightarrow> PNone | Some out \<Rightarrow> out)))
        (\<lambda>x. if isinstance_exc x PyException then ret PNone else throw x))"

definition save_cached_result :: "'s result_session \<Rightarrow> string \<Rightarrow> pyval \<Rightarrow> ('s, unit) act" where
  "save_cached_result db key out = seq (rs_add db key out) (rs_commit db)"

text \<open>On a session that stores what it is given, a saved output is found again.\<close>

definition keeps_rows :: "'s result_session \<Rightarrow> ('s \<Rightarrow> string \<Rightarrow> pyval option) \<Rightarrow> bool" where
  "keeps_rows db rows \<longleftrightarrow> (\<exists>query. rs_query db = Some query \<and> (\<forall>k s. query k s = (Inr (rows s k), s)))
     \<and> (\<forall>k out s. \<exists>t u. rs_add db k out s = (Inr (), t) \<and> rs_commit db t = (Inr (), u)
          \<and> rows u = (rows s)(k \<mapsto> out))"

lemma saved_result_is_cached:
  assumes "keeps_rows db rows"
  shows "wp (seq (save_cached_result db key out) (get_cached_result db key')) (\<lambda>v t. v =
      (if key' = key then out else case rows s key' of None \<Rightarrow> PNone | Some o' \<Rightarrow> o')) (\<lambda>_ _. False) s"
proof -
  obtain query t u where q: "rs_query db = Some query" "\<And>k s. query k s = (Inr (rows s k), s)"
    and t: "rs_add db key out s = (Inr (), t)" "rs_commit db t = (Inr (), u)" "rows u = (rows s)(key \<mapsto> out)"
    using assms unfolding keeps_rows_def by metis
  show ?thesis
    by (auto simp: wp_def save_cached_result_def get_cached_result_def q t seq_def bnd_def catch_def ret_def)
qed

text \<open>
  The table of results refuses a key that is no identifier of an execution: it cannot be saved, and the
  reader takes every refusal for a missing row.
\<close>

lemma refused_key_is_never_cached:
  assumes "rs_query db = Some query" "\<And>s. \<exists>x t. query key s = (Inl x, t) \<and> isinstance_exc x PyException"
  shows "wp (get_cached_result db key) (\<lambda>v _. v = PNone) (\<lambda>_ _. False) s"
proof -
  obtain x t where "query key s = (Inl x, t)" "isinstance_exc x PyException" using assms(2) by blast
  then show ?thesis
    by (simp add: get_cached_result_def assms(1) wp_def catch_def bnd_def ret_def)
qed

end
