(* ===== verification/McpGateway.thy ===== *)
theory McpGateway
  imports AgentClients Recovery PyText
begin

text \<open>
  The MCP gateway in front of the agent service (\<^verbatim>\<open>mcp_gateway/auth.py\<close>, \<^verbatim>\<open>mcp_gateway/routing.py\<close>) and
  the start and the end of the service (\<^verbatim>\<open>main.py\<close>).  The applications behind the middleware are arguments:
  actions that take the scope of a request.
\<close>

section \<open>Requests\<close>

text \<open>Header names, header values and paths are bytes, here as texts of the Latin alphabet.\<close>

record asgi_scope =
  ag_type :: string
  ag_headers :: "(string \<times> string) list"
  ag_path :: "string option"
  ag_raw_path :: "string option"
  ag_root_path :: "string option"

datatype asgi_message = Response_start int "(string \<times> string) list" | Response_body string

type_synonym 's asgi_app = "asgi_scope \<Rightarrow> ('s, unit) act"

section \<open>The bearer token\<close>

text \<open>\<open>bytes.lower\<close> changes the ASCII letters only.\<close>

definition bytes_lower :: "string \<Rightarrow> string" where
  "bytes_lower s = map (\<lambda>c. let n = code_point c in if 65 \<le> n \<and> n \<le> 90 then char_of (n + 32) else c) s"

definition authorization_header :: "(string \<times> string) list \<Rightarrow> string option" where
  "authorization_header hs = map_option snd (find (\<lambda>(n, v). bytes_lower n = ''authorization'') hs)"

definition valid_token :: "string \<Rightarrow> (string \<times> string) list \<Rightarrow> bool" where
  "valid_token token hs =
     (case (case authorization_header hs of None \<Rightarrow> ([], False, []) | Some v \<Rightarrow> py_partition (CHR '' '') v) of
        (scheme, separator, supplied) \<Rightarrow>
          token \<noteq> [] \<and> separator \<and> py_lower scheme = ''bearer'' \<and> supplied \<noteq> [] \<and> supplied = token)"

definition unauthorized_body :: string where
  "unauthorized_body = json_dumps \<lparr>jo_ascii = True, jo_sort = False, jo_item_sep = '', '', jo_key_sep = '': ''\<rparr>
     (PDict [(''error'', PDict [(''code'', PStr ''UNAUTHORIZED''),
        (''message'', PStr ''A valid bearer token is required.'')])])"

definition bearer_middleware ::
  "string \<Rightarrow> (asgi_message \<Rightarrow> ('s, unit) act) \<Rightarrow> 's asgi_app \<Rightarrow> 's asgi_app" where
  "bearer_middleware token send app scope =
     (if ag_type scope \<noteq> ''http'' then app scope
      else if valid_token token (ag_headers scope) then app scope
      else seq (send (Response_start 401 [(''content-type'', ''application/json''),
             (''content-length'', nat_str (length unauthorized_body)),
             (''www-authenticate'', ''Bearer''), (''cache-control'', ''no-store'')]))
           (send (Response_body unauthorized_body)))"

section \<open>The mount path\<close>

definition mcp_scope :: "asgi_scope \<Rightarrow> asgi_scope" where
  "mcp_scope scope = scope\<lparr>ag_path := Some ''/'', ag_raw_path := Some ''/'',
     ag_root_path := Some (rstrip_slash (case ag_root_path scope of None \<Rightarrow> [] | Some r \<Rightarrow> r) @ ''/mcp'')\<rparr>"

definition mcp_root_middleware :: "'s asgi_app \<Rightarrow> 's asgi_app \<Rightarrow> 's asgi_app" where
  "mcp_root_middleware app mcp scope =
     (if ag_type scope \<noteq> ''http'' \<or> ag_path scope \<noteq> Some ''/mcp'' then app scope
      else mcp (mcp_scope scope))"

text \<open>The service: the routes, with the MCP application behind the token, which the routes mount too.\<close>

definition service_app ::
  "string \<Rightarrow> (asgi_message \<Rightarrow> ('s, unit) act) \<Rightarrow> ('s asgi_app \<Rightarrow> 's asgi_app) \<Rightarrow> 's asgi_app \<Rightarrow> 's asgi_app" where
  "service_app token send routes mcp =
     mcp_root_middleware (routes (bearer_middleware token send mcp)) (bearer_middleware token send mcp)"

lemma valid_token_iff:
  "valid_token token hs \<longleftrightarrow> token \<noteq> [] \<and> (\<exists>scheme. authorization_header hs = Some (scheme @ CHR '' '' # token)
     \<and> CHR '' '' \<notin> set scheme \<and> py_lower scheme = ''bearer'')"
proof (cases "authorization_header hs")
  case (Some v)
  obtain scheme sep supplied where p: "py_partition (CHR '' '') v = (scheme, sep, supplied)" by (cases "py_partition (CHR '' '') v")
  show ?thesis
  proof (cases sep)
    case True
    with p have v: "v = scheme @ CHR '' '' # supplied" "CHR '' '' \<notin> set scheme"
      using py_partition_some [of "CHR '' ''" v scheme supplied] by simp_all
    have eq: "v = scheme' @ CHR '' '' # token \<and> CHR '' '' \<notin> set scheme' \<longleftrightarrow> scheme' = scheme \<and> token = supplied" for scheme'
      using py_partition_some [of "CHR '' ''" v scheme' token] p True by auto
    have "(\<exists>scheme'. authorization_header hs = Some (scheme' @ CHR '' '' # token) \<and> CHR '' '' \<notin> set scheme'
        \<and> py_lower scheme' = ''bearer'') \<longleftrightarrow> token = supplied \<and> py_lower scheme = ''bearer''"
      unfolding Some option.inject using eq by metis
    then show ?thesis
      unfolding valid_token_def Some option.case p prod.case using True by blast
  next
    case False
    with p have "CHR '' '' \<notin> set v" using py_partition_none [of "CHR '' ''" v scheme supplied] by simp
    then show ?thesis using p False Some by (auto simp: valid_token_def)
  qed
qed (simp add: valid_token_def)

text \<open>
  A request without the token sees only the refusal: the MCP application could be any other one, also
  where the routes mount it.
\<close>

lemma bearer_refuses:
  assumes "ag_type scope = ''http''" "\<not> valid_token token (ag_headers scope)"
  shows "bearer_middleware token send app scope = bearer_middleware token send app' scope"
  using assms by (simp add: bearer_middleware_def)

lemma mcp_scope_frame [simp]:
  "ag_type (mcp_scope s) = ag_type s" "ag_headers (mcp_scope s) = ag_headers s" "ag_path (mcp_scope s) = Some ''/''"
  by (simp_all add: mcp_scope_def)

lemma service_refuses:
  assumes "ag_type scope = ''http''" "ag_path scope = Some ''/mcp''" "\<not> valid_token token (ag_headers scope)"
  shows "service_app token send routes mcp scope =
    seq (send (Response_start 401 [(''content-type'', ''application/json''),
             (''content-length'', nat_str (length unauthorized_body)),
             (''www-authenticate'', ''Bearer''), (''cache-control'', ''no-store'')]))
        (send (Response_body unauthorized_body))"
  using assms by (simp add: service_app_def mcp_root_middleware_def bearer_middleware_def)

lemma empty_token_refuses: "\<not> valid_token [] hs"
  by (simp add: valid_token_iff)

section \<open>The life of the service\<close>

text \<open>
  The settings of the agent service (\<^verbatim>\<open>core/config.py\<close>) that its parts are made with; a comma separated
  list without its blank entries.
\<close>

definition parse_list :: "string \<Rightarrow> string list" where
  "parse_list s = filter (\<lambda>h. h \<noteq> []) (map py_strip (py_split (CHR '','') s))"

record agent_settings =
  ags_router_url :: string
  ags_router_timeout :: time
  ags_inference_url :: string
  ags_inference_timeout :: time
  ags_inference_key :: string
  ags_max_steps :: int
  ags_sandbox_url :: string
  ags_sandbox_timeout :: time
  ags_jwt_secret :: string
  ags_jwt_algorithm :: string
  ags_jwt_issuer :: string
  ags_jwt_audience :: string
  ags_mcp_token :: "string option"
  ags_mcp_hosts :: string
  ags_mcp_origins :: string

text \<open>Without any variable but the required key of the inference service.\<close>

definition default_agent_settings :: "string \<Rightarrow> agent_settings" where
  "default_agent_settings key = \<lparr>ags_router_url = ''http://router:8005'', ags_router_timeout = 10,
     ags_inference_url = ''http://inference:8004'', ags_inference_timeout = 120, ags_inference_key = key,
     ags_max_steps = 8, ags_sandbox_url = ''http://sandbox:9000'', ags_sandbox_timeout = 10,
     ags_jwt_secret = ''development-only-secret'', ags_jwt_algorithm = ''HS256'', ags_jwt_issuer = ''agenyx'',
     ags_jwt_audience = ''agenyx-api'', ags_mcp_token = None,
     ags_mcp_hosts = ''localhost:*,127.0.0.1:*,agent:8000'', ags_mcp_origins = []\<rparr>"

text \<open>\<open>text\<close> is the text of the time-out of the inference client.\<close>

definition service_clients :: "agent_settings \<Rightarrow> string \<Rightarrow> router_client \<times> inference_client" where
  "service_clients s text = (new_router_client (ags_router_url s) (ags_router_timeout s),
     new_inference_client (ags_inference_url s) (ags_inference_key s) (ags_inference_timeout s) text 100 20 None)"

definition service_token :: "agent_settings \<Rightarrow> string" where
  "service_token s = (case ags_mcp_token s of None \<Rightarrow> [] | Some t \<Rightarrow> t)"

definition service_hosts :: "agent_settings \<Rightarrow> string list \<times> string list" where
  "service_hosts s = (parse_list (ags_mcp_hosts s), parse_list (ags_mcp_origins s))"

text \<open>
  The life of the service: \<open>enter\<close> and \<open>leave\<close> are those of the session manager, \<open>open_db\<close> and \<open>close_db\<close>
  those of the database session of the scan, \<open>serve\<close> the time in which requests are answered.
\<close>

record 's lifespan_ops =
  lo_enter :: "('s, unit) act"
  lo_leave :: "('s, unit) act"
  lo_open_db :: "('s, unit) act"
  lo_close_db :: "('s, unit) act"
  lo_scan :: "('s, unit) act"
  lo_serve :: "('s, unit) act"
  lo_close_router :: "('s, unit) act"
  lo_close_inference :: "('s, unit) act"
  lo_close_sandbox :: "('s, unit) act"

definition crash_recovery_check :: "'s lifespan_ops \<Rightarrow> ('s, unit) act" where
  "crash_recovery_check l = seq (lo_open_db l)
     (ensure (catch (lo_scan l) (\<lambda>x. if isinstance_exc x PyException then ret () else throw x)) (lo_close_db l))"

definition close_clients :: "'s lifespan_ops \<Rightarrow> ('s, unit) act" where
  "close_clients l = seq (lo_close_router l) (seq (lo_close_inference l) (lo_close_sandbox l))"

definition lifespan :: "agent_settings \<Rightarrow> 's lifespan_ops \<Rightarrow> ('s, unit) act" where
  "lifespan s l =
     (if service_token s = [] then
        throw (Exc RuntimeError ''AGENEYX_MCP_GATEWAY_TOKEN must be set to enable the MCP gateway.'')
      else ensure
        (seq (lo_enter l) (ensure (seq (crash_recovery_check l) (lo_serve l)) (lo_leave l)))
        (close_clients l))"

text \<open>Without a token nothing is started, served or closed.\<close>

lemma lifespan_needs_token:
  "service_token s = [] \<Longrightarrow> lifespan s l w =
     (raise RuntimeError ''AGENEYX_MCP_GATEWAY_TOKEN must be set to enable the MCP gateway.'', w)"
  by (simp add: lifespan_def throw_def)

lemma default_settings_do_not_start:
  "lifespan (default_agent_settings key) l w =
     (raise RuntimeError ''AGENEYX_MCP_GATEWAY_TOKEN must be set to enable the MCP gateway.'', w)"
  by (rule lifespan_needs_token) (simp add: service_token_def default_agent_settings_def)

text \<open>With one, the clients are closed last, whatever happened before.\<close>

lemma lifespan_closes:
  assumes "service_token s \<noteq> []" "\<And>v. wp (close_clients l) (\<lambda>_. C) (\<lambda>_ _. False) v"
  shows "wp (lifespan s l) (\<lambda>_. C) (\<lambda>_. C) w"
proof -
  have close: "wp (close_clients l) (\<lambda>_. C) (\<lambda>_. C) v" for v
    by (rule wp_mono [OF assms(2)]) simp_all
  have run: "wp m (\<lambda>_ _. True) (\<lambda>_ _. True) w" for m :: "('a, unit) act"
    by (simp add: wp_snd)
  show ?thesis
    unfolding lifespan_def if_not_P [OF assms(1)] wp_ensure by (rule wp_mono [OF run]) (rule close)+
qed

text \<open>A router client that fails to close leaves the other two open.\<close>

lemma failed_close_skips_the_rest:
  "lo_close_router l v = (Inl x, t) \<Longrightarrow> close_clients l v = (Inl x, t)"
  by (simp add: close_clients_def seq_def bnd_def)

lemma default_hosts:
  "service_hosts (default_agent_settings key) = ([''localhost:*'', ''127.0.0.1:*'', ''agent:8000''], [])"
  unfolding service_hosts_def default_agent_settings_def by code_simp

end
