(* ===== verification/Builtin.thy ===== *)
theory Builtin
  imports Planner
begin

text \<open>
  The builtin tools (\<^verbatim>\<open>tools/calculator.py\<close>, \<^verbatim>\<open>tools/builtin.py\<close>).  The parser of Python expressions and
  the arithmetic of floats are arguments; integers are exact.
\<close>

section \<open>The calculator\<close>

text \<open>
  The syntax trees \<open>ast.parse\<close> gives, as far as the calculator looks into them: constants (those that
  are no numbers, too), binary operations, and everything else.
\<close>

datatype operator_node = Op_Add | Op_Sub | Op_Mult | Op_Div | Op_other

datatype ast_node = Constant pyval | Bin_op operator_node ast_node ast_node | Other_node

text \<open>Floats are given by their texts; every operation may raise.\<close>

record float_ops =
  fo_of_int :: "int \<Rightarrow> string result"
  fo_add :: "string \<Rightarrow> string \<Rightarrow> string result"
  fo_sub :: "string \<Rightarrow> string \<Rightarrow> string result"
  fo_mult :: "string \<Rightarrow> string \<Rightarrow> string result"
  fo_div :: "string \<Rightarrow> string \<Rightarrow> string result"
  fo_int_div :: "int \<Rightarrow> int \<Rightarrow> string result"

datatype number = Int_number int | Float_number string

definition number_of :: "pyval \<Rightarrow> number option" where
  "number_of v = (case v of PInt i \<Rightarrow> Some (Int_number i) | PBool b \<Rightarrow> Some (Int_number (if b then 1 else 0))
     | PFloat t \<Rightarrow> Some (Float_number t) | _ \<Rightarrow> None)"

definition as_float :: "float_ops \<Rightarrow> number \<Rightarrow> string result" where
  "as_float fl x = (case x of Int_number i \<Rightarrow> fo_of_int fl i | Float_number t \<Rightarrow> Inr t)"

definition float_op ::
  "float_ops \<Rightarrow> (string \<Rightarrow> string \<Rightarrow> string result) \<Rightarrow> number \<Rightarrow> number \<Rightarrow> pyval result" where
  "float_op fl f x y = rbind (as_float fl x) (\<lambda>a. rbind (as_float fl y) (\<lambda>b. rbind (f a b) (\<lambda>c. Inr (PFloat c))))"

text \<open>\<open>operator.add\<close>, \<open>sub\<close>, \<open>mul\<close> and \<open>truediv\<close> on numbers.\<close>

definition apply_operator :: "float_ops \<Rightarrow> operator_node \<Rightarrow> number \<Rightarrow> number \<Rightarrow> pyval result" where
  "apply_operator fl op x y = (case (op, x, y) of
      (Op_Add, Int_number i, Int_number j) \<Rightarrow> Inr (PInt (i + j))
    | (Op_Sub, Int_number i, Int_number j) \<Rightarrow> Inr (PInt (i - j))
    | (Op_Mult, Int_number i, Int_number j) \<Rightarrow> Inr (PInt (i * j))
    | (Op_Div, Int_number i, Int_number j) \<Rightarrow>
        (if j = 0 then raise (ExternalError ''ZeroDivisionError'') ''division by zero''
         else rbind (fo_int_div fl i j) (\<lambda>t. Inr (PFloat t)))
    | (Op_Add, _, _) \<Rightarrow> float_op fl (fo_add fl) x y
    | (Op_Sub, _, _) \<Rightarrow> float_op fl (fo_sub fl) x y
    | (Op_Mult, _, _) \<Rightarrow> float_op fl (fo_mult fl) x y
    | (Op_Div, _, _) \<Rightarrow> float_op fl (fo_div fl) x y
    | (Op_other, _, _) \<Rightarrow> raise ValueError ''Unsupported operator'')"

text \<open>Both operands are evaluated before the operation, the left one first; the value of a node is a number.\<close>

fun calc_eval :: "float_ops \<Rightarrow> ast_node \<Rightarrow> pyval result" where
  "calc_eval fl (Constant v) = (if number_of v = None then raise ValueError ''Unsupported expression'' else Inr v)"
| "calc_eval fl (Bin_op op l r) =
     (if op = Op_other then raise ValueError ''Unsupported operator''
      else rbind (calc_eval fl l) (\<lambda>x. rbind (calc_eval fl r) (\<lambda>y.
        case (number_of x, number_of y) of
          (Some a, Some b) \<Rightarrow> apply_operator fl op a b
        | _ \<Rightarrow> raise TypeError ''unsupported operand type(s)'')))"
| "calc_eval fl Other_node = raise ValueError ''Unsupported expression''"

definition calculator :: "(string \<Rightarrow> ast_node result) \<Rightarrow> float_ops \<Rightarrow> string \<Rightarrow> string result" where
  "calculator parse fl expression = (case parse expression of
      Inl x \<Rightarrow> (if exc_class x = ExternalError ''SyntaxError''
        then raise ValueError ''Invalid mathematical expression'' else Inl x)
    | Inr tree \<Rightarrow> rbind (calc_eval fl tree) (\<lambda>v. Inr (py_str v)))"

text \<open>The value of a tree of integers.\<close>

fun int_value :: "ast_node \<Rightarrow> int option" where
  "int_value (Constant v) = (case number_of v of Some (Int_number i) \<Rightarrow> Some i | _ \<Rightarrow> None)"
| "int_value (Bin_op op l r) = (case (int_value l, int_value r) of
      (Some i, Some j) \<Rightarrow> (case op of Op_Add \<Rightarrow> Some (i + j) | Op_Sub \<Rightarrow> Some (i - j) | Op_Mult \<Rightarrow> Some (i * j) | _ \<Rightarrow> None)
    | _ \<Rightarrow> None)"
| "int_value Other_node = None"

lemma calc_eval_Bin:
  assumes "calc_eval fl (Bin_op op l r) = Inr v"
  shows "\<exists>x y a b. calc_eval fl l = Inr x \<and> calc_eval fl r = Inr y
    \<and> number_of x = Some a \<and> number_of y = Some b \<and> apply_operator fl op a b = Inr v"
proof -
  from assms obtain x y where xy: "calc_eval fl l = Inr x" "calc_eval fl r = Inr y"
    by (cases "calc_eval fl l"; cases "calc_eval fl r") (auto split: if_splits)
  with assms show ?thesis
    by (cases "number_of x"; cases "number_of y") (auto split: if_splits)
qed

lemma calc_eval_number: "calc_eval fl t = Inr v \<Longrightarrow> number_of v \<noteq> None"
proof (cases t)
  case (Bin_op op l r)
  assume "calc_eval fl t = Inr v"
  with Bin_op obtain a b where "apply_operator fl op a b = Inr v"
    using calc_eval_Bin [of fl op l r v] by blast
  then show ?thesis
    by (auto simp: apply_operator_def float_op_def number_of_def split: operator_node.splits number.splits if_splits)
qed (auto split: if_splits)

lemma calc_eval_int: "int_value t = Some i \<Longrightarrow> \<exists>v. calc_eval fl t = Inr v \<and> number_of v = Some (Int_number i)"
proof (induction t arbitrary: i)
  case (Bin_op op l r)
  from Bin_op.prems obtain a b where ab: "int_value l = Some a" "int_value r = Some b"
      "(case op of Op_Add \<Rightarrow> Some (a + b) | Op_Sub \<Rightarrow> Some (a - b) | Op_Mult \<Rightarrow> Some (a * b) | _ \<Rightarrow> None) = Some i"
    by (auto split: option.splits)
  obtain x y where "calc_eval fl l = Inr x" "number_of x = Some (Int_number a)"
      "calc_eval fl r = Inr y" "number_of y = Some (Int_number b)"
    using Bin_op.IH ab(1,2) by blast
  with ab(3) show ?case
    by (cases op) (auto simp: apply_operator_def number_of_def)
qed (auto split: option.splits number.splits)

text \<open>Only the four operations are evaluated: any other operator or node anywhere is refused or never reached.\<close>

fun supported :: "ast_node \<Rightarrow> bool" where
  "supported (Constant v) = (number_of v \<noteq> None)"
| "supported (Bin_op op l r) = (op \<noteq> Op_other \<and> supported l \<and> supported r)"
| "supported Other_node = False"

lemma calc_eval_supported: "calc_eval fl t = Inr v \<Longrightarrow> supported t"
  by (induction t arbitrary: v) (auto split: if_splits)

lemma calculator_int:
  assumes "parse s = Inr t" "int_value t = Some i" "\<And>v. t \<noteq> Constant v"
  shows "calculator parse fl s = Inr (int_str i)"
proof -
  obtain v where v: "calc_eval fl t = Inr v" "number_of v = Some (Int_number i)"
    using calc_eval_int [OF assms(2)] by blast
  obtain op l r where t: "t = Bin_op op l r" using assms(2,3) by (cases t) auto
  then obtain a b where ab: "apply_operator fl op a b = Inr v"
    using v(1) calc_eval_Bin [of fl op l r v] by blast
  then have "v \<noteq> PBool c" for c
    by (auto simp: apply_operator_def float_op_def split: operator_node.splits number.splits if_splits)
  with v(2) have "v = PInt i" by (auto simp: number_of_def split: pyval.splits if_splits)
  with v(1) assms(1) show ?thesis by (simp add: calculator_def py_str_def)
qed

section \<open>The registry of builtin tools\<close>

text \<open>\<open>execute\<close> is called with the arguments as keywords; \<open>ast.parse\<close> takes text only.\<close>

definition call_calculator :: "(string \<Rightarrow> string result) \<Rightarrow> pydict \<Rightarrow> pyval result" where
  "call_calculator calc args =
     (if set (map fst args) \<noteq> {''expression''} then raise TypeError ''calculator() arguments''
      else case dget args ''expression'' of
          PStr s \<Rightarrow> rbind (calc s) (\<lambda>t. Inr (PStr t))
        | _ \<Rightarrow> raise TypeError ''compile() arg 1 must be a string, bytes or AST object'')"

definition builtin_calculator :: "(string \<Rightarrow> ast_node result) \<Rightarrow> float_ops \<Rightarrow> tool" where
  "builtin_calculator parse fl = \<lparr>tl_name = ''calculator'',
     tl_description = ''Calculate a mathematical expression.'',
     tl_input_schema = [(''type'', PStr ''object''),
       (''properties'', PDict [(''expression'', PDict [(''type'', PStr ''string''),
          (''description'', PStr ''A mathematical expression such as 25 * 17'')])]),
       (''required'', PList [PStr ''expression'']), (''additionalProperties'', PBool False)],
     tl_execute = call_calculator (calculator parse fl)\<rparr>"

definition create_tool_registry :: "(string \<Rightarrow> ast_node result) \<Rightarrow> float_ops \<Rightarrow> tool_registry result" where
  "create_tool_registry parse fl = register (builtin_calculator parse fl) new_registry"

lemma create_tool_registry_ok:
  "create_tool_registry parse fl = Inr [(''calculator'', builtin_calculator parse fl)]"
  by (simp add: create_tool_registry_def register_def new_registry_def builtin_calculator_def dset_def)

end
