(* ===== verification/WorkerAgent.thy ===== *)
theory WorkerAgent
  imports WorkerRetries AgentApi RtEnd
begin

text \<open>
  The worker and the agent service together: the worker's requests are answered by runs of the agent
  (\<^verbatim>\<open>worker/app/agent_client.py\<close> posts to the endpoint of \<^verbatim>\<open>api/routes.py\<close>), and what the worker records of
  a task is what the run of the agent left.

  A body that has no text on the \<open>wire\<close> is answered with an internal error by the service.
\<close>

section \<open>The connection\<close>

definition answer_reply :: "(pyval \<Rightarrow> pyval option) \<Rightarrow> (int \<Rightarrow> string) \<Rightarrow> api_answer \<Rightarrow> http_reply" where
  "answer_reply wire reason x = (case x of
      Json_answer st body h \<Rightarrow> (case wire body of
          Some v \<Rightarrow> \<lparr>hr_status = st, hr_json = Some v, hr_error_text = reason st\<rparr>
        | None \<Rightarrow> \<lparr>hr_status = 500, hr_json = None, hr_error_text = reason 500\<rparr>)
    | Text_answer st t \<Rightarrow> \<lparr>hr_status = st, hr_json = None, hr_error_text = reason st\<rparr>
    | Sse_answer s \<Rightarrow> \<lparr>hr_status = 200, hr_json = None, hr_error_text = reason 200\<rparr>)"

text \<open>The body the worker posts.\<close>

definition task_body :: "string \<Rightarrow> pyval" where
  "task_body intent = PDict [(''intent'', PStr intent)]"

text \<open>One run of the agent in some environment, and the answer to it.\<close>

definition agent_ran ::
  "runtime \<Rightarrow> env \<Rightarrow> string \<Rightarrow> clock \<Rightarrow> approval_manager \<Rightarrow> tool_result idem_store \<Rightarrow> nat \<Rightarrow> string
     \<Rightarrow> exc + agent_response \<Rightarrow> world \<Rightarrow> bool" where
  "agent_ran rt en xid clk am st k intent r w \<longleftrightarrow>
     run_execution rt en (intent_request xid intent) (create_execution xid clk (intent_request xid intent) [] am st k) = (r, w)"

text \<open>The agent service behind a connection that may fail: every other outcome is its answer to the task.\<close>

definition answered_by ::
  "runtime \<Rightarrow> (pyval \<Rightarrow> pyval option) \<Rightarrow> (int \<Rightarrow> string) \<Rightarrow> worker_env \<Rightarrow> string \<Rightarrow> bool" where
  "answered_by rt wire reason e intent \<longleftrightarrow> (\<forall>n. (\<exists>x. we_agent e n = Failed x \<and> isinstance_exc x PyException)
     \<or> (\<exists>en xid clk am st k. xid \<noteq> []
         \<and> we_agent e n = Replied (answer_reply wire reason (fst (run_agent rt en xid clk am st k (task_body intent))))))"

section \<open>What the worker reads\<close>

lemma error_status_refused:
  assumes "400 \<le> api_status x"
  shows "\<exists>m. agent_result (Replied (answer_reply wire reason x)) = raise HttpStatusError m"
  using assms
  by (cases x) (auto simp: answer_reply_def agent_result_def raise_for_status_def split: option.split)

lemma answered_exception_status: "400 \<le> api_status (answer_exception x)"
  by (simp add: answer_exception_def agenyx_error_handler_def error_code_def split: prod.split)

lemma task_body_intent: "parse_agent_request (task_body intent) =
    (if 1 \<le> int (length intent) \<and> int (length intent) \<le> 10000 then Some intent else None)"
  by (simp add: parse_agent_request_def task_body_def text_between_def dget_def)

text \<open>The result of a posted task: an answered run, or an exception the worker handles.\<close>

lemma agent_result_cases:
  assumes "faithful_wire wire"
  shows "(\<exists>m. agent_result (Replied (answer_reply wire reason (fst (run_agent rt en xid clk am st k (task_body intent)))))
      = raise HttpStatusError m)
    \<or> (\<exists>resp w. agent_ran rt en xid clk am st k intent (Inr resp) w
         \<and> agent_result (Replied (answer_reply wire reason (fst (run_agent rt en xid clk am st k (task_body intent)))))
           = Inr [(''execution_id'', PStr (rs_execution_id resp)), (''status'', PStr (rs_status resp)),
               (''answer'', PStr (rs_answer resp)), (''steps'', PInt (rs_steps resp)),
               (''tool_calls'', PList (map tool_call_json (rs_tool_calls resp)))])"
proof (cases "parse_agent_request (task_body intent)")
  case None
  then show ?thesis
    using error_status_refused [of unprocessable] by (auto simp: run_agent_def unprocessable_def)
next
  case (Some i)
  then have i: "i = intent" by (simp add: task_body_intent split: if_splits)
  obtain r w where r: "run_execution rt en (intent_request xid intent)
      (create_execution xid clk (intent_request xid intent) [] am st k) = (r, w)" by fastforce
  show ?thesis
  proof (cases r)
    case (Inl x)
    then show ?thesis
      using Some i r error_status_refused [OF answered_exception_status] by (simp add: run_agent_def)
  next
    case (Inr resp)
    then have a: "fst (run_agent rt en xid clk am st k (task_body intent)) = Json_answer 200 (response_json resp) []"
      using Some i r by (simp add: run_agent_def)
    show ?thesis
    proof (cases "wire (response_json resp)")
      case None
      then show ?thesis by (simp add: a answer_reply_def agent_result_def raise_for_status_def)
    next
      case (Some v)
      with assms have "v = response_json resp" by (auto simp: faithful_wire_def dest!: spec [of _ "response_json resp"])
      then show ?thesis
        using Some r Inr unfolding a
        by (simp add: answer_reply_def agent_result_def raise_for_status_def response_json_def agent_ran_def)
    qed
  qed
qed

section \<open>What the worker records\<close>

text \<open>A task recorded as completed: a run that returned, with its answer and its number of steps.\<close>

definition recorded_run ::
  "runtime \<Rightarrow> worker_queue \<Rightarrow> ('s \<Rightarrow> string \<Rightarrow> string \<Rightarrow> string option) \<Rightarrow> ('s \<Rightarrow> (string \<times> string \<times> string) set)
     \<Rightarrow> string \<Rightarrow> string \<Rightarrow> string \<Rightarrow> 's worker_world \<Rightarrow> 's worker_world \<Rightarrow> bool" where
  "recorded_run rt q hash pend mid eid intent w t \<longleftrightarrow> (\<exists>en xid clk am st k resp u.
     agent_ran rt en xid clk am st k intent (Inr resp) u \<and> run_returned en (intent_request xid intent) resp u
     \<and> hash (ww_server t) (state_key eid) ''status'' = Some ''completed''
     \<and> hash (ww_server t) (state_key eid) ''answer'' = Some (rs_answer resp)
     \<and> hash (ww_server t) (state_key eid) ''steps'' = Some (int_str (rs_steps resp))
     \<and> pend (ww_server t) = pend (ww_server w) - {(wq_stream q, wq_group q, mid)}
     \<and> ww_log t = ww_log w @ [Wk_run mid intent, Wk_completed mid eid, Wk_ack mid])"

lemma recorded_success:
  assumes "valkey_behaves v hash pend" "dget res ''steps'' = PInt i" "dget res ''answer'' = PStr a"
  shows "wp (handle_success e v q eid mid attempt started res) (\<lambda>_ t.
      hash (ww_server t) (state_key eid) ''status'' = Some ''completed''
     \<and> hash (ww_server t) (state_key eid) ''answer'' = Some a
     \<and> hash (ww_server t) (state_key eid) ''steps'' = Some (int_str i)
     \<and> pend (ww_server t) = pend (ww_server w) - {(wq_stream q, wq_group q, mid)}
     \<and> ww_log t = ww_log w @ [Wk_completed mid eid, Wk_ack mid]) F w"
proof -
  have steps: "(case dget res ''steps'' of PNone \<Rightarrow> Inr None | s \<Rightarrow> rbind (int_of_value s) (\<lambda>i. Inr (Some i))) = Inr (Some i)"
    by (simp add: assms(2) int_of_value_def)
  have lift: "wp (lift_res (Inr b)) Q E u = Q b u" for b :: 'b and Q E and u :: "'a worker_world"
    by (simp add: wp_lift_res)
  show ?thesis
    unfolding handle_success_def update_state_def acknowledge_def wp_bnd wp_seq wp_tick_read wp_note_event steps lift
      assms(3)
    by (intro wp_hset [OF assms(1) texts_update] wp_ack [OF assms(1)])
       (simp_all add: update_of_def state_mapping_def)
qed

lemma agent_ran_returned:
  assumes "agent_ran rt en xid clk am st k intent (Inr resp) u" "xid \<noteq> []"
  shows "run_returned en (intent_request xid intent) resp u"
  using wp_run_execution_ends [OF create_execution_fresh [OF assms(2)], of rt en "intent_request xid intent" clk
      "intent_request xid intent" "[]" am st k] assms(1)
  by (simp add: wp_def agent_ran_def)

lemma answered_execute:
  fixes w :: "'s worker_world"
  assumes "valkey_behaves v hash pend" "never_cancelled e" "faithful_wire wire" "answered_by rt wire reason e intent"
    "task_message msg mid eid intent" "counted (hash (ww_server w) (state_key eid) ''attempt'') = a"
  shows "wp (executor_execute e v q x msg)
    (\<lambda>_ t. recorded_run rt q hash pend mid eid intent w t \<or> delivered e q x hash pend mid eid intent a w t) (\<lambda>_ _. False) w"
    (is "wp _ ?Q _ w")
proof (rule execute_by_outcome [OF assms(1,2,5,6)])
  have exc: "isinstance_exc (Exc HttpStatusError m) PyException" for m
    by (simp add: isinstance_exc_def exc_isa_PyException)
  fix n ex started and t :: "'s worker_world"
  assume r: "agent_result (we_agent e n) = Inl ex"
    and t: "ww_log t = ww_log w @ [Wk_run mid intent]" "pend (ww_server t) = pend (ww_server w)"
      "ww_tick t = ww_tick w + 3"
  have "isinstance_exc ex PyException"
    using assms(4) [unfolded answered_by_def, rule_format, of n]
  proof
    assume "\<exists>x. we_agent e n = Failed x \<and> isinstance_exc x PyException"
    then show ?thesis using r by (auto simp: agent_result_def)
  next
    assume "\<exists>en xid clk am st k. xid \<noteq> []
         \<and> we_agent e n = Replied (answer_reply wire reason (fst (run_agent rt en xid clk am st k (task_body intent))))"
    then show ?thesis
      using r agent_result_cases [OF assms(3), of reason rt _ _ _ _ _ _ intent] exc by (metis Inl_inject old.sum.distinct(1))
  qed
  moreover have "wp (handle_failure e v q x eid intent mid (a + 1) started (exc_msg ex)) (\<lambda>_ t. ?Q () t) (\<lambda>_ _. False) t"
    by (rule wp_mono [OF failed_delivery [OF assms(1,2) t]]) simp_all
  ultimately show "isinstance_exc ex PyException
      \<and> wp (handle_failure e v q x eid intent mid (a + 1) started (exc_msg ex)) ?Q (\<lambda>_ _. False) t" by simp
next
  fix n res started and t :: "'s worker_world"
  assume r: "agent_result (we_agent e n) = Inr res"
    and t: "ww_log t = ww_log w @ [Wk_run mid intent]" "pend (ww_server t) = pend (ww_server w)"
      "ww_tick t = ww_tick w + 3"
  from assms(4) [unfolded answered_by_def, rule_format, of n] r
  obtain en xid clk am st k where n: "xid \<noteq> []"
      "we_agent e n = Replied (answer_reply wire reason (fst (run_agent rt en xid clk am st k (task_body intent))))"
    by (auto simp: agent_result_def)
  with r agent_result_cases [OF assms(3), of reason rt en xid clk am st k intent] obtain resp u where
      u: "agent_ran rt en xid clk am st k intent (Inr resp) u"
      "dget res ''steps'' = PInt (rs_steps resp)" "dget res ''answer'' = PStr (rs_answer resp)"
    by (auto simp: dget_def)
  show "wp (handle_success e v q eid mid (a + 1) started res) ?Q (\<lambda>_ _. False) t"
  proof (rule wp_mono [OF recorded_success [OF assms(1) u(2,3)]])
    fix s :: "'s worker_world"
    assume "hash (ww_server s) (state_key eid) ''status'' = Some ''completed''
     \<and> hash (ww_server s) (state_key eid) ''answer'' = Some (rs_answer resp)
     \<and> hash (ww_server s) (state_key eid) ''steps'' = Some (int_str (rs_steps resp))
     \<and> pend (ww_server s) = pend (ww_server t) - {(wq_stream q, wq_group q, mid)}
     \<and> ww_log s = ww_log t @ [Wk_completed mid eid, Wk_ack mid]"
    with u(1) agent_ran_returned [OF u(1) n(1)] t have "recorded_run rt q hash pend mid eid intent w s"
      unfolding recorded_run_def by (intro exI [of _ en] exI [of _ xid] exI [of _ clk] exI [of _ am] exI [of _ st]
          exI [of _ k] exI [of _ resp] exI [of _ u]) simp
    then show "recorded_run rt q hash pend mid eid intent w s \<or> delivered e q x hash pend mid eid intent a w s" ..
  qed simp
qed

text \<open>A task whose intent the agent refuses to take is tried like any other, until it is a dead letter.\<close>

lemma refused_intent_always_fails:
  assumes "answered_by rt wire reason e intent" "intent = [] \<or> 10000 < length intent"
  shows "always_fails e"
proof -
  have "parse_agent_request (task_body intent) = None"
    using assms(2) by (auto simp: task_body_intent)
  then have u: "fst (run_agent rt en xid clk am st k (task_body intent)) = unprocessable" for en xid clk am st k
    by (simp add: run_agent_def)
  have exc: "isinstance_exc (Exc HttpStatusError m) PyException" for m
    by (simp add: isinstance_exc_def exc_isa_PyException)
  obtain m where m: "agent_result (Replied (answer_reply wire reason unprocessable)) = raise HttpStatusError m"
    using error_status_refused [of unprocessable wire reason] by (auto simp: unprocessable_def)
  show ?thesis
    unfolding always_fails_def
  proof
    fix n
    from assms(1) [unfolded answered_by_def u, rule_format, of n]
    show "case agent_result (we_agent e n) of Inl x \<Rightarrow> isinstance_exc x PyException | Inr _ \<Rightarrow> False"
      using m exc by (auto simp: agent_result_def)
  qed
qed

end
