(* ===== verification/ApiDemo.thy ===== *)
theory ApiDemo
  imports AgentGateway AgentApi McpGateway Builtin WorkerAgent WorkerDemo ServiceDemo
begin

text \<open>
  Concrete libraries and clients: transparent tokens, a key derivation, an inference service that answers
  at the second attempt, a stream of two events, and a worker whose requests the agent answers.  They are the
  examples of the properties of the agent's clients and of its HTTP interface.
\<close>

section \<open>Transparent tokens\<close>

text \<open>Texts packed one after the other.\<close>

fun pack :: "string \<Rightarrow> string" where
  "pack [] = ''.''"
| "pack (c # s) = CHR '','' # c # pack s"

fun unpack :: "string \<Rightarrow> string \<times> string" where
  "unpack (a # c # r) = (if a = CHR '','' then (case unpack r of (s, t) \<Rightarrow> (c # s, t)) else ([], c # r))"
| "unpack _ = ([], [])"

fun unpacks :: "nat \<Rightarrow> string \<Rightarrow> string list" where
  "unpacks 0 t = []"
| "unpacks (Suc n) t = (case unpack t of (s, r) \<Rightarrow> s # unpacks n r)"

lemma unpack_pack: "unpack (pack s @ t) = (s, t)"
proof (induction s)
  case Nil
  show ?case by (cases t) simp_all
qed simp

lemma unpacks_pack: "unpacks (length ss) (concat (map pack ss)) = ss"
  by (induction ss) (simp_all add: unpack_pack)

definition rat_texts :: "time \<Rightarrow> string list" where
  "rat_texts r = (case quotient_of r of (p, q) \<Rightarrow> [int_str p, int_str q])"

lemma rat_texts_pair: "\<exists>p q. rat_texts r = [p, q]"
  by (simp add: rat_texts_def split: prod.split)

definition rat_of :: "string \<Rightarrow> string \<Rightarrow> time" where
  "rat_of p q = (case (py_int p, py_int q) of (Some a, Some b) \<Rightarrow> of_int a / of_int b | _ \<Rightarrow> 0)"

lemma rat_of_texts: "rat_texts r = [p, q] \<Longrightarrow> rat_of p q = r"
  using quotient_of_div [of r] by (auto simp: rat_texts_def rat_of_def py_int_int_str split: prod.splits)

definition token_of :: "token_claims \<Rightarrow> string \<Rightarrow> string \<Rightarrow> string list" where
  "token_of c secret alg = [secret, alg, tc_sub c, tc_iss c, tc_aud c] @ rat_texts (tc_iat c) @ rat_texts (tc_exp c)"

definition read_token ::
  "time \<Rightarrow> string list \<Rightarrow> string \<Rightarrow> string \<Rightarrow> string \<Rightarrow> string \<Rightarrow> pyval result" where
  "read_token now parts secret alg issuer audience = (case parts of
      [sec, al, sub, iss, aud, ip, iq, ep, eq] \<Rightarrow>
        (if sec = secret \<and> al = alg \<and> iss = issuer \<and> aud = audience \<and> rat_of ip iq \<le> now \<and> now < rat_of ep eq
         then Inr (PDict [(''sub'', PStr sub)]) else raise (ExternalError ''PyJWTError'') ''invalid'')
    | _ \<Rightarrow> raise (ExternalError ''PyJWTError'') ''malformed'')"

definition demo_jwt :: jwt where
  "demo_jwt = \<lparr>jw_encode = (\<lambda>c secret alg. Inr (concat (map pack (token_of c secret alg)))),
     jw_decode = (\<lambda>now token. read_token now (unpacks 9 token))\<rparr>"

lemma demo_jwt_behaves: "jwt_behaves demo_jwt alg"
  unfolding jwt_behaves_def
proof (intro allI)
  fix c :: token_claims and secret
  obtain ip iq ep eq where t: "rat_texts (tc_iat c) = [ip, iq]" "rat_texts (tc_exp c) = [ep, eq]"
    using rat_texts_pair by metis
  have parts: "token_of c secret alg = [secret, alg, tc_sub c, tc_iss c, tc_aud c, ip, iq, ep, eq]"
    by (simp add: token_of_def t)
  then have "length (token_of c secret alg) = 9" by simp
  then have unpacked: "unpacks 9 (concat (map pack (token_of c secret alg))) = token_of c secret alg"
    using unpacks_pack by metis
  have "jw_decode demo_jwt now (concat (map pack (token_of c secret alg))) secret alg (tc_iss c) (tc_aud c) =
      (if tc_iat c \<le> now \<and> now < tc_exp c then Inr (PDict [(''sub'', PStr (tc_sub c))])
       else raise (ExternalError ''PyJWTError'') ''invalid'')" for now
    by (simp add: demo_jwt_def unpacked) (simp add: parts read_token_def rat_of_texts [OF t(1)] rat_of_texts [OF t(2)])
  then show "\<exists>token. jw_encode demo_jwt c secret alg = Inr token \<and> (\<forall>now. if tc_iat c \<le> now \<and> now < tc_exp c
      then \<exists>d. jw_decode demo_jwt now token secret alg (tc_iss c) (tc_aud c) = Inr (PDict d) \<and> dget d ''sub'' = PStr (tc_sub c)
      else \<exists>m. jw_decode demo_jwt now token secret alg (tc_iss c) (tc_aud c) = raise (ExternalError ''PyJWTError'') m)"
    by (intro exI [of _ "concat (map pack (token_of c secret alg))"]) (auto simp: demo_jwt_def dget_def)
qed

definition demo_kdf :: key_derivation where
  "demo_kdf password salt = salt @ password"

definition demo_auth :: auth_settings where
  "demo_auth = \<lparr>as_secret = ''s'', as_algorithm = ''HS256'', as_issuer = ''agenyx'', as_audience = ''agenyx-api''\<rparr>"

definition credentials :: "string \<Rightarrow> string \<Rightarrow> pyval" where
  "credentials email password = PDict [(''email'', PStr email), (''password'', PStr password)]"

section \<open>The inference service\<close>

definition demo_completion :: pydict where
  "demo_completion = [(''choices'', PList [PDict [(''message'', PDict [(''role'', PStr ''assistant''),
     (''content'', PStr ''four'')])]])]"

definition flaky_http :: http_env where
  "flaky_http = \<lparr>he_post = (\<lambda>n. if n = 0 then Failed (Exc HttpConnectError ''refused'')
       else Replied \<lparr>hr_status = 200, hr_json = Some (PDict demo_completion), hr_error_text = []\<rparr>),
     he_stream = (\<lambda>_. \<lparr>st_opened = Failed (Exc HttpConnectError ''refused''), st_chunks = [], st_ended = None\<rparr>),
     he_get = (\<lambda>_. Failed (Exc HttpConnectError ''refused'')), he_aclose = (\<lambda>_. None),
     he_perf = (\<lambda>n. of_nat n), he_now = (\<lambda>n. of_nat n), he_uniform = (\<lambda>_. 1 / 2),
     he_sleep_cancelled = (\<lambda>_. False)\<rparr>"

definition demo_inference :: inference_client where
  "demo_inference = new_inference_client ''http://inference:8004/'' ''k'' 120 ''120.0'' 100 20 None"

lemma demo_inference_policy: "policy_ok (ic_policy demo_inference)"
  by (simp add: demo_inference_def new_inference_client_def default_policy_def policy_ok_def)

lemma demo_inference_attempts: "rp_max_attempts (ic_policy demo_inference) = 3"
  by (simp add: demo_inference_def new_inference_client_def default_policy_def)

lemma new_http_world_empty [simp]: "hw_posts new_http_world = []" "hw_sleeps new_http_world = []"
  by (simp_all add: new_http_world_def)

lemma flaky_http_uniform: "0 \<le> he_uniform flaky_http t \<and> he_uniform flaky_http t \<le> 1"
  by (simp add: flaky_http_def)

section \<open>Events\<close>

definition started_event :: agent_event where
  "started_event = \<lparr>ev_type = ''execution_started'', ev_execution_id = ''e1'',
     ev_data = [(''session_id'', PStr (newline # ''data: x''))]\<rparr>"

definition completed_event :: agent_event where
  "completed_event = \<lparr>ev_type = ''execution_completed'', ev_execution_id = ''e1'',
     ev_data = [(''status'', PStr ''success''), (''steps'', PInt 1)]\<rparr>"

lemma demo_events_plain:
  "list_all (\<lambda>ev. newline \<notin> set (ev_type ev) \<and> plain_items (ev_data ev)) [started_event, completed_event]"
  by code_simp

text \<open>A worker whose requests are answered by runs of the agent.\<close>

definition served_env :: worker_env where
  "served_env = down_env\<lparr>we_agent := (\<lambda>n. Replied (answer_reply Some (\<lambda>_. []) (fst (run_agent demo_runtime demo_env ''e1''
     (\<lambda>_. 0) new_approval_manager new_idem_store 0 (task_body ''i'')))))\<rparr>"

lemma served_env_ok:
  "never_cancelled served_env" "faithful_wire Some" "answered_by demo_runtime Some (\<lambda>_. []) served_env ''i''"
proof -
  show "never_cancelled served_env" "faithful_wire Some"
    by (simp_all add: never_cancelled_def served_env_def down_env_def faithful_wire_def)
  have "\<exists>en xid clk am st k. xid \<noteq> [] \<and> we_agent served_env n = Replied (answer_reply Some (\<lambda>_. [])
      (fst (run_agent demo_runtime en xid clk am st k (task_body ''i''))))" for n
    unfolding served_env_def
    by (intro exI [of _ demo_env] exI [of _ "''e1''"] exI [of _ "\<lambda>_. 0"] exI [of _ new_approval_manager]
        exI [of _ new_idem_store] exI [of _ 0]) simp
  then show "answered_by demo_runtime Some (\<lambda>_. []) served_env ''i''"
    unfolding answered_by_def by blast
qed

section \<open>The inference client at the gateway\<close>

text \<open>A client with the key of the service, and providers the first of which refuses the request.\<close>

definition keyed_inference :: inference_client where
  "keyed_inference = new_inference_client ''http://inference:8004'' ''s'' 120 ''120.0'' 100 20 None"

definition hello :: "pydict list" where
  "hello = [[(''role'', PStr ''user''), (''content'', PStr ''hi'')]]"

definition answering_providers :: gateway_env where
  "answering_providers = demo_http\<lparr>he_post := (\<lambda>n. if n = 0
       then Replied \<lparr>hr_status = 404, hr_json = None, hr_error_text = ''no''\<rparr>
       else Replied \<lparr>hr_status = 200, hr_json = Some (PDict demo_completion), hr_error_text = []\<rparr>)\<rparr>"

definition hello_served :: "answer result \<times> gateway" where
  "hello_served = serve_chat answering_providers demo_app
     (sent_to_gateway (Some 80) (completion_request keyed_inference ''m'' hello [])) demo_gateway"

text \<open>The first request gets lost, the gateway answers the others.\<close>

definition relayed_http :: http_env where
  "relayed_http = flaky_http\<lparr>he_post := (\<lambda>n. if n = 0 then Failed (Exc HttpConnectError ''refused'')
     else case fst hello_served of Inr ans \<Rightarrow> Replied (gateway_reply Some (\<lambda>_. []) ans)
       | Inl x \<Rightarrow> Failed x)\<rparr>"

lemma relayed_http_uniform: "0 \<le> he_uniform relayed_http t \<and> he_uniform relayed_http t \<le> 1"
  by (simp add: relayed_http_def flaky_http_def)

lemma keyed_inference_policy: "policy_ok (ic_policy keyed_inference)"
  by (simp add: keyed_inference_def new_inference_client_def default_policy_def policy_ok_def)

lemma relayed_through_gateway:
  "through_gateway (\<lambda>_. answering_providers) demo_app Some (\<lambda>_. []) relayed_http
     (completion_request keyed_inference ''m'' hello []) (\<lambda>_. demo_gateway)
     (\<lambda>n. if n = 0 then demo_gateway else snd hello_served)"
proof -
  obtain r u where r: "hello_served = (r, u)" by fastforce
  then have s: "serve_chat answering_providers demo_app
     (sent_to_gateway (Some 80) (completion_request keyed_inference ''m'' hello [])) demo_gateway = (r, u)"
    by (simp add: hello_served_def)
  show ?thesis
    unfolding through_gateway_def served_call_def
    using s by (cases r) (fastforce simp: relayed_http_def r)+
qed

lemma relayed_completion:
  "fst (client_complete relayed_http keyed_inference ''m'' hello [] None new_http_world) = Inr demo_completion"
  by code_simp

end
