(* ===== verification/Telemetry.thy ===== *)
theory Telemetry
  imports Endpoint JsonText
begin

text \<open>
  What the inference service reports of itself: the metric families (\<^verbatim>\<open>inference/app/metrics.py\<close>) with the
  samples the increments, observations and gauges of the other theories stand for, the account of the
  requests the middleware keeps in them, and the log lines (\<^verbatim>\<open>inference/app/logger.py\<close>).
\<close>

section \<open>The metric families\<close>

datatype metric_kind = Counter | Gauge | Histogram "time list"

record metric_family =
  mf_name :: string
  mf_kind :: metric_kind
  mf_labels :: "string list"

definition http_buckets :: "time list" where
  "http_buckets = [5 / 1000, 1 / 100, 25 / 1000, 5 / 100, 1 / 10, 1 / 4, 1 / 2, 1, 5 / 2, 5, 10, 30, 60]"

definition inference_buckets :: "time list" where
  "inference_buckets = [1 / 100, 25 / 1000, 5 / 100, 1 / 10, 1 / 4, 1 / 2, 1, 5 / 2, 5, 10, 30, 60, 120]"

definition http_requests_total :: metric_family where
  "http_requests_total = \<lparr>mf_name = ''agenyx_inference_http_requests_total'', mf_kind = Counter,
     mf_labels = [''method'', ''route'', ''status_code'']\<rparr>"

definition http_request_duration :: metric_family where
  "http_request_duration = \<lparr>mf_name = ''agenyx_inference_http_request_duration_seconds'',
     mf_kind = Histogram http_buckets, mf_labels = [''method'', ''route'']\<rparr>"

definition http_requests_in_progress :: metric_family where
  "http_requests_in_progress = \<lparr>mf_name = ''agenyx_inference_http_requests_in_progress'', mf_kind = Gauge,
     mf_labels = [''method'', ''route'']\<rparr>"

definition http_errors_total :: metric_family where
  "http_errors_total = \<lparr>mf_name = ''agenyx_inference_http_errors_total'', mf_kind = Counter,
     mf_labels = [''method'', ''route'', ''status_code'']\<rparr>"

definition inference_requests_total :: metric_family where
  "inference_requests_total = \<lparr>mf_name = ''agenyx_inference_requests_total'', mf_kind = Counter,
     mf_labels = [''provider'', ''model'', ''status'']\<rparr>"

definition inference_request_duration :: metric_family where
  "inference_request_duration = \<lparr>mf_name = ''agenyx_inference_request_duration_seconds'',
     mf_kind = Histogram inference_buckets, mf_labels = [''provider'', ''model'']\<rparr>"

definition inference_requests_in_progress :: metric_family where
  "inference_requests_in_progress = \<lparr>mf_name = ''agenyx_inference_requests_in_progress'', mf_kind = Gauge,
     mf_labels = [''provider'', ''model'']\<rparr>"

definition provider_requests_total :: metric_family where
  "provider_requests_total = \<lparr>mf_name = ''agenyx_inference_provider_requests_total'', mf_kind = Counter,
     mf_labels = [''provider'', ''model'', ''status'']\<rparr>"

definition provider_request_duration :: metric_family where
  "provider_request_duration = \<lparr>mf_name = ''agenyx_inference_provider_request_duration_seconds'',
     mf_kind = Histogram inference_buckets, mf_labels = [''provider'', ''model'']\<rparr>"

definition provider_retries_total :: metric_family where
  "provider_retries_total = \<lparr>mf_name = ''agenyx_inference_provider_retries_total'', mf_kind = Counter,
     mf_labels = [''provider'', ''model'', ''reason'']\<rparr>"

definition provider_errors_total :: metric_family where
  "provider_errors_total = \<lparr>mf_name = ''agenyx_inference_provider_errors_total'', mf_kind = Counter,
     mf_labels = [''provider'', ''model'', ''error_type'']\<rparr>"

definition provider_gauge :: "string \<Rightarrow> metric_family" where
  "provider_gauge name = \<lparr>mf_name = name, mf_kind = Gauge, mf_labels = [''provider'']\<rparr>"

definition provider_gauge_families :: "metric_family list" where
  "provider_gauge_families = map provider_gauge
     [''agenyx_inference_provider_circuit_state'', ''agenyx_inference_provider_health_state'',
      ''agenyx_inference_provider_consecutive_failures'', ''agenyx_inference_provider_total_failures'',
      ''agenyx_inference_provider_total_successes'']"

definition metric_families :: "metric_family list" where
  "metric_families = [http_requests_total, http_request_duration, http_requests_in_progress, http_errors_total,
     inference_requests_total, inference_request_duration, inference_requests_in_progress,
     provider_requests_total, provider_request_duration, provider_retries_total, provider_errors_total]
     @ provider_gauge_families"

lemmas family_defs = http_requests_total_def http_request_duration_def http_requests_in_progress_def
  http_errors_total_def inference_requests_total_def inference_request_duration_def
  inference_requests_in_progress_def provider_requests_total_def provider_request_duration_def
  provider_retries_total_def provider_errors_total_def provider_gauge_families_def provider_gauge_def

text \<open>The registry of the client library takes each name once, and bounds in rising order.\<close>

lemma families_are_admissible:
  "distinct (map mf_name metric_families)"
  "sorted_wrt (<) http_buckets" "sorted_wrt (<) inference_buckets"
  by code_simp+

section \<open>Samples\<close>

record metric_sample =
  sa_family :: metric_family
  sa_labels :: "string list"
  sa_value :: time

definition sample :: "metric_family \<Rightarrow> string list \<Rightarrow> time \<Rightarrow> metric_sample" where
  "sample f ls v = \<lparr>sa_family = f, sa_labels = ls, sa_value = v\<rparr>"

fun service_sample :: "service_metric \<Rightarrow> metric_sample" where
  "service_sample (IM_requests p m st) = sample inference_requests_total [p, m, st] 1"
| "service_sample (IM_duration p m t) = sample inference_request_duration [p, m] t"
| "service_sample (HM_requests me r st) = sample http_requests_total [me, r, st] 1"
| "service_sample (HM_errors me r st) = sample http_errors_total [me, r, st] 1"
| "service_sample (HM_duration me r t) = sample http_request_duration [me, r] t"

fun provider_sample :: "provider_metric \<Rightarrow> metric_sample" where
  "provider_sample (M_duration p m t) = sample provider_request_duration [p, m] t"
| "provider_sample (M_requests p m st) = sample provider_requests_total [p, m, st] 1"
| "provider_sample (M_retries p m r) = sample provider_retries_total [p, m, r] 1"
| "provider_sample (M_errors p m t) = sample provider_errors_total [p, m, t] 1"

definition gauge_samples :: "string \<Rightarrow> provider_gauges \<Rightarrow> metric_sample list" where
  "gauge_samples p g = map2 (\<lambda>f v. sample f [p] (of_int v)) provider_gauge_families
     [pg_circuit g, pg_health g, pg_consecutive g, pg_failures g, pg_successes g]"

definition exported :: "gateway \<Rightarrow> metric_sample list" where
  "exported w = map service_sample (gw_metrics w) @ map provider_sample (hw_metrics w)
     @ concat (map (\<lambda>(p, g). gauge_samples p g) (rm_gauges (gw_rel w)))"

text \<open>\<^verbatim>\<open>GET /metrics\<close>: the client library renders the samples.\<close>

definition metrics_text :: "(metric_sample list \<Rightarrow> string) \<Rightarrow> gateway \<Rightarrow> string" where
  "metrics_text render w = render (exported w)"

definition sample_fits :: "metric_sample \<Rightarrow> bool" where
  "sample_fits s \<longleftrightarrow> sa_family s \<in> set metric_families \<and> length (sa_labels s) = length (mf_labels (sa_family s))"

text \<open>Every sample belongs to a declared family and names each of its labels.\<close>

lemma exported_fits: "s \<in> set (exported w) \<Longrightarrow> sample_fits s"
proof -
  have "sample_fits (service_sample m)" for m
    by (cases m) (simp_all add: sample_fits_def sample_def metric_families_def family_defs)
  moreover have "sample_fits (provider_sample m)" for m
    by (cases m) (simp_all add: sample_fits_def sample_def metric_families_def family_defs)
  moreover have "\<forall>s \<in> set (gauge_samples p g). sample_fits s" for p g
    by (simp add: gauge_samples_def sample_fits_def sample_def metric_families_def family_defs)
  moreover assume "s \<in> set (exported w)"
  ultimately show ?thesis by (auto simp: exported_def)
qed

text \<open>The value of a counter with its labels: the sum of its increments.\<close>

definition counter_value :: "metric_family \<Rightarrow> string list \<Rightarrow> service_metric list \<Rightarrow> time" where
  "counter_value f ls ms = sum_list (map sa_value
     (filter (\<lambda>s. mf_name (sa_family s) = mf_name f \<and> sa_labels s = ls) (map service_sample ms)))"

section \<open>The account of the requests\<close>

fun http_metric :: "service_metric \<Rightarrow> bool" where
  "http_metric (IM_requests _ _ _) = False"
| "http_metric (IM_duration _ _ _) = False"
| "http_metric _ = True"

definition http_metrics_of :: "gateway \<Rightarrow> service_metric list" where
  "http_metrics_of w = filter http_metric (gw_metrics w)"

definition same_http :: "gateway \<Rightarrow> gateway \<Rightarrow> bool" where
  "same_http w w' \<longleftrightarrow> http_metrics_of w' = http_metrics_of w"

interpretation http: failover_kept same_http
  by unfold_locales (simp_all add: same_http_def http_metrics_of_def)

lemma http_count_inference: "http.keeps (count_inference e p m st started)"
  unfolding count_inference_def count_metric_def
  by (intro http.keeps_bnd http.keeps_seq http.keeps_read_env http.keeps_modify) (simp_all add: same_http_def http_metrics_of_def)

lemma http_admission: "http.keeps admit" "http.keeps leave"
  by (auto simp: http.keeps_def admit_def leave_def same_http_def http_metrics_of_def split: prod.splits sum.splits)

lemma http_run_inference: "http.keeps (run_inference e a payload m)"
  unfolding run_inference_def call_failover_def json_response_def
  by (intro http.keeps_seq http.keeps_bnd http.keeps_ensure http.keeps_read_env http.keeps_modify http_admission)
     (auto simp: same_http_def http_metrics_of_def split: sum.split
        intro!: http.keeps_rules http.keeps_gw_failover http_count_inference)

lemma http_chat_completions: "http.keeps (chat_completions e a rq)"
  by (auto simp: chat_completions_def split: option.split sum.split
      intro!: http.keeps_rules http_admission http_run_inference)

text \<open>
  What the middleware adds for one request: its count under the status of its answer, the error if it is
  one, and the duration; only the duration for a request that is cancelled.
\<close>

definition request_account :: "chat_http_request \<Rightarrow> answer option \<Rightarrow> time \<Rightarrow> service_metric list" where
  "request_account rq ans t = (case ans of None \<Rightarrow> [] | Some x \<Rightarrow>
       HM_requests (cr_method rq) (cr_route rq) (int_str (answer_status x))
       # (if 400 \<le> answer_status x then [HM_errors (cr_method rq) (cr_route rq) (int_str (answer_status x))] else []))
     @ [HM_duration (cr_method rq) (cr_route rq) t]"

lemma http_metrics_count [simp]:
  "http_metrics_of (w\<lparr>gw_metrics := gw_metrics w @ ms\<rparr>) = http_metrics_of w @ filter http_metric ms"
  by (simp add: http_metrics_of_def)

lemma http_metrics_frame [simp]:
  "http_metrics_of (w\<lparr>gw_http_in_progress := i\<rparr>) = http_metrics_of w"
  "http_metrics_of (w\<lparr>hw_tick := n\<rparr>) = http_metrics_of w"
  by (simp_all add: http_metrics_of_def)

lemma middleware_account:
  assumes "http.keeps call"
  shows "wp (http_metrics e rq call)
    (\<lambda>ans t. \<exists>d. http_metrics_of t = http_metrics_of w @ request_account rq (Some ans) d)
    (\<lambda>x t. \<exists>d. http_metrics_of t = http_metrics_of w
       @ request_account rq (if isinstance_exc x PyException then Some (Api_error 500 [] []) else None) d) w"
proof -
  let ?counted = "\<lambda>ans t. http_metrics_of t = http_metrics_of w @ butlast (request_account rq ans 0)"
  let ?body = "catch
         (bnd call (\<lambda>x. let st = int_str (answer_status x) in
            seq (count_metric (HM_requests (cr_method rq) (cr_route rq) st))
            (seq (guarded (400 \<le> answer_status x) (count_metric (HM_errors (cr_method rq) (cr_route rq) st)))
            (ret x))))
         (\<lambda>x. if isinstance_exc x PyException then
                seq (count_metric (HM_requests (cr_method rq) (cr_route rq) ''500''))
                (seq (count_metric (HM_errors (cr_method rq) (cr_route rq) ''500'')) (throw x))
              else throw x)"
  have code: "int_str 500 = ''500''" by code_simp
  have body: "wp ?body (\<lambda>ans. ?counted (Some ans))
      (\<lambda>x. ?counted (if isinstance_exc x PyException then Some (Api_error 500 [] []) else None)) v"
    if v: "http_metrics_of v = http_metrics_of w" for v
    unfolding wp_catch wp_bnd
    by (rule http.wp_after [OF assms])
       (use v in \<open>auto simp: same_http_def wp count_metric_def Let_def request_account_def code\<close>)
  show ?thesis
    unfolding http_metrics_def Let_def [of "(cr_method rq, cr_route rq)"] wp_bnd [of "read_env _"] wp_read_env wp_seq [of "modify _"] wp_modify wp_ensure
    by (rule wp_mono [OF body])
       (auto simp: wp count_metric_def request_account_def http_metrics_of_def)
qed

lemma serve_chat_account:
  "wp (serve_chat e a rq)
    (\<lambda>ans t. \<exists>d. http_metrics_of t = http_metrics_of w @ request_account rq (Some ans) d)
    (\<lambda>x t. \<not> isinstance_exc x PyException
       \<and> (\<exists>d. http_metrics_of t = http_metrics_of w @ request_account rq None d)) w"
  unfolding serve_chat_def wp_catch
  by (rule wp_mono [OF middleware_account [OF http_chat_completions]])
     (auto simp: unhandled_exception_def unexpected_answer_def wp request_account_def)

text \<open>The counters of the middleware count each answered request once, under its status.\<close>

lemma counter_value_append [simp]: "counter_value f ls (ms @ ms') = counter_value f ls ms + counter_value f ls ms'"
  by (simp add: counter_value_def)

lemma counter_value_http:
  assumes "f = http_requests_total \<or> f = http_errors_total"
  shows "counter_value f ls (filter http_metric ms) = counter_value f ls ms"
proof (induction ms)
  case (Cons m ms)
  have "counter_value f ls [m] = 0" if "\<not> http_metric m"
    using that assms by (cases m) (auto simp: counter_value_def sample_def family_defs)
  with Cons counter_value_append [of f ls "[m]" ms] counter_value_append [of f ls "[m]" "filter http_metric ms"]
  show ?case by auto
qed (simp add: counter_value_def)

lemma request_account_counts:
  "counter_value http_requests_total ls (request_account rq (Some ans) d) =
     (if ls = [cr_method rq, cr_route rq, int_str (answer_status ans)] then 1 else 0)"
  "counter_value http_errors_total ls (request_account rq (Some ans) d) =
     (if ls = [cr_method rq, cr_route rq, int_str (answer_status ans)] \<and> 400 \<le> answer_status ans then 1 else 0)"
  "counter_value http_requests_total ls (request_account rq None d) = 0"
  "counter_value http_errors_total ls (request_account rq None d) = 0"
  by (auto simp: counter_value_def request_account_def sample_def family_defs)

lemma account_counts:
  assumes "http_metrics_of t = http_metrics_of w @ request_account rq ans d" "f = http_requests_total \<or> f = http_errors_total"
  shows "counter_value f ls (gw_metrics t) = counter_value f ls (gw_metrics w) + counter_value f ls (request_account rq ans d)"
  using counter_value_http [OF assms(2), of ls "gw_metrics t"] counter_value_http [OF assms(2), of ls "gw_metrics w"]
    assms(1) by (simp add: http_metrics_of_def)

text \<open>The requests answered with the labels \<open>ls\<close>, and those of them that are errors.\<close>

definition answered_with :: "bool \<Rightarrow> string list \<Rightarrow> chat_http_request \<times> answer result \<Rightarrow> bool" where
  "answered_with errors ls = (\<lambda>(rq, r). case r of
      Inr ans \<Rightarrow> ls = [cr_method rq, cr_route rq, int_str (answer_status ans)] \<and> (errors \<longrightarrow> 400 \<le> answer_status ans)
    | Inl x \<Rightarrow> False)"

definition http_counter :: "bool \<Rightarrow> metric_family" where
  "http_counter errors = (if errors then http_errors_total else http_requests_total)"

lemma serve_chat_counts:
  assumes "serve_chat e a rq w = (r, t)"
  shows "counter_value (http_counter errors) ls (gw_metrics t) = counter_value (http_counter errors) ls (gw_metrics w)
     + (if answered_with errors ls (rq, r) then 1 else 0)"
proof (cases r)
  case (Inr ans)
  with serve_chat_account [of e a rq w] assms obtain d
    where "http_metrics_of t = http_metrics_of w @ request_account rq (Some ans) d" by (auto simp: wp_def)
  from account_counts [OF this] show ?thesis
    by (simp add: Inr http_counter_def answered_with_def request_account_counts)
next
  case (Inl x)
  with serve_chat_account [of e a rq w] assms obtain d
    where "http_metrics_of t = http_metrics_of w @ request_account rq None d" by (auto simp: wp_def)
  from account_counts [OF this] show ?thesis
    by (simp add: Inl http_counter_def answered_with_def request_account_counts)
qed

lemma serve_all_counts:
  "counter_value (http_counter errors) ls (gw_metrics (snd (serve_all e a rqs w))) =
     counter_value (http_counter errors) ls (gw_metrics w)
     + of_nat (length (filter (answered_with errors ls) (zip rqs (fst (serve_all e a rqs w)))))"
proof (induction rqs arbitrary: w)
  case (Cons rq rqs)
  obtain r v where rv: "serve_chat e a rq w = (r, v)" by fastforce
  with Cons.IH [of v] serve_chat_counts [OF rv, of errors ls] show ?case by (simp add: split_beta)
qed simp

section \<open>Log lines\<close>

text \<open>
  A log record: the attributes of its dictionary in order, each a value with a JSON text or an object with
  the text \<open>str\<close> gives it, and the class and text of its exception.
\<close>

datatype log_value = Json_attr pyval | Other_attr string

record log_record =
  lr_level :: string
  lr_logger :: string
  lr_message :: string
  lr_attrs :: "(string \<times> log_value) list"
  lr_exception :: "(string option \<times> string option) option"

definition reserved_fields :: "string list" where
  "reserved_fields = [''args'', ''asctime'', ''created'', ''exc_info'', ''exc_text'', ''filename'', ''funcName'',
     ''levelname'', ''levelno'', ''lineno'', ''message'', ''module'', ''msecs'', ''msg'', ''name'', ''pathname'',
     ''process'', ''processName'', ''relativeCreated'', ''stack_info'', ''thread'', ''threadName'']"

fun log_json :: "log_value \<Rightarrow> pyval" where
  "log_json (Json_attr v) = v"
| "log_json (Other_attr t) = PStr t"

definition logged_attr :: "string \<Rightarrow> bool" where
  "logged_attr k \<longleftrightarrow> take 1 k \<noteq> ''_'' \<and> k \<notin> set reserved_fields"

definition opt_text :: "string option \<Rightarrow> pyval" where
  "opt_text t = (case t of None \<Rightarrow> PNone | Some s \<Rightarrow> PStr s)"

definition log_dict :: "string \<Rightarrow> log_record \<Rightarrow> pydict" where
  "log_dict now r =
     (let base = [(''timestamp'', PStr now), (''level'', PStr (lr_level r)), (''service'', PStr ''agenyx-inference''),
            (''logger'', PStr (lr_logger r)), (''message'', PStr (lr_message r))];
          d = foldl (\<lambda>d (k, v). if logged_attr k then dset k (log_json v) d else d) base (lr_attrs r)
      in case lr_exception r of None \<Rightarrow> d
         | Some (c, m) \<Rightarrow> dset ''exception'' (PDict [(''type'', opt_text c), (''message'', opt_text m)]) d)"

definition log_line :: "string \<Rightarrow> log_record \<Rightarrow> string" where
  "log_line now r = json_dumps \<lparr>jo_ascii = False, jo_sort = False, jo_item_sep = '', '', jo_key_sep = '': ''\<rparr>
     (PDict (log_dict now r))"

lemma plain_dset: "plain_items d \<Longrightarrow> plain_value v \<Longrightarrow> plain_items (dset k v d)"
  by (induction d) (auto simp: dset_def)

text \<open>A record is one line of the log, whatever texts it carries.\<close>

lemma log_line_is_one_line:
  assumes "\<forall>(k, v) \<in> set (lr_attrs r). plain_value (log_json v)"
  shows "newline \<notin> set (log_line now r)"
proof -
  have "plain_items (foldl (\<lambda>d (k, v). if logged_attr k then dset k (log_json v) d else d) d as)"
    if "plain_items d" "\<forall>(k, v) \<in> set as. plain_value (log_json v)" for d as
    using that by (induction as arbitrary: d) (auto simp: plain_dset split: prod.splits)
  with assms have "plain_items (log_dict now r)"
    by (auto simp: log_dict_def Let_def opt_text_def plain_dset split: option.splits)
  then show ?thesis
    unfolding log_line_def by (intro json_dumps_no_newline(1)) (simp_all add: newline_def)
qed

text \<open>An attribute may take the place of a field of the entry itself.\<close>

lemma attribute_replaces_level:
  "lr_attrs r = [(''level'', Json_attr v)] \<Longrightarrow> lr_exception r = None \<Longrightarrow> dget (log_dict now r) ''level'' = v"
  by (simp add: log_dict_def logged_attr_def reserved_fields_def dset_def dget_def)

section \<open>The life of the service\<close>

text \<open>
  \<open>serve\<close> is what happens while the application runs and \<open>tracer_shutdown\<close> flushes the tracer.  The code
  has no \<open>finally\<close>: what raises ends the shutdown.
\<close>

definition service_lifespan :: "gateway_env \<Rightarrow> app \<Rightarrow> unit gateway_act \<Rightarrow> unit gateway_act \<Rightarrow> unit gateway_act" where
  "service_lifespan e a serve tracer_shutdown =
     seq serve (seq (providers_close (http_env.truncate e) (fo_registry (ap_failover a))) tracer_shutdown)"

text \<open>A provider whose client does not close does not keep the tracer from being shut down.\<close>

lemma shutdown_reaches_tracer:
  assumes "\<And>w. wp serve (\<lambda>_ _. True) (\<lambda>_ _. False) w" "\<And>w. wp tracer_shutdown Q (\<lambda>_ _. False) w"
    "\<And>n x. he_aclose (http_env.truncate e) n = Some x \<Longrightarrow> isinstance_exc x PyException"
  shows "wp (service_lifespan e a serve tracer_shutdown) Q (\<lambda>_ _. False) w"
proof -
  have close: "wp (catch (provider_close (http_env.truncate e) p)
      (\<lambda>x. if isinstance_exc x PyException then ret () else throw x)) (\<lambda>_ _. True) (\<lambda>_ _. False) v" for p and v :: gateway
    unfolding provider_close_def backend_close_def guarded_def
    using assms(3) [of "hw_tick v"] by (cases "he_aclose (http_env.truncate e) (hw_tick v)") (simp_all add: wp)
  have "wp (providers_close (http_env.truncate e) reg) (\<lambda>_ _. True) (\<lambda>_ _. False) v" for reg and v :: gateway
    unfolding providers_close_def
  proof (rule wp_for_each [where I = "\<lambda>_. True"])
    fix np :: "string \<times> provider" and u :: gateway
    show "wp (case np of (n, p) \<Rightarrow> catch (provider_close (http_env.truncate e) p)
        (\<lambda>x. if isinstance_exc x PyException then ret () else throw x)) (\<lambda>_ _. True) (\<lambda>_ _. False) u"
      by (cases np) (simp only: prod.case close)
  qed simp
  note closed = this
  show ?thesis
    unfolding service_lifespan_def wp_seq
    by (rule wp_mono [OF assms(1)], rule wp_mono [OF closed]) (use assms(2) in simp_all)
qed

end
