(* ===== verification/Tables.thy ===== *)
theory Tables
  imports Postgres
begin

text \<open>
  The tables (\<^verbatim>\<open>db/models\<close>): what their columns and constraints admit, and that the rows the service
  writes are admitted, as long as identifiers are fresh and the execution a row refers to is stored.

  The widths are those of the \<open>String\<close> columns.  Identifiers, numbers, texts and documents have the types
  of their columns.
\<close>

section \<open>The schema\<close>

definition width :: "nat \<Rightarrow> string \<Rightarrow> bool" where
  "width n s \<longleftrightarrow> length s \<le> n"

definition opt_width :: "nat \<Rightarrow> string option \<Rightarrow> bool" where
  "opt_width n t = (case t of None \<Rightarrow> True | Some s \<Rightarrow> width n s)"

definition stored_execution :: "database \<Rightarrow> string \<Rightarrow> bool" where
  "stored_execution db i \<longleftrightarrow> i \<in> xw_execution_id ` set (db_executions db)"

definition executions_table :: "database \<Rightarrow> bool" where
  "executions_table db \<longleftrightarrow> distinct (map xw_execution_id (db_executions db))
     \<and> list_all (\<lambda>w. width 64 (xw_state w) \<and> width 32 (xw_status w) \<and> opt_width 255 (xw_error_type w)
          \<and> xw_created_at w \<noteq> None) (db_executions db)"

definition steps_table :: "database \<Rightarrow> bool" where
  "steps_table db \<longleftrightarrow> distinct (map (\<lambda>(i, st). sr_step_id st) (db_steps db))
     \<and> distinct (map (\<lambda>(i, st). (i, sr_number st)) (db_steps db))
     \<and> list_all (\<lambda>(i, st). stored_execution db i \<and> width 64 (sr_type st) \<and> width 32 (sr_status st)) (db_steps db)"

definition results_table :: "database \<Rightarrow> bool" where
  "results_table db \<longleftrightarrow> distinct (map rr_execution_id (db_results db))
     \<and> list_all (\<lambda>r. stored_execution db (rr_execution_id r) \<and> width 32 (rr_status r)
          \<and> opt_width 255 (rr_error_type r)) (db_results db)"

definition events_table :: "database \<Rightarrow> bool" where
  "events_table db \<longleftrightarrow> distinct (map er_event_id (db_events db))
     \<and> distinct (map (\<lambda>ev. (er_of_execution ev, er_sequence ev)) (db_events db))
     \<and> list_all (\<lambda>ev. stored_execution db (er_of_execution ev) \<and> width 128 (er_type ev)
          \<and> er_recorded_at ev \<noteq> None) (db_events db)"

definition schema_ok :: "database \<Rightarrow> bool" where
  "schema_ok db \<longleftrightarrow> executions_table db \<and> steps_table db \<and> results_table db \<and> events_table db"

lemmas table_defs = executions_table_def steps_table_def results_table_def events_table_def

section \<open>Rows grouped by their execution\<close>

lemma rows_of_Cons: "rows_of i ((j, st) # rows) = (if j = i then st # rows_of i rows else rows_of i rows)"
  by simp

lemma set_rows_of: "set (rows_of i rows) = {st. (i, st) \<in> set rows}"
  by force

lemma distinct_groups:
  "(\<forall>i. distinct (map g (if j = i then st # R i else R i)))
     \<longleftrightarrow> g st \<notin> set (map g (R j)) \<and> (\<forall>i. distinct (map g (R i)))" (is "?l \<longleftrightarrow> ?r")
proof
  assume l: ?l
  have "distinct (map g (R i))" for i using l [rule_format, of i] by (cases "j = i") simp_all
  with l [rule_format, of j] show ?r by simp
qed simp

lemma disjoint_groups:
  fixes R :: "'k \<Rightarrow> 'b list"
  shows "(\<forall>i k. i \<noteq> k \<longrightarrow> g ` set (if j = i then st # R i else R i) \<inter> g ` set (if j = k then st # R k else R k) = {})
     \<longleftrightarrow> (\<forall>k. k \<noteq> j \<longrightarrow> g st \<notin> g ` set (R k)) \<and> (\<forall>i k. i \<noteq> k \<longrightarrow> g ` set (R i) \<inter> g ` set (R k) = {})"
  (is "?l \<longleftrightarrow> ?r")
proof
  assume l: ?l
  have "g st \<notin> g ` set (R k)" if "k \<noteq> j" for k using l [rule_format, of j k] that by auto
  moreover have "g ` set (R i) \<inter> g ` set (R k) = {}" if "i \<noteq> k" for i k
    using l [rule_format, OF that] by (cases "j = i"; cases "j = k") auto
  ultimately show ?r by blast
next
  assume r: ?r
  show ?l
  proof (intro allI impI)
    fix i k :: 'k
    assume "i \<noteq> k"
    with r show "g ` set (if j = i then st # R i else R i) \<inter> g ` set (if j = k then st # R k else R k) = {}"
      by (cases "j = i"; cases "j = k") auto
  qed
qed

lemma distinct_by_key:
  "distinct (map (\<lambda>(i, st). (i, g st)) rows) \<longleftrightarrow> (\<forall>i. distinct (map g (rows_of i rows)))"
proof (induction rows)
  case (Cons row rows)
  obtain j st where row: "row = (j, st)" by force
  have "(j, g st) \<in> set (map (\<lambda>(i, st). (i, g st)) rows) \<longleftrightarrow> g st \<in> set (map g (rows_of j rows))"
    unfolding set_map set_rows_of by force
  then show ?case
    unfolding row list.map prod.case distinct.simps Cons.IH rows_of_Cons distinct_groups by blast
qed simp

lemma distinct_by_snd:
  "distinct (map (\<lambda>(i, st). g st) rows) \<longleftrightarrow> (\<forall>i. distinct (map g (rows_of i rows)))
     \<and> (\<forall>i k. i \<noteq> k \<longrightarrow> g ` set (rows_of i rows) \<inter> g ` set (rows_of k rows) = {})"
proof (induction rows)
  case (Cons row rows)
  obtain j st where row: "row = (j, st)" by force
  define R where "R i = rows_of i rows" for i
  have "g st \<in> set (map (\<lambda>(i, st). g st) rows) \<longleftrightarrow> (\<exists>i. g st \<in> g ` set (R i))"
    unfolding set_map set_rows_of R_def by force
  then have new: "g st \<notin> set (map (\<lambda>(i, st). g st) rows) \<longleftrightarrow>
      g st \<notin> g ` set (R j) \<and> (\<forall>k. k \<noteq> j \<longrightarrow> g st \<notin> g ` set (R k))" by metis
  show ?case
    unfolding row list.map prod.case distinct.simps new Cons.IH rows_of_Cons R_def [symmetric]
      distinct_groups disjoint_groups
    by (simp only: set_map conj_ac)
qed simp

text \<open>The schema gives the invariant of the execution store.\<close>

lemma schema_db_wf: "schema_ok db \<Longrightarrow> db_wf db"
proof -
  assume s: "schema_ok db"
  then have "\<forall>i. distinct (map sr_step_id (rows_of i (db_steps db)))"
    unfolding schema_ok_def steps_table_def distinct_by_snd by blast
  moreover have "steps_of i db = []" if "find_row i db = None" for i
    using that s by (auto simp: schema_ok_def steps_table_def find_row_def find_None_iff steps_of_def
        stored_execution_def list_all_iff filter_empty_conv)
  ultimately show ?thesis
    using s by (simp add: db_wf_def schema_ok_def executions_table_def rows_eq_steps_of)
qed

section \<open>Writes the schema admits\<close>

definition step_fits :: "step_record \<Rightarrow> bool" where
  "step_fits st \<longleftrightarrow> width 64 (sr_type st) \<and> width 32 (sr_status st)"

definition record_fits :: "execution_record \<Rightarrow> bool" where
  "record_fits r \<longleftrightarrow> pg_storable r \<and> width 64 (xr_state r) \<and> width 32 (xr_status r) \<and> opt_width 255 (xr_error_type r)
     \<and> xr_created_at r \<noteq> None \<and> list_all step_fits (xr_steps r)"

definition fresh_steps :: "execution_record \<Rightarrow> database \<Rightarrow> bool" where
  "fresh_steps r db \<longleftrightarrow> (\<forall>j. j \<noteq> xr_execution_id r \<longrightarrow>
     sr_step_id ` set (rows_of j (db_steps db)) \<inter> sr_step_id ` set (xr_steps r) = {})"

lemma steps_table_iff:
  "steps_table db \<longleftrightarrow> (\<forall>i. distinct (map sr_step_id (rows_of i (db_steps db))))
     \<and> (\<forall>i k. i \<noteq> k \<longrightarrow> sr_step_id ` set (rows_of i (db_steps db)) \<inter> sr_step_id ` set (rows_of k (db_steps db)) = {})
     \<and> (\<forall>i. distinct (map sr_number (rows_of i (db_steps db))))
     \<and> (\<forall>i. \<forall>st \<in> set (rows_of i (db_steps db)). stored_execution db i \<and> step_fits st)"
proof -
  have "list_all (\<lambda>(i, st). stored_execution db i \<and> width 64 (sr_type st) \<and> width 32 (sr_status st)) (db_steps db)
      \<longleftrightarrow> (\<forall>i. \<forall>st \<in> set (rows_of i (db_steps db)). stored_execution db i \<and> step_fits st)"
    unfolding set_rows_of list_all_iff step_fits_def by auto
  then show ?thesis
    unfolding steps_table_def distinct_by_key distinct_by_snd by (simp only: conj_assoc)
qed

text \<open>The rows of one execution are replaced by the steps of the record.\<close>

lemma steps_replaced:
  assumes "steps_table db" "record_fits r" "fresh_steps r db" "stored_execution db' (xr_execution_id r)"
    and mono: "\<And>i. stored_execution db i \<Longrightarrow> stored_execution db' i"
    and own: "set (rows_of (xr_execution_id r) (db_steps db')) = set (xr_steps r)"
      "distinct (map sr_step_id (rows_of (xr_execution_id r) (db_steps db')))"
    and other: "\<And>i. i \<noteq> xr_execution_id r \<Longrightarrow> rows_of i (db_steps db') = rows_of i (db_steps db)"
  shows "steps_table db'"
proof -
  define R where "R i = rows_of i (db_steps db)" for i
  define R' where "R' i = rows_of i (db_steps db')" for i
  let ?i = "xr_execution_id r"
  note s = assms(1) [unfolded steps_table_iff, folded R_def]
  note o = own [folded R'_def] other [folded R'_def R_def]
  have r: "distinct (map sr_number (xr_steps r))" "list_all step_fits (xr_steps r)"
    using assms(2) by (auto simp: record_fits_def pg_storable_def)
  have fresh: "sr_step_id ` set (R j) \<inter> sr_step_id ` set (xr_steps r) = {}" if "j \<noteq> ?i" for j
    using assms(3) that unfolding fresh_steps_def R_def by blast
  have "distinct (map sr_step_id (R' i))" for i
    using s o by (cases "i = ?i") simp_all
  moreover have "distinct (map sr_number (R' i))" for i
  proof (cases "i = ?i")
    case True
    have "distinct (R' ?i)" using o(2) by (simp add: distinct_map)
    moreover have "inj_on sr_number (set (R' ?i))" using r(1) o(1) by (simp add: distinct_map)
    ultimately show ?thesis using True by (simp add: distinct_map)
  qed (use s o(3) in simp)
  moreover have "sr_step_id ` set (R' i) \<inter> sr_step_id ` set (R' k) = {}" if "i \<noteq> k" for i k
  proof -
    consider "i = ?i" "k \<noteq> ?i" | "k = ?i" "i \<noteq> ?i" | "i \<noteq> ?i" "k \<noteq> ?i" using \<open>i \<noteq> k\<close> by blast
    then show ?thesis
    proof cases
      case 1
      then show ?thesis using fresh [of k] o by (simp add: Int_commute)
    next
      case 2
      then show ?thesis using fresh [of i] o by simp
    next
      case 3
      then show ?thesis using s that o by simp
    qed
  qed
  moreover have "\<forall>st \<in> set (R' i). stored_execution db' i \<and> step_fits st" for i
    using s o r(2) assms(4) mono by (cases "i = ?i") (simp_all add: list_all_iff)
  ultimately show ?thesis unfolding steps_table_iff R'_def by blast
qed

lemma stored_executionI: "find_row i db \<noteq> None \<longleftrightarrow> stored_execution db i"
  by (force simp: find_row_def find_None_iff stored_execution_def)

lemma other_tables:
  assumes "results_table db" "events_table db" "db_results db' = db_results db" "db_events db' = db_events db"
    "\<And>i. stored_execution db i \<Longrightarrow> stored_execution db' i"
  shows "results_table db' \<and> events_table db'"
  using assms by (auto simp: results_table_def events_table_def list_all_iff)

lemma create_admitted:
  assumes "schema_ok db" "record_fits r" "fresh_steps r db" "pg_get (xr_execution_id r) db = None"
    and db': "db' = db\<lparr>db_executions := db_executions db @ [to_row r],
            db_steps := db_steps db @ map (Pair (xr_execution_id r)) (xr_steps r)\<rparr>"
  shows "schema_ok db'"
proof -
  let ?i = "xr_execution_id r"
  have t: "executions_table db" "steps_table db" "results_table db" "events_table db"
    using assms(1) by (simp_all add: schema_ok_def)
  have none: "find_row ?i db = None" using assms(4) by (auto simp: pg_get_def split: option.splits)
  then have new: "\<not> stored_execution db ?i" using stored_executionI by blast
  have empty: "rows_of ?i (db_steps db) = []"
    using schema_db_wf [OF assms(1)] none by (simp add: db_wf_def rows_eq_steps_of)
  have mono: "stored_execution db' i \<longleftrightarrow> stored_execution db i \<or> i = ?i" for i
    by (auto simp: db' stored_execution_def)
  have "executions_table db'"
    using t(1) assms(2) new by (auto simp: db' executions_table_def stored_execution_def record_fits_def to_row_def)
  moreover have pairs: "filter (\<lambda>(j, st). j = k) (map (Pair ?i) sts) = (if k = ?i then map (Pair ?i) sts else [])" for k sts
    by (induction sts) auto
  have "rows_of k (db_steps db') = (if k = ?i then xr_steps r else rows_of k (db_steps db))" for k
    using empty by (simp add: db' pairs comp_def)
  then have "steps_table db'"
    by (intro steps_replaced [OF t(2) assms(2,3)])
       (use assms(2) mono in \<open>simp_all add: record_fits_def pg_storable_def\<close>)
  moreover have "results_table db' \<and> events_table db'"
    by (rule other_tables [OF t(3,4)]) (simp_all only: mono, simp_all add: db')
  ultimately show ?thesis by (simp add: schema_ok_def)
qed

lemma update_admitted:
  assumes "schema_ok db" "record_fits r" "fresh_steps r db" "find_row (xr_execution_id r) db \<noteq> None"
    and db': "db' = db\<lparr>
        db_executions := map (\<lambda>w. if xw_execution_id w = xr_execution_id r then to_row r else w) (db_executions db),
        db_steps := sync_steps (xr_execution_id r) (xr_steps r) (db_steps db)\<rparr>"
  shows "schema_ok db'"
proof -
  let ?i = "xr_execution_id r"
  have t: "executions_table db" "steps_table db" "results_table db" "events_table db"
    using assms(1) by (simp_all add: schema_ok_def)
  have ids: "map xw_execution_id (db_executions db') = map xw_execution_id (db_executions db)"
    by (simp add: db' comp_def)
  then have mono: "stored_execution db' i \<longleftrightarrow> stored_execution db i" for i
    unfolding stored_execution_def by (metis list.set_map)
  have "list_all (\<lambda>w. width 64 (xw_state w) \<and> width 32 (xw_status w) \<and> opt_width 255 (xw_error_type w)
      \<and> xw_created_at w \<noteq> None) (db_executions db')"
    using t(1) assms(2) by (auto simp: db' executions_table_def record_fits_def to_row_def list_all_iff)
  then have "executions_table db'"
    using t(1) unfolding executions_table_def ids by blast
  moreover have rows: "set (rows_of ?i (db_steps db')) = set (xr_steps r)
      \<and> distinct (map sr_step_id (rows_of ?i (db_steps db')))"
      "i' \<noteq> ?i \<Longrightarrow> rows_of i' (db_steps db') = rows_of i' (db_steps db)" for i'
    using sync_steps_rows [of ?i "db_steps db" "xr_steps r"] t(2) assms(2)
    by (simp_all add: db' steps_table_iff record_fits_def pg_storable_def)
  have "steps_table db'"
    using rows assms(4) mono stored_executionI by (intro steps_replaced [OF t(2) assms(2,3)]) blast+
  moreover have "results_table db' \<and> events_table db'"
    by (rule other_tables [OF t(3,4)]) (simp_all only: mono, simp_all add: db')
  ultimately show ?thesis by (simp add: schema_ok_def)
qed

lemma result_admitted:
  assumes "schema_ok db" "stored_execution db (rr_execution_id r)" "width 32 (rr_status r)" "opt_width 255 (rr_error_type r)"
    and db': "db' = (case find_result (rr_execution_id r) db of
        None \<Rightarrow> db\<lparr>db_results := db_results db @ [r]\<rparr>
      | Some _ \<Rightarrow> db\<lparr>db_results := map (\<lambda>old. if rr_execution_id old = rr_execution_id r then r else old)
           (db_results db)\<rparr>)"
  shows "schema_ok db'"
proof -
  have same: "db_executions db' = db_executions db" "db_steps db' = db_steps db" "db_events db' = db_events db"
    by (simp_all add: db' split: option.split)
  then have stored: "stored_execution db' = stored_execution db"
    by (simp add: stored_execution_def fun_eq_iff)
  have old: "distinct (map rr_execution_id (db_results db))"
      "list_all (\<lambda>r. stored_execution db (rr_execution_id r) \<and> width 32 (rr_status r) \<and> opt_width 255 (rr_error_type r))
        (db_results db)"
    using assms(1) by (simp_all add: schema_ok_def results_table_def)
  have "distinct (map rr_execution_id (db_results db'))"
  proof (cases "find_result (rr_execution_id r) db")
    case None
    then have "db_results db' = db_results db @ [r]" "rr_execution_id r \<notin> rr_execution_id ` set (db_results db)"
      by (simp_all add: db') (auto simp: find_result_def find_None_iff)
    with old(1) show ?thesis by simp
  next
    case (Some x)
    have "map rr_execution_id (map (\<lambda>old. if rr_execution_id old = rr_execution_id r then r else old) (db_results db))
        = map rr_execution_id (db_results db)" by (simp add: comp_def)
    moreover have "db_results db' = map (\<lambda>old. if rr_execution_id old = rr_execution_id r then r else old) (db_results db)"
      by (simp add: db' Some)
    ultimately show ?thesis using old(1) by (simp only:)
  qed
  moreover have "list_all (\<lambda>r. stored_execution db (rr_execution_id r) \<and> width 32 (rr_status r) \<and> opt_width 255 (rr_error_type r))
        (db_results db')"
    using old(2) assms(2-4) by (auto simp: db' list_all_iff split: option.split)
  ultimately show ?thesis
    using assms(1) by (simp add: schema_ok_def table_defs same stored)
qed

lemma event_admitted:
  assumes "schema_ok db" "stored_execution db (er_of_execution ev)" "width 128 (er_type ev)" "er_recorded_at ev \<noteq> None"
    "er_event_id ev \<notin> er_event_id ` set (db_events db)"
    "find (\<lambda>x. er_of_execution x = er_of_execution ev \<and> er_sequence x = er_sequence ev) (db_events db) = None"
  shows "schema_ok (db\<lparr>db_events := db_events db @ [ev]\<rparr>)"
  using assms by (auto simp: schema_ok_def table_defs stored_execution_def find_None_iff)

section \<open>Any use of the service\<close>

text \<open>
  What a write relies on: an execution whose steps have identifiers of their own and different numbers,
  the stored execution of a result or an event, a fresh identifier of the event; and names no wider than
  their columns.
\<close>

definition execution_fits :: "execution \<Rightarrow> database \<Rightarrow> bool" where
  "execution_fits ex db \<longleftrightarrow> distinct (map step_id (ex_steps ex)) \<and> distinct (map step_number (ex_steps ex))
     \<and> opt_width 255 (ex_error_type ex) \<and> fresh_steps (execution_to_record ex) db"

fun op_fits :: "pg_env \<Rightarrow> sv_op \<Rightarrow> service \<Rightarrow> bool" where
  "op_fits e (Sv_create ex) s = execution_fits ex (sv_db s)"
| "op_fits e (Sv_update ex) s = execution_fits ex (sv_db s)"
| "op_fits e (Sv_result r) s = (stored_execution (sv_db s) (er_execution_id r) \<and> opt_width 255 (er_error_type r))"
| "op_fits e (Sv_append ev) s = (case pe_parse_uuid e (ev_execution_id ev) of
      Inl x \<Rightarrow> True
    | Inr i \<Rightarrow> stored_execution (sv_db s) i \<and> width 128 (ev_type ev)
        \<and> pe_uuid e (sv_tick s) \<notin> er_event_id ` set (db_events (sv_db s)))"
| "op_fits e (Sv_close i) s = True"

fun ops_fit :: "pg_env \<Rightarrow> sv_op list \<Rightarrow> service \<Rightarrow> bool" where
  "ops_fit e [] s = True"
| "ops_fit e (op # ops) s = (op_fits e op s \<and> ops_fit e ops (snd (sv_apply e op s)))"

lemma value_widths:
  "width 64 (execution_state_value st)" "width 32 (execution_status_value status)"
  "width 64 (step_type_value ty)" "width 32 (step_status_value ss)"
proof -
  show "width 64 (execution_state_value st)" by (cases st) (simp_all add: width_def)
  show "width 32 (execution_status_value status)" by (cases status) (simp_all add: width_def)
  show "width 64 (step_type_value ty)" by (cases ty) (simp_all add: width_def)
  show "width 32 (step_status_value ss)" by (cases ss) (simp_all add: width_def)
qed

lemma execution_record_fits: "execution_fits ex db \<Longrightarrow> record_fits (execution_to_record ex)"
  by (auto simp: execution_fits_def record_fits_def pg_storable_def execution_to_record_def step_fits_def
      step_to_record_def comp_def value_widths list_all_iff)

lemma transaction_keeps:
  assumes "P (sv_db s)" "\<And>u v. m s = (Inr u, v) \<Longrightarrow> P (sv_db v)"
  shows "P (sv_db (snd (in_transaction e m s)))"
proof -
  obtain r t where t: "in_transaction e m s = (r, t)" by fastforce
  show ?thesis
  proof (cases r)
    case (Inl x)
    with t assms(1) show ?thesis by (simp add: transaction_rolled_back)
  next
    case (Inr u)
    with t transaction_committed [of e m s u t] obtain v where "m s = (Inr u, v)" "sv_db t = sv_db v" by blast
    with t assms(2) [of u v] show ?thesis by simp
  qed
qed

lemma apply_admitted:
  assumes "schema_ok (sv_db s)" "op_fits e op s"
  shows "schema_ok (sv_db (snd (sv_apply e op s)))"
proof (cases op)
  case (Sv_create ex)
  with assms(2) have fits: "record_fits (execution_to_record ex)" "fresh_steps (execution_to_record ex) (sv_db s)"
    by (auto simp: execution_fits_def intro: execution_record_fits)
  show ?thesis
    unfolding Sv_create sv_apply.simps sv_create_execution_def
    by (rule transaction_keeps [of schema_ok, OF assms(1)])
       (use create_admitted [OF assms(1) fits] in \<open>blast dest: pg_create_Inr\<close>)
next
  case (Sv_update ex)
  with assms(2) have fits: "record_fits (execution_to_record ex)" "fresh_steps (execution_to_record ex) (sv_db s)"
    by (auto simp: execution_fits_def intro: execution_record_fits)
  show ?thesis
    unfolding Sv_update sv_apply.simps sv_update_execution_def
    by (rule transaction_keeps [of schema_ok, OF assms(1)])
       (use update_admitted [OF assms(1) fits] in \<open>blast dest: pg_update_Inr\<close>)
next
  case (Sv_result res)
  with assms(2) have fits: "stored_execution (sv_db s) (rr_execution_id (result_to_record res))"
      "width 32 (rr_status (result_to_record res))" "opt_width 255 (rr_error_type (result_to_record res))"
    by (simp_all add: result_to_record_def value_widths)
  show ?thesis
    unfolding Sv_result sv_apply.simps sv_save_result_def
  proof (rule transaction_keeps [of schema_ok, OF assms(1)])
    fix u v
    assume "pg_save_result e (result_to_record res) s = (Inr u, v)"
    from conjunct1 [OF on_db_flush [OF this [unfolded pg_save_result_def]]]
    show "schema_ok (sv_db v)" by (rule result_admitted [OF assms(1) fits])
  qed
next
  case (Sv_append ev)
  obtain r t where rt: "sv_append_event e ev s = (r, t)" by fastforce
  show ?thesis
  proof (cases "pe_parse_uuid e (ev_execution_id ev)")
    case (Inl x)
    with rt Sv_append assms(1) show ?thesis by (auto simp: append_unfold bnd_def lift_res_def)
  next
    case (Inr i)
    from append_event_cases [OF Inr rt]
    have "sv_db t = sv_db s \<or> sv_db t = (sv_db s)\<lparr>db_events := db_events (sv_db s) @ [next_record e ev i s]\<rparr>
        \<and> find (\<lambda>x. er_of_execution x = i \<and> er_sequence x = next_sequence i s) (db_events (sv_db s)) = None"
      by (elim disjE conjE) simp_all
    then have "schema_ok (sv_db t)"
    proof (elim disjE conjE)
      assume stored: "sv_db t = (sv_db s)\<lparr>db_events := db_events (sv_db s) @ [next_record e ev i s]\<rparr>"
        and new: "find (\<lambda>x. er_of_execution x = i \<and> er_sequence x = next_sequence i s) (db_events (sv_db s)) = None"
      have "schema_ok ((sv_db s)\<lparr>db_events := db_events (sv_db s) @ [next_record e ev i s]\<rparr>)"
        by (rule event_admitted [OF assms(1)])
           (use assms(2) Inr Sv_append new in \<open>simp_all add: next_record_def\<close>)
      with stored show ?thesis by simp
    qed (simp add: assms(1))
    with rt Sv_append show ?thesis by simp
  qed
next
  case (Sv_close i)
  with assms(1) show ?thesis by (simp add: sv_close_execution_def modify_def)
qed

lemma run_admitted: "schema_ok (sv_db s) \<Longrightarrow> ops_fit e ops s \<Longrightarrow> schema_ok (sv_db (sv_run e ops s))"
  by (induction ops arbitrary: s) (simp_all add: apply_admitted)

text \<open>An event or a result of an execution that is not stored is no row of its table.\<close>

lemma orphan_refused:
  "\<not> stored_execution db (er_of_execution ev) \<Longrightarrow> \<not> schema_ok (db\<lparr>db_events := db_events db @ [ev]\<rparr>)"
  "\<not> stored_execution db (rr_execution_id r) \<Longrightarrow> \<not> schema_ok (db\<lparr>db_results := db_results db @ [r]\<rparr>)"
  by (simp_all add: schema_ok_def table_defs stored_execution_def)

end
