(* ===== verification/Spec2Isabelle.thy ===== *)
theory Spec2Isabelle
  imports Demo ToolCalls Retry ServiceDemo WorkerDemo ApiDemo Telemetry Tables
begin

text \<open>
  Agenyx: a development of the agent service, its tools and stores, the inference gateway and the
  task worker.

  The program.  A request reaches the agent service (\<^verbatim>\<open>internal/agent/app\<close>) over HTTP
  (\<^verbatim>\<open>api/routes.py\<close>), over the MCP gateway (\<^verbatim>\<open>mcp_gateway\<close>), or from the worker (\<^verbatim>\<open>worker/app\<close>), which
  takes tasks from a Valkey stream and posts them to \<^verbatim>\<open>/agent/run\<close>.  The runtime
  (\<^verbatim>\<open>agent_runtime/runtime.py\<close>) routes the request with the semantic router (\<^verbatim>\<open>router/client.py\<close>) and
  then repeats: trim the conversation to the token budget, ask the inference service
  (\<^verbatim>\<open>inference/client.py\<close>), let the planner turn the answer into a decision, and either answer or run
  the batch of tool calls, each after its approval, under the limits, through the tool executor and the
  sandbox.  Every change of the execution is stored (\<^verbatim>\<open>persistence\<close>) and published on its event stream.
  The inference service (\<^verbatim>\<open>inference/app\<close>) admits a request through its checks and its concurrency
  limiter and passes it to the providers of the model, in the order of the model's route, through a
  retrying HTTP backend per provider and one circuit breaker per provider.

  How it is modelled.

  \<^item> A Python exception is \<open>Exc\<close> of a class and a text; the classes with their bases are \<open>exc_class\<close> and
    \<open>exc_bases\<close> of \<^verbatim>\<open>Prelude\<close> (\<^verbatim>\<open>core/errors.py\<close> and the built-in classes the code raises or catches),
    and \<open>exc_isa\<close> is the test of an \<open>except\<close> clause.  A pure function that may raise returns an
    \<open>'a result\<close>, that is \<open>exc + 'a\<close>.

  \<^item> A handler that changes state is an action \<open>('s, 'a) act = 's \<Rightarrow> (exc + 'a) \<times> 's\<close> (\<^verbatim>\<open>Effects\<close>): what was
    done before an exception stays done.  \<open>bnd\<close>, \<open>catch\<close>, \<open>ensure\<close> are sequencing, \<open>try/except\<close> and
    \<open>try/finally\<close>; \<open>for_each\<close> and \<open>collect\<close> are loops over a list.  \<open>wp\<close> is the weakest precondition for a
    normal and an exceptional postcondition, with a rule for each combinator; the locale \<open>kept\<close> gives, for
    a reflexive and transitive relation, that an action built of steps that respect it respects it.

  \<^item> Dynamically typed values (\<open>pyval\<close>, \<^verbatim>\<open>PyValue\<close>) are JSON documents with unbounded integers; a float in
    them is the text of its \<open>repr\<close>, and its arithmetic is never assumed.  Times, delays and time-outs are
    rationals.  A Python string is a list of code points below 256.

  \<^item> What is outside the program is an environment record of functions of a counter of the calls made so
    far (\<open>env\<close> of the runtime, \<open>http_env\<close> and \<open>gateway_env\<close> of the clients and the gateway, \<open>pg_env\<close> of the
    database, \<open>worker_env\<close>): replies, errors, clocks, random draws, cancellations.  A theorem about every
    such record is a theorem about every behaviour of the environment.  Logs in the states
    (\<open>log_entry\<close>, \<open>worker_event\<close>) record what was sent and waited for; no operation reads them.

  \<^item> Coroutines interleave only where they wait.  The tasks of a batch are small machines
    (\<open>TQueued\<close>, \<open>TSandbox\<close>, \<open>TWaiting\<close>, \<open>TDone\<close>) moved by a list of events that the environment chooses; the
    waits for approvals are moved by a list of moves in the same way; while a request of the inference
    service waits for a provider, other requests perform the operations \<open>ge_others\<close> on the reliability
    manager they share.  An operation under a lock is one step.

  \<^item> Libraries are arguments: \<open>json.loads\<close>, the canonical text of arguments and its digest, the parser of
    Python expressions and the arithmetic of floats (\<open>float_ops\<close>), the key derivation, the token library
    (\<open>jwt\<close>), the Valkey server (\<open>valkey\<close>), the rendering and reading of answers (\<open>wire\<close>).  Three carry
    hypotheses, all documented behaviour: \<open>jwt_behaves\<close> (a token decodes, with the key that signed it, to
    its claims), \<open>valkey_behaves\<close> (a hash keeps the fields it is given, other commands leave it alone, an
    acknowledged entry is no longer pending; with it, in C40, \<open>iso_reads\<close>: \<open>datetime.fromisoformat\<close> reads
    what \<open>isoformat\<close> writes) and \<open>faithful_wire\<close> (a body is read as it was written, or has
    no text at all).  \<open>demo_jwt_behaves\<close>, \<open>demo_valkey_behaves\<close>, \<open>down_env_iso\<close> and \<open>served_env_ok\<close> show that they
    can hold.

  \<^item> Known differences.  Delays are exact rationals: the float arithmetic of \<^verbatim>\<open>retry_policy.py\<close> raises an
    \<open>OverflowError\<close> from attempt 1025 on, the model's \<open>capped_delay\<close> gives the cap.  A token's times are
    rationals, PyJWT cuts them to whole seconds.  A JSONB column gives back the value it was given; it may
    change the order of keys and the form of numbers, which Python's \<open>==\<close> does not see.  \<open>publish_event\<close>
    swallows every exception of the model's store, and what it publishes is the same.  With code points
    below 256 there are no lone surrogates, which could not be encoded.

  Bounds.  Loops over lists and attempts are structural recursions: the reasoning loop recurs over
  \<open>max_steps\<close>, the retry loops of the clients over their numbers of attempts, failover over the route.  No
  fuel is needed there and none of these functions can fail to return.  The worker's loop is endless by
  design: \<open>worker_turns n\<close> are its first \<open>n\<close> turns, and the properties of the worker hold for every \<open>n\<close>.
  \<open>exc_isa\<close> climbs at most six classes, the depth of the tree of exceptions.

  The theories of the agent service.

  \<^item> \<^verbatim>\<open>StepDomain\<close>, \<^verbatim>\<open>ExecDomain\<close>: \<^verbatim>\<open>domain/\<close>, \<^verbatim>\<open>state_machine.py\<close>, \<^verbatim>\<open>step_status.py\<close>, \<^verbatim>\<open>step_type.py\<close>.  The
    lifecycle tables of steps and executions satisfy the locale \<open>lifecycle\<close>; every operation keeps
    \<open>step_inv\<close>, \<open>exec_inv\<close>, and a terminal record never changes its outcome.

  \<^item> \<^verbatim>\<open>ExecLimits\<close>, \<^verbatim>\<open>Retry\<close>, \<^verbatim>\<open>Approval\<close>, \<^verbatim>\<open>Idempotency\<close>, \<^verbatim>\<open>EventStream\<close>, \<^verbatim>\<open>ContextMgr\<close>, \<^verbatim>\<open>Planner\<close>,
    \<^verbatim>\<open>ToolExec\<close>, \<^verbatim>\<open>ToolCalls\<close>, \<^verbatim>\<open>Builtin\<close>: the files of \<^verbatim>\<open>agent_runtime\<close> and \<^verbatim>\<open>tools\<close> of these names, and
    \<^verbatim>\<open>sandbox/client.py\<close>.  Admission against the limits agrees with the remaining budgets; a retry delay
    satisfies the locale \<open>capped_backoff\<close>, as do those of the worker and of the HTTP backend; a decided
    approval is final; a claim of an idempotency key is granted once between releases, and over all
    interleavings of the calls of an executor (\<^verbatim>\<open>ToolCalls\<close>) the end of a call settles its key, or, when it
    was cancelled, leaves it claimed for ever; a closed stream delivers everything once, in order; trimming fits the budget and keeps the order; a batch is planned
    as a whole or refused; the calculator computes the integer value of the expressions it supports.

  \<^item> \<^verbatim>\<open>RtBase\<close>, \<^verbatim>\<open>RtBatch\<close>, \<^verbatim>\<open>RtCalls\<close>, \<^verbatim>\<open>Runtime\<close>, \<^verbatim>\<open>RtRun\<close>: \<^verbatim>\<open>runtime.py\<close>.  \<open>world\<close> is the state of one
    execution (\<open>Execution\<close>, its context, its stream, the approvals and the claims, the token, the counter
    and the log); \<open>RtBatch\<close> is \<open>_execute_single_tool\<close> and the semaphore, \<open>RtCalls\<close> the batch from its
    admission to its results, \<open>Runtime\<close> the reasoning loop and the exception handlers of \<open>_execute\<close>,
    \<open>RtRun\<close> the public methods and the registry of active executions.  \<^verbatim>\<open>RtApproval\<close>, \<^verbatim>\<open>RtSafety\<close> and
    \<^verbatim>\<open>RtEnd\<close> lift the invariants of the parts, by \<open>wp\<close> and \<open>kept\<close>, to a whole run.

  \<^item> \<^verbatim>\<open>Persistence\<close>, \<^verbatim>\<open>Stores\<close>, \<^verbatim>\<open>Postgres\<close>: \<^verbatim>\<open>agent_runtime/persistence\<close>.  The contracts of the stores are the
    locales \<open>execution_store\<close> and \<open>event_log\<close>, interpreted on the in-memory and on the PostgreSQL stores;
    the latter refines the former.  \<^verbatim>\<open>Tables\<close>: \<^verbatim>\<open>db/models\<close>, the constraints of the tables, which every use of
    the service respects when identifiers are fresh and the executions referred to are stored.
    \<^verbatim>\<open>Durability\<close> joins the runtime to the PostgreSQL service: the saves of a run are the \<open>LogCreate\<close> and
    \<open>LogUpdate\<close> entries of its log, which carry the execution as it was saved, and playing them to the
    service leaves the finished execution on record.

  \<^item> \<^verbatim>\<open>Recovery\<close>: \<^verbatim>\<open>agent_runtime/recovery\<close> and \<open>resume_execution\<close>.  The detector flags exactly the stale
    unfinished runs; a replay of events the service itself stored restores nothing of the conversation.  The stored results of
    tool calls (\<^verbatim>\<open>tools/idempotency.py\<close>) are found again on a session that keeps them.

  \<^item> \<^verbatim>\<open>AgentClients\<close>: \<^verbatim>\<open>inference/client.py\<close>, \<^verbatim>\<open>router/client.py\<close>.  \<^verbatim>\<open>AgentAuth\<close>, \<^verbatim>\<open>AgentApi\<close>:
    \<^verbatim>\<open>core/auth.py\<close>, \<^verbatim>\<open>scripts/create_token.py\<close>, \<^verbatim>\<open>api/\<close>, \<^verbatim>\<open>models/\<close>.  \<^verbatim>\<open>McpGateway\<close>: \<^verbatim>\<open>mcp_gateway\<close>, \<^verbatim>\<open>core/config.py\<close>, \<^verbatim>\<open>main.py\<close>.
    The number of requests and the deadline of a completion, accounts and tokens, the bearer check in
    front of the mounted application, and the server-sent events with the reader that inverts them.

  The theories of the inference service (\<^verbatim>\<open>inference/app\<close>).

  \<^item> \<^verbatim>\<open>Backend\<close>: \<^verbatim>\<open>backend.py\<close>, the retry loop of one provider, with its equivalence to a choice of one
    outcome.  \<^verbatim>\<open>Registries\<close>: providers, models, the limiter and the tenants' models; the three registries
    by name share the locale \<open>named_registry\<close>.

  \<^item> \<^verbatim>\<open>Reliability\<close>: the health records and circuits of \<^verbatim>\<open>reliability\<close>, which refine one abstract circuit
    breaker per provider.  \<^verbatim>\<open>Failover\<close>: the loop of \<^verbatim>\<open>failover/manager.py\<close> over the locales
    \<open>provider_gate\<close> and \<open>provider_calls\<close>, which say what an admission, a success, a failure and a call
    leave; \<^verbatim>\<open>Gateway\<close> interprets them on the manager shared by all requests.

  \<^item> \<^verbatim>\<open>PyText\<close>, \<^verbatim>\<open>InferenceConfig\<close>, \<^verbatim>\<open>Endpoint\<close>: \<^verbatim>\<open>config.py\<close>, \<^verbatim>\<open>main.py\<close>, \<^verbatim>\<open>auth.py\<close>: what a started service
    is, and what the chat endpoint and its middleware answer to every request, a body that \<open>JSONResponse\<close>
    cannot render included; the gauges of requests in progress are kept per label.

  \<^item> \<^verbatim>\<open>Telemetry\<close>: \<^verbatim>\<open>metrics.py\<close> and the formatter of \<^verbatim>\<open>logger.py\<close>: every sample fits a declared family, the
    counters agree with the answers, a log record is one line.  \<^verbatim>\<open>JsonText\<close> holds the fact about the text
    of \<open>json.dumps\<close> that the log lines share with the server-sent events.

  The theories of the worker (\<^verbatim>\<open>worker/app\<close>).

  \<^item> \<^verbatim>\<open>Worker\<close>: \<^verbatim>\<open>queue.py\<close>, \<^verbatim>\<open>agent_client.py\<close>, \<^verbatim>\<open>executor.py\<close>, \<^verbatim>\<open>worker.py\<close>, with the order of the log on
    any server; \<^verbatim>\<open>WorkerRetries\<close>: a failing task on a server that behaves as documented, from its
    delivery over the waits and the claims of the pending message to the dead letters;
    \<^verbatim>\<open>WorkerConfig\<close>: \<^verbatim>\<open>config.py\<close> and \<open>create_worker\<close> of \<^verbatim>\<open>main.py\<close>.  \<^verbatim>\<open>WorkerAgent\<close> joins the worker to the
    agent service: its requests are answered by \<open>run_agent\<close>, and what it records is what the run left.

  \<^verbatim>\<open>Demo\<close>, \<^verbatim>\<open>ServiceDemo\<close>, \<^verbatim>\<open>WorkerDemo\<close>, \<^verbatim>\<open>ApiDemo\<close> hold concrete runtimes, services, servers and clients,
  on which the properties are applied.

  This theory states the properties: first the runtime as a whole, then its parts, the inference service,
  the persistence, the worker, the clients and the interface of the agent service, and the worker and the
  agent together.  Several of them describe what the code does where it does less than it means to: a
  cancelled sandbox call keeps its claim (C19), a refused commit loses an event number (C38), an exception
  with an empty text is recorded nowhere (the exception made in C7), a run whose task was cancelled stays
  unfinished in the database (the exception made in C8), a run may end completed with the event of a
  cancellation (the exception made in C6), a completion with a \<open>NaN\<close> counts as served and is answered with
  a 500 (C30).

  Not modelled.

  \<^item> The calls of the loggers, the configuration of the logging library and of the tracing exporter; the
    migrations of the database and the construction of its session.

  \<^item> Reading of YAML files and environment variables by pydantic, the bodies of its 422 answers, and the
    text of answers as JSON: of it only whether there is one (\<open>json_response\<close> in the inference service,
    \<open>wire\<close> in the agent service).  Of \<open>int()\<close> on a string, underscores between digits and digits other than ASCII are left out.

  \<^item> Inference responses that are objects with attributes instead of dictionaries: the client of the
    repository returns dictionaries.
\<close>

section \<open>The agent runtime\<close>

text \<open>C1: No tool call that needs human approval ever reaches the sandbox unless the request of
  exactly this call of this execution, with this tool and these arguments, was approved: whatever
  the model, the approvers, the sandbox and the scheduler do, at the end of the run (and so at every
  moment before it) each sandbox call in the log of a tool the policy names has an approved request
  under the key \<open>execution_id:call_id\<close>.\<close>

theorem unapproved_calls_never_run:
  "approvals_respected rt (snd (run_execution rt en rq (create_execution eid clk rq meta am st n)))"
proof -
  have "approvals_respected rt (create_execution eid clk rq meta am st n)"
    by (simp add: approvals_respected_def create_execution_empty)
  from run_respects [OF this] show ?thesis by (simp add: wp_snd)
qed

text \<open>C2: The execution limits hold of what was really done: a run of a constructed runtime makes at
  most \<open>max_tool_calls\<close> sandbox calls, at most \<open>per_tool_limits[t]\<close> of a tool \<open>t\<close> with a limit, and at
  most \<open>max_repeated_tool_calls\<close> with the same tool and the same canonical arguments; and it asks the
  inference service at most \<open>max_steps\<close> times.\<close>

theorem run_within_limits:
  assumes "new_runtime rt0 max_ctx reserved executor sandbox = Inr rt"
  shows "(let w = snd (run_execution rt en rq (create_execution eid clk rq meta am st n)) in
    calls_bounded rt w \<and> inferences w \<le> nat (max_steps (rt_limits rt)))"
proof -
  let ?w = "create_execution eid clk rq meta am st n"
  have "calls_bounded rt (snd (run_execution rt en rq ?w))"
    using run_calls [OF new_runtime_ok [OF assms] create_execution_empty(1)] by (simp add: wp_snd)
  moreover have "inferences ?w = 0"
    by (simp add: inferences_def create_execution_empty)
  ultimately show ?thesis
    using run_inferences [of rt en rq ?w] by (simp add: wp_snd Let_def)
qed

theorem run_within_limits_witness:
  "(let w = snd (run_execution demo_runtime demo_env demo_request demo_start) in
    calls_bounded demo_runtime w \<and> inferences w \<le> nat (max_steps (rt_limits demo_runtime)))"
  unfolding demo_start_def by (rule run_within_limits [OF demo_runtime_constructed])

text \<open>C4: Every list of messages sent to the router or to the inference service fits the context
  budget of the runtime, however long the conversation in the context has become, and every request to
  the inference service offers exactly the registered tools.\<close>

theorem sent_messages_fit_the_budget:
  assumes "new_runtime rt0 max_ctx reserved executor sandbox = Inr rt"
  shows "views_ok rt (w_log (snd (run_execution rt en rq (create_execution eid clk rq meta am st n))))"
  using run_views [of rt en rq "create_execution eid clk rq meta am st n"] new_runtime_ok [OF assms]
  by (simp add: wp_snd keeps_views_def views_ok_def create_execution_empty)

theorem sent_messages_fit_the_budget_witness:
  "views_ok demo_runtime (w_log (snd (run_execution demo_runtime demo_env demo_request demo_start)))"
  unfolding demo_start_def by (rule sent_messages_fit_the_budget [OF demo_runtime_constructed])

text \<open>C5: The lifecycle of a run: the execution keeps its identifier and its state follows the table
  of transitions to a consistent record (legacy status, start and completion times fit the state);
  the steps are numbered from one, none disappears, each follows the table of steps, keeps its type
  and input, and its time stamps and error fit its status.\<close>

theorem run_follows_the_lifecycle:
  "(let w0 = create_execution eid clk rq meta am st n; w = snd (run_execution rt en rq w0) in
     evolves (w_exec w0) (w_exec w) \<and> exec_inv (w_exec w) \<and> trace_inv (ex_steps (w_exec w)))"
proof -
  let ?w0 = "create_execution eid clk rq meta am st n"
  have "exec_inv (w_exec ?w0)" "trace_inv (ex_steps (w_exec ?w0))"
    by (simp_all add: create_execution_def new_execution_inv) (simp add: new_execution_def trace_inv_def)
  then show ?thesis
    using run_evolves [of rt en rq ?w0] by (simp add: wp_snd life_def evolves_def Let_def)
qed

text \<open>C6: How a run ends.  When it returns a response, the stream is closed and the execution no
  longer active; the stream carries the start event, ordinary events, exactly one terminal event and
  the end.  The terminal event says what the state says: \<open>execution_completed\<close> with \<open>COMPLETED\<close> and an
  output, or \<open>execution_cancelled\<close> with \<open>CANCELLED\<close> and no output; the only exception is a cancellation
  that arrives while the completed execution is being saved (\<open>runtime.py:647\<close>), which is announced as
  cancelled although the state stays \<open>COMPLETED\<close>.  The response and the retained result are the
  snapshot of the execution.  When it raises, the stream is closed and the execution inactive as well,
  unless creating the execution in the database failed (\<open>runtime.py:602\<close>): then the exception is the
  database's, the state is still \<open>CREATED\<close>, and the stream is left open.\<close>

theorem run_ends_in_order:
  assumes "eid \<noteq> []"
  shows "case run_execution rt en rq (create_execution eid clk rq meta am st n) of
      (Inr resp, w) \<Rightarrow> run_returned en rq resp w
    | (Inl e, w) \<Rightarrow> run_closed w \<or> (\<exists>k. en_persist en k = Inl e \<and> ex_state (w_exec w) = State_CREATED \<and> still_open w)"
  using wp_run_execution_ends [OF create_execution_fresh [OF assms], of rt en rq clk rq meta am st n]
  by (auto simp: wp_def create_execution_def new_execution_def split: prod.split sum.split)

theorem run_ends_in_order_witness:
  "case run_execution demo_runtime demo_env demo_request demo_start of
      (Inr resp, w) \<Rightarrow> run_returned demo_env demo_request resp w
    | (Inl e, w) \<Rightarrow> run_closed w \<or> (\<exists>k. en_persist demo_env k = Inl e \<and> ex_state (w_exec w) = State_CREATED \<and> still_open w)"
  unfolding demo_start_def by (rule run_ends_in_order) simp

text \<open>C7: When the database works, a run that raises has recorded its failure: the state is
  \<open>FAILED\<close> with the text and the class of the exception, the result is retained, and the stream ends
  with the failure event.  The exceptions to this are an exception with an empty text, which the
  handlers turn into a \<open>ValueError\<close> of their own and record nowhere, and a bare \<open>BaseException\<close>.\<close>

theorem raised_run_is_recorded:
  assumes "eid \<noteq> []" "persists en"
  shows "case run_execution rt en rq (create_execution eid clk rq meta am st n) of
      (Inr resp, w) \<Rightarrow> True | (Inl e, w) \<Rightarrow> run_closed w \<and> run_raised e w"
  using wp_run_raises [OF create_execution_fresh [OF assms(1)] assms(2), of rt rq clk rq meta am st n]
  by (simp add: wp_def)

theorem raised_run_is_recorded_witness:
  "failure_recorded (Exc RuntimeError ''down'') down_end \<and> run_closed down_end"
proof -
  have run: "run_execution down_runtime router_down demo_request demo_start = (Inl (Exc RuntimeError ''down''), down_end)"
    using down_run_raises by (cases "run_execution down_runtime router_down demo_request demo_start") (simp add: down_end_def)
  have "run_closed down_end \<and> run_raised (Exc RuntimeError ''down'') down_end"
    using raised_run_is_recorded [of "''e1''" router_down down_runtime demo_request "\<lambda>_. 0" "[]" new_approval_manager
        new_idem_store 0, folded demo_start_def] router_down_persists(1)
    by (simp add: run)
  moreover have "\<not> going down_end" using down_end_failed by (simp add: outcome_of_def going_def)
  ultimately show ?thesis by (simp add: run_raised_def failure_lost_def)
qed

text \<open>C8: A finished run is on record.  The saves a run issues, played to the PostgreSQL service on
  a database that knows nothing of the execution, are all accepted, and loading the execution
  afterwards gives the execution as the run left it, with its steps, state, error and times, but for
  the time of the last update.  The exception is a run whose asyncio task was cancelled: it is
  cancelled in memory, while its row keeps the state of a run that has not ended, as it does for a
  run that stops without reaching a terminal state.\<close>

theorem ended_runs_are_on_record:
  assumes "eid \<noteq> []" "rt_persistence rt" "persists en" "works pe"
    "find_row eid (sv_db s) = None" "steps_of eid (sv_db s) = []"
  shows "let w = snd (run_execution rt en rq (create_execution eid clk rq meta am st n)) in
    case all_writes (sv_apply pe) (saves w) s of (answers, t) \<Rightarrow> list_all (\<lambda>a. a = Inr ()) answers
      \<and> (case pg_get eid (sv_db t) of None \<Rightarrow> False | Some r \<Rightarrow>
         (case execution_from_record now r of Inl _ \<Rightarrow> False | Inr ex \<Rightarrow>
            if state_is_terminal (ex_state (w_exec w)) \<and> \<not> task_was_cancelled w
            then ex = (w_exec w)\<lparr>ex_updated_at := now\<rparr>
            else \<not> state_is_terminal (ex_state ex)))"
proof -
  let ?start = "create_execution eid clk rq meta am st n"
  let ?w = "snd (run_execution rt en rq ?start)"
  obtain answers t where run: "all_writes (sv_apply pe) (saves ?w) s = (answers, t)" by fastforce
  have start: "ex_steps (w_exec ?start) = []" "w_log ?start = []" "ex_id (w_exec ?start) = eid"
    by (simp_all add: create_execution_def new_execution_def)
  have "durable ?w"
    using wp_run_saved [OF assms(3,2) create_execution_fresh [OF assms(1)] start(1,2)] by (simp add: wp_snd)
  moreover have "life ?start ?w" using run_evolves by (simp add: wp_snd)
  then have ev: "evolves (w_exec ?start) (w_exec ?w)" by (simp add: life_def)
  then have "ex_id (w_exec ?w) = eid" "trace_inv (ex_steps (w_exec ?w))"
    by (simp_all add: evolves_def start trace_inv_def)
  ultimately show ?thesis
    using durable_loaded [OF assms(4) _ _ assms(5,6) trace_numbers run, of now] run
    by (fastforce simp: Let_def)
qed

theorem ended_runs_are_on_record_witness:
  "ex_state (w_exec down_end) = State_FAILED
    \<and> (case all_writes (sv_apply demo_pg) (saves down_end) (new_service empty_database) of (answers, t) \<Rightarrow>
         (case pg_get ''e1'' (sv_db t) of None \<Rightarrow> False
          | Some r \<Rightarrow> execution_from_record 9 r = Inr ((w_exec down_end)\<lparr>ex_updated_at := 9\<rparr>)))"
proof -
  obtain answers t where run: "all_writes (sv_apply demo_pg) (saves down_end) (new_service empty_database) = (answers, t)"
    by fastforce
  have new: "''e1'' \<noteq> ([] :: string)" "find_row ''e1'' (sv_db (new_service empty_database)) = None"
      "steps_of ''e1'' (sv_db (new_service empty_database)) = []"
    by (simp_all add: new_service_def empty_database_def find_row_def steps_of_def)
  have down: "ex_state (w_exec down_end) = State_FAILED" "\<not> task_was_cancelled down_end"
    using down_end_failed by (simp_all add: outcome_of_def)
  show ?thesis
    using ended_runs_are_on_record [OF new(1) router_down_persists(2,1) demo_pg_works new(2,3),
        of demo_request "\<lambda>_. 0" "[]" new_approval_manager new_idem_store 0 9, folded demo_start_def, folded down_end_def]
      down
    by (simp add: Let_def run split: option.splits sum.splits)
qed

text \<open>C9: An execution whose token was cancelled before it runs is answered with the status
  \<open>cancelled\<close>, ends in \<open>CANCELLED\<close>, and sends nothing to the router, the model or the sandbox.\<close>

theorem cancelled_run_sends_nothing:
  assumes "persists en"
  shows "case run_execution rt en rq ((create_execution eid clk rq meta am st n)\<lparr>w_cancelled := True\<rparr>) of
      (Inr resp, w) \<Rightarrow> rs_status resp = ''cancelled'' \<and> ex_state (w_exec w) = State_CANCELLED \<and> nothing_sent (w_log w)
    | (Inl e, w) \<Rightarrow> False"
proof -
  have "idle_cancelled ((create_execution eid clk rq meta am st n)\<lparr>w_cancelled := True\<rparr>)"
    by (simp add: idle_cancelled_def create_execution_def new_execution_def nothing_sent_def)
  from wp_cancelled_first [OF this assms] show ?thesis by (simp add: wp_def)
qed

theorem cancelled_run_sends_nothing_witness:
  "case run_execution demo_runtime demo_env demo_request (demo_start\<lparr>w_cancelled := True\<rparr>) of
      (Inr resp, w) \<Rightarrow> rs_status resp = ''cancelled'' \<and> ex_state (w_exec w) = State_CANCELLED \<and> nothing_sent (w_log w)
    | (Inl e, w) \<Rightarrow> False"
  unfolding demo_start_def by (rule cancelled_run_sends_nothing [OF demo_persists])

text \<open>C10: The tasks of one batch never hold more than \<open>max_parallel_tool_calls\<close> places of the
  semaphore at a time, in whatever order they start, get their replies, wait and time out.\<close>

theorem batch_concurrency_bounded:
  assumes "int (running w) \<le> max_parallel_tool_calls (rt_limits rt)"
  shows "int (running (snd (for_each evs (batch_do rt en started) w))) \<le> max_parallel_tool_calls (rt_limits rt)"
  using run_events_running [OF assms] by (simp add: run_events_def)

theorem batch_concurrency_bounded_witness:
  "int (running (snd (for_each [BatchStart 0] (batch_do demo_runtime demo_env 0) demo_batch)))
     \<le> max_parallel_tool_calls (rt_limits demo_runtime)"
  by (rule batch_concurrency_bounded)
     (simp add: demo_batch_def running_def make_task_def demo_runtime_def default_limits_def)

text \<open>C11: A batch is never stuck: from every state of its tasks some sequence of events finishes
  them all, in at most as many events as the tasks have phases left.\<close>

theorem batch_can_be_finished:
  assumes "0 < max_parallel_tool_calls (rt_limits rt)"
  shows "\<exists>evs. length evs \<le> batch_work w \<and> all_done (snd (for_each evs (batch_do rt en started) w))"
  using batch_can_finish [OF assms, of w en started] by (simp add: run_events_def)

theorem batch_can_be_finished_witness:
  "\<exists>evs. length evs \<le> batch_work demo_batch \<and> all_done (snd (for_each evs (batch_do demo_runtime demo_env 0) demo_batch))"
  by (rule batch_can_be_finished) (simp add: demo_runtime_def default_limits_def)


section \<open>The domain\<close>

lemma terminal_execution_is_final:
  assumes "execution_is_terminal e"
  shows "exec_outcome (fold exec_after ops e) = exec_outcome e"
  using assms
proof (induction ops arbitrary: e)
  case (Cons op ops)
  have "exec_outcome (exec_after op e) = exec_outcome e" by (rule terminal_absorbs [OF Cons.prems])
  moreover from this have "execution_is_terminal (exec_after op e)"
    using Cons.prems by (simp add: exec_outcome_def execution_is_terminal_def)
  ultimately show ?case using Cons.IH [of "exec_after op e"] by simp
qed simp

lemma execution_record_consistent: "exec_inv (fold exec_after ops (new_execution eid clk meta))"
proof -
  have "exec_inv e \<Longrightarrow> exec_inv (fold exec_after ops e)" for e
    by (induction ops arbitrary: e) (simp_all add: exec_after_inv)
  then show ?thesis by (simp add: new_execution_inv)
qed

text \<open>C13: Whatever lifecycle methods are called on a new execution, in any order and with any
  readings of the clock, accepted or refused, the record stays consistent (the legacy status is the
  one of the state, the completion time is set exactly in terminal states, the start time from
  \<open>PLANNING\<close> on), and once the state is terminal, no later call changes the state, the status, the
  time stamps or the error.\<close>

theorem execution_record_is_kept:
  "let e = fold exec_after ops (new_execution eid clk meta) in
     exec_inv e \<and> (execution_is_terminal e \<longrightarrow> exec_outcome (fold exec_after later e) = exec_outcome e)"
  unfolding Let_def by (simp add: execution_record_consistent terminal_execution_is_final)

theorem execution_record_is_kept_witness:
  "let e = fold exec_after [ExecOp_start (\<lambda>_. 1), ExecOp_cancel (\<lambda>_. 2)] (new_execution ''e1'' (\<lambda>_. 0) []) in
     execution_is_terminal e
     \<and> exec_outcome (fold exec_after [ExecOp_cancel (\<lambda>_. 7), ExecOp_fail (\<lambda>_. 8) ''late'' None] e) = exec_outcome e"
proof -
  have "execution_is_terminal (fold exec_after [ExecOp_start (\<lambda>_. 1), ExecOp_cancel (\<lambda>_. 2)] (new_execution ''e1'' (\<lambda>_. 0) []))"
    by code_simp
  then show ?thesis
    using execution_record_is_kept [of "[ExecOp_start (\<lambda>_. 1), ExecOp_cancel (\<lambda>_. 2)]" "''e1''" "\<lambda>_. 0" "[]"
        "[ExecOp_cancel (\<lambda>_. 7), ExecOp_fail (\<lambda>_. 8) ''late'' None]"]
    by (simp only: Let_def)
qed

text \<open>C14: A step keeps its identity and moves only along the table: after any operations a step
  created with a valid number is consistent, and its status is one the table leads to from
  \<open>CREATED\<close>.\<close>

theorem step_follows_the_table:
  assumes "new_step sid k ty inp = Inr s"
  shows "step_evolves s (fold (\<lambda>op s. case apply_step_op op s of Inl _ \<Rightarrow> s | Inr s' \<Rightarrow> s') ops s)
     \<and> step_inv (fold (\<lambda>op s. case apply_step_op op s of Inl _ \<Rightarrow> s | Inr s' \<Rightarrow> s') ops s)"
proof -
  let ?f = "\<lambda>op s. case apply_step_op op s of Inl _ \<Rightarrow> s | Inr s' \<Rightarrow> s'"
  have "step_evolves s (fold ?f ops s)" for s
  proof (induction ops arbitrary: s)
    case (Cons op ops)
    have "step_evolves s (?f op s)"
      by (auto intro: step_op_evolves step_evolves_refl split: sum.split)
    with Cons.IH [of "?f op s"] show ?case by (auto intro: step_evolves_trans)
  qed (simp add: step_evolves_refl)
  with new_step_inv [OF assms] show ?thesis by (auto simp: step_evolves_def)
qed

theorem step_follows_the_table_witness:
  "step_inv (fold (\<lambda>op s. case apply_step_op op s of Inl _ \<Rightarrow> s | Inr s' \<Rightarrow> s')
     [StepOp_start 1, StepOp_complete 2 PNone, StepOp_fail 3 ''late'']
     \<lparr>step_id = ''s'', step_number = 1, step_type = StepType_PLAN, step_status = StepStatus_CREATED,
      step_input = PNone, step_output = PNone, step_error = None, step_started_at = None, step_completed_at = None\<rparr>)"
  by (rule step_follows_the_table [THEN conjunct2, of "''s''" 1 StepType_PLAN PNone])
     (simp add: new_step_def)

text \<open>C16: Retrying is bounded: with a policy that was constructed, \<open>should_retry\<close> grants fewer
  retries than \<open>max_attempts\<close>, none after a cancellation or an exhausted limit, and every delay lies
  between zero and \<open>max_delay\<close>, with jitter and without.\<close>

theorem retries_are_bounded:
  assumes "new_retry_policy p = Inr q" "1 \<le> attempt" "0 \<le> u" "u \<le> 1"
  shows "(case should_retry q err attempt of Inr True \<Rightarrow> attempt < rp_max_attempts q
            \<and> exc_class err \<notin> {ExecutionCancelled, ExecutionLimitExceeded, AgentMaxStepsError} | _ \<Rightarrow> True)
     \<and> (\<exists>d. get_delay q u attempt = Inr d \<and> 0 \<le> d \<and> d \<le> rp_max_delay q)"
proof -
  have ok: "policy_ok q" using assms(1) by (simp add: new_retry_policy_iff)
  have "should_retry q err attempt = Inr True \<Longrightarrow> attempt < rp_max_attempts q
      \<and> exc_class err \<notin> {ExecutionCancelled, ExecutionLimitExceeded, AgentMaxStepsError}"
    using should_retry_True [of q err attempt] no_retry_after_cancel [of attempt err q] assms(2)
    by (auto simp: isinstance_exc_def)
  with get_delay_bounds [OF ok assms(2-4)] show ?thesis by (auto split: sum.split bool.split)
qed

theorem retries_are_bounded_witness:
  "\<exists>d. get_delay default_policy (1 / 2) 3 = Inr d \<and> 0 \<le> d \<and> d \<le> rp_max_delay default_policy"
  by (rule retries_are_bounded [THEN conjunct2, of default_policy])
     (simp_all add: new_retry_policy_iff policy_ok_def default_policy_def)

section \<open>Approvals, idempotency, events\<close>

text \<open>C17: The first decision about a request is final: in a reachable approval manager, waiting for
  a request blocks exactly while it is pending, and once it is approved or rejected every later
  operation, accepted or refused, leaves it as it is.\<close>

theorem approval_decision_is_final:
  assumes "approval_reachable m" "map_of (am_requests m) a = Some r"
  shows "wait_for_resolution a m = (if ar_status r = Approval_PENDING then Inr None else Inr (Some r))
     \<and> (ar_status r \<noteq> Approval_PENDING \<longrightarrow> approval_step m m' \<longrightarrow> map_of (am_requests m') a = Some r)"
  using wait_blocks_iff [OF approval_reachable_inv [OF assms(1)] assms(2)] resolved_stays [OF assms(2)] by simp

theorem approval_decision_is_final_witness:
  "\<exists>m r. approve ''e1:c1'' (snd (the (case create_request ''e1:c1'' ''e1'' ''c1'' ''t'' [] new_approval_manager of
        Inr x \<Rightarrow> Some x | _ \<Rightarrow> None))) = Inr (r, m) \<and> wait_for_resolution ''e1:c1'' m = Inr (Some r)"
proof -
  let ?m1 = "snd (the (case create_request ''e1:c1'' ''e1'' ''c1'' ''t'' [] new_approval_manager of
        Inr x \<Rightarrow> Some x | _ \<Rightarrow> None))"
  have c: "\<exists>r. apply_approval_op (ApprovalOp_create ''e1:c1'' ''e1'' ''c1'' ''t'' []) new_approval_manager = Inr (r, ?m1)"
    by (simp add: create_request_def new_approval_manager_def Let_def)
  obtain r m where a: "apply_approval_op (ApprovalOp_approve ''e1:c1'') ?m1 = Inr (r, m)"
    and r: "map_of (am_requests m) ''e1:c1'' = Some r" "ar_status r = Approval_APPROVED"
    by (simp add: create_request_def new_approval_manager_def approve_def get_request_def Let_def)
  have "approval_reachable m"
    using c a by (metis approval_reachable.intros approval_step.performed)
  from approval_decision_is_final [OF this r(1)] r(2) a show ?thesis by auto
qed

text \<open>C18: At most one execution per release: along any interleaving of claims, records and releases
  on the in-memory store, the grants of one key exceed its releases by at most one, and by none when
  its result was recorded before.\<close>

theorem at_most_one_grant_per_release:
  "mem_idem.grants k ops s \<le> (if mem_idem.free s k then 1 else 0) + releases k ops
   \<and> (case idem_get s k of None \<Rightarrow> True | Some r \<Rightarrow> mem_idem.grants k ops s = 0)"
  using mem_idem.grants_bound [of k ops s] mem_idem.recorded_no_grant [of s k ops]
  by (simp split: option.split)

text \<open>C19: A cancelled sandbox call leaks its claim for good.  Take any interleaving of calls in which a
  call that goes through the store is in the sandbox, and let it end with a cancellation, or any other
  exception that is not an \<open>Exception\<close>: it is raised, and there is an event such that, whatever calls begin
  and end afterwards, the event is not set, the key has no result, and every later call with the key, of
  any tool that is allowed, waits for this event.\<close>

theorem cancelled_call_leaks_its_claim:
  assumes "cs_running (calls_after te evs idle_calls) i = Some (name, key)" "idem_active te key = Some k"
    "\<not> isinstance_exc x PyException"
  shows "fst (tool_exec_finish te name key dur (Inl x) (cs_store (calls_after te evs idle_calls))) = Inl x
    \<and> (\<exists>ev. \<forall>later name' key' ctx dur'.
        let st = cs_store (calls_after te (evs @ Call_ends i dur (Inl x) # later) idle_calls) in
        ev \<notin> set (im_set st) \<and> idem_get st k = None
        \<and> (permitted te name' ctx dur' \<and> idem_active te key' = Some k
            \<longrightarrow> tool_exec_begin te name' key' ctx dur' st = (Inr (ExecWait ev), st)))"
proof -
  let ?c = "calls_after te evs idle_calls"
  have "owns te ?c i k" using assms(1,2) by (simp add: owns_def)
  then obtain ev where ev: "orphaned te k ev (call_step te (Call_ends i dur (Inl x)) ?c)"
    using cancelled_end [OF calls_after_inv [OF idle_calls_inv] _ assms(3)] by blast
  show ?thesis
    using orphaned_blocks [OF orphaned_after [OF ev]] assms(3)
    by (auto simp: Let_def tool_exec_finish_def intro!: exI [of _ ev] simp del: call_step.simps)
qed

theorem cancelled_call_leaks_its_claim_witness:
  "\<exists>ev. tool_exec_begin (rt_executor demo_runtime) ''calculator'' (Some ''k'') None 5
      (cs_store (calls_after (rt_executor demo_runtime)
        [Call_begins 0 ''calculator'' (Some ''k'') None 1, Call_begins 1 ''calculator'' (Some ''j'') None 2,
         Call_ends 0 3 (Inl (Exc CancelledError [])), Call_ends 1 4 (Inr ''4'')] idle_calls))
    = (Inr (ExecWait ev), cs_store (calls_after (rt_executor demo_runtime)
        [Call_begins 0 ''calculator'' (Some ''k'') None 1, Call_begins 1 ''calculator'' (Some ''j'') None 2,
         Call_ends 0 3 (Inl (Exc CancelledError [])), Call_ends 1 4 (Inr ''4'')] idle_calls))"
proof -
  let ?te = "rt_executor demo_runtime"
  let ?evs = "[Call_begins 0 ''calculator'' (Some ''k'') None 1, Call_begins 1 ''calculator'' (Some ''j'') None 2]"
  have "cs_running (calls_after ?te ?evs idle_calls) 0 = Some (''calculator'', Some ''k'')" by code_simp
  moreover have "idem_active ?te (Some ''k'') = Some ''k''" "permitted ?te ''calculator'' None 5" by code_simp+
  moreover have "\<not> isinstance_exc (Exc CancelledError []) PyException" by code_simp
  ultimately show ?thesis
    using cancelled_call_leaks_its_claim [of ?te ?evs 0 "''calculator''" "Some ''k''" "''k''" "Exc CancelledError []" 3]
    by (auto simp: Let_def simp del: call_step.simps calls_after_simps
        dest!: spec [of _ "[Call_ends 1 4 (Inr ''4'')]"])
qed

text \<open>C20: Unless it is cancelled, a call that goes through the store settles its key.  Take any
  interleaving of calls in which the call is in the sandbox.  If it ends with an output, its result says so,
  and whatever calls begin and end afterwards, the result stays the answer to every allowed call with the
  key, without the sandbox, and to those that waited, whose event is set.  If it ends with an exception of
  any class that is an \<open>Exception\<close>, its result is the failure with the exception's text and class; nothing is
  recorded, the waiting calls are woken, and the next allowed call with the key goes to the sandbox.\<close>

theorem finished_call_settles_its_key:
  assumes "cs_running (calls_after te evs idle_calls) i = Some (name, key)" "idem_active te key = Some k"
  shows "let st = cs_store (calls_after te evs idle_calls);
      next_st = (\<lambda>out later. cs_store (calls_after te (evs @ Call_ends i dur out # later) idle_calls)) in
    \<exists>ev. event_of st k = Some ev
    \<and> (\<forall>out. \<exists>r. fst (tool_exec_finish te name key dur (Inr out) st) = Inr r \<and> tr_success r \<and> tr_output r = PStr out
        \<and> (\<forall>later. ev \<in> set (im_set (next_st (Inr out) later))
            \<and> tool_exec_waited (Some k) (next_st (Inr out) later) = Inr r
            \<and> (\<forall>name' key' ctx dur'. permitted te name' ctx dur' \<and> idem_active te key' = Some k
                \<longrightarrow> tool_exec_begin te name' key' ctx dur' (next_st (Inr out) later)
                  = (Inr (ExecDone r), next_st (Inr out) later))))
    \<and> (\<forall>x. isinstance_exc x PyException \<longrightarrow>
        fst (tool_exec_finish te name key dur (Inl x) st)
          = Inr (failure_result (exc_msg x) (type_name (exc_class x)) name dur)
        \<and> ev \<in> set (im_set (next_st (Inl x) [])) \<and> idem_get (next_st (Inl x) []) k = None
        \<and> (\<forall>name' key' ctx dur'. permitted te name' ctx dur' \<and> idem_active te key' = Some k
            \<longrightarrow> fst (tool_exec_begin te name' key' ctx dur' (next_st (Inl x) [])) = Inr ExecSandbox))"
proof -
  let ?c = "calls_after te evs idle_calls"
  have inv: "calls_inv te ?c" by (rule calls_after_inv [OF idle_calls_inv])
  have "owns te ?c i k" using assms by (simp add: owns_def)
  from owned_key(3) [OF inv this] obtain ev where ev: "event_of (cs_store ?c) k = Some ev" by blast
  have ok: "\<exists>r. fst (tool_exec_finish te name key dur (Inr out) (cs_store ?c)) = Inr r \<and> tr_success r
      \<and> tr_output r = PStr out \<and> (\<forall>later. key_answered te k r ev (calls_after te (evs @ Call_ends i dur (Inr out) # later) idle_calls))"
    for out
    using successful_end [OF inv assms, of dur out] ev
    by (auto simp del: call_step.simps intro!: key_answered_after)
  show ?thesis
    unfolding Let_def
  proof (intro exI [of _ ev] conjI allI impI, rule ev)
    fix out
    from ok [of out] obtain r where r: "fst (tool_exec_finish te name key dur (Inr out) (cs_store ?c)) = Inr r"
        "tr_success r" "tr_output r = PStr out"
        "\<And>later. key_answered te k r ev (calls_after te (evs @ Call_ends i dur (Inr out) # later) idle_calls)" by blast
    then show "\<exists>r. fst (tool_exec_finish te name key dur (Inr out) (cs_store ?c)) = Inr r \<and> tr_success r \<and> tr_output r = PStr out
        \<and> (\<forall>later. ev \<in> set (im_set (cs_store (calls_after te (evs @ Call_ends i dur (Inr out) # later) idle_calls)))
            \<and> tool_exec_waited (Some k) (cs_store (calls_after te (evs @ Call_ends i dur (Inr out) # later) idle_calls)) = Inr r
            \<and> (\<forall>name' key' ctx dur'. permitted te name' ctx dur' \<and> idem_active te key' = Some k
                \<longrightarrow> tool_exec_begin te name' key' ctx dur'
                    (cs_store (calls_after te (evs @ Call_ends i dur (Inr out) # later) idle_calls))
                  = (Inr (ExecDone r), cs_store (calls_after te (evs @ Call_ends i dur (Inr out) # later) idle_calls))))"
      using key_answered_answers [OF r(4)] by (auto simp: key_answered_def simp del: calls_after_simps)
  qed (use failed_end [OF inv assms, where dur = dur] ev in \<open>auto simp del: call_step.simps\<close>)
qed

theorem finished_call_settles_its_key_witness:
  "let te = rt_executor demo_runtime; evs = [Call_begins 0 ''calculator'' (Some ''k'') None 1] in
    (\<exists>r. tr_output r = PStr ''4'' \<and> fst (tool_exec_begin te ''calculator'' (Some ''k'') None 5
      (cs_store (calls_after te (evs @ [Call_ends 0 3 (Inr ''4''), Call_begins 1 ''calculator'' (Some ''j'') None 4]) idle_calls)))
        = Inr (ExecDone r))
    \<and> fst (tool_exec_begin te ''calculator'' (Some ''k'') None 5
      (cs_store (calls_after te (evs @ [Call_ends 0 3 (Inl (Exc ValueError ''bad''))]) idle_calls))) = Inr ExecSandbox"
proof -
  let ?te = "rt_executor demo_runtime"
  let ?evs = "[Call_begins 0 ''calculator'' (Some ''k'') None 1]"
  have run: "cs_running (calls_after ?te ?evs idle_calls) 0 = Some (''calculator'', Some ''k'')" by code_simp
  have k: "idem_active ?te (Some ''k'') = Some ''k''" "permitted ?te ''calculator'' None 5" by code_simp+
  have "isinstance_exc (Exc ValueError ''bad'') PyException" by code_simp
  with finished_call_settles_its_key [OF run k(1), of 3, unfolded Let_def] k show ?thesis
    unfolding Let_def by (metis fst_conv)
qed

text \<open>C21: The event stream loses nothing: after any interleaving of publishing, closing and consuming,
  closing and then consuming as often as items are queued ends the iteration with exactly the
  published events, each once and in order.\<close>

theorem stream_delivers_everything:
  "(let r = do_move Close (stream_moves ms new_run);
        r' = stream_moves (replicate (length (es_queue (sr_stream r))) Consume) r in
     sr_ended r' \<and> sr_got r' = sr_published r)"
proof -
  let ?r = "do_move Close (stream_moves ms new_run)"
  have "run_inv ?r" by (intro do_move_inv stream_moves_inv new_run_inv)
  moreover have "es_closed (sr_stream ?r)" by (simp add: stream_close_def)
  ultimately show ?thesis using consume_all [of ?r] by (simp add: Let_def)
qed

section \<open>Context and planning\<close>

text \<open>C22: Trimming is determined by the budget: the trimmed list fits the available tokens; it is
  the first system message, if there is one, followed by the kept ones of the other messages in their
  order, where from the newest to the oldest a message is kept exactly when it fits in what the newer
  kept ones have left and these have not used up the budget.  Only when the system message alone does
  not fit is the list empty instead.\<close>

theorem trimming_fits_and_keeps_order:
  assumes "new_budget b = Inr b'"
  shows "(let avail = max_context_tokens b - reserved_output_tokens b;
              out = trim_messages \<lparr>cm_counter = default_counter, cm_budget = Some b'\<rparr> ms in
     default_counter out \<le> avail
     \<and> (case find is_system ms of
          None \<Rightarrow> recent_fit default_counter avail ms out
        | Some s \<Rightarrow> if avail < default_counter [s] then out = []
            else \<exists>zs. out = s # zs \<and> recent_fit default_counter (avail - default_counter [s])
                   (takeWhile (\<lambda>m. \<not> is_system m) ms @ tl (dropWhile (\<lambda>m. \<not> is_system m) ms)) zs))"
proof -
  let ?cm = "\<lparr>cm_counter = default_counter, cm_budget = Some b'\<rparr>"
  have b: "b' = b" "0 < budget_available b"
    using assms(1) by (auto simp: new_budget_def budget_available_def split: if_splits)
  have av: "available_input_tokens ?cm = Some (budget_available b)"
    by (simp add: available_input_tokens_def b)
  show ?thesis
    using default_tc.trim_cnt [OF _ av, of ms] b(2) trim_messages_spec [OF av, of ms]
    by (simp add: Let_def budget_available_def b trimmed_to_def)
qed

text \<open>Of two messages that do not fit together the newer one is kept.\<close>

theorem trimming_fits_and_keeps_order_witness:
  "(let ms = [[(''role'', PStr ''system''), (''content'', PStr ''be brief'')],
              [(''role'', PStr ''user''), (''content'', PStr ''hello'')]];
        out = trim_messages \<lparr>cm_counter = default_counter,
          cm_budget = Some \<lparr>max_context_tokens = 40, reserved_output_tokens = 2\<rparr>\<rparr> ms in
      default_counter out \<le> 38
      \<and> (\<exists>zs. out = ms ! 0 # zs \<and> recent_fit default_counter (38 - default_counter [ms ! 0]) [ms ! 1] zs))"
proof -
  have fits: "\<not> 38 < default_counter [[(''role'', PStr ''system''), (''content'', PStr ''be brief'')]]" by code_simp
  show ?thesis
    using trimming_fits_and_keeps_order [of "\<lparr>max_context_tokens = 40, reserved_output_tokens = 2\<rparr>" _
        "[[(''role'', PStr ''system''), (''content'', PStr ''be brief'')], [(''role'', PStr ''user''), (''content'', PStr ''hello'')]]"]
      fits
    by (simp add: new_budget_def is_system_def dget_def Let_def)
qed

text \<open>C23: A batch of tool calls is planned as a whole: the planner accepts exactly the batches all of
  whose calls it accepts, in the order of the model, and every accepted call names a registered tool
  and has an identifier, both stripped and not empty.\<close>

theorem batch_is_planned_as_a_whole:
  "((\<exists>e. plan_calls loads reg c tcs = Inl e) \<longleftrightarrow> list_ex (\<lambda>tc. \<exists>e. plan_tool_call loads reg c tc = Inl e) tcs)
   \<and> (case plan_calls loads reg c tcs of Inl _ \<Rightarrow> True | Inr xs \<Rightarrow>
        list_all2 (\<lambda>tc x. plan_tool_call loads reg c tc = Inr x) tcs xs \<and> list_all (call_ok reg) xs)"
  using plan_calls_Inl_iff [of loads reg c tcs] plan_calls_iff [of loads reg c tcs] plan_calls_ok [of loads reg c tcs]
  by (auto simp: list_ex_iff list_all_iff split: sum.split)

text \<open>C24: Planning ends in one of two shapes or a planning error: a decision is a final answer with
  a stripped non-empty text, or a non-empty batch of accepted calls; and every error is a protocol
  error or a planning error, provided \<open>json.loads\<close> raises nothing but \<open>Exception\<close>s.\<close>

theorem plan_outcomes:
  assumes "\<And>s e. loads s = Inl e \<Longrightarrow> isinstance_exc e PyException"
  shows "case plan loads reg c response of Inr d \<Rightarrow> decision_ok reg d
     | Inl e \<Rightarrow> exc_class e = AgentProtocolError \<or> exc_class e = PlanningError"
  using plan_ok [of loads reg c response] plan_errors [of loads reg c response, OF _ assms]
  by (auto split: sum.split)

theorem plan_outcomes_witness:
  "case plan (\<lambda>_. raise JSONDecodeError ''bad'') (rt_tools demo_runtime) (w_ctx demo_start) tool_reply of
       Inr d \<Rightarrow> decision_ok (rt_tools demo_runtime) d
     | Inl e \<Rightarrow> exc_class e = AgentProtocolError \<or> exc_class e = PlanningError"
  by (rule plan_outcomes) (auto simp: isinstance_exc_def exc_isa_PyException)

section \<open>The inference service\<close>

text \<open>C25: The reliability manager implements an abstract circuit breaker for every provider: after
  any sequence of registrations, requests, successes and failures of all providers, the breaker of
  \<open>p\<close> is where the abstract machine is after the same sequence, a request is allowed exactly when
  the abstract breaker allows it, and the manager is consistent (status, circuit, time stamps and gauges
  fit the number of consecutive failures, and the providers with a probe are exactly the half-open ones).\<close>

theorem manager_implements_breakers:
  assumes "new_reliability degraded unhealthy recovery = Inr m0"
  shows "(let m = rel_applies ops m0; b = fold (br_apply m0 p) ops None in
    rel_inv m \<and> abs_breaker m p = b
    \<and> (case b of None \<Rightarrow> (\<exists>msg. fst (allow_request p now m) = raise KeyError msg)
        | Some br \<Rightarrow> fst (allow_request p now m) = Inr (fst (br_allow recovery now br))))"
proof -
  let ?m = "rel_applies ops m0" and ?b = "fold (br_apply m0 p) ops None"
  have inv0: "rel_inv m0" using assms by (rule new_reliability_inv)
  have inv: "rel_inv ?m" using inv0 by (rule rel_applies_inv)
  have "abs_breaker m0 p = None" "rm_recovery m0 = recovery"
    using assms by (auto simp: new_reliability_def abs_breaker_def split: if_splits)
  then have b: "abs_breaker ?m p = ?b" and rec: "rm_recovery ?m = recovery"
    using rel_applies_refines [OF inv0] rel_applies_config [of ops m0] by simp_all
  obtain r m' where eq: "allow_request p now ?m = (r, m')" by fastforce
  show ?thesis
  proof (cases ?b)
    case None
    then have "map_of (rm_states ?m) p = None" using b by (simp add: abs_breaker_def)
    then show ?thesis using inv b None by (simp add: allow_request_def get_state_def)
  next
    case (Some br)
    then show ?thesis using allow_refines [OF inv _ eq] inv b rec eq by (simp add: Let_def)
  qed
qed

theorem manager_implements_breakers_witness:
  "rel_inv (rel_applies demo_failures demo_manager)
   \<and> fst (allow_request ''a'' 12 (rel_applies demo_failures demo_manager)) = Inr False"
proof -
  have b: "fold (br_apply demo_manager ''a'') demo_failures None = Some (Br_open 3)"
    by code_simp
  show ?thesis
    using manager_implements_breakers [OF demo_manager_constructed, where ops = demo_failures and
        p = "''a''" and now = 12]
    unfolding b by (simp add: Let_def)
qed

text \<open>C26: While a provider's circuit is open and no outcome is recorded for it, at most one request to
  it is let through, whatever all callers do, and not before the recovery time has passed.\<close>

theorem open_circuit_grants_one_probe:
  assumes "new_reliability degraded unhealthy recovery = Inr m0"
    "abs_breaker (rel_applies ops m0) p = Some (Br_open t)" "list_all (\<lambda>op. \<not> settles p op) rest"
  shows "length (granted_at p rest (rel_applies ops m0)) \<le> 1
    \<and> list_all (\<lambda>x. t + recovery \<le> x) (granted_at p rest (rel_applies ops m0))"
proof -
  have "rm_recovery (rel_applies ops m0) = recovery"
    using assms(1) rel_applies_config [of ops m0] by (auto simp: new_reliability_def split: if_splits)
  moreover have "rel_inv (rel_applies ops m0)"
    using assms(1) by (intro rel_applies_inv new_reliability_inv)
  ultimately show ?thesis using open_grants [OF _ assms(2,3)] by auto
qed

theorem open_circuit_grants_one_probe_witness:
  "length (granted_at ''a'' [Rel_allow ''a'' 20, Rel_allow ''a'' 30] (rel_applies demo_failures demo_manager)) \<le> 1"
  using open_circuit_grants_one_probe [OF demo_manager_constructed demo_manager_open,
      of "[Rel_allow ''a'' 20, Rel_allow ''a'' 30]"]
  by simp

text \<open>C27: A chat completion of a provider ends within its bounds and is decided by the first POST whose
  outcome is not to be tried again, or by the last one allowed: the result is what that outcome means,
  every POST sent is the same request, at most \<open>max_retries + 1\<close> of them, there is one wait between two
  of them, of half a second to ten and a quarter seconds, and only the cancellation of a wait ends it
  earlier.\<close>

theorem chat_is_decided_by_one_outcome:
  assumes "new_backend p u k timeout retries c a = Inr b" "\<And>t. 0 \<le> he_uniform e t \<and> he_uniform e t \<le> 1"
  shows "(let i = length (hw_posts w); z = decisive (he_post e) i (nat retries);
      r = fst (backend_chat e b (PDict d) w); w' = snd (backend_chat e b (PDict d) w) in
    \<exists>j ds. i + j \<le> z \<and> hw_posts w' = hw_posts w @ replicate (Suc j) (chat_request b d)
      \<and> int j \<le> retries \<and> hw_sleeps w' = hw_sleeps w @ ds \<and> int (length ds) \<le> retries
      \<and> list_all (\<lambda>x. 1 / 2 \<le> x \<and> x \<le> 10 + 1 / 4) ds
      \<and> (i + j = z \<and> r = outcome_result (he_post e z) \<and> length ds = j
         \<or> r = raise CancelledError [] \<and> (\<exists>t. he_sleep_cancelled e t) \<and> length ds = Suc j))"
proof -
  let ?i = "length (hw_posts w)" and ?r = "fst (backend_chat e b (PDict d) w)" and ?w = "snd (backend_chat e b (PDict d) w)"
  have b: "0 \<le> be_max_retries b" "be_max_retries b = retries"
    using assms(1) by (auto simp: new_backend_def split: if_splits)
  obtain j ds where j: "j \<le> decisive (he_post e) ?i (nat retries) - ?i"
      "hw_posts ?w = hw_posts w @ replicate (Suc j) (chat_request b d)" "hw_sleeps ?w = hw_sleeps w @ ds"
      "delays_ok e 0 ds" "length ds \<le> nat retries"
      "?i + j = decisive (he_post e) ?i (nat retries) \<and> ?r = outcome_result (he_post e (decisive (he_post e) ?i (nat retries)))
          \<and> length ds = j
       \<or> ?r = raise CancelledError [] \<and> (\<exists>t. he_sleep_cancelled e t) \<and> length ds = Suc j"
    using backend_chat_result [OF b(1), of e d w] unfolding b(2) chat_ran_def Let_def by blast
  have z: "?i \<le> decisive (he_post e) ?i (nat retries)" "decisive (he_post e) ?i (nat retries) \<le> ?i + nat retries"
    using decisive_bounds by blast+
  have "?i + j \<le> decisive (he_post e) ?i (nat retries)" "int j \<le> retries" "int (length ds) \<le> retries"
    using j(1,5) z b by linarith+
  then show ?thesis
    unfolding Let_def using j(2,3,6) delays_bounded [OF assms(2) j(4)]
    by (intro exI [of _ j] exI [of _ ds]) (simp add: list_all_iff)
qed

theorem chat_is_decided_by_one_outcome_witness:
  "fst (backend_chat demo_world demo_backend (PDict demo_payload) demo_gateway) = raise HttpStatusError ''no''"
proof -
  note demo_gateway_posts
  moreover have "\<not> try_again (he_post demo_world 0)" "\<not> he_sleep_cancelled demo_world t" for t
    by (simp_all add: demo_http_def retryable_status_def)
  moreover have "decisive (he_post demo_world) 0 (nat 2) = 0"
    using calculation(2) by (simp add: numeral_2_eq_2)
  moreover have "outcome_result (he_post demo_world 0) = raise HttpStatusError ''no''"
    by (simp add: demo_http_def reply_result_def raise_for_status_def)
  ultimately show ?thesis
    using chat_is_decided_by_one_outcome [OF demo_backend_constructed demo_world_uniform, where w = demo_gateway and
        d = demo_payload]
    by (auto simp: Let_def)
qed

text \<open>C28: The agent's inference client and the inference gateway together, whatever other requests the
  gateway serves in between and whatever gets lost on the way.  A completion the client returns is the
  JSON object with which a provider on the route of the requested model answered the last request sent to
  a provider, which carried exactly the payload of the agent, and it has the shape the planner reads.  The
  client sends at most \<open>max_attempts\<close> requests, and repeats one only when it was lost or was answered with a
  server error; so a request refused for want of capacity (status 429) is not repeated.  Over all of them
  the gateway sends at most \<open>max_attempts * max_failover_attempts * (max_retries + 1)\<close> requests to providers,
  each request of the client at most the number \<^verbatim>\<open>inference/docs/reliability-and-failover.md\<close> names.
  A completion that fails raises an error of the language model interface or what the HTTP client raised.\<close>

theorem inference_through_the_gateway:
  assumes "startup s = Inr (a, w0)" "faithful_wire wire"
    "policy_ok (ic_policy c)" "\<And>t. 0 \<le> he_uniform e t \<and> he_uniform e t \<le> 1"
    "through_gateway ge a wire reason e (completion_request c model messages tools) W W'"
  shows "case client_complete e c model messages tools deadline w of (r, t) \<Rightarrow>
    (let k = length (hw_posts w); n = length (hw_posts t) - k; z = k + n - 1 in
      1 \<le> n \<and> int n \<le> rp_max_attempts (ic_policy c)
      \<and> list_all (\<lambda>i. case he_post e (k + i) of Failed x \<Rightarrow> True | Replied rep \<Rightarrow> 500 \<le> hr_status rep) [0..<n - 1]
      \<and> (\<Sum>i = k..<k + n. provider_requests (W i) (W' i)) \<le> n * (nat (se_max_failover_attempts s) * (nat (se_max_retries s) + 1))
      \<and> (case r of
           Inr data \<Rightarrow> validate_response data = Inr () \<and> (\<exists>p. on_route (ap_failover a) model p
             \<and> from_provider (http_env.truncate (ge z)) p (completion_payload model messages tools) data (hw_posts (W' z)))
         | Inl x \<Rightarrow> exc_class x \<in> {LLMConnectionError, LLMTimeoutError, LLMResponseError, CancelledError}
             \<or> he_post e z = Failed x))"
proof -
  obtain r t where run: "client_complete e c model messages tools deadline w = (r, t)" by fastforce
  note outcome = completion_through_gateway [OF assms run]
  show ?thesis
    unfolding run prod.case Let_def
    by (intro conjI outcome(1,2,4) gateway_requests [OF assms(1,5)]) (use outcome(3) in \<open>simp add: list_all_iff\<close>)
qed

theorem inference_through_the_gateway_witness:
  "(let t = snd (client_complete relayed_http keyed_inference ''m'' hello [] None new_http_world); n = length (hw_posts t) in
    fst (client_complete relayed_http keyed_inference ''m'' hello [] None new_http_world) = Inr demo_completion
    \<and> 1 \<le> n \<and> int n \<le> 3
    \<and> (\<exists>p. on_route (ap_failover demo_app) ''m'' p \<and> from_provider (http_env.truncate answering_providers) p
         (completion_payload ''m'' hello []) demo_completion
         (hw_posts (if n = 1 then demo_gateway else snd hello_served))))"
proof -
  have three: "rp_max_attempts (ic_policy keyed_inference) = 3"
    by (simp add: keyed_inference_def new_inference_client_def default_policy_def)
  obtain t where ret: "client_complete relayed_http keyed_inference ''m'' hello [] None new_http_world = (Inr demo_completion, t)"
    using relayed_completion by (metis prod.collapse)
  have wire: "faithful_wire Some" by (simp add: faithful_wire_def)
  show ?thesis
    using inference_through_the_gateway [OF demo_startup wire keyed_inference_policy relayed_http_uniform
        relayed_through_gateway, where deadline = None and w = new_http_world]
    unfolding ret prod.case Let_def three snd_conv fst_conv sum.case by (cases "length (hw_posts t) = 1") auto
qed

text \<open>C29: Failover over the providers of a model, at any moment of a started service, goes along the
  route of the model.  A response is the object the provider it names returned to this request: that
  provider was admitted by the manager, its call returned the response, and its success was recorded.
  The attempts listed before it are those of the providers before it on the route, in order, and each of
  them was either refused by the manager and not called, or admitted, called in vain with the error
  listed, and its failure recorded; at most \<open>max_failover_attempts\<close> providers are called.  When no provider
  answers, every provider of the route was tried so, or that many were called, and the error says whether
  there was a call at all.  Only a cancelled call ends the failover without a record of its outcome.\<close>

theorem failover_follows_the_route:
  assumes "startup s = Inr (a, w0)" "model_exists (ap_models a) m" "dget payload ''model'' = PStr m"
  shows "let w = snd (serve_all e a rqs w0); fo = ap_failover a; calls = nat (se_max_failover_attempts s) in
    \<exists>names. providers_for_model fo m = Inr names \<and> (case gw_failover e fo payload w of
      (Inr r, t) \<Rightarrow> failover_served (gw_allowed e) (gw_success_recorded e) (gw_failure_recorded e) (gw_chat e)
          fo payload names calls [] r w t
        \<and> replied_between e (length (hw_posts w)) (length (hw_posts t)) (fr_response r)
    | (Inl x, t) \<Rightarrow>
        if isinstance_exc x PyException
        then failover_exhausted (gw_allowed e) (gw_failure_recorded e) (gw_chat e) fo m payload names calls None x w t
        else failover_cut (gw_allowed e) (gw_failure_recorded e) (gw_chat e) fo payload names calls x w t)"
proof -
  let ?w = "snd (serve_all e a rqs w0)"
  have st: "app_ok a w0" "fo_max_attempts (ap_failover a) = se_max_failover_attempts s"
    using startup_ok [OF assms(1)] by auto
  have "undisturbed w0 ?w" using serve_all_spec [OF st(1) startup_slots_ok [OF assms(1)]] by blast
  then have ok: "app_ok a ?w" using undisturbed_app_ok st(1) by blast
  then have inv: "gw_inv ?w" and "model_served a ?w m"
    using assms(2) by (auto simp: app_ok_def model_exists_def)
  then obtain names where n: "providers_for_model (ap_failover a) m = Inr names" "m \<noteq> []"
      "\<forall>n \<in> set names. gw.served (ap_failover a) ?w n"
    unfolding model_served_def by blast
  show ?thesis
    using gw.failover_chat_spec [OF inv assms(3) n(2,1,3), of e] n(1)
    unfolding gw_failover_def gw.loop_result_def gw.loop_raised_def st(2) Let_def
    by (intro exI [of _ names]) (auto simp: wp_def dest: failover_served_replied split: prod.splits sum.splits)
qed

text \<open>The first provider of the route fails, the second one answers.\<close>

theorem failover_follows_the_route_witness:
  "case gw_failover demo_http (ap_failover demo_app) demo_payload demo_gateway of
      (Inr r, t) \<Rightarrow> fr_provider r = ''b'' \<and> failover_served (gw_allowed demo_http) (gw_success_recorded demo_http)
        (gw_failure_recorded demo_http) (gw_chat demo_http) (ap_failover demo_app) demo_payload [''a'', ''b''] 3 [] r demo_gateway t
    | (Inl x, t) \<Rightarrow> False"
proof -
  have "model_exists (ap_models demo_app) ''m''" by code_simp
  moreover have "dget demo_payload ''model'' = PStr ''m''" by (simp add: dget_def demo_payload_def)
  moreover have "nat (se_max_failover_attempts demo_settings) = 3" by (simp add: demo_settings_def)
  moreover have "providers_for_model (ap_failover demo_app) ''m'' = Inr [''a'', ''b'']" by code_simp
  ultimately show ?thesis
    using failover_follows_the_route [OF demo_startup, where m = "''m''" and payload = demo_payload
        and e = demo_http and rqs = "[]"] demo_failover_served
    by (auto simp: Let_def split: prod.splits sum.splits)
qed

text \<open>C30: A started service answers every request, of any number one after the other, whatever the
  providers and the other requests do: a refusal of the checks, an exhausted failover, or the answer of
  a provider on the route of a registered model, and never the answer for a missing route.  The answer
  for unexpected exceptions has one cause: a provider's answer that was accepted although it contains a
  float without a JSON text (\<open>NaN\<close>, \<open>Infinity\<close>), which \<open>JSONResponse\<close> does not render; there are at most as many
  of these answers as such answers of providers.  A request that is cancelled raises.  After every
  request all slots are free again, the gauges of requests in progress are back at zero under every label,
  and the manager is consistent.\<close>

theorem service_answers_properly:
  assumes "startup s = Inr (a, w0)"
  shows "case serve_all e a rqs w0 of (answers, w) \<Rightarrow>
    length answers = length rqs \<and> list_all (answered a) answers
    \<and> length (filter (\<lambda>r. r = Inr unexpected_answer) answers)
        \<le> length (filter (unrenderable e) [0..<length (hw_posts w)])
    \<and> rel_inv (gw_rel w) \<and> cl_active (gw_limiter w) = 0 \<and> cl_max (gw_limiter w) = se_max_concurrency s
    \<and> gw_in_progress w = (\<lambda>_. 0) \<and> gw_http_in_progress w = (\<lambda>_. 0)"
proof -
  have st: "app_ok a w0" "cl_active (gw_limiter w0) = 0" "gw_in_progress w0 = (\<lambda>_. 0)" "hw_posts w0 = []"
      "gw_http_in_progress w0 = (\<lambda>_. 0)" "cl_max (gw_limiter w0) = se_max_concurrency s"
    using startup_ok [OF assms] by auto
  have "length (fst (serve_all e a rqs w)) = length rqs" for w
    by (induction rqs arbitrary: w) (simp_all add: split_beta)
  with serve_all_spec [OF st(1) startup_slots_ok [OF assms], of e rqs] st show ?thesis
    by (simp add: undisturbed_def same_admission_def gw_inv_def split_beta)
qed

text \<open>The providers of the example send proper JSON, and so every answer is proper.\<close>

theorem service_answers_properly_witness:
  "list_all (\<lambda>r. case r of Inr ans \<Rightarrow> proper_answer demo_app ans | Inl x \<Rightarrow> \<not> isinstance_exc x PyException)
     (fst (serve_all demo_http demo_app [demo_chat, demo_chat] demo_gateway))"
proof -
  let ?answers = "fst (serve_all demo_http demo_app [demo_chat, demo_chat] demo_gateway)"
  have "unrenderable demo_http = (\<lambda>_. False)"
    by (rule ext) (simp add: unrenderable_def demo_http_def reply_result_def raise_for_status_def)
  then have "list_all (answered demo_app) ?answers \<and> length (filter (\<lambda>r. r = Inr unexpected_answer) ?answers) = 0"
    using service_answers_properly [OF demo_startup, where e = demo_http and rqs = "[demo_chat, demo_chat]"]
    by (simp add: split_beta)
  then show ?thesis
    by (auto simp: list_all_iff answered_def filter_empty_conv split: sum.splits)
qed

text \<open>C32: A service that starts has a valid configuration, and its parts fit together: every model it
  offers has its own identifier and a non-empty route, every provider on a route is registered under
  that name in the registry and with the reliability manager, and the default model is offered.\<close>

theorem started_service_is_wired:
  assumes "startup s = Inr (a, w)"
  shows "config_ok s \<and> rel_inv (gw_rel w) \<and> (\<forall>m md. map_of (ap_models a) m = Some md \<longrightarrow> md_id md = m
    \<and> (\<exists>names. providers_for_model (ap_failover a) m = Inr names \<and> names \<noteq> []
        \<and> list_all (\<lambda>n. (\<exists>p. get_provider (fo_registry (ap_failover a)) n = Inr p \<and> pr_name p = n)
             \<and> (\<exists>st. get_state n (gw_rel w) = Inr st)) names))"
  using startup_ok [OF assms]
  by (fastforce simp: app_ok_def gw_inv_def model_served_def served_iff known_get_state list_all_iff)

theorem started_service_is_wired_witness: "config_ok demo_settings \<and> rel_inv (gw_rel demo_gateway)"
  using started_service_is_wired [OF demo_startup] by simp

text \<open>C37: The counters of the middleware agree with what the callers were told: over any sequence of
  requests \<open>http_requests_total\<close> grows, under each method, route and status, by the number of requests
  answered so, \<open>http_errors_total\<close> by those of them with a status of 400 or more; unexpected exceptions
  count as the 500 they are answered with, and cancelled requests are not counted.\<close>

theorem counters_agree_with_answers:
  "case serve_all e a rqs w of (answers, t) \<Rightarrow>
     counter_value http_requests_total ls (gw_metrics t) = counter_value http_requests_total ls (gw_metrics w)
       + of_nat (length (filter (answered_with False ls) (zip rqs answers)))
     \<and> counter_value http_errors_total ls (gw_metrics t) = counter_value http_errors_total ls (gw_metrics w)
       + of_nat (length (filter (answered_with True ls) (zip rqs answers)))"
  using serve_all_counts [of False ls e a rqs w] serve_all_counts [of True ls e a rqs w]
  by (simp add: http_counter_def split_beta)

section \<open>Persistence\<close>

text \<open>C34: Saving a run's execution and loading it gives it back: when the update commits, the record
  the database then returns restores the same execution, steps in order, with only the time of the last
  update new.\<close>

theorem saved_execution_is_restored:
  assumes "sv_update_execution e ex s = (Inr (), t)" "db_wf (sv_db s)"
    "trace_inv (ex_steps ex)" "distinct (map step_id (ex_steps ex))"
  shows "case pg_get (ex_id ex) (sv_db t) of None \<Rightarrow> False
    | Some r \<Rightarrow> execution_from_record now r = Inr (ex\<lparr>ex_updated_at := now\<rparr>)"
  using saved_is_loaded [OF assms(1,2,4) trace_numbers [OF assms(3)], of now] by auto

theorem saved_execution_is_restored_witness:
  "case pg_get ''e1'' (sv_db demo_saved) of None \<Rightarrow> False
    | Some r \<Rightarrow> execution_from_record 9 r = Inr (demo_execution\<lparr>ex_updated_at := 9\<rparr>)"
  using saved_execution_is_restored [OF demo_update demo_created_wf demo_trace demo_step_ids, of 9]
  by (simp add: demo_execution_def)

text \<open>C35: The PostgreSQL store implements the in-memory store: on a database that refuses nothing,
  every sequence of creations and updates gets the same answers, errors included, from both, and a
  read afterwards returns the same record, with its steps ordered by number.\<close>

theorem postgres_implements_memory_store:
  assumes "works e" "list_all (pg_storable \<circ> stored_record) ops"
  shows "case (all_writes mem_write ops [], all_writes (pg_write e) ops (new_service empty_database)) of
    ((rs, m), (rs', s)) \<Rightarrow> rs' = rs \<and> pg_get i (sv_db s) = map_option pg_norm (mem_get i m)"
  using writes_same_records [OF assms(1) empty_database_records assms(2)]
  by (auto simp: same_records_def split: prod.split)

theorem postgres_implements_memory_store_witness:
  "case (all_writes mem_write [Store_create demo_record, Store_create demo_record] [],
      all_writes (pg_write demo_pg) [Store_create demo_record, Store_create demo_record] (new_service empty_database)) of
    ((rs, m), (rs', s)) \<Rightarrow> rs' = rs \<and> pg_get ''e1'' (sv_db s) = map_option pg_norm (mem_get ''e1'' m)"
  by (rule postgres_implements_memory_store) (simp_all add: demo_pg_works demo_record_storable)

text \<open>C36: However executions are created, updated, finished and closed and events appended through
  the service, starting with an empty event table and with commits that succeed, the stored events of
  every execution are numbered one, two, three and so on without a gap, and later operations only add
  events at the end.\<close>

theorem stored_events_are_contiguous:
  assumes "db_events db = []" "\<And>n. pe_commit e n = None"
  shows "(let s = sv_run e ops (new_service db); t = sv_run e later s in
    map er_sequence (events_of i (sv_db s)) = [1..int (length (events_of i (sv_db s)))]
    \<and> take (length (events_of i (sv_db s))) (events_of i (sv_db t)) = events_of i (sv_db s))"
proof -
  have inv: "sv_inv (sv_run e ops (new_service db))"
    by (rule sv_run_inv [OF new_service_inv [OF assms(1)] assms(2)])
  obtain new where "events_of i (sv_db (sv_run e later (sv_run e ops (new_service db)))) =
      events_of i (sv_db (sv_run e ops (new_service db))) @ new"
    using sv_run_events [OF inv assms(2)] by blast
  with inv show ?thesis by (simp add: Let_def sv_inv_def contiguous_def)
qed

theorem stored_events_are_contiguous_witness:
  "(let s = sv_run demo_pg [Sv_append demo_event, Sv_append demo_event] (new_service empty_database) in
    map er_sequence (events_of ''e1'' (sv_db s)) = [1..int (length (events_of ''e1'' (sv_db s)))])"
  using stored_events_are_contiguous [of empty_database demo_pg "[Sv_append demo_event, Sv_append demo_event]" "[]" "''e1''"]
  by (simp add: Let_def empty_database_def demo_pg_def)

text \<open>C38: An append whose commit the database refuses is lost, and so is its number: when the next
  append to the execution is stored, the execution's events have a gap.\<close>

theorem refused_commit_leaves_a_gap:
  assumes "sv_inv s" "pe_parse_uuid e (ev_execution_id ev) = Inr i"
    "append_body e ev i s = (Inr (), s0)" "pe_commit e (sv_tick s0) = Some x"
    "sv_append_event e ev s = (r, s1)" "sv_append_event e ev s1 = (Inr (), t)"
  shows "r = Inl x \<and> sv_db s1 = sv_db s
    \<and> map er_sequence (events_of i (sv_db t)) \<noteq> [1..int (length (events_of i (sv_db t)))]"
  using refused_then_gap [OF assms] by (simp add: contiguous_def)

theorem refused_commit_leaves_a_gap_witness:
  "(let t = snd (sv_append_event demo_refusing demo_event demo_refused) in
    map er_sequence (events_of ''e1'' (sv_db t)) \<noteq> [1..int (length (events_of ''e1'' (sv_db t)))])"
proof -
  have inv: "sv_inv (new_service empty_database)"
    by (rule new_service_inv) (simp add: empty_database_def)
  have u: "pe_parse_uuid demo_refusing (ev_execution_id demo_event) = Inr ''e1''"
    by (simp add: demo_refusing_def demo_pg_def demo_event_def)
  show ?thesis
    using refused_commit_leaves_a_gap [OF inv u demo_refused_body(1,2) _ demo_refused_body(3),
        of "fst (sv_append_event demo_refusing demo_event (new_service empty_database))"]
    by (simp add: demo_refused_def)
qed

section \<open>The worker\<close>

text \<open>C39: Whatever the server, the agent, the signals and the cancellations do, and after every number
  of turns of the worker's loop, a message the worker acknowledged had been run by the agent before and
  then recorded as completed or put into the dead-letter stream: no task is dropped.\<close>

theorem acknowledged_tasks_were_settled:
  assumes "ww_log w = []" "ww_log (snd (worker_run n e v q x w)) = pre @ Wk_ack mid # post"
  shows "\<exists>before between done after intent. pre = before @ Wk_run mid intent # between @ done # after
    \<and> settled_task mid done"
proof -
  have "wp (worker_run n e v q x) (\<lambda>_. ordered) (\<lambda>_. ordered) w"
    by (rule worker_run_ordered) (simp add: ordered_def assms(1))
  then have "log_ok (pre @ Wk_ack mid # post)"
    unfolding assms(2) [symmetric] by (auto simp: wp_def ordered_def split: prod.splits sum.splits)
  then show ?thesis by (rule acknowledged_history)
qed

theorem acknowledged_tasks_were_settled_witness:
  "\<exists>before between done after intent. [Wk_run ''1-0'' ''i'', Wk_completed ''1-0'' ''e''] =
       before @ Wk_run ''1-0'' intent # between @ done # after \<and> settled_task ''1-0'' done"
  by (rule acknowledged_tasks_were_settled [OF idle_world_log(1), of 1 answering_env demo_valkey task_queue
        default_executor _ _ "[Wk_closed]"]) (simp only: demo_run_log append.simps)

text \<open>C40: A task the agent keeps failing is not retried for ever, and not early.  On a server that behaves as
  documented, let a new message be delivered and, while it is pending, claimed \<open>k\<close> times, at any times.
  Then the worker does exactly what \<open>retry_course\<close> says: each run is waited for with the delay of its
  attempt; a claim before the retry time, this delay after the failure, runs nothing; any later claim runs
  the task.  The runs never exceed \<open>max_attempts\<close>.  If they reach it, the task is marked failed, in the
  dead-letter stream and no longer pending; otherwise every claim was early or ran the task, which is
  marked as retrying and still pending.\<close>

theorem failing_task_ends_in_the_dead_letters:
  assumes "valkey_behaves v hash pend" "never_cancelled e" "always_fails e" "iso_reads e"
    "task_message msg mid eid intent" "hash (ww_server w) (state_key eid) ''attempt'' = None"
    "(wq_stream q, wq_group q, mid) \<in> pend (ww_server w)" "0 < tx_max_attempts x"
  shows "case deliver_and_claim k e v q x pend msg w of
      (Inl _, _) \<Rightarrow> False
    | (Inr _, t) \<Rightarrow> \<exists>d new. ww_log t = ww_log w @ new
        \<and> new = retry_course e x mid intent d 0 None (ww_tick w) (Suc k)
        \<and> int (runs_in mid new) \<le> tx_max_attempts x
        \<and> (if int (runs_in mid new) = tx_max_attempts x
           then hash (ww_server t) (state_key eid) ''status'' = Some ''failed''
             \<and> pend (ww_server t) = pend (ww_server w) - {(wq_stream q, wq_group q, mid)}
           else runs_in mid new + early_in mid new = Suc k
             \<and> hash (ww_server t) (state_key eid) ''status'' = Some ''retrying''
             \<and> pend (ww_server t) = pend (ww_server w))"
proof -
  have "wp (deliver_and_claim k e v q x pend msg)
      (\<lambda>_. follows_course e q x hash pend mid eid intent 0 None (Suc k) w) (\<lambda>_ _. False) w"
    by (rule failing_task_course [OF assms(1-3,5,4,8) _ assms(7)]) (simp add: assms(6))
  then obtain u t d where t: "deliver_and_claim k e v q x pend msg w = (Inr u, t)"
      "ww_log t = ww_log w @ retry_course e x mid intent d 0 None (ww_tick w) (Suc k)"
      "course_ended x q hash pend mid eid (pend (ww_server w))
         (int (runs_in mid (retry_course e x mid intent d 0 None (ww_tick w) (Suc k)))) (ww_server t)"
    by (auto simp: wp_case follows_course_def split: prod.splits sum.splits)
  show ?thesis
    unfolding t(1) prod.case sum.case
    by (intro exI conjI, rule t(2), rule refl)
       (use t(3) course_counts [OF assms(8), of mid e intent d None "ww_tick w" "Suc k"]
        in \<open>auto simp: course_ended_def simp del: retry_course.simps\<close>)
qed

theorem failing_task_ends_in_the_dead_letters_witness:
  "case deliver_and_claim 4 down_env demo_valkey task_queue default_executor (\<lambda>s. set (ds_pending s)) sample_task
      idle_world of
      (Inl _, _) \<Rightarrow> False
    | (Inr _, t) \<Rightarrow> ds_pending (ww_server t) = []
        \<and> ds_hash (ww_server t) (state_key ''e'') ''status'' = Some ''failed''
        \<and> (\<exists>d. ww_log t = [Wk_run ''1-0'' ''i'', Wk_wait 5, Wk_run ''1-0'' ''i'', Wk_wait 10,
            Wk_run ''1-0'' ''i'', Wk_wait 20, Wk_not_ready ''1-0'', Wk_run ''1-0'' ''i'',
            Wk_dead ''1-0'' d, Wk_ack ''1-0''])"
  using failing_task_ends_in_the_dead_letters [OF demo_valkey_behaves down_env_ok down_env_iso demo_task_message,
      of idle_world task_queue default_executor 4] idle_world_task
  by (auto simp: demo_course default_attempts runs_in_def ran_task_def split: prod.splits sum.splits)

section \<open>The clients and the interface of the agent service\<close>

text \<open>C15: A call of the inference client returns, and within its bounds: it sends the same request at
  least once and at most \<open>max_attempts\<close> times, again only after a transient failure; each wait is within
  the policy and shorter than what remained until the deadline; the result is what the last reply means,
  unless a wait was cancelled, and a reply it returns has the shape the planner reads.\<close>

theorem completion_within_attempts_and_deadline:
  assumes "policy_ok (ic_policy c)" "\<And>t. 0 \<le> he_uniform e t \<and> he_uniform e t \<le> 1"
  shows "(case client_complete e c model messages tools deadline w of (r, t) \<Rightarrow>
    \<exists>j waits. int j < rp_max_attempts (ic_policy c)
      \<and> hw_posts t = hw_posts w @ replicate (Suc j) (completion_request c model messages tools)
      \<and> list_all (\<lambda>m. transient c (he_post e (length (hw_posts w) + m))) [0..<j]
      \<and> hw_sleeps t = hw_sleeps w @ waits \<and> list_all (wait_ok e c deadline) waits
      \<and> (length waits = j \<and> r = completion_result c (he_post e (length (hw_posts w) + j))
           \<and> (case r of Inl _ \<Rightarrow> True | Inr d \<Rightarrow> \<exists>choice rest message.
                dget d ''choices'' = PList (PDict choice # rest) \<and> dget choice ''message'' = PDict message)
         \<or> length waits = Suc j \<and> r = raise CancelledError []))"
proof -
  obtain r t where run: "client_complete e c model messages tools deadline w = (r, t)" by fastforce
  with client_complete_ran [OF assms, of deadline model messages tools w]
  have "completion_ran e c deadline (completion_request c model messages tools)
      (nat (rp_max_attempts (ic_policy c))) w r t" by simp
  then obtain j waits where ran: "j < nat (rp_max_attempts (ic_policy c))
      \<and> hw_posts t = hw_posts w @ replicate (Suc j) (completion_request c model messages tools)
      \<and> (\<forall>m < j. transient c (he_post e (length (hw_posts w) + m)))
      \<and> hw_sleeps t = hw_sleeps w @ waits \<and> list_all (wait_ok e c deadline) waits
      \<and> (length waits = j \<and> r = completion_result c (he_post e (length (hw_posts w) + j))
           \<and> (transient c (he_post e (length (hw_posts w) + j)) \<and> deadline = None
                \<longrightarrow> Suc j = nat (rp_max_attempts (ic_policy c)))
         \<or> length waits = Suc j \<and> r = raise CancelledError [])"
    unfolding completion_ran_def Let_def by (elim exE)
  show ?thesis
    unfolding run prod.case using completion_result_shaped [of c "he_post e (length (hw_posts w) + j)"] ran
    by (intro exI [of _ j] exI [of _ waits]) (auto simp: list_all_iff simp del: replicate_Suc)
qed

theorem completion_within_attempts_and_deadline_witness:
  "(case client_complete flaky_http demo_inference ''m'' [] [] (Some 100) new_http_world of (r, t) \<Rightarrow>
    \<exists>j. int j < 3 \<and> length (hw_posts t) = Suc j \<and> length (hw_sleeps t) \<le> Suc j
      \<and> list_all (wait_ok flaky_http demo_inference (Some 100)) (hw_sleeps t))"
proof -
  obtain r t where run: "client_complete flaky_http demo_inference ''m'' [] [] (Some 100) new_http_world = (r, t)"
    by fastforce
  show ?thesis
    using completion_within_attempts_and_deadline [OF demo_inference_policy flaky_http_uniform,
      where model = "''m''" and messages = "[]" and tools = "[]" and deadline = "Some 100" and w = new_http_world]
    unfolding run prod.case demo_inference_attempts by fastforce
qed

text \<open>C31: An account works as its owner expects: after a sign-up, exactly the passwords with the same
  derived key log in, under every spelling of the address that normalises to the same name; the token of
  the login is accepted for one hour, naming the account, and refused after that; the address cannot be
  signed up again.\<close>

theorem signed_up_accounts_log_in:
  assumes "jwt_behaves j (as_algorithm s)" "CHR '':'' \<notin> set salt"
    "parse_credentials body = Some (email, password)" "map_of users (user_key email) = None"
    "parse_credentials body' = Some (email', p)" "user_key email' = user_key email"
  shows "(case snd (signup kdf j s now salt body users) of users' \<Rightarrow>
    api_status (fst (signup kdf j s now salt body users)) = 200
    \<and> fst (signup kdf j s now' salt' body' users') =
        agenyx_error_handler (Exc UserAlreadyExistsError ''A user with this email already exists.'')
    \<and> (if kdf p salt = kdf password salt
       then \<exists>token. login kdf j s t body' users' = token_answer token
         \<and> (if t \<le> u \<and> u < t + 3600
            then \<exists>claims. verify_token j s u token = Inr claims \<and> dget claims ''sub'' = PStr (user_key email)
            else \<exists>problem. verify_token j s u token = Inl problem)
       else login kdf j s t body' users' =
         agenyx_error_handler (Exc InvalidCredentialsError ''Invalid email or password.'')))"
proof -
  let ?users = "snd (signup kdf j s now salt body users)"
  have token: "\<exists>token. create_access_token j s t subject None = Inr token" for t subject
    using jwt_behaves_encodes [OF assms(1)] by (simp add: create_access_token_def)
  have signup: "signup kdf j s now salt body users = (give_token j s now (user_key email), ?users)"
      "map_of ?users (user_key email) \<noteq> None"
    using assms(3,4) by (auto simp: signup_def add_user_def map_of_dset)
  have login: "login kdf j s t body' ?users = (if kdf p salt = kdf password salt
      then give_token j s t (user_key email)
      else agenyx_error_handler (Exc InvalidCredentialsError ''Invalid email or password.''))"
    by (rule login_answer [OF assms(3) signup(1) assms(4,2,5,6)])
  obtain tok where tok: "create_access_token j s t (user_key email) None = Inr tok" using token by blast
  obtain tok0 where tok0: "create_access_token j s now (user_key email) None = Inr tok0" using token by blast
  have "\<exists>token. give_token j s t (user_key email) = token_answer token
      \<and> (if t \<le> u \<and> u < t + 3600
         then \<exists>claims. verify_token j s u token = Inr claims \<and> dget claims ''sub'' = PStr (user_key email)
         else \<exists>problem. verify_token j s u token = Inl problem)"
    using token_roundtrip [OF assms(1) tok, of u] tok by (auto simp: give_token_def)
  moreover have "api_status (fst (signup kdf j s now salt body users)) = 200"
    by (subst signup(1)) (simp add: give_token_def tok0 token_answer_def)
  ultimately show ?thesis
    using login signup_again [OF assms(5), of ?users kdf j s now' salt'] signup(2) assms(6) by simp
qed

theorem signed_up_accounts_log_in_witness:
  "(case snd (signup demo_kdf demo_jwt demo_auth 0 ''ab'' (credentials '' Ann@x.org'' ''secret-1'') []) of users \<Rightarrow>
    \<exists>token. login demo_kdf demo_jwt demo_auth 10 (credentials ''ann@x.org'' ''secret-1'') users = token_answer token
      \<and> (\<exists>claims. verify_token demo_jwt demo_auth 20 token = Inr claims \<and> dget claims ''sub'' = PStr ''ann@x.org''))"
proof -
  have parse: "parse_credentials (credentials '' Ann@x.org'' ''secret-1'') = Some ('' Ann@x.org'', ''secret-1'')"
      "parse_credentials (credentials ''ann@x.org'' ''secret-1'') = Some (''ann@x.org'', ''secret-1'')"
    by code_simp+
  have key: "user_key '' Ann@x.org'' = ''ann@x.org''" "user_key ''ann@x.org'' = ''ann@x.org''" by code_simp+
  show ?thesis
    using signed_up_accounts_log_in [OF demo_jwt_behaves _ parse(1) _ parse(2), of "''ab''" "[]" demo_kdf demo_auth 0 0 "''''" 10 20]
    by (simp add: key)
qed

text \<open>C33: What the runtime publishes is what the client reads: after any interleaving of publishing,
  closing and consuming, the frames of the events the consumer got, once the stream is closed and read to
  its end, are read back by a client of server-sent events as the published events, in order, whatever
  text the events carry.\<close>

theorem published_events_are_read_back:
  assumes "list_all (\<lambda>ev. newline \<notin> set (ev_type ev) \<and> plain_items (ev_data ev))
    (sr_published (do_move Close (stream_moves ms new_run)))"
  shows "(let r = do_move Close (stream_moves ms new_run);
      r' = stream_moves (replicate (length (es_queue (sr_stream r))) Consume) r in
    read_sse (concat (event_stream_to_sse (sr_got r'))) = map (\<lambda>ev. (ev_type ev, event_text ev)) (sr_published r))"
proof -
  let ?r = "do_move Close (stream_moves ms new_run)"
  have "run_inv ?r" by (intro do_move_inv stream_moves_inv new_run_inv)
  moreover have "es_closed (sr_stream ?r)" by (simp add: stream_close_def)
  ultimately show ?thesis using consume_all [of ?r] sse_roundtrip [OF assms] by (simp add: Let_def)
qed

theorem published_events_are_read_back_witness:
  "(let r = do_move Close (stream_moves [Publish started_event, Consume, Publish completed_event] new_run);
      r' = stream_moves (replicate (length (es_queue (sr_stream r))) Consume) r in
    read_sse (concat (event_stream_to_sse (sr_got r'))) =
      map (\<lambda>ev. (ev_type ev, event_text ev)) [started_event, completed_event])"
proof -
  have "sr_published (do_move Close (stream_moves [Publish started_event, Consume, Publish completed_event] new_run)) =
      [started_event, completed_event]"
    by (simp add: stream_moves_def new_run_def new_stream_def stream_publish_def stream_next_def)
  with published_events_are_read_back [of "[Publish started_event, Consume, Publish completed_event]"]
  show ?thesis using demo_events_plain by (simp add: Let_def)
qed

section \<open>The worker and the agent service together\<close>

text \<open>C3: What the worker records of a task is what the agent did.  Let every request of the worker be
  answered by some run of the agent service, whatever the agent's environment, or fail on the way.  On a
  server that behaves as documented one execution of a task never raises, and either it marks the task as
  completed and acknowledges it, and then a run returned for the task's intent, its execution is in a
  terminal state with its stream closed and its result retained, and the recorded answer and number of
  steps are those of this run; or it counts a failed attempt, which is put off or, the last one, put into
  the dead-letter stream.\<close>

theorem completed_tasks_are_finished_runs:
  assumes "valkey_behaves v hash pend" "never_cancelled e" "faithful_wire wire" "answered_by rt wire reason e intent"
    "task_message msg mid eid intent" "counted (hash (ww_server w) (state_key eid) ''attempt'') = a"
  shows "case executor_execute e v q x msg w of
      (Inl _, _) \<Rightarrow> False
    | (Inr _, t) \<Rightarrow> recorded_run rt q hash pend mid eid intent w t \<or> delivered e q x hash pend mid eid intent a w t"
  using answered_execute [OF assms, of q x] by (simp add: wp_def)

theorem completed_tasks_are_finished_runs_witness:
  "case executor_execute served_env demo_valkey task_queue default_executor sample_task idle_world of
      (Inl _, _) \<Rightarrow> False
    | (Inr _, t) \<Rightarrow>
        recorded_run demo_runtime task_queue ds_hash (\<lambda>s. set (ds_pending s)) ''1-0'' ''e'' ''i'' idle_world t
        \<or> delivered served_env task_queue default_executor ds_hash (\<lambda>s. set (ds_pending s)) ''1-0'' ''e'' ''i'' 0 idle_world t"
  by (rule completed_tasks_are_finished_runs [OF demo_valkey_behaves served_env_ok demo_task_message])
     (simp add: idle_world_def)

end
